(* ===== verification/JsCore.thy ===== *)
theory JsCore
  imports Main "HOL-Library.Word"
begin

text \<open>
  What the modules of \<^verbatim>\<open>src/client/lcd/swagger-ui/swagger-ui.js\<close> use of the JavaScript language:
  numbers with an integral value and their 32-bit operators, strings as sequences of 16-bit code
  units, thrown errors as values of a sum type, and the generic lemmas on lists, words and bits that
  the component theories share.
  \<^item> A JavaScript number is an \<open>int\<close> where the source only computes integral values;
    \<^verbatim>\<open>ToInt32\<close> and \<^verbatim>\<open>ToUint32\<close> write the wrap-around out, and every bitwise operator is defined
    through them, as in the language specification.
  \<^item> A string is a \<open>16 word list\<close>; \<^verbatim>\<open>String.fromCharCode\<close> reduces modulo \<open>2^16\<close>.
  \<^item> A byte of a typed array is an \<open>8 word\<close>: a store reduces modulo \<open>2^8\<close>.
  \<^item> A function that may throw returns \<open>jserr + 'a\<close>.
\<close>

unbundle bit_operations_syntax

named_theorems js_bits \<open>equations that turn the bitwise operators on small numbers into arithmetic\<close>
named_theorems js_ok \<open>conditions under which an operation does not throw\<close>

section \<open>Numbers\<close>

definition toInt32 :: "int \<Rightarrow> int" where
  "toInt32 x = signed_take_bit 31 x"

definition toUint32 :: "int \<Rightarrow> int" where
  "toUint32 x = take_bit 32 x"

text \<open>\<^verbatim>\<open>x & y\<close>, \<^verbatim>\<open>x | y\<close>, \<^verbatim>\<open>x << n\<close>, \<^verbatim>\<open>x >> n\<close> and \<^verbatim>\<open>x >>> n\<close>.\<close>

definition js_and :: "int \<Rightarrow> int \<Rightarrow> int" where
  "js_and x y = toInt32 x AND toInt32 y"

definition js_or :: "int \<Rightarrow> int \<Rightarrow> int" where
  "js_or x y = toInt32 x OR toInt32 y"

definition js_shl :: "int \<Rightarrow> nat \<Rightarrow> int" where
  "js_shl x n = toInt32 (push_bit (n mod 32) (toInt32 x))"

definition js_shr :: "int \<Rightarrow> nat \<Rightarrow> int" where
  "js_shr x n = drop_bit (n mod 32) (toInt32 x)"

definition js_ushr :: "int \<Rightarrow> nat \<Rightarrow> int" where
  "js_ushr x n = drop_bit (n mod 32) (toUint32 x)"

text \<open>
  The integral part of \<^verbatim>\<open>v / m\<close>, which is what a bitwise operator reads of a quotient: JavaScript
  truncates towards zero.
\<close>

definition js_quot :: "int \<Rightarrow> int \<Rightarrow> int" where
  "js_quot v m = sgn v * (\<bar>v\<bar> div m)"

section \<open>Errors\<close>

datatype jserr = RangeError string | TypeError string | PlainError string

fun rbind :: "'e + 'a \<Rightarrow> ('a \<Rightarrow> 'e + 'b) \<Rightarrow> 'e + 'b" where
  "rbind (Inl e) f = Inl e"
| "rbind (Inr x) f = f x"

text \<open>\<^verbatim>\<open>if (c) throw e\<close> as a guard in front of the rest of the body.\<close>

definition throw_if :: "bool \<Rightarrow> 'e \<Rightarrow> 'e + unit" where
  "throw_if c e = (if c then Inl e else Inr ())"

section \<open>Strings and bytes\<close>

type_synonym jsstr = "16 word list"
type_synonym byte = "8 word"

text \<open>A string literal of ASCII characters.\<close>

definition js :: "string \<Rightarrow> jsstr" where
  "js s = map of_char s"

definition fromCharCode :: "int \<Rightarrow> 16 word" where
  "fromCharCode c = word_of_int c"

text \<open>
  \<^verbatim>\<open>s.charCodeAt(i)\<close>. Out of range it is \<^verbatim>\<open>NaN\<close>, written \<open>-1\<close> here: the sources only compare the
  result with \<^verbatim>\<open>===\<close>, \<^verbatim>\<open>!==\<close> and with ranges of non-negative numbers, for which the two agree.
\<close>

definition charCodeAt :: "jsstr \<Rightarrow> int \<Rightarrow> int" where
  "charCodeAt s i = (if 0 \<le> i \<and> i < int (length s) then uint (s ! nat i) else -1)"

text \<open>\<^verbatim>\<open>s.slice(a, b)\<close> for \<open>0 \<le> a\<close> and \<open>0 \<le> b\<close>.\<close>

definition str_slice :: "'a list \<Rightarrow> nat \<Rightarrow> nat \<Rightarrow> 'a list" where
  "str_slice s a b = take (b - a) (drop a s)"

text \<open>\<^verbatim>\<open>c.toLowerCase()\<close> and \<^verbatim>\<open>c.toUpperCase()\<close> on the ASCII letters.\<close>

definition lower_char :: "16 word \<Rightarrow> 16 word" where
  "lower_char c = (if 65 \<le> c \<and> c \<le> 90 then c + 32 else c)"

definition toLowerCase :: "jsstr \<Rightarrow> jsstr" where
  "toLowerCase s = map lower_char s"

definition upper_char :: "16 word \<Rightarrow> 16 word" where
  "upper_char c = (if 97 \<le> c \<and> c \<le> 122 then c - 32 else c)"

definition toUpperCase :: "jsstr \<Rightarrow> jsstr" where
  "toUpperCase s = map upper_char s"

text \<open>White space and line terminators, as \<^verbatim>\<open>trim\<close>, \<^verbatim>\<open>parseInt\<close> and \<^verbatim>\<open>\s\<close> know them.\<close>

definition is_space :: "16 word \<Rightarrow> bool" where
  "is_space c \<longleftrightarrow> 9 \<le> c \<and> c \<le> 13 \<or> c = 32 \<or> c = 160 \<or> c = 0x1680 \<or> 0x2000 \<le> c \<and> c \<le> 0x200A
     \<or> c = 0x2028 \<or> c = 0x2029 \<or> c = 0x202F \<or> c = 0x205F \<or> c = 0x3000 \<or> c = 0xFEFF"

definition trim :: "jsstr \<Rightarrow> jsstr" where
  "trim s = rev (dropWhile is_space (rev (dropWhile is_space s)))"

text \<open>
  \<^verbatim>\<open>parseInt(s, radix)\<close>: leading white space, a sign, \<^verbatim>\<open>0x\<close> for radix 16, and the longest sequence of
  digits; \<open>None\<close> is \<^verbatim>\<open>NaN\<close>. The value is exact; a number beyond \<open>2^53\<close> is rounded by the caller.
\<close>

definition digit_value :: "16 word \<Rightarrow> int" where
  "digit_value c =
     (if 48 \<le> c \<and> c \<le> 57 then uint c - 48
      else if 97 \<le> c \<and> c \<le> 122 then uint c - 87
      else if 65 \<le> c \<and> c \<le> 90 then uint c - 55
      else 36)"

definition digits_value :: "int \<Rightarrow> jsstr \<Rightarrow> int" where
  "digits_value radix s = foldl (\<lambda>v c. v * radix + digit_value c) 0 s"

definition parseInt :: "jsstr \<Rightarrow> int \<Rightarrow> int option" where
  "parseInt s radix =
     (let s = dropWhile is_space s;
          sign = (if s \<noteq> [] \<and> hd s = 45 then -1 else 1);
          s = (if s \<noteq> [] \<and> (hd s = 45 \<or> hd s = 43) then tl s else s);
          s = (if radix = 16 \<and> length s \<ge> 2 \<and> s ! 0 = 48 \<and> (s ! 1 = 120 \<or> s ! 1 = 88) then drop 2 s else s);
          ds = takeWhile (\<lambda>c. digit_value c < radix) s
      in if ds = [] then None else Some (sign * digits_value radix ds))"

text \<open>
  An optional argument that is a number or a string. A string in the place of a number is either empty,
  hence 0, or does not spell a number.
\<close>

datatype jsarg = Undefined | Num int | Str jsstr

fun isFinite :: "jsarg \<Rightarrow> bool" where
  "isFinite Undefined = False"
| "isFinite (Num n) = True"
| "isFinite (Str s) = (s = [])"

text \<open>The number an argument is converted to; \<open>None\<close> is \<^verbatim>\<open>NaN\<close>, which every comparison rejects.\<close>

fun toNumber :: "jsarg \<Rightarrow> int option" where
  "toNumber Undefined = None"
| "toNumber (Num n) = Some n"
| "toNumber (Str s) = (if s = [] then Some 0 else None)"

definition num_lt :: "int option \<Rightarrow> int option \<Rightarrow> bool" where
  "num_lt x y = (case (x, y) of (Some a, Some b) \<Rightarrow> a < b | _ \<Rightarrow> False)"

definition num_le :: "int option \<Rightarrow> int option \<Rightarrow> bool" where
  "num_le x y = (case (x, y) of (Some a, Some b) \<Rightarrow> a \<le> b | _ \<Rightarrow> False)"

text \<open>\<^verbatim>\<open>x | 0\<close> and \<^verbatim>\<open>x >>> 0\<close> of a number that may be \<^verbatim>\<open>NaN\<close>.\<close>

definition int32_of :: "int option \<Rightarrow> int" where
  "int32_of x = (case x of None \<Rightarrow> 0 | Some n \<Rightarrow> toInt32 n)"

definition uint32_of :: "int option \<Rightarrow> int" where
  "uint32_of x = (case x of None \<Rightarrow> 0 | Some n \<Rightarrow> toUint32 n)"

section \<open>Lemmas\<close>

subsection \<open>Results\<close>

lemma rbind_Inr_iff [simp]:
  "rbind m f = Inr y \<longleftrightarrow> (\<exists>x. m = Inr x \<and> f x = Inr y)"
  by (cases m) auto

lemma rbind_Inl_iff:
  "rbind m f = Inl e \<longleftrightarrow> m = Inl e \<or> (\<exists>x. m = Inr x \<and> f x = Inl e)"
  by (cases m) auto

lemma rbind_assoc: "rbind (rbind m f) g = rbind m (\<lambda>x. rbind (f x) g)"
  by (cases m) auto

lemma rbind_cong [fundef_cong]:
  "m = m' \<Longrightarrow> (\<And>x. m' = Inr x \<Longrightarrow> f x = f' x) \<Longrightarrow> rbind m f = rbind m' f'"
  by (cases m') auto

lemma throw_if_Inr_iff [simp]: "throw_if c e = Inr u \<longleftrightarrow> \<not> c"
  by (simp add: throw_if_def)

lemma throw_if_Inl_iff [simp]: "throw_if c e = Inl e' \<longleftrightarrow> c \<and> e' = e"
  by (auto simp: throw_if_def)

lemma throw_if_False [simp]: "throw_if False e = Inr ()"
  by (simp add: throw_if_def)

lemma throw_if_True [simp]: "throw_if True e = Inl e"
  by (simp add: throw_if_def)

subsection \<open>Numbers of 32 bits\<close>

lemma toInt32_small [js_bits]: "- (2 ^ 31) \<le> x \<Longrightarrow> x < 2 ^ 31 \<Longrightarrow> toInt32 x = x"
  unfolding toInt32_def by (simp add: signed_take_bit_int_eq_self)

lemma toInt32_nonneg: "0 \<le> x \<Longrightarrow> x < 2 ^ 31 \<Longrightarrow> toInt32 x = x"
  by (rule toInt32_small) (auto intro: order_trans [of _ 0])

lemma toUint32_small [js_bits]: "0 \<le> x \<Longrightarrow> x < 2 ^ 32 \<Longrightarrow> toUint32 x = x"
  unfolding toUint32_def by (simp add: take_bit_int_eq_self)

lemma toInt32_range: "- (2 ^ 31) \<le> toInt32 x \<and> toInt32 x < 2 ^ 31"
  unfolding toInt32_def using signed_take_bit_int_greater_eq_minus_exp [of 31 x]
    signed_take_bit_int_less_exp [of 31 x] by simp

lemma toUint32_range: "0 \<le> toUint32 x \<and> toUint32 x < 2 ^ 32"
  unfolding toUint32_def using take_bit_int_less_exp [of 32 x] by simp

lemma toInt32_take_bit: "n \<le> 32 \<Longrightarrow> take_bit n (toInt32 x) = take_bit n x"
  unfolding toInt32_def by (auto intro!: bit_eqI simp: bit_simps)

lemma toUint32_take_bit: "n \<le> 32 \<Longrightarrow> take_bit n (toUint32 x) = take_bit n x"
  unfolding toUint32_def by (simp add: min_absorb1)

text \<open>A mask of low bits is a remainder.\<close>

lemma int_and_mask: "(x::int) AND (2 ^ n - 1) = x mod 2 ^ n"
  by (metis mask_eq_exp_minus_1 take_bit_eq_mask take_bit_eq_mod)

lemma js_and_mask:
  assumes "n \<le> 31"
  shows "js_and x (2 ^ n - 1) = x mod 2 ^ n"
proof -
  have lt: "(2::int) ^ n \<le> 2 ^ 31"
    using assms by (intro power_increasing) auto
  have "toInt32 (2 ^ n - 1) = 2 ^ n - 1"
  proof (rule toInt32_small)
    have "(0::int) < 2 ^ n" by simp
    then have "(0::int) \<le> 2 ^ n - 1" by linarith
    then show "- (2 ^ 31) \<le> (2::int) ^ n - 1" by (rule order_trans [rotated]) simp
    show "(2::int) ^ n - 1 < 2 ^ 31" using lt by linarith
  qed
  then have "js_and x (2 ^ n - 1) = take_bit n (toInt32 x)"
    by (simp add: js_and_def int_and_mask take_bit_eq_mod)
  also have "\<dots> = x mod 2 ^ n"
    using assms toInt32_take_bit [of n x] by (simp add: take_bit_eq_mod)
  finally show ?thesis .
qed

lemma js_and_255 [js_bits]: "js_and x 255 = x mod 256"
  using js_and_mask [of 8 x] by simp

lemma js_and_127 [js_bits]: "js_and x 127 = x mod 128"
  using js_and_mask [of 7 x] by simp

lemma js_and_63 [js_bits]: "js_and x 63 = x mod 64"
  using js_and_mask [of 6 x] by simp

lemma js_and_31 [js_bits]: "js_and x 31 = x mod 32"
  using js_and_mask [of 5 x] by simp

lemma js_and_15 [js_bits]: "js_and x 15 = x mod 16"
  using js_and_mask [of 4 x] by simp

lemma js_and_1023 [js_bits]: "js_and x 1023 = x mod 1024"
  using js_and_mask [of 10 x] by simp

lemma js_shr_small [js_bits]:
  "- (2 ^ 31) \<le> x \<Longrightarrow> x < 2 ^ 31 \<Longrightarrow> n < 32 \<Longrightarrow> js_shr x n = x div 2 ^ n"
  by (simp add: js_shr_def toInt32_small drop_bit_eq_div)

lemma js_ushr_small [js_bits]:
  "0 \<le> x \<Longrightarrow> x < 2 ^ 32 \<Longrightarrow> n < 32 \<Longrightarrow> js_ushr x n = x div 2 ^ n"
  by (simp add: js_ushr_def toUint32_small drop_bit_eq_div)

lemma js_shl_small:
  assumes "0 \<le> x" and "x * 2 ^ n < 2 ^ 31" and "n < 32"
  shows "js_shl x n = x * 2 ^ n"
proof -
  have "x * 1 \<le> x * 2 ^ n"
    using assms(1) by (intro mult_left_mono) auto
  then have "x < 2 ^ 31" using assms(2) by simp
  moreover have "- (2 ^ 31) \<le> x * 2 ^ n"
    using assms(1) by (simp add: order_trans [of _ 0])
  ultimately show ?thesis
    using assms by (simp add: js_shl_def toInt32_small push_bit_eq_mult)
qed

text \<open>An \<open>OR\<close> whose operands have no bit in common is a sum.\<close>

lemma int_or_disjoint:
  assumes "0 \<le> a" and "a < 2 ^ n"
  shows "(b * 2 ^ n) OR a = b * 2 ^ n + (a::int)"
proof -
  have "bit a k \<Longrightarrow> k < n" for k
    using assms by (metis bit_take_bit_iff take_bit_int_eq_self)
  then have "push_bit n b AND a = 0"
    by (intro bit_eqI) (fastforce simp: bit_simps)
  then have "push_bit n b OR a = push_bit n b + a"
    using plus_and_or [of "push_bit n b" a] by simp
  then show ?thesis by (simp add: push_bit_eq_mult)
qed

lemma js_or_disjoint:
  assumes "0 \<le> a" and "a < 2 ^ n" and "0 \<le> b" and "b * 2 ^ n < 2 ^ 31" and "n \<le> 31"
  shows "js_or (b * 2 ^ n) a = b * 2 ^ n + a"
proof -
  have "(2::int) ^ n \<le> 2 ^ 31"
    using assms(5) by (intro power_increasing) auto
  then have "toInt32 a = a"
    using assms(1,2) by (intro toInt32_small) auto
  moreover have "toInt32 (b * 2 ^ n) = b * 2 ^ n"
    using assms(3,4) by (intro toInt32_small) (auto intro: order_trans [of _ 0])
  ultimately show ?thesis
    using int_or_disjoint [OF assms(1,2)] by (simp add: js_or_def)
qed

lemma js_or_commute: "js_or x y = js_or y x"
  by (simp add: js_or_def or.commute)

lemma js_or_assoc: "js_or (js_or x y) z = js_or x (js_or y z)"
  unfolding js_or_def toInt32_def by (rule bit_eqI) (auto simp: bit_simps)

lemma js_or_left_commute: "js_or x (js_or y z) = js_or y (js_or x z)"
  by (metis js_or_assoc js_or_commute)

lemmas js_or_ac = js_or_assoc js_or_commute js_or_left_commute

lemma js_quot_nonneg [simp]: "0 \<le> v \<Longrightarrow> js_quot v m = v div m"
  by (cases "v = 0") (auto simp: js_quot_def)

lemma int_join_div_mod:
  assumes "0 \<le> b" and "b < (m::int)"
  shows "(a * m + b) div m = a" and "(a * m + b) mod m = b"
  using assms by (simp_all add: mod_pos_pos_trivial div_pos_pos_trivial)

lemma int_digits64:
  "(x::int) div 4096 * 4096 + x div 64 mod 64 * 64 + x mod 64 = x"
  "(x::int) div 262144 * 262144 + x div 4096 mod 64 * 4096 + x div 64 mod 64 * 64 + x mod 64 = x"
proof -
  have "x div 64 div 64 = x div 4096" and "x div 4096 div 64 = x div 262144"
    using zdiv_zmult2_eq [of 64 x 64] zdiv_zmult2_eq [of 64 x 4096] by simp_all
  then show "x div 4096 * 4096 + x div 64 mod 64 * 64 + x mod 64 = x"
    and "x div 262144 * 262144 + x div 4096 mod 64 * 4096 + x div 64 mod 64 * 64 + x mod 64 = x"
    using div_mult_mod_eq [of x 64] div_mult_mod_eq [of "x div 64" 64]
      div_mult_mod_eq [of "x div 4096" 64] by linarith+
qed

subsection \<open>Words\<close>

lemma uint8_range [simp]: "0 \<le> uint (b :: byte)" "uint (b :: byte) < 256"
  using uint_lt2p [of b] by auto

lemma uint16_range [simp]: "0 \<le> uint (c :: 16 word)" "uint (c :: 16 word) < 65536"
  using uint_lt2p [of c] by auto

lemma uint_word_of_int8 [simp]: "0 \<le> x \<Longrightarrow> x < 256 \<Longrightarrow> uint (word_of_int x :: byte) = x"
  by (simp add: uint_word_of_int)

lemma uint_word_of_int16 [simp]: "0 \<le> x \<Longrightarrow> x < 65536 \<Longrightarrow> uint (word_of_int x :: 16 word) = x"
  by (simp add: uint_word_of_int)

lemma word_of_int8_mod: "(word_of_int (x mod 256) :: byte) = word_of_int x"
  by (simp add: word_of_int_eq_iff take_bit_eq_mod)

lemma uint_word_of_int8_mod: "uint (word_of_int x :: byte) = x mod 256"
  by (simp add: uint_word_of_int)

subsection \<open>Lists\<close>

lemma str_slice_all [simp]: "length s \<le> b \<Longrightarrow> str_slice s 0 b = s"
  by (simp add: str_slice_def)

lemma length_str_slice [simp]: "length (str_slice s a b) = min (b - a) (length s - a)"
  by (simp add: str_slice_def)

lemma str_slice_append_left [simp]: "b \<le> length s \<Longrightarrow> str_slice (s @ t) a b = str_slice s a b"
  by (simp add: str_slice_def)

lemma str_slice_split:
  assumes "i \<le> j" and "j \<le> k"
  shows "str_slice u i k = str_slice u i j @ str_slice u j k"
proof -
  have "take (k - i) (drop i u) = take (j - i) (drop i u) @ take (k - j) (drop (j - i) (drop i u))"
    using assms take_add [of "j - i" "k - j" "drop i u"] by simp
  then show ?thesis using assms by (simp add: str_slice_def)
qed

subsection \<open>String literals\<close>

lemma of_char16_eq_iff [simp]: "(of_char c :: 16 word) = of_char d \<longleftrightarrow> c = d"
proof
  assume "(of_char c :: 16 word) = of_char d"
  then have "(of_nat (of_char c) :: 16 word) = of_nat (of_char d)" by (simp add: of_nat_of_char)
  moreover have "(of_char c :: nat) < 256" "(of_char d :: nat) < 256"
    by (rule nat_of_char_less_256)+
  ultimately have "(of_char c :: nat) = of_char d"
    by (simp add: word_of_nat_eq_iff take_bit_nat_eq_self)
  then show "c = d" by simp
qed simp

lemma js_eq_iff [simp]: "js s = js t \<longleftrightarrow> s = t"
  unfolding js_def by (rule inj_map_eq_map) (auto intro: injI)

lemma js_Nil_iff [simp]: "js s = [] \<longleftrightarrow> s = []" "[] = js s \<longleftrightarrow> s = []"
  by (auto simp: js_def)

end
