(* ===== verification/BufferCodec.thy ===== *)
theory BufferCodec
  imports JsCore
begin

text \<open>
  The string codecs of the Buffer module (\<^verbatim>\<open>swagger-ui.js\<close>, lines 11842 to 13236): a string to its
  bytes (\<^verbatim>\<open>utf8ToBytes\<close>, \<^verbatim>\<open>asciiToBytes\<close>, \<^verbatim>\<open>utf16leToBytes\<close>) and bytes back to a string
  (\<^verbatim>\<open>utf8Slice\<close>, \<^verbatim>\<open>asciiSlice\<close>, \<^verbatim>\<open>latin1Slice\<close>, \<^verbatim>\<open>hexSlice\<close>, \<^verbatim>\<open>utf16leSlice\<close>). The lemmas show
  what the encoder writes for a string with any surrogates in it, that the decoder reads it back, and
  the round trips of the other encodings. An abstract specification of the UTF-8 pair, \<open>scalars\<close>,
  says which Unicode scalar values a string of code units stands for.
\<close>

section \<open>Encoding\<close>

text \<open>The optional limit \<^verbatim>\<open>units\<close>: \<open>None\<close> is \<^verbatim>\<open>Infinity\<close>, and \<^verbatim>\<open>units || Infinity\<close> maps 0 to it.\<close>

definition units_or_Infinity :: "int option \<Rightarrow> int option" where
  "units_or_Infinity units = (if units = Some 0 then None else units)"

definition units_minus :: "int option \<Rightarrow> int \<Rightarrow> int option" where
  "units_minus units k = map_option (\<lambda>n. n - k) units"

definition units_left :: "int option \<Rightarrow> bool" where
  "units_left units = (case units of None \<Rightarrow> True | Some n \<Rightarrow> n > -1)"

text \<open>
  The last part of the loop body: the bytes of one code point. \<open>Inr None\<close> is the \<^verbatim>\<open>break\<close> taken when
  the limit is passed.
\<close>

definition utf8_push :: "int \<Rightarrow> int option \<Rightarrow> int list \<Rightarrow> jserr + (int option \<times> int list) option" where
  "utf8_push codePoint units bytes =
     (if codePoint < 128 then
        (let units = units_minus units 1 in
         if \<not> units_left units then Inr None else Inr (Some (units, bytes @ [codePoint])))
      else if codePoint < 2048 then
        (let units = units_minus units 2 in
         if \<not> units_left units then Inr None
         else Inr (Some (units, bytes @ [js_or (js_shr codePoint 6) 192, js_or (js_and codePoint 63) 128])))
      else if codePoint < 65536 then
        (let units = units_minus units 3 in
         if \<not> units_left units then Inr None
         else Inr (Some (units, bytes @ [js_or (js_shr codePoint 12) 224,
           js_or (js_and (js_shr codePoint 6) 63) 128, js_or (js_and codePoint 63) 128])))
      else if codePoint < 1114112 then
        (let units = units_minus units 4 in
         if \<not> units_left units then Inr None
         else Inr (Some (units, bytes @ [js_or (js_shr codePoint 18) 240,
           js_or (js_and (js_shr codePoint 12) 63) 128, js_or (js_and (js_shr codePoint 6) 63) 128,
           js_or (js_and codePoint 63) 128])))
      else Inl (PlainError ''Invalid code point''))"

fun utf8_loop :: "jsstr \<Rightarrow> int option \<Rightarrow> int option \<Rightarrow> int list \<Rightarrow> jserr + int list" where
  "utf8_loop [] leadSurrogate units bytes = Inr bytes"
| "utf8_loop (c # rest) leadSurrogate units bytes =
     (let codePoint = uint c;
          units3 = units_minus units 3;
          bytes3 = (if units_left units3 then bytes @ [239, 191, 189] else bytes);
          emit = (\<lambda>cp u bs. case utf8_push cp u bs of
                    Inl e \<Rightarrow> Inl e
                  | Inr None \<Rightarrow> Inr bs
                  | Inr (Some (u', bs')) \<Rightarrow> utf8_loop rest None u' bs')
      in if codePoint > 55295 \<and> codePoint < 57344 then
           (case leadSurrogate of
              None \<Rightarrow>
                if codePoint > 56319 then utf8_loop rest None units3 bytes3
                else if rest = [] then utf8_loop rest None units3 bytes3
                else utf8_loop rest (Some codePoint) units bytes
            | Some lead \<Rightarrow>
                if codePoint < 56320 then utf8_loop rest (Some codePoint) units3 bytes3
                else emit (js_or (js_shl (lead - 55296) 10) (codePoint - 56320) + 65536) units bytes)
         else (case leadSurrogate of
                 None \<Rightarrow> emit codePoint units bytes
               | Some _ \<Rightarrow> emit codePoint units3 bytes3))"

definition utf8ToBytes :: "jsstr \<Rightarrow> int option \<Rightarrow> jserr + int list" where
  "utf8ToBytes string units = utf8_loop string None (units_or_Infinity units) []"

definition asciiToBytes :: "jsstr \<Rightarrow> int list" where
  "asciiToBytes str = map (\<lambda>c. js_and (uint c) 255) str"

fun utf16leToBytes :: "jsstr \<Rightarrow> int \<Rightarrow> int list" where
  "utf16leToBytes [] units = []"
| "utf16leToBytes (c # rest) units =
     (if units - 2 < 0 then []
      else (uint c mod 256) # js_shr (uint c) 8 # utf16leToBytes rest (units - 2))"

section \<open>Decoding\<close>

definition utf8_bytesPerSequence :: "int \<Rightarrow> nat" where
  "utf8_bytesPerSequence firstByte =
     (if firstByte > 239 then 4 else if firstByte > 223 then 3 else if firstByte > 191 then 2 else 1)"

text \<open>The \<^verbatim>\<open>switch\<close> of \<^verbatim>\<open>utf8Slice\<close>: the code point of the sequence of length \<open>n\<close> at \<open>i\<close>, if valid.\<close>

definition utf8_codePoint :: "byte list \<Rightarrow> nat \<Rightarrow> nat \<Rightarrow> int option" where
  "utf8_codePoint buf i n =
     (let firstByte = uint (buf ! i) in
      if n = 1 then (if firstByte < 128 then Some firstByte else None)
      else if n = 2 then
        (let secondByte = uint (buf ! (i + 1)) in
         if js_and secondByte 192 = 128 then
           (let temp = js_or (js_shl (js_and firstByte 31) 6) (js_and secondByte 63) in
            if temp > 127 then Some temp else None)
         else None)
      else if n = 3 then
        (let secondByte = uint (buf ! (i + 1)); thirdByte = uint (buf ! (i + 2)) in
         if js_and secondByte 192 = 128 \<and> js_and thirdByte 192 = 128 then
           (let temp = js_or (js_or (js_shl (js_and firstByte 15) 12) (js_shl (js_and secondByte 63) 6))
                         (js_and thirdByte 63) in
            if temp > 2047 \<and> (temp < 55296 \<or> temp > 57343) then Some temp else None)
         else None)
      else
        (let secondByte = uint (buf ! (i + 1)); thirdByte = uint (buf ! (i + 2));
             fourthByte = uint (buf ! (i + 3)) in
         if js_and secondByte 192 = 128 \<and> js_and thirdByte 192 = 128 \<and> js_and fourthByte 192 = 128 then
           (let temp = js_or (js_or (js_or (js_shl (js_and firstByte 15) 18) (js_shl (js_and secondByte 63) 12))
                         (js_shl (js_and thirdByte 63) 6)) (js_and fourthByte 63) in
            if temp > 65535 \<and> temp < 1114112 then Some temp else None)
         else None))"

text \<open>One turn of the \<^verbatim>\<open>while\<close> loop: the code units pushed on \<^verbatim>\<open>res\<close> and the bytes consumed.\<close>

definition utf8_step :: "byte list \<Rightarrow> nat \<Rightarrow> nat \<Rightarrow> int list \<times> nat" where
  "utf8_step buf i end' =
     (let n = utf8_bytesPerSequence (uint (buf ! i));
          codePoint = (if i + n \<le> end' then utf8_codePoint buf i n else None)
      in case codePoint of
           None \<Rightarrow> ([65533], 1)
         | Some cp \<Rightarrow>
             if cp > 65535 then
               (let cp = cp - 65536 in
                ([js_or (js_and (js_ushr cp 10) 1023) 55296, js_or 56320 (js_and cp 1023)], n))
             else ([cp], n))"

lemma utf8_step_progress: "0 < snd (utf8_step buf i end')"
  by (auto simp: utf8_step_def utf8_bytesPerSequence_def Let_def split: option.splits)

function utf8_slice_loop :: "byte list \<Rightarrow> nat \<Rightarrow> nat \<Rightarrow> int list" where
  "utf8_slice_loop buf i end' =
     (if i < end' then
        (case utf8_step buf i end' of (us, n) \<Rightarrow> us @ utf8_slice_loop buf (i + n) end')
      else [])"
  by pat_completeness auto
termination
  using utf8_step_progress
  by (relation "measure (\<lambda>(buf, i, end'). end' - i)") (simp_all, metis snd_conv diff_less_mono2 less_add_same_cancel1)

declare utf8_slice_loop.simps [simp del]

definition MAX_ARGUMENTS_LENGTH :: nat where
  "MAX_ARGUMENTS_LENGTH = 4096"

text \<open>\<^verbatim>\<open>String.fromCharCode.apply\<close> on chunks of at most \<^verbatim>\<open>MAX_ARGUMENTS_LENGTH\<close> code units.\<close>

function decode_chunks :: "int list \<Rightarrow> nat \<Rightarrow> jsstr \<Rightarrow> jsstr" where
  "decode_chunks codePoints i res =
     (if i < length codePoints then
        decode_chunks codePoints (i + MAX_ARGUMENTS_LENGTH)
          (res @ map fromCharCode (str_slice codePoints i (i + MAX_ARGUMENTS_LENGTH)))
      else res)"
  by pat_completeness auto
termination
  by (relation "measure (\<lambda>(cps, i, res). length cps - i)") (auto simp: MAX_ARGUMENTS_LENGTH_def)

declare decode_chunks.simps [simp del]

definition decodeCodePointsArray :: "int list \<Rightarrow> jsstr" where
  "decodeCodePointsArray codePoints =
     (if length codePoints \<le> MAX_ARGUMENTS_LENGTH then map fromCharCode codePoints
      else decode_chunks codePoints 0 [])"

definition utf8Slice :: "byte list \<Rightarrow> nat \<Rightarrow> nat \<Rightarrow> jsstr" where
  "utf8Slice buf start end' =
     decodeCodePointsArray (utf8_slice_loop buf start (min (length buf) end'))"

definition asciiSlice :: "byte list \<Rightarrow> nat \<Rightarrow> nat \<Rightarrow> jsstr" where
  "asciiSlice buf start end' =
     map (\<lambda>b. fromCharCode (js_and (uint b) 127)) (str_slice buf start (min (length buf) end'))"

definition latin1Slice :: "byte list \<Rightarrow> nat \<Rightarrow> nat \<Rightarrow> jsstr" where
  "latin1Slice buf start end' =
     map (\<lambda>b. fromCharCode (uint b)) (str_slice buf start (min (length buf) end'))"

text \<open>\<^verbatim>\<open>n.toString(16)\<close> for a digit, and the two-digit form of a byte.\<close>

definition hex_digit :: "int \<Rightarrow> 16 word" where
  "hex_digit d = word_of_int (if d < 10 then 48 + d else 87 + d)"

definition toHex :: "int \<Rightarrow> jsstr" where
  "toHex n = (if n < 16 then [48, hex_digit n] else [hex_digit (n div 16), hex_digit (n mod 16)])"

definition hexSlice :: "byte list \<Rightarrow> nat \<Rightarrow> nat \<Rightarrow> jsstr" where
  "hexSlice buf start end' =
     (let len = length buf;
          end' = (if end' = 0 \<or> end' > len then len else end')
      in concat (map (\<lambda>b. toHex (uint b)) (str_slice buf start end')))"

text \<open>
  An odd number of bytes leaves \<^verbatim>\<open>bytes[i + 1]\<close> undefined in the last turn: the sum is \<^verbatim>\<open>NaN\<close> and
  \<^verbatim>\<open>String.fromCharCode(NaN)\<close> is the character 0.
\<close>

fun utf16le_units :: "byte list \<Rightarrow> jsstr" where
  "utf16le_units [] = []"
| "utf16le_units [b] = [fromCharCode 0]"
| "utf16le_units (b0 # b1 # rest) = fromCharCode (uint b0 + uint b1 * 256) # utf16le_units rest"

definition utf16leSlice :: "byte list \<Rightarrow> nat \<Rightarrow> nat \<Rightarrow> jsstr" where
  "utf16leSlice buf start end' = utf16le_units (str_slice buf start end')"

section \<open>The specification of the UTF-8 pair\<close>

definition is_lead :: "16 word \<Rightarrow> bool" where
  "is_lead c \<longleftrightarrow> 55296 \<le> uint c \<and> uint c \<le> 56319"

definition is_trail :: "16 word \<Rightarrow> bool" where
  "is_trail c \<longleftrightarrow> 56320 \<le> uint c \<and> uint c \<le> 57343"

text \<open>The Unicode scalar values of a string; a surrogate without its partner counts as U+FFFD.\<close>

fun scalars :: "jsstr \<Rightarrow> int list" where
  "scalars [] = []"
| "scalars [c] = [if is_lead c \<or> is_trail c then 65533 else uint c]"
| "scalars (c # d # rest) =
     (if is_lead c \<and> is_trail d then ((uint c - 55296) * 1024 + (uint d - 56320) + 65536) # scalars rest
      else (if is_lead c \<or> is_trail c then 65533 else uint c) # scalars (d # rest))"

definition is_scalar :: "int \<Rightarrow> bool" where
  "is_scalar cp \<longleftrightarrow> 0 \<le> cp \<and> cp < 1114112 \<and> \<not> (55296 \<le> cp \<and> cp \<le> 57343)"

text \<open>The UTF-8 and the UTF-16 form of a scalar value.\<close>

definition utf8_of :: "int \<Rightarrow> int list" where
  "utf8_of cp =
     (if cp < 128 then [cp]
      else if cp < 2048 then [192 + cp div 64, 128 + cp mod 64]
      else if cp < 65536 then [224 + cp div 4096, 128 + cp div 64 mod 64, 128 + cp mod 64]
      else [240 + cp div 262144, 128 + cp div 4096 mod 64, 128 + cp div 64 mod 64, 128 + cp mod 64])"

definition utf16_of :: "int \<Rightarrow> int list" where
  "utf16_of cp =
     (if cp < 65536 then [cp] else [55296 + (cp - 65536) div 1024, 56320 + (cp - 65536) mod 1024])"

text \<open>A string in which every surrogate has its partner.\<close>

fun well_formed :: "jsstr \<Rightarrow> bool" where
  "well_formed [] = True"
| "well_formed [c] = (\<not> is_lead c \<and> \<not> is_trail c)"
| "well_formed (c # d # rest) =
     (if is_lead c then is_trail d \<and> well_formed rest else \<not> is_trail c \<and> well_formed (d # rest))"

text \<open>The strings the encoder drops a character of: the last two code units are both leading surrogates.\<close>

fun ends_with_two_leads :: "jsstr \<Rightarrow> bool" where
  "ends_with_two_leads [c, d] = (is_lead c \<and> is_lead d)"
| "ends_with_two_leads (c # s) = ends_with_two_leads s"
| "ends_with_two_leads [] = False"

section \<open>Bit operations of the codecs as arithmetic\<close>

lemma js_or_low:
  assumes "0 \<le> x" and "x < 2 ^ n" and "0 \<le> b" and "b * 2 ^ n < 2 ^ 31" and "n \<le> 31"
  shows "js_or x (b * 2 ^ n) = b * 2 ^ n + x"
  using js_or_disjoint [OF assms] by (simp add: js_or_commute)

lemma js_or_128 [js_bits]: "0 \<le> x \<Longrightarrow> x < 64 \<Longrightarrow> js_or x 128 = 128 + x"
  using js_or_low [of x 6 2] by simp

lemma js_or_192 [js_bits]: "0 \<le> x \<Longrightarrow> x < 64 \<Longrightarrow> js_or x 192 = 192 + x"
  using js_or_low [of x 6 3] by simp

lemma js_or_224 [js_bits]: "0 \<le> x \<Longrightarrow> x < 32 \<Longrightarrow> js_or x 224 = 224 + x"
  using js_or_low [of x 5 7] by simp

lemma js_or_240 [js_bits]: "0 \<le> x \<Longrightarrow> x < 16 \<Longrightarrow> js_or x 240 = 240 + x"
  using js_or_low [of x 4 15] by simp

lemma js_or_55296 [js_bits]: "0 \<le> x \<Longrightarrow> x < 1024 \<Longrightarrow> js_or x 55296 = 55296 + x"
  using js_or_low [of x 10 54] by simp

lemma js_or_56320 [js_bits]: "0 \<le> x \<Longrightarrow> x < 1024 \<Longrightarrow> js_or 56320 x = 56320 + x"
  using js_or_disjoint [of x 10 55] by simp

text \<open>The test \<^verbatim>\<open>(b & 192) === 128\<close> for a continuation byte.\<close>

lemma js_and_192:
  assumes "0 \<le> b" and "b < 256"
  shows "js_and b 192 = 64 * (b div 64)"
proof -
  have "b AND push_bit 6 (mask 2) = push_bit 6 (drop_bit 6 (take_bit 8 (b::int)))"
    by (auto intro!: bit_eqI simp: bit_simps)
  moreover have "push_bit 6 (mask 2) = (192::int)"
    by (simp add: mask_eq_exp_minus_1 push_bit_eq_mult)
  moreover have "take_bit 8 b = b"
    using assms by (simp add: take_bit_int_eq_self)
  ultimately have "b AND 192 = 64 * (b div 64)"
    by (simp add: push_bit_eq_mult drop_bit_eq_div)
  then show ?thesis
    using assms by (simp add: js_and_def toInt32_small)
qed

lemma js_and_192_eq [js_bits]: "0 \<le> b \<Longrightarrow> b < 256 \<Longrightarrow> js_and b 192 = 128 \<longleftrightarrow> 128 \<le> b \<and> b < 192"
  by (simp add: js_and_192) presburger

section \<open>What the encoder writes\<close>

lemma units_None [simp]: "units_minus None k = None" "units_left None"
  by (simp_all add: units_minus_def units_left_def)

lemma utf8_push_unlimited:
  assumes "0 \<le> cp" and "cp < 1114112"
  shows "utf8_push cp None bytes = Inr (Some (None, bytes @ utf8_of cp))"
proof -
  consider "cp < 128" | "128 \<le> cp" "cp < 2048" | "2048 \<le> cp" "cp < 65536" | "65536 \<le> cp"
    by linarith
  then show ?thesis
    using assms by cases (simp_all add: utf8_push_def utf8_of_def js_bits)
qed

lemma surrogate_pair:
  assumes "is_lead c" and "is_trail d"
  shows "js_or (js_shl (uint c - 55296) 10) (uint d - 56320) + 65536
           = (uint c - 55296) * 1024 + (uint d - 56320) + 65536"
    and "0 \<le> (uint c - 55296) * 1024 + (uint d - 56320) + 65536"
    and "(uint c - 55296) * 1024 + (uint d - 56320) + 65536 < 1114112"
  using assms js_or_disjoint [of "uint d - 56320" 10 "uint c - 55296"]
  by (simp_all add: is_lead_def is_trail_def js_shl_small)

lemma scalars_lead: "is_lead c \<Longrightarrow> \<not> is_trail d \<Longrightarrow> scalars (c # d # rest) = 65533 # scalars (d # rest)"
  by simp

lemma scalars_other: "\<not> is_lead c \<Longrightarrow> scalars (c # s) = (if is_trail c then 65533 else uint c) # scalars s"
  by (cases s) auto

lemma ends_with_two_leads_tl: "\<not> ends_with_two_leads (c # s) \<Longrightarrow> \<not> ends_with_two_leads s"
  by (cases s; cases "tl s") auto

lemma utf8_of_65533: "utf8_of 65533 = [239, 191, 189]"
  by (simp add: utf8_of_def)

lemma not_surrogate: "\<not> is_lead d \<Longrightarrow> \<not> is_trail d \<Longrightarrow> \<not> (55295 < uint d \<and> uint d < 57344)"
  by (auto simp: is_lead_def is_trail_def)

lemma utf8_loop_scalars:
  "\<not> ends_with_two_leads s \<Longrightarrow>
     utf8_loop s None None bytes = Inr (bytes @ concat (map utf8_of (scalars s)))"
  "is_lead c \<Longrightarrow> s \<noteq> [] \<Longrightarrow> \<not> ends_with_two_leads (c # s) \<Longrightarrow>
     utf8_loop s (Some (uint c)) None bytes = Inr (bytes @ concat (map utf8_of (scalars (c # s))))"
proof (induction s arbitrary: c bytes)
  case Nil
  { case 1 then show ?case by simp next case 2 then show ?case by simp }
next
  case (Cons d rest)
  note IH = Cons.IH and tl = ends_with_two_leads_tl
  { case 1
    consider "is_lead d" "rest = []" | "is_lead d" "rest \<noteq> []" | "is_trail d"
      | "\<not> is_lead d" "\<not> is_trail d" by blast
    then show ?case
    proof cases
      case 1
      then show ?thesis by (simp add: utf8_of_65533 is_lead_def)
    next
      case 2
      then show ?thesis using IH(2) [of d bytes] "1.prems" by (simp add: is_lead_def)
    next
      case 3
      then show ?thesis using IH(1) [OF tl [OF "1.prems"]]
        by (simp add: scalars_other utf8_of_65533 is_lead_def is_trail_def)
    next
      case 4
      then show ?thesis
        using IH(1) [OF tl [OF "1.prems"]] not_surrogate [OF 4] uint16_range [of d]
        by (auto simp: scalars_other utf8_push_unlimited Let_def simp del: uint16_range)
    qed
  next
    case 2
    note rest = tl [OF tl [OF "2.prems"(3)]]
    consider "is_lead d" | "is_trail d" | "\<not> is_lead d" "\<not> is_trail d" by blast
    then show ?case
    proof cases
      case 1
      then have "rest \<noteq> []" using "2.prems" by auto
      moreover have "\<not> is_trail d" using 1 by (simp add: is_lead_def is_trail_def)
      ultimately show ?thesis
        using IH(2) [OF 1 _ tl [OF "2.prems"(3)]] 1 "2.prems"(1)
        by (simp add: scalars_lead utf8_of_65533 is_lead_def)
    next
      case 2
      have "55295 < uint d \<and> uint d < 57344 \<and> \<not> uint d < 56320"
        using 2 by (auto simp: is_trail_def)
      then show ?thesis
        using 2 "2.prems"(1) surrogate_pair(2,3) [OF "2.prems"(1) 2]
        by (simp only: utf8_loop.simps Let_def if_True if_False option.case scalars.simps
            surrogate_pair(1) [OF "2.prems"(1) 2] utf8_push_unlimited sum.case prod.case
            IH(1) [OF rest]) simp
    next
      case 3
      then show ?thesis
        using IH(1) [OF rest] not_surrogate [OF 3] "2.prems"(1) uint16_range [of d]
        by (auto simp: scalars_lead scalars_other utf8_push_unlimited utf8_of_65533 Let_def
            simp del: uint16_range)
    qed
  }
qed

section \<open>What the decoder reads\<close>

lemma js_join2 [js_bits]:
  "0 \<le> a \<Longrightarrow> a < 64 \<Longrightarrow> 0 \<le> b \<Longrightarrow> b < 32 \<Longrightarrow> js_or (js_shl b 6) a = b * 64 + a"
  using js_or_disjoint [of a 6 b] by (simp add: js_shl_small)

lemma js_join3 [js_bits]:
  assumes "0 \<le> a" "a < 64" "0 \<le> b" "b < 64" "0 \<le> c" "c < 16"
  shows "js_or (js_or (js_shl c 12) (js_shl b 6)) a = c * 4096 + b * 64 + a"
  using assms js_or_disjoint [of "b * 64" 12 c] js_or_disjoint [of a 6 "c * 64 + b"]
  by (simp add: js_shl_small algebra_simps)

lemma js_join4 [js_bits]:
  assumes "0 \<le> a" "a < 64" "0 \<le> b" "b < 64" "0 \<le> c" "c < 64" "0 \<le> d" "d < 16"
  shows "js_or (js_or (js_or (js_shl d 18) (js_shl c 12)) (js_shl b 6)) a
           = d * 262144 + c * 4096 + b * 64 + a"
  using assms js_or_disjoint [of "c * 4096" 18 d] js_or_disjoint [of "b * 64" 12 "d * 64 + c"]
    js_or_disjoint [of a 6 "d * 4096 + c * 64 + b"]
  by (simp add: js_shl_small algebra_simps)

lemma drop_prefix_bits [js_bits]:
  "0 \<le> x \<Longrightarrow> x < 32 \<Longrightarrow> (192 + x) mod 32 = (x::int)"
  "0 \<le> x \<Longrightarrow> x < 16 \<Longrightarrow> (224 + x) mod 16 = (x::int)"
  "0 \<le> x \<Longrightarrow> x < 16 \<Longrightarrow> (240 + x) mod 16 = (x::int)"
  "0 \<le> x \<Longrightarrow> x < 64 \<Longrightarrow> (128 + x) mod 64 = (x::int)"
  using int_join_div_mod(2) [of x 32 6] int_join_div_mod(2) [of x 16 14]
    int_join_div_mod(2) [of x 16 15] int_join_div_mod(2) [of x 64 2] by simp_all

text \<open>Each length of sequence, with the bytes given by the digits of the scalar value in base 64.\<close>

lemma utf8_codePoint_2:
  assumes "uint (buf ! i) = 192 + x" "uint (buf ! (i + 1)) = 128 + y"
    and "2 \<le> x" "x < 32" "0 \<le> y" "y < 64"
  shows "utf8_codePoint buf i 2 = Some (x * 64 + y)"
  using assms by (simp add: utf8_codePoint_def js_bits Let_def)

lemma utf8_codePoint_3:
  assumes "uint (buf ! i) = 224 + x" "uint (buf ! (i + 1)) = 128 + y" "uint (buf ! (i + 2)) = 128 + z"
    and "0 \<le> x" "x < 16" "0 \<le> y" "y < 64" "0 \<le> z" "z < 64"
    and "2048 \<le> x * 4096 + y * 64 + z" "is_scalar (x * 4096 + y * 64 + z)"
  shows "utf8_codePoint buf i 3 = Some (x * 4096 + y * 64 + z)"
  using assms by (auto simp: utf8_codePoint_def js_bits Let_def is_scalar_def)

lemma utf8_codePoint_4:
  assumes "uint (buf ! i) = 240 + w" "uint (buf ! (i + 1)) = 128 + x" "uint (buf ! (i + 2)) = 128 + y"
    "uint (buf ! (i + 3)) = 128 + z"
    and "0 \<le> w" "w < 8" "0 \<le> x" "x < 64" "0 \<le> y" "y < 64" "0 \<le> z" "z < 64"
    and "65536 \<le> w * 262144 + x * 4096 + y * 64 + z" "is_scalar (w * 262144 + x * 4096 + y * 64 + z)"
  shows "utf8_codePoint buf i 4 = Some (w * 262144 + x * 4096 + y * 64 + z)"
  using assms by (auto simp: utf8_codePoint_def js_bits Let_def is_scalar_def)

lemma utf8_step_bmp:
  assumes "utf8_bytesPerSequence (uint (buf ! i)) = n" "i + n \<le> end'"
    and "utf8_codePoint buf i n = Some cp" "cp < 65536"
  shows "utf8_step buf i end' = (utf16_of cp, n)"
  using assms by (simp add: utf8_step_def utf16_of_def)

lemma utf8_step_astral:
  assumes "utf8_bytesPerSequence (uint (buf ! i)) = n" "i + n \<le> end'"
    and "utf8_codePoint buf i n = Some cp" "65536 \<le> cp" "cp < 1114112"
  shows "utf8_step buf i end' = (utf16_of cp, n)"
proof -
  have "(cp - 65536) div 1024 mod 1024 = (cp - 65536) div 1024" "(cp - 65536) div 1024 < 1024"
    "0 \<le> (cp - 65536) div 1024" using assms(4,5) by (simp_all add: mod_pos_pos_trivial)
  then show ?thesis using assms by (simp add: utf8_step_def utf16_of_def js_bits Let_def)
qed

lemma utf8_step_scalar:
  assumes cp: "is_scalar cp"
    and buf: "buf = pre @ map word_of_int (utf8_of cp) @ post"
    and end': "length pre + length (utf8_of cp) \<le> end'"
  shows "utf8_step buf (length pre) end' = (utf16_of cp, length (utf8_of cp))"
proof -
  have nth: "uint (buf ! (length pre + k)) = utf8_of cp ! k"
    if "k < length (utf8_of cp)" "0 \<le> utf8_of cp ! k" "utf8_of cp ! k < 256" for k
    using that buf by (simp add: nth_append)
  have range: "0 \<le> cp" "cp < 1114112" using cp by (auto simp: is_scalar_def)
  have m: "0 \<le> cp mod 64" "cp mod 64 < 64" by simp_all
  consider "cp < 128" | "128 \<le> cp" "cp < 2048" | "2048 \<le> cp" "cp < 65536" | "65536 \<le> cp"
    by linarith
  then show ?thesis
  proof cases
    case 1
    then show ?thesis
      using range end' nth [of 0]
      by (simp add: utf8_step_def utf8_of_def utf16_of_def utf8_bytesPerSequence_def
          utf8_codePoint_def)
  next
    case 2
    have u: "utf8_of cp = [192 + cp div 64, 128 + cp mod 64]" using 2 by (simp add: utf8_of_def)
    have d: "2 \<le> cp div 64" "cp div 64 < 32" using 2 by simp_all
    have b: "uint (buf ! length pre) = 192 + cp div 64" "uint (buf ! (length pre + 1)) = 128 + cp mod 64"
      using nth [of 0] nth [of 1] d m by (simp_all add: u)
    have "utf8_codePoint buf (length pre) 2 = Some cp"
      using utf8_codePoint_2 [OF b d m(1,2)] div_mult_mod_eq [of cp 64] by simp
    then show ?thesis
      using utf8_step_bmp [of buf "length pre" 2 end' cp] b d end' u 2
      by (simp add: utf8_bytesPerSequence_def)
  next
    case 3
    define x y z where xyz: "x = cp div 4096" "y = cp div 64 mod 64" "z = cp mod 64"
    have u: "utf8_of cp = [224 + x, 128 + y, 128 + z]" using 3 by (simp add: utf8_of_def xyz)
    have d: "0 \<le> x" "x < 16" "0 \<le> y" "y < 64" "0 \<le> z" "z < 64" using 3 by (simp_all add: xyz)
    have b: "uint (buf ! length pre) = 224 + x" "uint (buf ! (length pre + 1)) = 128 + y"
      "uint (buf ! (length pre + 2)) = 128 + z"
      using nth [of 0] nth [of 1] nth [of 2] d by (simp_all add: u)
    have "x * 4096 + y * 64 + z = cp" unfolding xyz by (rule int_digits64)
    then have "utf8_codePoint buf (length pre) 3 = Some cp"
      using utf8_codePoint_3 [OF b d] 3 cp by simp
    then show ?thesis
      using utf8_step_bmp [of buf "length pre" 3 end' cp] b d end' u 3
      by (simp add: utf8_bytesPerSequence_def)
  next
    case 4
    define w x y z where wxyz: "w = cp div 262144" "x = cp div 4096 mod 64" "y = cp div 64 mod 64" "z = cp mod 64"
    have u: "utf8_of cp = [240 + w, 128 + x, 128 + y, 128 + z]" using 4 by (simp add: utf8_of_def wxyz)
    have d: "0 \<le> w" "w < 8" "0 \<le> x" "x < 64" "0 \<le> y" "y < 64" "0 \<le> z" "z < 64"
      using range by (simp_all add: wxyz)
    have b: "uint (buf ! length pre) = 240 + w" "uint (buf ! (length pre + 1)) = 128 + x"
      "uint (buf ! (length pre + 2)) = 128 + y" "uint (buf ! (length pre + 3)) = 128 + z"
      using nth [of 0] nth [of 1] nth [of 2] nth [of 3] d by (simp_all add: u)
    have "w * 262144 + x * 4096 + y * 64 + z = cp" unfolding wxyz by (rule int_digits64)
    then have "utf8_codePoint buf (length pre) 4 = Some cp"
      using utf8_codePoint_4 [OF b d] 4 cp by simp
    then show ?thesis
      using utf8_step_astral [of buf "length pre" 4 end' cp] b d end' u 4 range
      by (simp add: utf8_bytesPerSequence_def)
  qed
qed

lemma utf8_of_nonempty [simp]: "0 < length (utf8_of cp)"
  by (simp add: utf8_of_def)

lemma utf8_slice_loop_scalars:
  assumes "\<forall>cp \<in> set cps. is_scalar cp"
  shows "utf8_slice_loop (pre @ map word_of_int (concat (map utf8_of cps)) @ post) (length pre)
           (length pre + length (concat (map utf8_of cps))) = concat (map utf16_of cps)"
  using assms
proof (induction cps arbitrary: pre)
  case Nil
  then show ?case by (simp add: utf8_slice_loop.simps)
next
  case (Cons cp cps)
  let ?n = "length (utf8_of cp)" and ?pre = "pre @ map word_of_int (utf8_of cp)"
  let ?buf = "pre @ map word_of_int (concat (map utf8_of (cp # cps))) @ post"
  let ?stop = "length pre + length (concat (map utf8_of (cp # cps)))"
  have step: "utf8_step ?buf (length pre) ?stop = (utf16_of cp, ?n)"
    using Cons.prems by (intro utf8_step_scalar [where post = "map word_of_int (concat (map utf8_of cps)) @ post"]) auto
  have "utf8_slice_loop ?buf (length pre + ?n) ?stop = concat (map utf16_of cps)"
    using Cons.IH [of ?pre] Cons.prems by (simp add: add.assoc)
  moreover have "length pre < ?stop" using utf8_of_nonempty [of cp] by simp
  ultimately show ?case
    by (subst utf8_slice_loop.simps) (simp only: step if_True prod.case, simp)
qed

lemma scalars_are_scalar: "\<forall>cp \<in> set (scalars s). is_scalar cp"
proof (induction s rule: scalars.induct)
  case (2 c)
  then show ?case using uint16_range(2) [of c]
    by (auto simp: is_scalar_def is_lead_def is_trail_def simp del: uint16_range)
next
  case (3 c d rest)
  have "is_scalar (uint c)" if "\<not> is_lead c" "\<not> is_trail c"
    using that uint16_range(2) [of c]
    by (auto simp: is_scalar_def is_lead_def is_trail_def simp del: uint16_range)
  moreover have "is_scalar ((uint c - 55296) * 1024 + (uint d - 56320) + 65536)"
    if "is_lead c" "is_trail d"
    using that surrogate_pair(2,3) [OF that] by (simp add: is_scalar_def is_lead_def is_trail_def)
  ultimately show ?case using 3 by (auto simp: is_scalar_def [of 65533])
qed simp

text \<open>Chunking does not change the decoded string.\<close>

lemma decode_chunks_eq:
  "decode_chunks cps i res = res @ map fromCharCode (drop i cps)"
proof (induction cps i res rule: decode_chunks.induct)
  case (1 cps i res)
  show ?case
  proof (cases "i < length cps")
    case True
    have "drop i cps = str_slice cps i (i + MAX_ARGUMENTS_LENGTH) @ drop (i + MAX_ARGUMENTS_LENGTH) cps"
      by (simp add: str_slice_def add.commute flip: drop_drop)
    with True 1 show ?thesis by (subst decode_chunks.simps) (simp flip: map_append)
  next
    case False
    then show ?thesis by (subst decode_chunks.simps) simp
  qed
qed

lemma decodeCodePointsArray_eq: "decodeCodePointsArray cps = map fromCharCode cps"
  by (simp add: decodeCodePointsArray_def decode_chunks_eq)

lemma scalars_well_formed:
  "well_formed s \<Longrightarrow> map fromCharCode (concat (map utf16_of (scalars s))) = s"
proof (induction s rule: well_formed.induct)
  case (2 c)
  then show ?case by (simp add: utf16_of_def fromCharCode_def)
next
  case (3 c d rest)
  have "fromCharCode (uint c) = c" for c by (simp add: fromCharCode_def)
  moreover have "((uint c - 55296) * 1024 + (uint d - 56320)) div 1024 = uint c - 55296"
    "((uint c - 55296) * 1024 + (uint d - 56320)) mod 1024 = uint d - 56320"
    if "is_lead c" "is_trail d"
    using that int_join_div_mod [of "uint d - 56320" 1024 "uint c - 55296"]
    by (simp_all add: is_lead_def is_trail_def)
  ultimately show ?case using 3
    by (auto simp: utf16_of_def is_lead_def)
qed simp

lemma well_formed_no_two_leads: "well_formed s \<Longrightarrow> \<not> ends_with_two_leads s"
  by (induction s rule: well_formed.induct)
    (auto simp: is_lead_def is_trail_def split: if_splits elim: ends_with_two_leads.elims)

section \<open>The codecs\<close>

text \<open>
  What the encoder \<open>enc\<close> and the decoder \<open>dec\<close> of one encoding promise for the strings in \<open>valid\<close>: encoding
  succeeds, and the bytes are decoded to the string wherever in a buffer they are.
\<close>

locale string_codec =
  fixes enc :: "jsstr \<Rightarrow> jserr + int list"
    and dec :: "byte list \<Rightarrow> nat \<Rightarrow> nat \<Rightarrow> jsstr"
    and valid :: "jsstr \<Rightarrow> bool"
  assumes encodes: "valid s \<Longrightarrow> \<exists>bs. enc s = Inr bs"
    and decodes: "valid s \<Longrightarrow> enc s = Inr bs \<Longrightarrow>
      dec (pre @ map word_of_int bs @ post) (length pre) (length pre + length bs) = s"
begin

lemma round_trip:
  assumes "valid s"
  shows "\<exists>bs. enc s = Inr bs \<and> dec (map word_of_int bs) 0 (length bs) = s"
  using encodes [OF assms] decodes [OF assms, where pre = "[]" and post = "[]"] by auto

text \<open>The encodings of two valid strings, one after the other in a buffer, are told apart by their position.\<close>

lemma concatenation:
  assumes "valid s" and "valid t"
  shows "\<exists>bs cs. enc s = Inr bs \<and> enc t = Inr cs
    \<and> dec (map word_of_int (bs @ cs)) 0 (length bs) = s
    \<and> dec (map word_of_int (bs @ cs)) (length bs) (length bs + length cs) = t"
proof -
  obtain bs cs where "enc s = Inr bs" "enc t = Inr cs" using encodes assms by blast
  then show ?thesis
    using decodes [OF assms(1), of bs "[]" "map word_of_int cs"] decodes [OF assms(2), of cs "map word_of_int bs" "[]"]
    by auto
qed

end

lemma str_slice_mid: "length xs = n \<Longrightarrow> str_slice (pre @ xs @ post) (length pre) (length pre + n) = xs"
  by (simp add: str_slice_def)

lemma fromCharCode_uint [simp]: "fromCharCode (uint c) = c"
  by (simp add: fromCharCode_def)

interpretation utf8: string_codec "\<lambda>s. utf8ToBytes s None" utf8Slice well_formed
proof
  fix s :: jsstr
  assume s: "well_formed s"
  then have enc: "utf8ToBytes s None = Inr (concat (map utf8_of (scalars s)))"
    using utf8_loop_scalars(1) [OF well_formed_no_two_leads]
    by (simp add: utf8ToBytes_def units_or_Infinity_def)
  then show "\<exists>bs. utf8ToBytes s None = Inr bs" by blast
  fix bs pre post
  assume "utf8ToBytes s None = Inr bs"
  then have "utf8Slice (pre @ map word_of_int bs @ post) (length pre) (length pre + length bs)
      = map fromCharCode (concat (map utf16_of (scalars s)))"
    using enc utf8_slice_loop_scalars [OF scalars_are_scalar [of s], of pre post]
    by (simp add: utf8Slice_def decodeCodePointsArray_eq min_absorb2)
  then show "utf8Slice (pre @ map word_of_int bs @ post) (length pre) (length pre + length bs) = s"
    by (simp add: scalars_well_formed s)
qed

lemma map_bytes_id:
  assumes "\<forall>c \<in> set s. f c = c"
  shows "map (\<lambda>x. f x) s = s"
  using assms by (simp add: map_idI)

interpretation latin1: string_codec "\<lambda>s. Inr (asciiToBytes s)" latin1Slice "list_all (\<lambda>c. uint c < 256)"
proof
  fix s bs and pre post :: "byte list"
  assume "list_all (\<lambda>c::16 word. uint c < 256) s" and "Inr (asciiToBytes s) = (Inr bs :: jserr + int list)"
  then have "map (\<lambda>b. fromCharCode (uint (word_of_int b :: byte))) bs = s"
    by (auto simp: asciiToBytes_def js_and_255 list_all_iff o_def uint_word_of_int8_mod mod_pos_pos_trivial intro!: map_bytes_id)
  then show "latin1Slice (pre @ map word_of_int bs @ post) (length pre) (length pre + length bs) = s"
    by (simp add: latin1Slice_def min_absorb2 str_slice_mid o_def)
qed simp

interpretation ascii: string_codec "\<lambda>s. Inr (asciiToBytes s)" asciiSlice "list_all (\<lambda>c. uint c < 128)"
proof
  fix s bs and pre post :: "byte list"
  have low: "fromCharCode (uint c mod 256 mod 128) = c" if "uint c < 128" for c :: "16 word"
    using that mod_pos_pos_trivial [of "uint c" 256] mod_pos_pos_trivial [of "uint c" 128] by simp
  assume "list_all (\<lambda>c::16 word. uint c < 128) s" and "Inr (asciiToBytes s) = (Inr bs :: jserr + int list)"
  then have "map (\<lambda>b. fromCharCode (js_and (uint (word_of_int b :: byte)) 127)) bs = s"
    by (auto simp: asciiToBytes_def js_and_255 js_and_127 list_all_iff o_def uint_word_of_int8_mod intro!: map_bytes_id low)
  then show "asciiSlice (pre @ map word_of_int bs @ post) (length pre) (length pre + length bs) = s"
    by (simp add: asciiSlice_def min_absorb2 str_slice_mid o_def)
qed simp

lemma length_utf16leToBytes: "2 * int (length s) \<le> units \<Longrightarrow> length (utf16leToBytes s units) = 2 * length s"
  by (induction s units rule: utf16leToBytes.induct) auto

lemma utf16le_units_bytes:
  "2 * int (length s) \<le> units \<Longrightarrow> utf16le_units (map word_of_int (utf16leToBytes s units)) = s"
proof (induction s units rule: utf16leToBytes.induct)
  case (2 c rest units)
  have "x div 256 mod 256 = x div 256" if "0 \<le> x" "x < 65536" for x :: int
    using that by (intro mod_pos_pos_trivial) simp_all
  note high = this [OF uint16_range]
  have "js_shr (uint c) 8 = uint c div 256"
    using js_shr_small [of "uint c" 8] by (simp add: order.strict_trans [OF uint16_range(2)] order.trans [OF _ uint16_range(1)])
  then have "uint (word_of_int (js_shr (uint c) 8) :: byte) = uint c div 256"
    by (simp only: uint_word_of_int8_mod high)
  moreover have "uint c mod 256 + uint c div 256 * 256 = uint c" by simp
  ultimately show ?case using 2 by (simp add: uint_word_of_int8_mod)
qed simp

interpretation ucs2: string_codec "\<lambda>s. Inr (utf16leToBytes s (2 * int (length s)))" utf16leSlice "\<lambda>_. True"
  by unfold_locales (auto simp: utf16leSlice_def str_slice_mid utf16le_units_bytes)

section \<open>Decoding arbitrary bytes\<close>

lemma js_or_bounds:
  assumes "0 \<le> x" "x < 2 ^ k" "0 \<le> y" "y < 2 ^ k" "k \<le> 31"
  shows "0 \<le> js_or x y" "js_or x y < 2 ^ k"
proof -
  have "(2::int) ^ k \<le> 2 ^ 31" using assms(5) by (intro power_increasing) auto
  then have "js_or x y = x OR y" using assms by (simp add: js_or_def toInt32_nonneg)
  then show "0 \<le> js_or x y" "js_or x y < 2 ^ k" using assms by (simp_all add: OR_upper)
qed

lemma js_shl_mask_bounds:
  assumes "x < 64" "0 \<le> x" "n \<le> 12"
  shows "0 \<le> js_shl x n" "js_shl x n < 2 ^ (6 + n)"
proof -
  have "(2::int) ^ n \<le> 4096" using power_increasing [OF assms(3), of "2::int"] by simp
  moreover have "x * 2 ^ n < 64 * 2 ^ n" using assms by simp
  ultimately have "x * 2 ^ n < 2147483648" by linarith
  then have "js_shl x n = x * 2 ^ n" using assms by (intro js_shl_small) simp_all
  then show "0 \<le> js_shl x n" "js_shl x n < 2 ^ (6 + n)" using assms by (simp_all add: power_add)
qed

lemma utf8_codePoint_scalar:
  assumes "utf8_codePoint buf i n = Some cp" "n \<in> {1, 2, 3, 4}"
  shows "is_scalar cp"
proof -
  have m: "0 \<le> js_and x 63" "js_and x 63 < 64" "0 \<le> js_and x 31" "js_and x 31 < 32" "0 \<le> js_and x 15" "js_and x 15 < 16" for x
    by (simp_all add: js_bits)
  consider "n = 1" | "n = 2" | "n = 3" | "n = 4" using assms(2) by auto
  then show ?thesis
  proof cases
    case 1
    then show ?thesis using assms(1) by (auto simp: utf8_codePoint_def is_scalar_def Let_def split: if_splits)
  next
    case 2
    have "js_or (js_shl (js_and x 31) 6) (js_and y 63) < 2 ^ 12" for x y
      using js_shl_mask_bounds [of "js_and x 31" 6] m [of x] m [of y] by (intro js_or_bounds) auto
    then have "cp < 2 ^ 12" "127 < cp" using assms(1) 2 by (auto simp: utf8_codePoint_def Let_def split: if_splits)
    then show ?thesis by (simp add: is_scalar_def)
  next
    case 3
    have "js_or (js_or (js_shl (js_and x 15) 12) (js_shl (js_and y 63) 6)) (js_and z 63) < 2 ^ 18" for x y z
      using js_shl_mask_bounds [of "js_and x 15" 12] js_shl_mask_bounds [of "js_and y 63" 6] m [of x] m [of y] m [of z]
      by (intro js_or_bounds js_or_bounds [where k = 18]) auto
    then have "cp < 2 ^ 18" "2047 < cp" "cp < 55296 \<or> 57343 < cp"
      using assms(1) 3 by (auto simp: utf8_codePoint_def Let_def split: if_splits)
    then show ?thesis by (auto simp: is_scalar_def)
  next
    case 4
    then show ?thesis using assms(1) by (auto simp: utf8_codePoint_def is_scalar_def Let_def split: if_splits)
  qed
qed

lemma utf8_step_is_scalar: "\<exists>cp n. is_scalar cp \<and> utf8_step buf i end' = (utf16_of cp, n)"
proof -
  define n where "n = utf8_bytesPerSequence (uint (buf ! i))"
  have n: "n \<in> {1, 2, 3, 4}" by (simp add: n_def utf8_bytesPerSequence_def)
  show ?thesis
  proof (cases "i + n \<le> end' \<and> utf8_codePoint buf i n \<noteq> None")
    case True
    then obtain cp where cp: "utf8_codePoint buf i n = Some cp" "i + n \<le> end'" by auto
    have s: "is_scalar cp" by (rule utf8_codePoint_scalar [OF cp(1) n])
    then have "utf8_step buf i end' = (utf16_of cp, n)"
      using cp utf8_step_bmp [OF n_def [symmetric] cp(2,1)] utf8_step_astral [OF n_def [symmetric] cp(2,1)]
      by (cases "cp < 65536") (auto simp: is_scalar_def)
    with s show ?thesis by blast
  next
    case False
    then have "utf8_step buf i end' = (utf16_of 65533, 1)"
      by (auto simp: utf8_step_def n_def [symmetric] utf16_of_def Let_def)
    then show ?thesis by (intro exI [of _ 65533] exI [of _ 1]) (simp add: is_scalar_def)
  qed
qed

lemma utf8_slice_loop_is_scalars:
  "\<exists>cps. (\<forall>cp \<in> set cps. is_scalar cp) \<and> utf8_slice_loop buf i end' = concat (map utf16_of cps)"
proof (induction buf i end' rule: utf8_slice_loop.induct)
  case (1 buf i end')
  show ?case
  proof (cases "i < end'")
    case True
    obtain cp n where s: "is_scalar cp" "utf8_step buf i end' = (utf16_of cp, n)"
      using utf8_step_is_scalar by blast
    from 1 [OF True s(2) [symmetric]] obtain cps
      where "\<forall>cp \<in> set cps. is_scalar cp" "utf8_slice_loop buf (i + n) end' = concat (map utf16_of cps)" by auto
    with True s show ?thesis
      by (intro exI [of _ "cp # cps"]) (subst utf8_slice_loop.simps, simp)
  next
    case False
    then show ?thesis by (intro exI [of _ "[]"]) (subst utf8_slice_loop.simps, simp)
  qed
qed

lemma uint_fromCharCode: "0 \<le> x \<Longrightarrow> x < 65536 \<Longrightarrow> uint (fromCharCode x) = x"
  by (simp add: fromCharCode_def)

lemma well_formed_Cons: "\<not> is_lead c \<Longrightarrow> \<not> is_trail c \<Longrightarrow> well_formed s \<Longrightarrow> well_formed (c # s)"
  by (cases s) auto

lemma well_formed_scalars:
  "\<forall>cp \<in> set cps. is_scalar cp \<Longrightarrow> well_formed (map fromCharCode (concat (map utf16_of cps)))"
proof (induction cps)
  case (Cons cp cps)
  then have cp: "is_scalar cp" and IH: "well_formed (map fromCharCode (concat (map utf16_of cps)))" by auto
  show ?case
  proof (cases "cp < 65536")
    case True
    with cp have "\<not> is_lead (fromCharCode cp)" "\<not> is_trail (fromCharCode cp)"
      using uint_fromCharCode [of cp] by (auto simp: is_lead_def is_trail_def is_scalar_def)
    with True IH show ?thesis by (simp add: utf16_of_def [of cp] well_formed_Cons)
  next
    case False
    define h l where "h = 55296 + (cp - 65536) div 1024" and "l = 56320 + (cp - 65536) mod 1024"
    have "0 \<le> (cp - 65536) div 1024" "(cp - 65536) div 1024 < 1024"
      using cp False by (auto simp: is_scalar_def)
    then have "is_lead (fromCharCode h)" "is_trail (fromCharCode l)"
      using uint_fromCharCode [of h] uint_fromCharCode [of l] by (simp_all add: h_def l_def is_lead_def is_trail_def)
    with False IH show ?thesis by (simp add: utf16_of_def [of cp] h_def [symmetric] l_def [symmetric])
  qed
qed simp

section \<open>The properties of the codecs\<close>

text \<open>C29: \<^verbatim>\<open>utf8ToBytes\<close> writes the UTF-8 form of the Unicode scalar values a string stands for, with U+FFFD in
  place of an unpaired surrogate, for every string that does not end in two leading surrogates.\<close>

theorem utf8ToBytes_scalars:
  assumes "\<not> ends_with_two_leads s"
  shows "utf8ToBytes s None = Inr (concat (map utf8_of (scalars s)))"
  using utf8_loop_scalars(1) [OF assms] by (simp add: utf8ToBytes_def units_or_Infinity_def)

theorem utf8ToBytes_scalars_witness:
  "utf8ToBytes [0x61, 0xDC00, 0xD83D, 0xDE00] None = Inr [97, 239, 191, 189, 240, 159, 152, 128]"
  by (subst utf8ToBytes_scalars) (simp_all add: is_lead_def is_trail_def utf8_of_def)

text \<open>C27: a string whose surrogates are all paired is encoded by \<^verbatim>\<open>utf8ToBytes\<close> and decoded by \<^verbatim>\<open>utf8Slice\<close> to
  itself, wherever in a buffer its bytes are.\<close>

theorem utf8_round_trip:
  assumes "well_formed s"
  shows "\<exists>bs. utf8ToBytes s None = Inr bs
    \<and> utf8Slice (pre @ map word_of_int bs @ post) (length pre) (length pre + length bs) = s"
  using utf8.encodes [OF assms] utf8.decodes [OF assms] by blast

theorem utf8_round_trip_witness:
  "\<exists>bs. utf8ToBytes [0x20AC, 0xD83D, 0xDE00] None = Inr bs
    \<and> utf8Slice ([1, 2] @ map word_of_int bs @ [3]) (length [1, 2 :: byte]) (length [1, 2 :: byte] + length bs)
        = [0x20AC, 0xD83D, 0xDE00]"
  by (rule utf8_round_trip) (simp add: is_lead_def is_trail_def)

text \<open>The second of two leading surrogates at the end of a string leaves no trace: only one replacement
  character is written for two unpaired surrogates.\<close>

theorem utf8ToBytes_drops_lead:
  assumes "is_lead c" "is_lead d"
  shows "utf8ToBytes [c, d] None = Inr (utf8_of 65533) \<and> scalars [c, d] = [65533, 65533]"
  using assms
  by (auto simp: utf8ToBytes_def units_or_Infinity_def is_lead_def is_trail_def utf8_of_def
      units_left_def units_minus_def Let_def)

theorem utf8ToBytes_drops_lead_witness:
  "utf8ToBytes [0xD800, 0xD801] None = Inr (utf8_of 65533) \<and> scalars [0xD800, 0xD801] = [65533, 65533]"
  by (rule utf8ToBytes_drops_lead) (simp_all add: is_lead_def)

text \<open>C33: whatever the bytes, \<^verbatim>\<open>utf8Slice\<close> returns a string whose surrogates are all paired, also when it
  decodes in chunks of \<^verbatim>\<open>MAX_ARGUMENTS_LENGTH\<close> code units.\<close>

theorem utf8Slice_well_formed: "well_formed (utf8Slice buf start end')"
  using utf8_slice_loop_is_scalars [of buf start "min (length buf) end'"] well_formed_scalars
  by (auto simp: utf8Slice_def decodeCodePointsArray_eq)

text \<open>Every string, paired surrogates or not, survives \<^verbatim>\<open>utf16leToBytes\<close> and \<^verbatim>\<open>utf16leSlice\<close>, also when two of
  them are stored one after the other.\<close>

theorem ucs2_concatenation:
  "\<exists>bs cs. utf16leToBytes s (2 * int (length s)) = bs \<and> utf16leToBytes t (2 * int (length t)) = cs
    \<and> utf16leSlice (map word_of_int (bs @ cs)) 0 (length bs) = s
    \<and> utf16leSlice (map word_of_int (bs @ cs)) (length bs) (length bs + length cs) = t"
  using ucs2.concatenation [of s t] by simp

end
