(* ===== verification/BufferNum.thy ===== *)
theory BufferNum
  imports JsCore
begin

text \<open>
  The integer accessors of the Buffer module (\<^verbatim>\<open>swagger-ui.js\<close>, lines 12688 to 13048): the bounds
  checks, \<^verbatim>\<open>readUInt*\<close>, \<^verbatim>\<open>readInt*\<close>, \<^verbatim>\<open>writeUInt*\<close> and \<^verbatim>\<open>writeInt*\<close> in both byte orders, the variable
  width forms, and the checks around the floating point accessors, whose encoder is the module
  ieee754, a parameter here. Offsets and values are numbers with an integral value. A buffer is the
  list of its bytes; \<open>ta\<close> is \<^verbatim>\<open>Buffer.TYPED_ARRAY_SUPPORT\<close>.
  The lemmas show that a write followed by a read at the same offset gives the value back, changes no
  other byte and keeps the length, that the two implementations selected by \<open>ta\<close> agree, and which
  arguments are rejected.
\<close>

type_synonym buffer = "byte list"

section \<open>Element access\<close>

text \<open>The values the accessors compute with: an element out of range is \<^verbatim>\<open>undefined\<close>.\<close>

datatype jsv = JUndefined | JNaN | JNum int

definition get :: "buffer \<Rightarrow> int \<Rightarrow> jsv" where
  "get buf i = (if 0 \<le> i \<and> i < int (length buf) then JNum (uint (buf ! nat i)) else JUndefined)"

text \<open>A store to a typed array: reduced modulo 256, and without effect out of range.\<close>

definition set_at :: "buffer \<Rightarrow> int \<Rightarrow> int \<Rightarrow> buffer" where
  "set_at buf i v = (if 0 \<le> i \<and> i < int (length buf) then buf[nat i := word_of_int v] else buf)"

fun bits :: "jsv \<Rightarrow> int" where
  "bits (JNum n) = n"
| "bits _ = 0"

fun num_add :: "jsv \<Rightarrow> jsv \<Rightarrow> jsv" where
  "num_add (JNum a) (JNum b) = JNum (a + b)"
| "num_add _ _ = JNaN"

fun num_mul :: "jsv \<Rightarrow> int \<Rightarrow> jsv" where
  "num_mul (JNum a) b = JNum (a * b)"
| "num_mul _ _ = JNaN"

text \<open>\<^verbatim>\<open>if (val >= mul) val -= d\<close>; a comparison with \<^verbatim>\<open>NaN\<close> or \<^verbatim>\<open>undefined\<close> is false.\<close>

fun num_wrap :: "jsv \<Rightarrow> int \<Rightarrow> int \<Rightarrow> jsv" where
  "num_wrap (JNum a) mul d = (if a \<ge> mul then JNum (a - d) else JNum a)"
| "num_wrap v mul d = v"

section \<open>Reading\<close>

definition checkOffset :: "int \<Rightarrow> int \<Rightarrow> int \<Rightarrow> jserr + unit" where
  "checkOffset offset ext len =
     (if offset mod 1 \<noteq> 0 \<or> offset < 0 then Inl (RangeError ''offset is not uint'')
      else if offset + ext > len then Inl (RangeError ''Trying to access beyond buffer length'')
      else Inr ())"

definition checked_read :: "buffer \<Rightarrow> int \<Rightarrow> int \<Rightarrow> bool \<Rightarrow> 'a \<Rightarrow> jserr + 'a" where
  "checked_read buf offset ext noAssert r =
     rbind (if \<not> noAssert then checkOffset offset ext (int (length buf)) else Inr ()) (\<lambda>_. Inr r)"

text \<open>The loops of the variable width readers; both return the value and the last multiplier.\<close>

function readLE_loop :: "buffer \<Rightarrow> int \<Rightarrow> int \<Rightarrow> int \<Rightarrow> int \<Rightarrow> jsv \<Rightarrow> jsv \<times> int" where
  "readLE_loop buf offset byteLength i mul val =
     (if i + 1 < byteLength then
        readLE_loop buf offset byteLength (i + 1) (mul * 256)
          (num_add val (num_mul (get buf (offset + (i + 1))) (mul * 256)))
      else (val, mul))"
  by pat_completeness auto
termination
  by (relation "measure (\<lambda>(buf, offset, byteLength, i, mul, val). nat (byteLength - i))") auto

declare readLE_loop.simps [simp del]

function readBE_loop :: "buffer \<Rightarrow> int \<Rightarrow> int \<Rightarrow> int \<Rightarrow> jsv \<Rightarrow> jsv \<times> int" where
  "readBE_loop buf offset byteLength mul val =
     (if byteLength > 0 then
        readBE_loop buf offset (byteLength - 1) (mul * 256)
          (num_add val (num_mul (get buf (offset + (byteLength - 1))) (mul * 256)))
      else (val, mul))"
  by pat_completeness auto
termination
  by (relation "measure (\<lambda>(buf, offset, byteLength, mul, val). nat byteLength)") auto

declare readBE_loop.simps [simp del]

definition readUIntLE :: "buffer \<Rightarrow> int \<Rightarrow> int \<Rightarrow> bool \<Rightarrow> jserr + jsv" where
  "readUIntLE buf offset byteLength noAssert =
     (let offset = js_or offset 0; byteLength = js_or byteLength 0
      in checked_read buf offset byteLength noAssert
           (fst (readLE_loop buf offset byteLength 0 1 (get buf offset))))"

definition readUIntBE :: "buffer \<Rightarrow> int \<Rightarrow> int \<Rightarrow> bool \<Rightarrow> jserr + jsv" where
  "readUIntBE buf offset byteLength noAssert =
     (let offset = js_or offset 0; byteLength = js_or byteLength 0
      in checked_read buf offset byteLength noAssert
           (fst (readBE_loop buf offset (byteLength - 1) 1 (get buf (offset + (byteLength - 1))))))"

definition readUInt8 :: "buffer \<Rightarrow> int \<Rightarrow> bool \<Rightarrow> jserr + jsv" where
  "readUInt8 buf offset noAssert = checked_read buf offset 1 noAssert (get buf offset)"

definition readUInt16LE :: "buffer \<Rightarrow> int \<Rightarrow> bool \<Rightarrow> jserr + jsv" where
  "readUInt16LE buf offset noAssert = checked_read buf offset 2 noAssert
     (JNum (js_or (bits (get buf offset)) (js_shl (bits (get buf (offset + 1))) 8)))"

definition readUInt16BE :: "buffer \<Rightarrow> int \<Rightarrow> bool \<Rightarrow> jserr + jsv" where
  "readUInt16BE buf offset noAssert = checked_read buf offset 2 noAssert
     (JNum (js_or (js_shl (bits (get buf offset)) 8) (bits (get buf (offset + 1)))))"

definition readUInt32LE :: "buffer \<Rightarrow> int \<Rightarrow> bool \<Rightarrow> jserr + jsv" where
  "readUInt32LE buf offset noAssert = checked_read buf offset 4 noAssert
     (num_add (JNum (js_or (js_or (bits (get buf offset)) (js_shl (bits (get buf (offset + 1))) 8))
                      (js_shl (bits (get buf (offset + 2))) 16)))
        (num_mul (get buf (offset + 3)) 16777216))"

definition readUInt32BE :: "buffer \<Rightarrow> int \<Rightarrow> bool \<Rightarrow> jserr + jsv" where
  "readUInt32BE buf offset noAssert = checked_read buf offset 4 noAssert
     (num_add (num_mul (get buf offset) 16777216)
        (JNum (js_or (js_or (js_shl (bits (get buf (offset + 1))) 16) (js_shl (bits (get buf (offset + 2))) 8))
                 (bits (get buf (offset + 3))))))"

definition readIntLE :: "buffer \<Rightarrow> int \<Rightarrow> int \<Rightarrow> bool \<Rightarrow> jserr + jsv" where
  "readIntLE buf offset byteLength noAssert =
     (let offset = js_or offset 0; byteLength = js_or byteLength 0;
          (val, mul) = readLE_loop buf offset byteLength 0 1 (get buf offset);
          mul = mul * 128
      in checked_read buf offset byteLength noAssert (num_wrap val mul (2 ^ nat (8 * byteLength))))"

definition readIntBE :: "buffer \<Rightarrow> int \<Rightarrow> int \<Rightarrow> bool \<Rightarrow> jserr + jsv" where
  "readIntBE buf offset byteLength noAssert =
     (let offset = js_or offset 0; byteLength = js_or byteLength 0; i = byteLength - 1;
          (val, mul) = readBE_loop buf offset i 1 (get buf (offset + i));
          mul = mul * 128
      in checked_read buf offset byteLength noAssert (num_wrap val mul (2 ^ nat (8 * byteLength))))"

definition readInt8 :: "buffer \<Rightarrow> int \<Rightarrow> bool \<Rightarrow> jserr + jsv" where
  "readInt8 buf offset noAssert = checked_read buf offset 1 noAssert
     (if js_and (bits (get buf offset)) 128 = 0 then get buf offset
      else num_mul (num_add (num_add (JNum 255) (num_mul (get buf offset) (-1))) (JNum 1)) (-1))"

definition sign16 :: "int \<Rightarrow> int" where
  "sign16 val = (if js_and val 32768 \<noteq> 0 then js_or val 4294901760 else val)"

definition readInt16LE :: "buffer \<Rightarrow> int \<Rightarrow> bool \<Rightarrow> jserr + jsv" where
  "readInt16LE buf offset noAssert = checked_read buf offset 2 noAssert
     (JNum (sign16 (js_or (bits (get buf offset)) (js_shl (bits (get buf (offset + 1))) 8))))"

definition readInt16BE :: "buffer \<Rightarrow> int \<Rightarrow> bool \<Rightarrow> jserr + jsv" where
  "readInt16BE buf offset noAssert = checked_read buf offset 2 noAssert
     (JNum (sign16 (js_or (bits (get buf (offset + 1))) (js_shl (bits (get buf offset)) 8))))"

definition readInt32LE :: "buffer \<Rightarrow> int \<Rightarrow> bool \<Rightarrow> jserr + jsv" where
  "readInt32LE buf offset noAssert = checked_read buf offset 4 noAssert
     (JNum (js_or (js_or (js_or (bits (get buf offset)) (js_shl (bits (get buf (offset + 1))) 8))
              (js_shl (bits (get buf (offset + 2))) 16)) (js_shl (bits (get buf (offset + 3))) 24)))"

definition readInt32BE :: "buffer \<Rightarrow> int \<Rightarrow> bool \<Rightarrow> jserr + jsv" where
  "readInt32BE buf offset noAssert = checked_read buf offset 4 noAssert
     (JNum (js_or (js_or (js_or (js_shl (bits (get buf offset)) 24) (js_shl (bits (get buf (offset + 1))) 16))
              (js_shl (bits (get buf (offset + 2))) 8)) (bits (get buf (offset + 3)))))"

text \<open>The floating point readers pass on to \<^verbatim>\<open>ieee754.read\<close> after the same check.\<close>

definition readFloatLE :: "(buffer \<Rightarrow> int \<Rightarrow> bool \<Rightarrow> int \<Rightarrow> int \<Rightarrow> 'f) \<Rightarrow> buffer \<Rightarrow> int \<Rightarrow> bool \<Rightarrow> jserr + 'f" where
  "readFloatLE ieee754_read buf offset noAssert =
     checked_read buf offset 4 noAssert (ieee754_read buf offset True 23 4)"

definition readFloatBE :: "(buffer \<Rightarrow> int \<Rightarrow> bool \<Rightarrow> int \<Rightarrow> int \<Rightarrow> 'f) \<Rightarrow> buffer \<Rightarrow> int \<Rightarrow> bool \<Rightarrow> jserr + 'f" where
  "readFloatBE ieee754_read buf offset noAssert =
     checked_read buf offset 4 noAssert (ieee754_read buf offset False 23 4)"

definition readDoubleLE :: "(buffer \<Rightarrow> int \<Rightarrow> bool \<Rightarrow> int \<Rightarrow> int \<Rightarrow> 'f) \<Rightarrow> buffer \<Rightarrow> int \<Rightarrow> bool \<Rightarrow> jserr + 'f" where
  "readDoubleLE ieee754_read buf offset noAssert =
     checked_read buf offset 8 noAssert (ieee754_read buf offset True 52 8)"

definition readDoubleBE :: "(buffer \<Rightarrow> int \<Rightarrow> bool \<Rightarrow> int \<Rightarrow> int \<Rightarrow> 'f) \<Rightarrow> buffer \<Rightarrow> int \<Rightarrow> bool \<Rightarrow> jserr + 'f" where
  "readDoubleBE ieee754_read buf offset noAssert =
     checked_read buf offset 8 noAssert (ieee754_read buf offset False 52 8)"

section \<open>Writing\<close>

definition checkInt :: "buffer \<Rightarrow> int \<Rightarrow> int \<Rightarrow> int \<Rightarrow> int \<Rightarrow> int \<Rightarrow> jserr + unit" where
  "checkInt buf value offset ext max' min' =
     (if value > max' \<or> value < min' then Inl (RangeError ''\"value\" argument is out of bounds'')
      else if offset + ext > int (length buf) then Inl (RangeError ''Index out of range'')
      else Inr ())"

text \<open>A checked write returns the offset behind the value and the buffer.\<close>

definition checked_write :: "buffer \<Rightarrow> int \<Rightarrow> int \<Rightarrow> int \<Rightarrow> int \<Rightarrow> int \<Rightarrow> bool \<Rightarrow> buffer \<Rightarrow> jserr + int \<times> buffer" where
  "checked_write buf value offset ext max' min' noAssert buf' =
     rbind (if \<not> noAssert then checkInt buf value offset ext max' min' else Inr ())
       (\<lambda>_. Inr (offset + ext, buf'))"

function writeLE_loop :: "buffer \<Rightarrow> int \<Rightarrow> int \<Rightarrow> int \<Rightarrow> int \<Rightarrow> int \<Rightarrow> buffer" where
  "writeLE_loop buf value offset byteLength i mul =
     (if i + 1 < byteLength then
        writeLE_loop (set_at buf (offset + (i + 1)) (js_and (js_quot value (mul * 256)) 255))
          value offset byteLength (i + 1) (mul * 256)
      else buf)"
  by pat_completeness auto
termination
  by (relation "measure (\<lambda>(buf, value, offset, byteLength, i, mul). nat (byteLength - i))") auto

declare writeLE_loop.simps [simp del]

function writeBE_loop :: "buffer \<Rightarrow> int \<Rightarrow> int \<Rightarrow> int \<Rightarrow> int \<Rightarrow> buffer" where
  "writeBE_loop buf value offset i mul =
     (if i - 1 \<ge> 0 then
        writeBE_loop (set_at buf (offset + (i - 1)) (js_and (js_quot value (mul * 256)) 255))
          value offset (i - 1) (mul * 256)
      else buf)"
  by pat_completeness auto
termination
  by (relation "measure (\<lambda>(buf, value, offset, i, mul). nat i)") auto

declare writeBE_loop.simps [simp del]

definition writeUIntLE :: "buffer \<Rightarrow> int \<Rightarrow> int \<Rightarrow> int \<Rightarrow> bool \<Rightarrow> jserr + int \<times> buffer" where
  "writeUIntLE buf value offset byteLength noAssert =
     (let offset = js_or offset 0; byteLength = js_or byteLength 0; maxBytes = 2 ^ nat (8 * byteLength) - 1
      in checked_write buf value offset byteLength maxBytes 0 noAssert
           (writeLE_loop (set_at buf offset (js_and value 255)) value offset byteLength 0 1))"

definition writeUIntBE :: "buffer \<Rightarrow> int \<Rightarrow> int \<Rightarrow> int \<Rightarrow> bool \<Rightarrow> jserr + int \<times> buffer" where
  "writeUIntBE buf value offset byteLength noAssert =
     (let offset = js_or offset 0; byteLength = js_or byteLength 0; maxBytes = 2 ^ nat (8 * byteLength) - 1;
          i = byteLength - 1
      in checked_write buf value offset byteLength maxBytes 0 noAssert
           (writeBE_loop (set_at buf (offset + i) (js_and value 255)) value offset i 1))"

text \<open>On numbers with an integral value \<^verbatim>\<open>Math.floor\<close>, taken without typed arrays, is the identity.\<close>

definition writeUInt8 :: "buffer \<Rightarrow> int \<Rightarrow> int \<Rightarrow> bool \<Rightarrow> jserr + int \<times> buffer" where
  "writeUInt8 buf value offset noAssert =
     (let offset = js_or offset 0
      in checked_write buf value offset 1 255 0 noAssert (set_at buf offset (js_and value 255)))"

fun objectWrite16_loop :: "nat \<Rightarrow> buffer \<Rightarrow> int \<Rightarrow> int \<Rightarrow> bool \<Rightarrow> nat \<Rightarrow> buffer" where
  "objectWrite16_loop 0 buf value offset littleEndian i = buf"
| "objectWrite16_loop (Suc k) buf value offset littleEndian i =
     (let s = (if littleEndian then i else 1 - i)
      in objectWrite16_loop k
           (set_at buf (offset + int i) (js_ushr (js_and value (js_shl 255 (8 * s))) (s * 8)))
           value offset littleEndian (i + 1))"

definition objectWriteUInt16 :: "buffer \<Rightarrow> int \<Rightarrow> int \<Rightarrow> bool \<Rightarrow> buffer" where
  "objectWriteUInt16 buf value offset littleEndian =
     (let value = (if value < 0 then 65535 + value + 1 else value)
      in objectWrite16_loop (nat (min (int (length buf) - offset) 2)) buf value offset littleEndian 0)"

fun objectWrite32_loop :: "nat \<Rightarrow> buffer \<Rightarrow> int \<Rightarrow> int \<Rightarrow> bool \<Rightarrow> nat \<Rightarrow> buffer" where
  "objectWrite32_loop 0 buf value offset littleEndian i = buf"
| "objectWrite32_loop (Suc k) buf value offset littleEndian i =
     (let s = (if littleEndian then i else 3 - i)
      in objectWrite32_loop k (set_at buf (offset + int i) (js_and (js_ushr value (s * 8)) 255))
           value offset littleEndian (i + 1))"

definition objectWriteUInt32 :: "buffer \<Rightarrow> int \<Rightarrow> int \<Rightarrow> bool \<Rightarrow> buffer" where
  "objectWriteUInt32 buf value offset littleEndian =
     (let value = (if value < 0 then 4294967295 + value + 1 else value)
      in objectWrite32_loop (nat (min (int (length buf) - offset) 4)) buf value offset littleEndian 0)"

definition put16LE :: "bool \<Rightarrow> buffer \<Rightarrow> int \<Rightarrow> int \<Rightarrow> buffer" where
  "put16LE ta buf value offset =
     (if ta then set_at (set_at buf offset (js_and value 255)) (offset + 1) (js_ushr value 8)
      else objectWriteUInt16 buf value offset True)"

definition put16BE :: "bool \<Rightarrow> buffer \<Rightarrow> int \<Rightarrow> int \<Rightarrow> buffer" where
  "put16BE ta buf value offset =
     (if ta then set_at (set_at buf offset (js_ushr value 8)) (offset + 1) (js_and value 255)
      else objectWriteUInt16 buf value offset False)"

definition writeUInt16LE :: "bool \<Rightarrow> buffer \<Rightarrow> int \<Rightarrow> int \<Rightarrow> bool \<Rightarrow> jserr + int \<times> buffer" where
  "writeUInt16LE ta buf value offset noAssert =
     (let offset = js_or offset 0
      in checked_write buf value offset 2 65535 0 noAssert (put16LE ta buf value offset))"

definition writeUInt16BE :: "bool \<Rightarrow> buffer \<Rightarrow> int \<Rightarrow> int \<Rightarrow> bool \<Rightarrow> jserr + int \<times> buffer" where
  "writeUInt16BE ta buf value offset noAssert =
     (let offset = js_or offset 0
      in checked_write buf value offset 2 65535 0 noAssert (put16BE ta buf value offset))"

definition put32BE :: "bool \<Rightarrow> buffer \<Rightarrow> int \<Rightarrow> int \<Rightarrow> buffer" where
  "put32BE ta buf value offset =
     (if ta then set_at (set_at (set_at (set_at buf offset (js_ushr value 24))
        (offset + 1) (js_ushr value 16)) (offset + 2) (js_ushr value 8)) (offset + 3) (js_and value 255)
      else objectWriteUInt32 buf value offset False)"

definition writeUInt32LE :: "bool \<Rightarrow> buffer \<Rightarrow> int \<Rightarrow> int \<Rightarrow> bool \<Rightarrow> jserr + int \<times> buffer" where
  "writeUInt32LE ta buf value offset noAssert =
     (let offset = js_or offset 0
      in checked_write buf value offset 4 4294967295 0 noAssert
           (if ta then set_at (set_at (set_at (set_at buf (offset + 3) (js_ushr value 24))
              (offset + 2) (js_ushr value 16)) (offset + 1) (js_ushr value 8)) offset (js_and value 255)
            else objectWriteUInt32 buf value offset True))"

definition writeUInt32BE :: "bool \<Rightarrow> buffer \<Rightarrow> int \<Rightarrow> int \<Rightarrow> bool \<Rightarrow> jserr + int \<times> buffer" where
  "writeUInt32BE ta buf value offset noAssert =
     (let offset = js_or offset 0
      in checked_write buf value offset 4 4294967295 0 noAssert (put32BE ta buf value offset))"

text \<open>
  The signed variable width writers: \<open>sub\<close> borrows from the next byte once a non-zero byte of a negative
  value has been written.
\<close>

definition byte_nonzero :: "buffer \<Rightarrow> int \<Rightarrow> bool" where
  "byte_nonzero buf i = (get buf i \<noteq> JNum 0)"

function writeIntLE_loop :: "buffer \<Rightarrow> int \<Rightarrow> int \<Rightarrow> int \<Rightarrow> int \<Rightarrow> int \<Rightarrow> int \<Rightarrow> buffer" where
  "writeIntLE_loop buf value offset byteLength i mul sub =
     (if i + 1 < byteLength then
        (let i = i + 1; mul = mul * 256;
             sub = (if value < 0 \<and> sub = 0 \<and> byte_nonzero buf (offset + i - 1) then 1 else sub)
         in writeIntLE_loop (set_at buf (offset + i) (js_and (js_shr (js_quot value mul) 0 - sub) 255))
              value offset byteLength i mul sub)
      else buf)"
  by pat_completeness auto
termination
  by (relation "measure (\<lambda>(buf, value, offset, byteLength, i, mul, sub). nat (byteLength - i))") auto

declare writeIntLE_loop.simps [simp del]

function writeIntBE_loop :: "buffer \<Rightarrow> int \<Rightarrow> int \<Rightarrow> int \<Rightarrow> int \<Rightarrow> int \<Rightarrow> buffer" where
  "writeIntBE_loop buf value offset i mul sub =
     (if i - 1 \<ge> 0 then
        (let i = i - 1; mul = mul * 256;
             sub = (if value < 0 \<and> sub = 0 \<and> byte_nonzero buf (offset + i + 1) then 1 else sub)
         in writeIntBE_loop (set_at buf (offset + i) (js_and (js_shr (js_quot value mul) 0 - sub) 255))
              value offset i mul sub)
      else buf)"
  by pat_completeness auto
termination
  by (relation "measure (\<lambda>(buf, value, offset, i, mul, sub). nat i)") auto

declare writeIntBE_loop.simps [simp del]

definition writeIntLE :: "buffer \<Rightarrow> int \<Rightarrow> int \<Rightarrow> int \<Rightarrow> bool \<Rightarrow> jserr + int \<times> buffer" where
  "writeIntLE buf value offset byteLength noAssert =
     (let offset = js_or offset 0; limit = 2 ^ nat (8 * byteLength - 1)
      in checked_write buf value offset byteLength (limit - 1) (- limit) noAssert
           (writeIntLE_loop (set_at buf offset (js_and value 255)) value offset byteLength 0 1 0))"

definition writeIntBE :: "buffer \<Rightarrow> int \<Rightarrow> int \<Rightarrow> int \<Rightarrow> bool \<Rightarrow> jserr + int \<times> buffer" where
  "writeIntBE buf value offset byteLength noAssert =
     (let offset = js_or offset 0; limit = 2 ^ nat (8 * byteLength - 1); i = byteLength - 1
      in checked_write buf value offset byteLength (limit - 1) (- limit) noAssert
           (writeIntBE_loop (set_at buf (offset + i) (js_and value 255)) value offset i 1 0))"

definition writeInt8 :: "buffer \<Rightarrow> int \<Rightarrow> int \<Rightarrow> bool \<Rightarrow> jserr + int \<times> buffer" where
  "writeInt8 buf value offset noAssert =
     (let offset = js_or offset 0; value' = (if value < 0 then 255 + value + 1 else value)
      in checked_write buf value offset 1 127 (-128) noAssert (set_at buf offset (js_and value' 255)))"

definition writeInt16LE :: "bool \<Rightarrow> buffer \<Rightarrow> int \<Rightarrow> int \<Rightarrow> bool \<Rightarrow> jserr + int \<times> buffer" where
  "writeInt16LE ta buf value offset noAssert =
     (let offset = js_or offset 0
      in checked_write buf value offset 2 32767 (-32768) noAssert (put16LE ta buf value offset))"

definition writeInt16BE :: "bool \<Rightarrow> buffer \<Rightarrow> int \<Rightarrow> int \<Rightarrow> bool \<Rightarrow> jserr + int \<times> buffer" where
  "writeInt16BE ta buf value offset noAssert =
     (let offset = js_or offset 0
      in checked_write buf value offset 2 32767 (-32768) noAssert (put16BE ta buf value offset))"

definition writeInt32LE :: "bool \<Rightarrow> buffer \<Rightarrow> int \<Rightarrow> int \<Rightarrow> bool \<Rightarrow> jserr + int \<times> buffer" where
  "writeInt32LE ta buf value offset noAssert =
     (let offset = js_or offset 0
      in checked_write buf value offset 4 2147483647 (-2147483648) noAssert
           (if ta then set_at (set_at (set_at (set_at buf offset (js_and value 255))
              (offset + 1) (js_ushr value 8)) (offset + 2) (js_ushr value 16)) (offset + 3) (js_ushr value 24)
            else objectWriteUInt32 buf value offset True))"

definition writeInt32BE :: "bool \<Rightarrow> buffer \<Rightarrow> int \<Rightarrow> int \<Rightarrow> bool \<Rightarrow> jserr + int \<times> buffer" where
  "writeInt32BE ta buf value offset noAssert =
     (let offset = js_or offset 0; value' = (if value < 0 then 4294967295 + value + 1 else value)
      in checked_write buf value offset 4 2147483647 (-2147483648) noAssert (put32BE ta buf value' offset))"

definition checkIEEE754 :: "buffer \<Rightarrow> int \<Rightarrow> int \<Rightarrow> jserr + unit" where
  "checkIEEE754 buf offset ext =
     (if offset + ext > int (length buf) then Inl (RangeError ''Index out of range'')
      else if offset < 0 then Inl (RangeError ''Index out of range'')
      else Inr ())"

definition writeFloat :: "(buffer \<Rightarrow> 'f \<Rightarrow> int \<Rightarrow> bool \<Rightarrow> int \<Rightarrow> int \<Rightarrow> buffer)
    \<Rightarrow> buffer \<Rightarrow> 'f \<Rightarrow> int \<Rightarrow> bool \<Rightarrow> bool \<Rightarrow> jserr + int \<times> buffer" where
  "writeFloat ieee754_write buf value offset littleEndian noAssert =
     rbind (if \<not> noAssert then checkIEEE754 buf offset 4 else Inr ())
       (\<lambda>_. Inr (offset + 4, ieee754_write buf value offset littleEndian 23 4))"

definition writeDouble :: "(buffer \<Rightarrow> 'f \<Rightarrow> int \<Rightarrow> bool \<Rightarrow> int \<Rightarrow> int \<Rightarrow> buffer)
    \<Rightarrow> buffer \<Rightarrow> 'f \<Rightarrow> int \<Rightarrow> bool \<Rightarrow> bool \<Rightarrow> jserr + int \<times> buffer" where
  "writeDouble ieee754_write buf value offset littleEndian noAssert =
     rbind (if \<not> noAssert then checkIEEE754 buf offset 8 else Inr ())
       (\<lambda>_. Inr (offset + 8, ieee754_write buf value offset littleEndian 52 8))"

section \<open>Bytes of a number\<close>

text \<open>The eight bits of a number from position \<open>n\<close>.\<close>

definition octet :: "int \<Rightarrow> nat \<Rightarrow> int" where
  "octet v n = take_bit 8 (drop_bit n v)"

lemma octet_range [simp]: "0 \<le> octet v n" "octet v n < 256"
  using take_bit_int_less_exp [of 8 "drop_bit n v"] by (simp_all add: octet_def)

lemma mod_256_octet: "x mod 256 = octet x 0"
  by (simp add: octet_def take_bit_eq_mod)

lemma js_ushr_octet: "n + 8 \<le> 32 \<Longrightarrow> js_ushr v n mod 256 = octet v n"
  unfolding mod_256_octet js_ushr_def toUint32_def octet_def
  by (auto intro!: bit_eqI simp: bit_simps)

lemma octet_join16: "js_or (octet v 0) (js_shl (octet v 8) 8) = take_bit 16 v"
  unfolding js_or_def js_shl_def toInt32_def octet_def
  by (rule bit_eqI) (auto simp: bit_simps)

lemma octet_join24:
  "js_or (js_or (octet v 0) (js_shl (octet v 8) 8)) (js_shl (octet v 16) 16) = take_bit 24 v"
  unfolding js_or_def js_shl_def toInt32_def octet_def
proof (rule bit_eqI, goal_cases)
  case (1 n)
  then show ?case by (cases "n < 16") (auto simp: bit_simps)
qed

lemma octet_join32:
  "js_or (js_or (js_or (octet v 0) (js_shl (octet v 8) 8)) (js_shl (octet v 16) 16)) (js_shl (octet v 24) 24)
     = toInt32 v"
  unfolding js_or_def js_shl_def toInt32_def octet_def
proof (rule bit_eqI, goal_cases)
  case (1 n)
  consider "min 31 n < 8" | "8 \<le> min 31 n" "min 31 n < 16" | "16 \<le> min 31 n" "min 31 n < 24" | "24 \<le> min 31 n"
    by linarith
  then show ?case by cases (auto simp: bit_simps)
qed

lemma sign16_take_bit: "sign16 (take_bit 16 v) = signed_take_bit 15 v"
proof -
  have "js_and (take_bit 16 v) 32768 = push_bit 15 (of_bool (bit v 15))"
  proof -
    have b: "bit (32768::int) n \<longleftrightarrow> n = 15" for n
      using bit_exp_iff [where 'a = int, of 15 n] by auto
    have "toInt32 (take_bit 16 v) AND 32768 = push_bit 15 (of_bool (bit v 15))"
      unfolding toInt32_def by (rule bit_eqI) (auto simp: bit_simps b)
    then show ?thesis by (simp add: js_and_def toInt32_small)
  qed
  moreover have "js_or (take_bit 16 v) 4294901760 = signed_take_bit 15 v" if "bit v 15"
  proof -
    have "toInt32 (take_bit 16 v) OR toInt32 (push_bit 16 (mask 16)) = signed_take_bit 15 v"
      unfolding toInt32_def
    proof (rule bit_eqI, goal_cases)
      case (1 n)
      then show ?case using that by (cases "n = 15") (auto simp: bit_simps min_def)
    qed
    then show ?thesis by (simp add: js_or_def push_bit_eq_mult mask_eq_exp_minus_1)
  qed
  moreover have "take_bit 16 v = signed_take_bit 15 v" if "\<not> bit v 15"
  proof (rule bit_eqI, goal_cases)
    case (1 n)
    then show ?case using that by (cases "n = 15") (auto simp: bit_simps min_def)
  qed
  ultimately show ?thesis by (auto simp: sign16_def push_bit_eq_mult)
qed

lemma signed_id: "- (2 ^ n) \<le> v \<Longrightarrow> v < 2 ^ n \<Longrightarrow> signed_take_bit n v = (v::int)"
  by (simp add: signed_take_bit_int_eq_self)

section \<open>Element access and results\<close>

lemma length_set_at [simp]: "length (set_at buf i v) = length buf"
  by (simp add: set_at_def)

lemma get_set_at:
  "get (set_at buf i v) j = (if i = j \<and> 0 \<le> i \<and> i < int (length buf) then JNum (v mod 256) else get buf j)"
  by (auto simp: get_def set_at_def uint_word_of_int8_mod nth_list_update)

lemma set_at_cong: "v mod 256 = w mod 256 \<Longrightarrow> set_at buf i v = set_at buf i w"
  by (metis set_at_def word_of_int8_mod)

lemma set_at2_cong:
  "v mod 256 = v' mod 256 \<Longrightarrow> w mod 256 = w' mod 256 \<Longrightarrow>
     set_at (set_at buf i v) j w = set_at (set_at buf i v') j w'"
  using set_at_cong by metis

lemma set_at_commute: "i \<noteq> j \<Longrightarrow> set_at (set_at buf i v) j w = set_at (set_at buf j w) i v"
  by (auto simp: set_at_def intro!: list_update_swap)

lemma js_or_zero: "js_or x 0 = toInt32 x"
  by (simp add: js_or_def toInt32_def)

text \<open>Everything below is about a buffer no longer than \<^verbatim>\<open>kMaxLength\<close> and a field inside it.\<close>

definition in_bounds :: "buffer \<Rightarrow> int \<Rightarrow> nat \<Rightarrow> bool" where
  "in_bounds buf offset w \<longleftrightarrow> 0 \<le> offset \<and> offset + int w \<le> int (length buf) \<and> length buf < 2 ^ 31"

lemma in_bounds_offset: "in_bounds buf offset w \<Longrightarrow> js_or offset 0 = offset"
  by (simp add: in_bounds_def js_or_zero toInt32_nonneg)

lemma checked_read_ok:
  "in_bounds buf offset w \<Longrightarrow> ext = int w \<Longrightarrow> checked_read buf offset ext noAssert r = Inr r"
  by (simp add: checked_read_def checkOffset_def in_bounds_def)

lemma checked_write_ok:
  "in_bounds buf offset w \<Longrightarrow> ext = int w \<Longrightarrow> min' \<le> v \<Longrightarrow> v \<le> max' \<Longrightarrow>
     checked_write buf v offset ext max' min' noAssert buf' = Inr (offset + ext, buf')"
  by (simp add: checked_write_def checkInt_def in_bounds_def)

section \<open>What the writers store\<close>

text \<open>\<open>buf'\<close> is \<open>buf\<close> with the \<open>w\<close> bytes from \<open>offset\<close> replaced by \<open>f 0\<close>, \<open>f 1\<close>, and so on.\<close>

definition wrote :: "buffer \<Rightarrow> int \<Rightarrow> nat \<Rightarrow> (nat \<Rightarrow> int) \<Rightarrow> buffer \<Rightarrow> bool" where
  "wrote buf offset w f buf' \<longleftrightarrow> length buf' = length buf
     \<and> (\<forall>j. get buf' j = (if offset \<le> j \<and> j < offset + int w then JNum (f (nat (j - offset))) else get buf j))"

lemma wrote_unique:
  assumes "wrote buf offset w f b1" "wrote buf offset w f b2"
  shows "b1 = b2"
proof (rule nth_equalityI)
  show len: "length b1 = length b2" using assms by (simp add: wrote_def)
  fix i
  assume "i < length b1"
  moreover have "get b1 (int i) = get b2 (int i)" using assms by (simp add: wrote_def)
  ultimately show "b1 ! i = b2 ! i" using len by (simp add: get_def word_uint_eq_iff)
qed

lemma wrote_get: "wrote buf offset w f buf' \<Longrightarrow> k < w \<Longrightarrow> get buf' (offset + int k) = JNum (f k)"
  by (simp add: wrote_def)

lemmas wrote_gets =
  wrote_get [where k = 0, simplified] wrote_get [where k = 1, simplified]
  wrote_get [where k = 2, simplified] wrote_get [where k = 3, simplified]

lemma nat_minus_eq: "offset \<le> j \<Longrightarrow> nat (j - offset) = k \<longleftrightarrow> j = offset + int k"
  by auto

lemmas store_simps = get_set_at js_and_255 mod_256_octet [symmetric] js_ushr_octet nat_minus_eq

lemma put16LE_wrote:
  "in_bounds buf offset 2 \<Longrightarrow> wrote buf offset 2 (\<lambda>k. octet v (8 * k)) (put16LE True buf v offset)"
  unfolding wrote_def in_bounds_def put16LE_def by (auto simp: store_simps)

lemma put16BE_wrote:
  "in_bounds buf offset 2 \<Longrightarrow> wrote buf offset 2 (\<lambda>k. octet v (8 * (1 - k))) (put16BE True buf v offset)"
  unfolding wrote_def in_bounds_def put16BE_def by (auto simp: store_simps)

lemma put32BE_wrote:
  "in_bounds buf offset 4 \<Longrightarrow> wrote buf offset 4 (\<lambda>k. octet v (8 * (3 - k))) (put32BE True buf v offset)"
  unfolding wrote_def in_bounds_def put32BE_def by (auto simp: store_simps)

lemma put32LE_wrote:
  assumes "in_bounds buf offset 4"
  shows "wrote buf offset 4 (\<lambda>k. octet v (8 * k))
    (set_at (set_at (set_at (set_at buf (offset + 3) (js_ushr v 24)) (offset + 2) (js_ushr v 16))
       (offset + 1) (js_ushr v 8)) offset (js_and v 255))"
    and "wrote buf offset 4 (\<lambda>k. octet v (8 * k))
    (set_at (set_at (set_at (set_at buf offset (js_and v 255)) (offset + 1) (js_ushr v 8))
       (offset + 2) (js_ushr v 16)) (offset + 3) (js_ushr v 24))"
  using assms unfolding wrote_def in_bounds_def by (auto simp: store_simps)

lemma put8_wrote:
  "in_bounds buf offset (Suc 0) \<Longrightarrow> v mod 256 = u mod 256 \<Longrightarrow>
     wrote buf offset (Suc 0) (\<lambda>k. octet u (8 * k)) (set_at buf offset (js_and v 255))"
  unfolding wrote_def in_bounds_def by (auto simp: store_simps)

text \<open>The fallback without typed arrays stores the same bytes.\<close>

lemma masked_octet:
  assumes "n \<le> 24" "n mod 8 = 0"
  shows "js_ushr (js_and v (js_shl 255 n)) n mod 256 = octet v n"
proof -
  have "js_shl 255 n = toInt32 (push_bit n (mask 8))"
    using assms by (simp add: js_shl_def toInt32_small mask_eq_exp_minus_1)
  then have "js_ushr (js_and v (js_shl 255 n)) n mod 256
      = take_bit 8 (drop_bit n (take_bit 32 (toInt32 v AND toInt32 (toInt32 (push_bit n (mask 8))))))"
    using assms by (simp add: js_ushr_def js_and_def toUint32_def toInt32_def take_bit_eq_mod)
  also have "\<dots> = octet v n"
    unfolding toInt32_def octet_def using assms by (intro bit_eqI) (auto simp: bit_simps)
  finally show ?thesis .
qed

lemma octet_wrap:
  assumes "n + 8 \<le> m"
  shows "octet (2 ^ m + v) n = octet v n"
proof -
  have "take_bit m (2 ^ m + v) = take_bit m v" by (simp add: take_bit_eq_mod)
  then have "bit (2 ^ m + v) k = bit v k" if "k < m" for k
    using that by (metis bit_take_bit_iff)
  then show ?thesis unfolding octet_def using assms by (intro bit_eqI) (auto simp: bit_simps)
qed

lemma objectWriteUInt16_eq:
  assumes "in_bounds buf offset 2"
  shows "objectWriteUInt16 buf v offset True = put16LE True buf v offset"
    and "objectWriteUInt16 buf v offset False = put16BE True buf v offset"
proof -
  define u where "u = (if v < 0 then 65535 + v + 1 else v)"
  have "octet u 0 = octet v 0" "octet u 8 = octet v 8"
    using octet_wrap [of 0 16 v] octet_wrap [of 8 16 v] by (auto simp: u_def add.commute)
  note u = this
  have n: "nat (min (int (length buf) - offset) 2) = Suc (Suc 0)"
    using assms by (auto simp: in_bounds_def min_def)
  have obj: "objectWriteUInt16 buf v offset le = objectWrite16_loop (Suc (Suc 0)) buf u offset le 0" for le
    unfolding objectWriteUInt16_def Let_def u_def n ..
  have bytes: "js_ushr (js_and u (js_shl 255 0)) 0 mod 256 = js_and v 255 mod 256"
    "js_ushr (js_and u (js_shl 255 8)) 8 mod 256 = js_ushr v 8 mod 256"
    using masked_octet [of 0 u] masked_octet [of 8 u] u
    by (simp_all add: js_and_255 mod_256_octet [symmetric] js_ushr_octet)
  show "objectWriteUInt16 buf v offset True = put16LE True buf v offset"
    and "objectWriteUInt16 buf v offset False = put16BE True buf v offset"
    unfolding obj put16LE_def put16BE_def objectWrite16_loop.simps Let_def
    using set_at2_cong [OF bytes, of buf offset "offset + 1"]
      set_at2_cong [OF bytes(2,1), of buf offset "offset + 1"] by simp_all
qed

lemma objectWriteUInt32_eq:
  assumes "in_bounds buf offset 4"
  shows "objectWriteUInt32 buf v offset True
      = set_at (set_at (set_at (set_at buf offset (js_and v 255)) (offset + 1) (js_ushr v 8))
          (offset + 2) (js_ushr v 16)) (offset + 3) (js_ushr v 24)"
    and "objectWriteUInt32 buf v offset False = put32BE True buf v offset"
proof -
  define u where "u = (if v < 0 then 4294967295 + v + 1 else v)"
  have u: "octet u n = octet v n" if "n \<le> 24" for n
    using that octet_wrap [of n 32 v] by (auto simp: u_def add.commute)
  have s: "js_ushr u n mod 256 = js_ushr v n mod 256" if "n \<le> 24" for n
    using that by (simp add: js_ushr_octet u)
  have s0: "js_and (js_ushr u 0) 255 mod 256 = js_and v 255 mod 256"
    using u [of 0] by (simp add: js_and_255 js_ushr_octet) (simp add: mod_256_octet)
  have n: "nat (min (int (length buf) - offset) 4) = Suc (Suc (Suc (Suc 0)))"
    using assms by (auto simp: in_bounds_def min_def)
  have obj: "objectWriteUInt32 buf v offset le = objectWrite32_loop (Suc (Suc (Suc (Suc 0)))) buf u offset le 0" for le
    unfolding objectWriteUInt32_def Let_def u_def n ..
  have s': "js_and (js_ushr u n) 255 mod 256 = js_ushr v n mod 256" if "n \<le> 24" for n
    using s [OF that] by (simp add: js_and_255)
  show "objectWriteUInt32 buf v offset True
      = set_at (set_at (set_at (set_at buf offset (js_and v 255)) (offset + 1) (js_ushr v 8))
          (offset + 2) (js_ushr v 16)) (offset + 3) (js_ushr v 24)"
    and "objectWriteUInt32 buf v offset False = put32BE True buf v offset"
    unfolding obj put32BE_def objectWrite32_loop.simps Let_def
    using set_at2_cong [OF s0 s' [of 8], of buf offset "offset + 1"]
      set_at2_cong [OF s' [of 16] s' [of 24], of _ "offset + 2" "offset + 3"]
      set_at2_cong [OF s' [of 24] s' [of 16], of buf offset "offset + 1"]
      set_at2_cong [OF s' [of 8] s0, of _ "offset + 2" "offset + 3"]
    by simp_all
qed

lemma ta_irrelevant:
  "in_bounds buf offset 2 \<Longrightarrow> put16LE ta buf v offset = put16LE True buf v offset"
  "in_bounds buf offset 2 \<Longrightarrow> put16BE ta buf v offset = put16BE True buf v offset"
  "in_bounds buf offset 4 \<Longrightarrow> put32BE ta buf v offset = put32BE True buf v offset"
  by (cases ta; simp add: put16LE_def put16BE_def put32BE_def objectWriteUInt16_eq objectWriteUInt32_eq)+

section \<open>A field of a buffer\<close>

text \<open>
  What a matching pair of accessors promises its client: a value in range is written into its \<open>w\<close> bytes
  and nowhere else and is read back, a read depends on these bytes only, a value or an offset out of
  range is rejected.
\<close>

locale field_codec =
  fixes wr :: "buffer \<Rightarrow> int \<Rightarrow> int \<Rightarrow> bool \<Rightarrow> jserr + int \<times> buffer"
    and rd :: "buffer \<Rightarrow> int \<Rightarrow> bool \<Rightarrow> jserr + jsv"
    and w :: nat and lo :: int and hi :: int
  assumes write_field: "in_bounds buf offset w \<Longrightarrow> lo \<le> v \<Longrightarrow> v \<le> hi \<Longrightarrow>
      \<exists>buf' f. wr buf v offset noAssert = Inr (offset + int w, buf') \<and> wrote buf offset w f buf'
        \<and> rd buf' offset noAssert' = Inr (JNum v)"
    and read_local: "in_bounds buf offset w \<Longrightarrow> (\<And>j. offset \<le> j \<Longrightarrow> j < offset + int w \<Longrightarrow> get buf' j = get buf j) \<Longrightarrow>
      length buf' = length buf \<Longrightarrow> rd buf' offset noAssert = rd buf offset noAssert"
    and write_rejects: "v < lo \<or> hi < v \<Longrightarrow>
      wr buf v offset False = Inl (RangeError ''\"value\" argument is out of bounds'')"
    and read_rejects: "- (2 ^ 31) \<le> offset \<Longrightarrow> offset < 2 ^ 31 \<Longrightarrow> offset < 0 \<or> int (length buf) < offset + int w \<Longrightarrow>
      \<exists>m. rd buf offset False = Inl (RangeError m)"
begin

lemma write_read:
  assumes "in_bounds buf offset w" and "lo \<le> v" and "v \<le> hi"
  shows "\<exists>buf'. wr buf v offset noAssert = Inr (offset + int w, buf') \<and> length buf' = length buf
    \<and> (\<forall>j. j < offset \<or> offset + int w \<le> j \<longrightarrow> get buf' j = get buf j)
    \<and> rd buf' offset noAssert' = Inr (JNum v)"
  using write_field [OF assms, of noAssert noAssert'] by (fastforce simp: wrote_def)

end

text \<open>Two fields of one buffer that do not overlap, as a protocol header lays them out.\<close>

locale two_fields =
  a: field_codec wr1 rd1 w1 lo1 hi1 + b: field_codec wr2 rd2 w2 lo2 hi2
  for wr1 rd1 w1 lo1 hi1 wr2 rd2 w2 lo2 hi2
begin

lemma independent_fields:
  assumes 1: "in_bounds buf off1 w1" "lo1 \<le> v1" "v1 \<le> hi1"
    and 2: "in_bounds buf off2 w2" "lo2 \<le> v2" "v2 \<le> hi2"
    and disjoint: "off1 + int w1 \<le> off2 \<or> off2 + int w2 \<le> off1"
  shows "\<exists>buf1 buf2. wr1 buf v1 off1 na1 = Inr (off1 + int w1, buf1)
    \<and> wr2 buf1 v2 off2 na2 = Inr (off2 + int w2, buf2)
    \<and> rd1 buf2 off1 na1 = Inr (JNum v1) \<and> rd2 buf2 off2 na2 = Inr (JNum v2)"
proof -
  obtain buf1 where w1: "wr1 buf v1 off1 na1 = Inr (off1 + int w1, buf1)" "length buf1 = length buf"
    "rd1 buf1 off1 na1 = Inr (JNum v1)"
    using a.write_read [OF 1] by blast
  have "in_bounds buf1 off2 w2" using 2(1) w1(2) by (simp add: in_bounds_def)
  then obtain buf2 where w2: "wr2 buf1 v2 off2 na2 = Inr (off2 + int w2, buf2)"
    "length buf2 = length buf1" "rd2 buf2 off2 na2 = Inr (JNum v2)"
    "\<And>j. j < off2 \<or> off2 + int w2 \<le> j \<Longrightarrow> get buf2 j = get buf1 j"
    using b.write_read [of buf1 off2 v2] 2(2,3) by blast
  have "rd1 buf2 off1 na1 = rd1 buf1 off1 na1"
    using disjoint 1 w1(2) w2(2) by (intro a.read_local w2(4)) (auto simp: in_bounds_def)
  with w1 w2 show ?thesis by auto
qed

end

section \<open>The accessors are codecs\<close>

lemma wr_rejects:
  "v < min' \<or> max' < v \<Longrightarrow>
     checked_write buf v offset ext max' min' False buf' = Inl (RangeError ''\"value\" argument is out of bounds'')"
  by (auto simp: checked_write_def checkInt_def)

lemma rd_rejects:
  "offset < 0 \<or> int (length buf) < offset + ext \<Longrightarrow> \<exists>m. checked_read buf offset ext False r = Inl (RangeError m)"
  by (auto simp: checked_read_def checkOffset_def)

lemmas reads = readUInt8_def readUInt16LE_def readUInt16BE_def readUInt32LE_def readUInt32BE_def
  readInt8_def readInt16LE_def readInt16BE_def readInt32LE_def readInt32BE_def

lemmas writes = writeUInt8_def writeUInt16LE_def writeUInt16BE_def writeUInt32LE_def writeUInt32BE_def
  writeInt8_def writeInt16LE_def writeInt16BE_def writeInt32LE_def writeInt32BE_def

lemma checked_read_local:
  "length buf' = length buf \<Longrightarrow> r' = r \<Longrightarrow>
     checked_read buf' offset ext noAssert r' = checked_read buf offset ext noAssert r"
  by (simp add: checked_read_def)

lemma write_field_intro:
  assumes ok: "in_bounds buf offset w" "wr = checked_write buf v offset (int w) max' min' noAssert buf'"
    and range: "min' \<le> v" "v \<le> max'" and wrote: "wrote buf offset w f buf'"
    and rd: "\<And>b. wrote buf offset w f b \<Longrightarrow> rd b = checked_read b offset (int w) noAssert' (JNum v)"
  shows "\<exists>buf' f. wr = Inr (offset + int w, buf') \<and> wrote buf offset w f buf' \<and> rd buf' = Inr (JNum v)"
proof -
  have "in_bounds buf' offset w" using ok(1) wrote by (simp add: in_bounds_def wrote_def)
  then have "rd buf' = Inr (JNum v)" using rd [OF wrote] by (simp add: checked_read_ok)
  moreover have "wr = Inr (offset + int w, buf')"
    using ok range by (simp add: checked_write_ok)
  ultimately show ?thesis using wrote by blast
qed

lemma unsigned_id: "0 \<le> v \<Longrightarrow> v < 2 ^ n \<Longrightarrow> take_bit n v = (v::int)"
  by (simp add: take_bit_int_eq_self)

lemma octet_swap16: "js_or (js_shl (octet v 8) 8) (octet v 0) = take_bit 16 v"
  using octet_join16 [of v] by (simp add: js_or_commute)

lemma octet_join32_plus:
  "js_or (js_or (octet v 0) (js_shl (octet v 8) 8)) (js_shl (octet v 16) 16) + octet v 24 * 16777216 = take_bit 32 v"
  "octet v 24 * 16777216 + js_or (js_or (js_shl (octet v 16) 16) (js_shl (octet v 8) 8)) (octet v 0) = take_bit 32 v"
proof -
  have "take_bit 24 v + push_bit 24 (octet v 24) = take_bit 32 v"
    unfolding octet_def take_bit_drop_bit
    using take_bit_eq_self_iff_drop_bit_eq_0 bits_ident [of 24 "take_bit 32 v"] by (simp add: take_bit_take_bit)
  moreover have "js_or (js_or (js_shl (octet v 16) 16) (js_shl (octet v 8) 8)) (octet v 0) = take_bit 24 v"
    using octet_join24 [of v] by (simp add: js_or_ac)
  ultimately show
    "js_or (js_or (octet v 0) (js_shl (octet v 8) 8)) (js_shl (octet v 16) 16) + octet v 24 * 16777216 = take_bit 32 v"
    "octet v 24 * 16777216 + js_or (js_or (js_shl (octet v 16) 16) (js_shl (octet v 8) 8)) (octet v 0) = take_bit 32 v"
    by (simp_all add: octet_join24 push_bit_eq_mult)
qed

lemma octet_swap32:
  "js_or (js_or (js_or (js_shl (octet v 24) 24) (js_shl (octet v 16) 16)) (js_shl (octet v 8) 8)) (octet v 0) = toInt32 v"
  using octet_join32 [of v] by (simp add: js_or_ac)

lemma js_and_128:
  assumes "0 \<le> b" and "b < 256"
  shows "js_and b 128 = 128 * (b div 128)"
proof -
  have "bit (128::int) n \<longleftrightarrow> n = 7" for n
    using bit_exp_iff [where 'a = int, of 7 n] by auto
  then have "b AND 128 = push_bit 7 (drop_bit 7 (take_bit 8 (b::int)))"
    by (auto intro!: bit_eqI simp: bit_simps)
  moreover have "take_bit 8 b = b" using assms by (simp add: take_bit_int_eq_self)
  ultimately have "b AND 128 = 128 * (b div 128)" by (simp add: push_bit_eq_mult drop_bit_eq_div)
  then show ?thesis using assms by (simp add: js_and_def toInt32_small)
qed

lemma octet_int8_cases:
  assumes "- 128 \<le> v" "v \<le> 127"
  shows "(if js_and (octet v 0) 128 = 0 then octet v 0 else octet v 0 - 256) = v"
proof (cases "0 \<le> v")
  case True
  then show ?thesis using assms by (simp add: mod_256_octet [symmetric] js_and_128)
next
  case False
  then have "(v + 256) mod 256 = v + 256" using assms by (simp only: mod_pos_pos_trivial)
  then have "v mod 256 = v + 256" by simp
  then show ?thesis using assms False by (simp add: mod_256_octet [symmetric] js_and_128)
qed

lemma octet_int8:
  "- 128 \<le> v \<Longrightarrow> v \<le> 127 \<Longrightarrow> js_and (octet v 0) 128 = 0 \<Longrightarrow> octet v 0 = v"
  "- 128 \<le> v \<Longrightarrow> v \<le> 127 \<Longrightarrow> js_and (octet v 0) 128 \<noteq> 0 \<Longrightarrow> octet v 0 - 256 = v"
  using octet_int8_cases [of v] by simp_all

lemma toInt32_wrap: "- 2147483648 \<le> v \<Longrightarrow> v < 0 \<Longrightarrow> toInt32 (4294967296 + v) = v"
proof -
  assume "- 2147483648 \<le> v" "v < 0"
  moreover have "signed_take_bit 31 (2 ^ 32 + v) = signed_take_bit 31 v"
    by (rule signed_take_bit_eq_iff_take_bit_eq [THEN iffD2]) (simp add: take_bit_eq_mod)
  ultimately show ?thesis by (simp add: toInt32_def signed_take_bit_int_eq_self)
qed

lemma put_wrote:
  "in_bounds buf offset 2 \<Longrightarrow> wrote buf offset 2 (\<lambda>k. octet v (8 * k)) (put16LE ta buf v offset)"
  "in_bounds buf offset 2 \<Longrightarrow> wrote buf offset 2 (\<lambda>k. octet v (8 * (Suc 0 - k))) (put16BE ta buf v offset)"
  "in_bounds buf offset 4 \<Longrightarrow> wrote buf offset 4 (\<lambda>k. octet v (8 * (3 - k))) (put32BE ta buf v offset)"
  using put16LE_wrote [of buf offset v] put16BE_wrote [of buf offset v] put32BE_wrote [of buf offset v]
  by (simp_all only: ta_irrelevant [of _ _ ta] One_nat_def)

interpretation UInt8: field_codec "writeUInt8" "readUInt8" 1 "0" "255"
proof (unfold_locales, goal_cases)
  case (1 buf offset v noAssert noAssert')
  then show ?case
    by (intro write_field_intro [where f = "\<lambda>k. octet v (8 * k)" and noAssert' = noAssert'])
      (auto simp: writes reads Let_def in_bounds_offset wrote_gets put8_wrote mod_256_octet [symmetric])
next
  case 2 then show ?case by (auto simp: reads intro!: checked_read_local)
qed (auto simp: writes reads Let_def wr_rejects rd_rejects)

interpretation UInt16LE: field_codec "writeUInt16LE ta" "readUInt16LE" 2 "0" "65535" for ta
proof (unfold_locales, goal_cases)
  case (1 buf offset v noAssert noAssert')
  then show ?case
    by (intro write_field_intro [where f = "\<lambda>k. octet v (8 * k)" and noAssert' = noAssert'])
      (auto simp: writes reads Let_def in_bounds_offset wrote_gets put_wrote octet_join16 unsigned_id)
next
  case 2 then show ?case by (auto simp: reads intro!: checked_read_local)
qed (auto simp: writes reads Let_def wr_rejects rd_rejects)

interpretation UInt16BE: field_codec "writeUInt16BE ta" "readUInt16BE" 2 "0" "65535" for ta
proof (unfold_locales, goal_cases)
  case (1 buf offset v noAssert noAssert')
  then show ?case
    by (intro write_field_intro [where f = "\<lambda>k. octet v (8 * (1 - k))" and noAssert' = noAssert'])
      (auto simp: writes reads Let_def in_bounds_offset wrote_gets put_wrote octet_swap16 unsigned_id)
next
  case 2 then show ?case by (auto simp: reads intro!: checked_read_local)
qed (auto simp: writes reads Let_def wr_rejects rd_rejects)

interpretation UInt32LE: field_codec "writeUInt32LE ta" "readUInt32LE" 4 "0" "4294967295" for ta
proof (unfold_locales, goal_cases)
  case (1 buf offset v noAssert noAssert')
  then show ?case
    by (intro write_field_intro [where f = "\<lambda>k. octet v (8 * k)" and noAssert' = noAssert'])
      (auto simp: writes reads Let_def in_bounds_offset wrote_gets put32LE_wrote objectWriteUInt32_eq octet_join32_plus unsigned_id)
next
  case 2 then show ?case by (auto simp: reads intro!: checked_read_local)
qed (auto simp: writes reads Let_def wr_rejects rd_rejects)

interpretation UInt32BE: field_codec "writeUInt32BE ta" "readUInt32BE" 4 "0" "4294967295" for ta
proof (unfold_locales, goal_cases)
  case (1 buf offset v noAssert noAssert')
  then show ?case
    by (intro write_field_intro [where f = "\<lambda>k. octet v (8 * (3 - k))" and noAssert' = noAssert'])
      (auto simp: writes reads Let_def in_bounds_offset wrote_gets put_wrote octet_join32_plus unsigned_id)
next
  case 2 then show ?case by (auto simp: reads intro!: checked_read_local)
qed (auto simp: writes reads Let_def wr_rejects rd_rejects)

interpretation Int8: field_codec "writeInt8" "readInt8" 1 "-128" "127"
proof (unfold_locales, goal_cases)
  case (1 buf offset v noAssert noAssert')
  then show ?case
    by (intro write_field_intro [where f = "\<lambda>k. octet v (8 * k)" and noAssert' = noAssert'])
      (auto simp: writes reads Let_def in_bounds_offset wrote_gets put8_wrote octet_int8)
next
  case 2 then show ?case by (auto simp: reads intro!: checked_read_local)
qed (auto simp: writes reads Let_def wr_rejects rd_rejects)

interpretation Int16LE: field_codec "writeInt16LE ta" "readInt16LE" 2 "-32768" "32767" for ta
proof (unfold_locales, goal_cases)
  case (1 buf offset v noAssert noAssert')
  then show ?case
    by (intro write_field_intro [where f = "\<lambda>k. octet v (8 * k)" and noAssert' = noAssert'])
      (auto simp: writes reads Let_def in_bounds_offset wrote_gets put_wrote octet_join16 sign16_take_bit signed_id)
next
  case 2 then show ?case by (auto simp: reads intro!: checked_read_local)
qed (auto simp: writes reads Let_def wr_rejects rd_rejects)

interpretation Int16BE: field_codec "writeInt16BE ta" "readInt16BE" 2 "-32768" "32767" for ta
proof (unfold_locales, goal_cases)
  case (1 buf offset v noAssert noAssert')
  then show ?case
    by (intro write_field_intro [where f = "\<lambda>k. octet v (8 * (1 - k))" and noAssert' = noAssert'])
      (auto simp: writes reads Let_def in_bounds_offset wrote_gets put_wrote octet_join16 sign16_take_bit signed_id)
next
  case 2 then show ?case by (auto simp: reads intro!: checked_read_local)
qed (auto simp: writes reads Let_def wr_rejects rd_rejects)

interpretation Int32LE: field_codec "writeInt32LE ta" "readInt32LE" 4 "-2147483648" "2147483647" for ta
proof (unfold_locales, goal_cases)
  case (1 buf offset v noAssert noAssert')
  then show ?case
    by (intro write_field_intro [where f = "\<lambda>k. octet v (8 * k)" and noAssert' = noAssert'])
      (auto simp: writes reads Let_def in_bounds_offset wrote_gets put32LE_wrote objectWriteUInt32_eq octet_join32 toInt32_small)
next
  case 2 then show ?case by (auto simp: reads intro!: checked_read_local)
qed (auto simp: writes reads Let_def wr_rejects rd_rejects)

interpretation Int32BE: field_codec "writeInt32BE ta" "readInt32BE" 4 "-2147483648" "2147483647" for ta
proof (unfold_locales, goal_cases)
  case (1 buf offset v noAssert noAssert')
  then show ?case
    by (intro write_field_intro [where f = "\<lambda>k. octet (if v < 0 then 4294967295 + v + 1 else v) (8 * (3 - k))" and noAssert' = noAssert'])
      (auto simp: writes reads Let_def in_bounds_offset wrote_gets put_wrote octet_swap32 toInt32_small toInt32_wrap)
next
  case 2 then show ?case by (auto simp: reads intro!: checked_read_local)
qed (auto simp: writes reads Let_def wr_rejects rd_rejects)

text \<open>A header that mixes widths, byte orders and signs.\<close>

interpretation mixed: two_fields "writeUInt32BE ta" readUInt32BE 4 0 4294967295
  "writeInt16LE ta" readInt16LE 2 "-32768" 32767 for ta
  by unfold_locales

section \<open>The variable width accessors\<close>

lemma pow256: "(256::int) ^ k = 2 ^ (8 * k)"
  by (simp add: power_mult)

lemma octet_div: "v div 256 ^ k mod 256 = octet v (8 * k)"
  by (simp add: octet_def drop_bit_eq_div take_bit_eq_mod pow256)

lemma octet_mod: "octet v k mod 256 = octet v k" "octet (octet v 0) 0 = octet v 0"
  by (simp add: mod_pos_pos_trivial) (simp add: octet_def)

lemma js_quot_byte:
  assumes "0 \<le> v"
  shows "js_and (js_quot v (256 ^ k)) 255 mod 256 = octet v (8 * k)"
proof -
  have "js_quot v (256 ^ k) = v div 256 ^ k" using assms by (simp add: js_quot_nonneg)
  then show ?thesis by (simp add: js_and_255 octet_div octet_mod)
qed

text \<open>The borrow \<open>sub\<close> turns the truncating division into the flooring one.\<close>

definition borrow :: "int \<Rightarrow> nat \<Rightarrow> int" where
  "borrow v k = (if v < 0 \<and> v mod 256 ^ k \<noteq> 0 then 1 else 0)"

lemma js_quot_borrow: "js_quot v (256 ^ k) - borrow v k = v div 256 ^ k"
proof (cases "v < 0")
  case True
  define m where "m = (256::int) ^ k"
  have "0 < m" by (simp add: m_def)
  moreover have "- (v div m) = - v div m + (if v mod m = 0 then 0 else 1)"
    by (simp add: zdiv_zminus1_eq_if \<open>0 < m\<close> less_imp_neq [THEN not_sym])
  ultimately have "js_quot v m = v div m + (if v mod m = 0 then 0 else 1)"
    using True by (simp add: js_quot_def)
  then show ?thesis using True by (simp add: borrow_def m_def)
qed (simp add: borrow_def js_quot_nonneg)

lemma toInt32_mod_256: "(toInt32 x - s) mod 256 = (x - s) mod 256"
proof -
  have "take_bit 8 (toInt32 x) = take_bit 8 x"
    unfolding toInt32_def by (rule bit_eqI) (auto simp: bit_simps)
  then have "toInt32 x mod 256 = x mod 256" by (simp add: take_bit_eq_mod)
  then show ?thesis by (metis mod_diff_left_eq)
qed

lemma signed_byte:
  "js_and (js_shr (js_quot v (256 ^ k)) 0 - borrow v k) 255 mod 256 = octet v (8 * k)"
proof -
  have "js_shr x 0 = toInt32 x" for x by (simp add: js_shr_def)
  then show ?thesis by (simp only: js_and_255 toInt32_mod_256 js_quot_borrow octet_div octet_mod)
qed

lemma borrow_Suc:
  "(if v < 0 \<and> borrow v k = 0 \<and> octet v (8 * k) \<noteq> 0 then 1 else borrow v k) = borrow v (Suc k)"
proof -
  define m r d where "m = (256::int) ^ k" and "r = v mod m" and "d = octet v (8 * k)"
  have "v mod (m * 256) = m * (v div m mod 256) + v mod m"
    by (rule zmod_zmult2_eq) simp
  then have "v mod (m * 256) = m * d + r"
    by (simp only: d_def r_def m_def octet_div)
  moreover have "0 \<le> r" "0 \<le> d" "0 < m" by (simp_all add: m_def r_def d_def)
  ultimately have "v mod (m * 256) = 0 \<longleftrightarrow> d = 0 \<and> r = 0"
    using add_nonneg_eq_0_iff [of "m * d" r] by (simp only: mult_nonneg_nonneg less_imp_le mult_eq_0_iff) auto
  then have "v mod 256 ^ Suc k = 0 \<longleftrightarrow> octet v (8 * k) = 0 \<and> v mod 256 ^ k = 0"
    by (simp only: d_def r_def m_def power_Suc2)
  then show ?thesis unfolding borrow_def
    by (cases "v < 0"; cases "v mod 256 ^ k = 0"; cases "octet v (8 * k) = 0"; simp only: simp_thms if_True if_False)
      simp_all
qed

lemma wrote_start:
  "in_bounds buf offset n \<Longrightarrow> 0 < n \<Longrightarrow> i < n \<Longrightarrow> x mod 256 = f 0 \<Longrightarrow>
     wrote buf (offset + int i) (Suc 0) f (set_at buf (offset + int i) x)"
  by (auto simp: wrote_def in_bounds_def get_set_at nat_minus_eq)

lemma wrote_upwards:
  assumes "wrote buf0 offset m f buf" "in_bounds buf0 offset n" "m < n" "x mod 256 = f m"
  shows "wrote buf0 offset (Suc m) f (set_at buf (offset + int m) x)"
  using assms by (auto simp: wrote_def in_bounds_def get_set_at nat_minus_eq)

lemma wrote_downwards:
  assumes "wrote buf0 (offset + int (Suc i)) m f buf" "in_bounds buf0 offset n" "i < n"
    and "x mod 256 = g 0" "\<And>k. k < m \<Longrightarrow> g (Suc k) = f k"
  shows "wrote buf0 (offset + int i) (Suc m) g (set_at buf (offset + int i) x)"
proof -
  have "g (nat (j - (offset + int i))) = f (nat (j - (offset + int (Suc i))))"
    if "offset + int (Suc i) \<le> j" "j < offset + int (Suc i) + int m" for j
    using that assms(5) [of "nat (j - (offset + int (Suc i)))"] by (simp add: Suc_nat_eq_nat_zadd1 algebra_simps)
  then show ?thesis using assms(1-4) by (auto simp: wrote_def in_bounds_def get_set_at)
qed

text \<open>\<open>octet\<close> of a value at the \<open>k\<close>th byte of a field of \<open>n\<close> bytes, in the two byte orders.\<close>

abbreviation le_byte :: "int \<Rightarrow> nat \<Rightarrow> int" where
  "le_byte v \<equiv> \<lambda>k. octet v (8 * k)"

abbreviation be_byte :: "int \<Rightarrow> nat \<Rightarrow> nat \<Rightarrow> int" where
  "be_byte v n \<equiv> \<lambda>k. octet v (8 * (n - Suc k))"

lemma writeLE_loop_wrote:
  assumes "wrote buf0 offset (Suc i) (le_byte v) buf" "in_bounds buf0 offset n" "Suc i \<le> n" "0 \<le> v"
  shows "wrote buf0 offset n (le_byte v) (writeLE_loop buf v offset (int n) (int i) (256 ^ i))"
  using assms
proof (induction "n - i" arbitrary: buf i rule: less_induct)
  case less
  show ?case
  proof (cases "Suc i < n")
    case True
    have "js_and (js_quot v (256 ^ Suc i)) 255 mod 256 = le_byte v (Suc i)"
      by (rule js_quot_byte) (use less.prems in simp)
    from wrote_upwards [OF less.prems(1,2) True this] less.hyps [of "Suc i"] True less.prems
    show ?thesis by (subst writeLE_loop.simps) (simp add: mult.commute add.commute)
  next
    case False
    then have "Suc i = n" using less.prems by simp
    with less.prems show ?thesis by (subst writeLE_loop.simps) auto
  qed
qed

lemma writeBE_loop_wrote:
  assumes "wrote buf0 (offset + int i) (n - i) (be_byte v (n - i)) buf" "in_bounds buf0 offset n" "i < n" "0 \<le> v"
  shows "wrote buf0 offset n (be_byte v n) (writeBE_loop buf v offset (int i) (256 ^ (n - 1 - i)))"
  using assms
proof (induction i arbitrary: buf)
  case 0
  then show ?case by (subst writeBE_loop.simps) simp
next
  case (Suc i)
  have "js_and (js_quot v (256 ^ (n - 1 - i))) 255 mod 256 = be_byte v (n - i) 0"
    using js_quot_byte [OF Suc.prems(4), of "n - 1 - i"] by simp
  from wrote_downwards [OF Suc.prems(1,2), where g = "be_byte v (n - i)"] Suc.prems(3) this
  have "wrote buf0 (offset + int i) (Suc (n - Suc i)) (be_byte v (n - i))
     (set_at buf (offset + int i) (js_and (js_quot v (256 ^ (n - 1 - i))) 255))" by simp
  moreover have "256 ^ (n - 1 - Suc i) * 256 = (256::int) ^ (n - 1 - i)" "Suc (n - Suc i) = n - i"
    using Suc.prems(3) by (simp_all add: power_Suc2 [symmetric] Suc_diff_Suc del: power_Suc)
  ultimately show ?case using Suc.IH Suc.prems by (subst writeBE_loop.simps) simp
qed

lemma writeIntLE_loop_wrote:
  assumes "wrote buf0 offset (Suc i) (le_byte v) buf" "in_bounds buf0 offset n" "Suc i \<le> n"
  shows "wrote buf0 offset n (le_byte v) (writeIntLE_loop buf v offset (int n) (int i) (256 ^ i) (borrow v i))"
  using assms
proof (induction "n - i" arbitrary: buf i rule: less_induct)
  case less
  show ?case
  proof (cases "Suc i < n")
    case True
    have "byte_nonzero buf (offset + int i) \<longleftrightarrow> octet v (8 * i) \<noteq> 0"
      using wrote_get [OF less.prems(1), of i] by (simp add: byte_nonzero_def)
    then have "(if v < 0 \<and> borrow v i = 0 \<and> byte_nonzero buf (offset + int i) then 1 else borrow v i)
        = borrow v (Suc i)" by (simp only: borrow_Suc)
    with wrote_upwards [OF less.prems(1,2) True signed_byte] less.hyps [of "Suc i"] True less.prems
    show ?thesis by (subst writeIntLE_loop.simps) (simp add: Let_def mult.commute add.commute)
  next
    case False
    then have "Suc i = n" using less.prems by simp
    with less.prems show ?thesis by (subst writeIntLE_loop.simps) auto
  qed
qed

lemma writeIntBE_loop_wrote:
  assumes "wrote buf0 (offset + int i) (n - i) (be_byte v (n - i)) buf" "in_bounds buf0 offset n" "i < n"
  shows "wrote buf0 offset n (be_byte v n)
    (writeIntBE_loop buf v offset (int i) (256 ^ (n - 1 - i)) (borrow v (n - 1 - i)))"
  using assms
proof (induction i arbitrary: buf)
  case 0
  then show ?case by (subst writeIntBE_loop.simps) simp
next
  case (Suc i)
  define j where "j = n - 1 - Suc i"
  have k: "n - 1 - i = Suc j" "Suc (n - Suc i) = n - i" using Suc.prems(3) by (simp_all add: j_def)
  have "byte_nonzero buf (offset + int i + 1) \<longleftrightarrow> octet v (8 * j) \<noteq> 0"
    using wrote_get [OF Suc.prems(1), of 0] Suc.prems(3) by (simp add: byte_nonzero_def ac_simps j_def)
  then have b: "(if v < 0 \<and> borrow v j = 0 \<and> byte_nonzero buf (offset + int i + 1) then 1 else borrow v j)
      = borrow v (Suc j)" by (simp only: borrow_Suc)
  have "wrote buf0 (offset + int i) (Suc (n - Suc i)) (be_byte v (n - i))
     (set_at buf (offset + int i) (js_and (js_shr (js_quot v (256 ^ Suc j)) 0 - borrow v (Suc j)) 255))"
  proof (rule wrote_downwards [OF Suc.prems(1,2)])
    show "js_and (js_shr (js_quot v (256 ^ Suc j)) 0 - borrow v (Suc j)) 255 mod 256 = be_byte v (n - i) 0"
      using signed_byte [of v "Suc j"] k(1) by (simp only: diff_right_commute [of n i] One_nat_def)
  qed (use Suc.prems(3) in simp_all)
  moreover have "writeIntBE_loop buf v offset (int (Suc i)) (256 ^ j) (borrow v j)
    = writeIntBE_loop
       (set_at buf (offset + int i) (js_and (js_shr (js_quot v (256 ^ Suc j)) 0 - borrow v (Suc j)) 255))
       v offset (int i) (256 ^ Suc j) (borrow v (Suc j))"
    by (subst writeIntBE_loop.simps) (simp add: Let_def b power_Suc2 del: power_Suc split del: if_split)
  ultimately show ?case using Suc.IH Suc.prems(2,3) k by (simp only: j_def [symmetric])
qed

lemma take_bit_octet: "take_bit (8 * k) v + octet v (8 * k) * 256 ^ k = take_bit (8 * Suc k) v"
proof -
  have "take_bit (8 * k) v = take_bit (8 * k) (take_bit (8 * Suc k) v)" by (simp add: take_bit_take_bit)
  moreover have "octet v (8 * k) = drop_bit (8 * k) (take_bit (8 * Suc k) v)"
    by (simp add: octet_def drop_bit_take_bit)
  ultimately show ?thesis
    using bits_ident [of "8 * k" "take_bit (8 * Suc k) v"] by (simp add: push_bit_eq_mult pow256 add.commute)
qed

lemma readLE_loop_wrote:
  assumes "wrote buf0 offset n (le_byte v) buf" "i < n"
  shows "readLE_loop buf offset (int n) (int i) (256 ^ i) (JNum (take_bit (8 * Suc i) v))
     = (JNum (take_bit (8 * n) v), 256 ^ (n - 1))"
  using assms
proof (induction "n - i" arbitrary: i rule: less_induct)
  case less
  show ?case
  proof (cases "Suc i < n")
    case True
    with wrote_get [OF less.prems(1) True] less.hyps [of "Suc i"] less.prems take_bit_octet [of "Suc i" v]
    show ?thesis by (subst readLE_loop.simps) (simp add: mult.commute add.commute)
  next
    case False
    then have "Suc i = n" using less.prems by simp
    with less.prems show ?thesis by (subst readLE_loop.simps) auto
  qed
qed

lemma readBE_loop_wrote:
  assumes "wrote buf0 offset n (be_byte v n) buf" "i < n"
  shows "readBE_loop buf offset (int i) (256 ^ (n - 1 - i)) (JNum (take_bit (8 * (n - i)) v))
     = (JNum (take_bit (8 * n) v), 256 ^ (n - 1))"
  using assms(2)
proof (induction i)
  case 0
  then show ?case by (subst readBE_loop.simps) simp
next
  case (Suc i)
  have k: "n - 1 - i = Suc (n - 1 - Suc i)" "n - i = Suc (n - Suc i)" "n - Suc i = Suc (n - 1 - Suc i)"
    using Suc.prems by simp_all
  have "get buf (offset + int i) = JNum (octet v (8 * (n - Suc i)))"
    using wrote_get [OF assms(1), of i] Suc.prems by (simp add: algebra_simps)
  with Suc k take_bit_octet [of "n - Suc i" v] show ?case
    by (subst readBE_loop.simps) (simp add: mult.commute add.commute)
qed

lemma num_wrap_signed:
  assumes "0 < n" "- (2 ^ (8 * n - 1)) \<le> v" "v < 2 ^ (8 * n - 1)"
  shows "num_wrap (JNum (take_bit (8 * n) v)) (256 ^ (n - 1) * 128) (2 ^ (8 * n)) = JNum v"
proof -
  define m where "m = (2::int) ^ (8 * n - 1)"
  have m: "256 ^ (n - 1) * 128 = m" "2 ^ (8 * n) = 2 * m"
    using assms(1) by (cases n; simp add: m_def pow256 power_add)+
  show ?thesis
  proof (cases "0 \<le> v")
    case True
    with assms m have "take_bit (8 * n) v = v" by (simp add: take_bit_int_eq_self m_def)
    then show ?thesis using assms(3) by (simp only: m num_wrap.simps m_def [symmetric]) simp
  next
    case False
    then have "(v + 2 * m) mod (2 * m) = v + 2 * m"
      using assms by (intro mod_pos_pos_trivial) (simp_all add: m_def)
    then have "take_bit (8 * n) v = v + 2 * m" by (simp add: take_bit_eq_mod m)
    then show ?thesis using assms(2) by (simp only: m num_wrap.simps m_def [symmetric]) simp
  qed
qed

lemma width_int: "n \<le> 6 \<Longrightarrow> js_or (int n) 0 = int n"
  by (simp add: js_or_zero toInt32_nonneg)

lemma nat8: "nat (8 * int n) = 8 * n" "nat (8 * int n - 1) = 8 * n - Suc 0"
  by simp_all

lemma wrote_values:
  assumes "wrote buf offset n f b" "0 < n"
  shows "get b offset = JNum (f 0)" "get b (offset + (int n - 1)) = JNum (f (n - Suc 0))"
  using wrote_get [OF assms(1), of 0] wrote_get [OF assms(1), of "n - 1"] assms(2)
  by (simp_all add: of_nat_diff)

lemma octet_low: "octet v 0 = take_bit 8 v"
  by (simp add: octet_def)

lemma readUInt_wrote:
  assumes "in_bounds buf offset n" "0 < n" "n \<le> 6"
  shows "wrote buf offset n (le_byte v) b \<Longrightarrow>
      readUIntLE b offset (int n) noAssert = checked_read b offset (int n) noAssert (JNum (take_bit (8 * n) v))"
    and "wrote buf offset n (be_byte v n) b \<Longrightarrow>
      readUIntBE b offset (int n) noAssert = checked_read b offset (int n) noAssert (JNum (take_bit (8 * n) v))"
proof -
  assume w: "wrote buf offset n (le_byte v) b"
  then show "readUIntLE b offset (int n) noAssert = checked_read b offset (int n) noAssert (JNum (take_bit (8 * n) v))"
    using readLE_loop_wrote [OF w, of 0] wrote_values [OF w] assms
    by (simp add: readUIntLE_def Let_def in_bounds_offset width_int octet_low)
next
  assume w: "wrote buf offset n (be_byte v n) b"
  then show "readUIntBE b offset (int n) noAssert = checked_read b offset (int n) noAssert (JNum (take_bit (8 * n) v))"
    using readBE_loop_wrote [OF w, of "n - 1"] wrote_values [OF w] assms
    by (simp add: readUIntBE_def Let_def in_bounds_offset width_int octet_low of_nat_diff)
qed

lemma readInt_wrote:
  assumes "in_bounds buf offset n" "0 < n" "n \<le> 6" "- (2 ^ (8 * n - 1)) \<le> v" "v < 2 ^ (8 * n - 1)"
  shows "wrote buf offset n (le_byte v) b \<Longrightarrow>
      readIntLE b offset (int n) noAssert = checked_read b offset (int n) noAssert (JNum v)"
    and "wrote buf offset n (be_byte v n) b \<Longrightarrow>
      readIntBE b offset (int n) noAssert = checked_read b offset (int n) noAssert (JNum v)"
proof -
  have n: "nat (8 * int n) = 8 * n" by simp
  note wrap = num_wrap_signed [OF assms(2,4,5), unfolded One_nat_def]
  {
    assume w: "wrote buf offset n (le_byte v) b"
    have "readLE_loop b offset (int n) 0 1 (get b offset) = (JNum (take_bit (8 * n) v), 256 ^ (n - 1))"
      using readLE_loop_wrote [OF w, of 0] wrote_values [OF w] assms by (simp add: octet_low)
    then show "readIntLE b offset (int n) noAssert = checked_read b offset (int n) noAssert (JNum v)"
      using assms by (simp add: readIntLE_def Let_def in_bounds_offset width_int n wrap del: num_wrap.simps)
  next
    assume w: "wrote buf offset n (be_byte v n) b"
    have "readBE_loop b offset (int n - 1) 1 (get b (offset + (int n - 1))) = (JNum (take_bit (8 * n) v), 256 ^ (n - 1))"
      using readBE_loop_wrote [OF w, of "n - 1"] wrote_values [OF w] assms by (simp add: octet_low of_nat_diff)
    then show "readIntBE b offset (int n) noAssert = checked_read b offset (int n) noAssert (JNum v)"
      using assms by (simp add: readIntBE_def Let_def in_bounds_offset width_int n wrap del: num_wrap.simps)
  }
qed

lemma readLE_loop_local:
  assumes "\<And>j. offset \<le> j \<Longrightarrow> j < offset + n \<Longrightarrow> get buf' j = get buf j" and "0 \<le> i"
  shows "readLE_loop buf' offset n i mul val = readLE_loop buf offset n i mul val"
  using assms(2)
proof (induction "nat (n - i)" arbitrary: i mul val rule: less_induct)
  case less
  show ?case using less.hyps [of "i + 1"] less.prems assms(1) [of "offset + (i + 1)"]
    by (subst (1 2) readLE_loop.simps) simp
qed

lemma readBE_loop_local:
  assumes "\<And>j. offset \<le> j \<Longrightarrow> j < offset + n \<Longrightarrow> get buf' j = get buf j" and "k \<le> n"
  shows "readBE_loop buf' offset k mul val = readBE_loop buf offset k mul val"
  using assms(2)
proof (induction "nat k" arbitrary: k mul val rule: less_induct)
  case less
  show ?case using less.hyps [of "k - 1"] less.prems assms(1) [of "offset + (k - 1)"]
    by (subst (1 2) readBE_loop.simps) simp
qed

lemmas variable_width = readUIntLE_def readUIntBE_def readIntLE_def readIntBE_def
  writeUIntLE_def writeUIntBE_def writeIntLE_def writeIntBE_def

lemma rd_rejects_offset:
  "- (2 ^ 31) \<le> offset \<Longrightarrow> offset < 2 ^ 31 \<Longrightarrow> offset < 0 \<or> int (length buf) < offset + ext \<Longrightarrow>
     \<exists>m. checked_read buf (js_or offset 0) ext False r = Inl (RangeError m)"
  by (rule rd_rejects) (auto simp: js_or_zero toInt32_small)

lemma first_byte_wrote:
  assumes "in_bounds buf offset n" "0 < n"
  shows "wrote buf offset (Suc 0) (le_byte v) (set_at buf offset (js_and v 255))"
    and "wrote buf (offset + int (n - 1)) (Suc 0) (be_byte v (Suc 0)) (set_at buf (offset + int (n - 1)) (js_and v 255))"
proof -
  have "js_and v 255 mod 256 = octet v 0" by (simp add: js_and_255 mod_256_octet octet_mod)
  then show "wrote buf offset (Suc 0) (le_byte v) (set_at buf offset (js_and v 255))"
    "wrote buf (offset + int (n - 1)) (Suc 0) (be_byte v (Suc 0)) (set_at buf (offset + int (n - 1)) (js_and v 255))"
    using wrote_start [OF assms, of 0 _ "le_byte v"] wrote_start [OF assms, of "n - 1" _ "be_byte v (Suc 0)"] assms(2)
    by simp_all
qed

lemma writeUInt_wrote:
  assumes "in_bounds buf offset n" "0 < n" "0 \<le> v"
  shows "wrote buf offset n (le_byte v)
      (writeLE_loop (set_at buf offset (js_and v 255)) v offset (int n) 0 1)"
    and "wrote buf offset n (be_byte v n)
      (writeBE_loop (set_at buf (offset + (int n - 1)) (js_and v 255)) v offset (int n - 1) 1)"
proof -
  note w = first_byte_wrote [OF assms(1,2), of v]
  show "wrote buf offset n (le_byte v) (writeLE_loop (set_at buf offset (js_and v 255)) v offset (int n) 0 1)"
    using writeLE_loop_wrote [OF w(1) assms(1)] assms by simp
  show "wrote buf offset n (be_byte v n) (writeBE_loop (set_at buf (offset + (int n - 1)) (js_and v 255)) v offset (int n - 1) 1)"
    using writeBE_loop_wrote [of buf offset "n - 1" n v] w(2) assms by (simp add: of_nat_diff)
qed

lemma writeInt_wrote:
  assumes "in_bounds buf offset n" "0 < n"
  shows "wrote buf offset n (le_byte v)
      (writeIntLE_loop (set_at buf offset (js_and v 255)) v offset (int n) 0 1 0)"
    and "wrote buf offset n (be_byte v n)
      (writeIntBE_loop (set_at buf (offset + (int n - 1)) (js_and v 255)) v offset (int n - 1) 1 0)"
proof -
  note w = first_byte_wrote [OF assms(1,2), of v]
  have b: "borrow v 0 = 0" by (simp add: borrow_def)
  show "wrote buf offset n (le_byte v) (writeIntLE_loop (set_at buf offset (js_and v 255)) v offset (int n) 0 1 0)"
    using writeIntLE_loop_wrote [OF w(1) assms(1)] assms b by simp
  show "wrote buf offset n (be_byte v n) (writeIntBE_loop (set_at buf (offset + (int n - 1)) (js_and v 255)) v offset (int n - 1) 1 0)"
    using writeIntBE_loop_wrote [of buf offset "n - 1" n v] w(2) assms b by (simp add: of_nat_diff)
qed

text \<open>Every width up to six bytes, the widths whose values a double represents exactly, is a codec.\<close>

lemma uintLE_codec:
  assumes n: "0 < n" "n \<le> 6"
  shows "field_codec (\<lambda>buf v offset. writeUIntLE buf v offset (int n)) (\<lambda>buf offset. readUIntLE buf offset (int n))
    n (0) (2 ^ (8 * n) - 1)"
proof (unfold_locales, goal_cases)
  case (1 buf offset v noAssert noAssert')
  then show ?case using n
    by (intro write_field_intro [where f = "le_byte v" and noAssert' = noAssert' and max' = "2 ^ (8 * n) - 1" and min' = "0"])
      (auto simp: writeUIntLE_def Let_def in_bounds_offset width_int nat8 readUInt_wrote [of buf offset n] unsigned_id
        intro!: writeUInt_wrote)
next
  case (2 buf offset buf' noAssert)
  then show ?case using n
    by (auto simp: readUIntLE_def Let_def in_bounds_offset width_int readLE_loop_local [of offset "int n" buf' buf]
        intro!: checked_read_local split: prod.split)
qed (use n in \<open>auto simp: variable_width Let_def width_int wr_rejects nat8 split_beta intro!: rd_rejects_offset\<close>)

lemma uintBE_codec:
  assumes n: "0 < n" "n \<le> 6"
  shows "field_codec (\<lambda>buf v offset. writeUIntBE buf v offset (int n)) (\<lambda>buf offset. readUIntBE buf offset (int n))
    n (0) (2 ^ (8 * n) - 1)"
proof (unfold_locales, goal_cases)
  case (1 buf offset v noAssert noAssert')
  then show ?case using n
    by (intro write_field_intro [where f = "be_byte v n" and noAssert' = noAssert' and max' = "2 ^ (8 * n) - 1" and min' = "0"])
      (auto simp: writeUIntBE_def Let_def in_bounds_offset width_int nat8 readUInt_wrote [of buf offset n] unsigned_id
        intro!: writeUInt_wrote)
next
  case (2 buf offset buf' noAssert)
  then show ?case using n
    by (auto simp: readUIntBE_def Let_def in_bounds_offset width_int readBE_loop_local [of offset "int n" buf' buf]
        intro!: checked_read_local split: prod.split)
qed (use n in \<open>auto simp: variable_width Let_def width_int wr_rejects nat8 split_beta intro!: rd_rejects_offset\<close>)

lemma intLE_codec:
  assumes n: "0 < n" "n \<le> 6"
  shows "field_codec (\<lambda>buf v offset. writeIntLE buf v offset (int n)) (\<lambda>buf offset. readIntLE buf offset (int n))
    n (- (2 ^ (8 * n - 1))) (2 ^ (8 * n - 1) - 1)"
proof (unfold_locales, goal_cases)
  case (1 buf offset v noAssert noAssert')
  then show ?case using n
    by (intro write_field_intro [where f = "le_byte v" and noAssert' = noAssert' and max' = "2 ^ (8 * n - 1) - 1" and min' = "- (2 ^ (8 * n - 1))"])
      (auto simp: writeIntLE_def Let_def in_bounds_offset width_int nat8 readInt_wrote [of buf offset n] unsigned_id
        intro!: writeInt_wrote)
next
  case (2 buf offset buf' noAssert)
  then show ?case using n
    by (auto simp: readIntLE_def Let_def in_bounds_offset width_int readLE_loop_local [of offset "int n" buf' buf]
        intro!: checked_read_local split: prod.split)
qed (use n in \<open>auto simp: variable_width Let_def width_int wr_rejects nat8 split_beta intro!: rd_rejects_offset\<close>)

lemma intBE_codec:
  assumes n: "0 < n" "n \<le> 6"
  shows "field_codec (\<lambda>buf v offset. writeIntBE buf v offset (int n)) (\<lambda>buf offset. readIntBE buf offset (int n))
    n (- (2 ^ (8 * n - 1))) (2 ^ (8 * n - 1) - 1)"
proof (unfold_locales, goal_cases)
  case (1 buf offset v noAssert noAssert')
  then show ?case using n
    by (intro write_field_intro [where f = "be_byte v n" and noAssert' = noAssert' and max' = "2 ^ (8 * n - 1) - 1" and min' = "- (2 ^ (8 * n - 1))"])
      (auto simp: writeIntBE_def Let_def in_bounds_offset width_int nat8 readInt_wrote [of buf offset n] unsigned_id
        intro!: writeInt_wrote)
next
  case (2 buf offset buf' noAssert)
  then show ?case using n
    by (auto simp: readIntBE_def Let_def in_bounds_offset width_int readBE_loop_local [of offset "int n" buf' buf]
        intro!: checked_read_local split: prod.split)
qed (use n in \<open>auto simp: variable_width Let_def width_int wr_rejects nat8 split_beta intro!: rd_rejects_offset\<close>)

interpretation Int48LE: field_codec "\<lambda>buf v offset. writeIntLE buf v offset 6" "\<lambda>buf offset. readIntLE buf offset 6"
  6 "- (2 ^ 47)" "2 ^ 47 - 1"
  using intLE_codec [of 6] by simp

interpretation UInt48BE: field_codec "\<lambda>buf v offset. writeUIntBE buf v offset 6" "\<lambda>buf offset. readUIntBE buf offset 6"
  6 0 "2 ^ 48 - 1"
  using uintBE_codec [of 6] by simp

interpretation timestamped: two_fields "\<lambda>buf v offset. writeUIntBE buf v offset 6" "\<lambda>buf offset. readUIntBE buf offset 6"
  6 0 "2 ^ 48 - 1" "writeInt16LE ta" readInt16LE 2 "-32768" 32767 for ta
  by unfold_locales

section \<open>The properties of the accessors\<close>

text \<open>C32: a signed integer of one to six bytes, written by \<^verbatim>\<open>writeIntLE\<close> at an offset where it fits, is read
  back by \<^verbatim>\<open>readIntLE\<close>: the borrow that the writer keeps in \<^verbatim>\<open>sub\<close> yields the two's complement bytes. The
  write returns the offset behind the field and changes no other byte and not the length.\<close>

theorem writeIntLE_readIntLE:
  assumes "in_bounds buf offset n" "0 < n" "n \<le> 6" "- (2 ^ (8 * n - 1)) \<le> v" "v \<le> 2 ^ (8 * n - 1) - 1"
  shows "\<exists>buf'. writeIntLE buf v offset (int n) noAssert = Inr (offset + int n, buf') \<and> length buf' = length buf
    \<and> (\<forall>j. j < offset \<or> offset + int n \<le> j \<longrightarrow> get buf' j = get buf j)
    \<and> readIntLE buf' offset (int n) noAssert' = Inr (JNum v)"
  by (rule field_codec.write_read [OF intLE_codec [OF assms(2,3)] assms(1,4,5)])

theorem writeIntLE_readIntLE_witness:
  "\<exists>buf'. writeIntLE [9, 9, 9, 9, 9] (- 70000) 1 (int 3) False = Inr (1 + int 3, buf')
    \<and> length buf' = length [9, 9, 9, 9, 9 :: byte]
    \<and> (\<forall>j. j < 1 \<or> 1 + int 3 \<le> j \<longrightarrow> get buf' j = get [9, 9, 9, 9, 9] j)
    \<and> readIntLE buf' 1 (int 3) False = Inr (JNum (- 70000))"
  by (rule writeIntLE_readIntLE) (simp_all add: in_bounds_def)

text \<open>The same for \<^verbatim>\<open>writeIntBE\<close> and \<^verbatim>\<open>readIntBE\<close>, which walk the field from its last byte.\<close>

theorem writeIntBE_readIntBE:
  assumes "in_bounds buf offset n" "0 < n" "n \<le> 6" "- (2 ^ (8 * n - 1)) \<le> v" "v \<le> 2 ^ (8 * n - 1) - 1"
  shows "\<exists>buf'. writeIntBE buf v offset (int n) noAssert = Inr (offset + int n, buf') \<and> length buf' = length buf
    \<and> (\<forall>j. j < offset \<or> offset + int n \<le> j \<longrightarrow> get buf' j = get buf j)
    \<and> readIntBE buf' offset (int n) noAssert' = Inr (JNum v)"
  by (rule field_codec.write_read [OF intBE_codec [OF assms(2,3)] assms(1,4,5)])

theorem writeIntBE_readIntBE_witness:
  "\<exists>buf'. writeIntBE [9, 9, 9, 9, 9] (- 256) 0 (int 5) True = Inr (0 + int 5, buf')
    \<and> length buf' = length [9, 9, 9, 9, 9 :: byte]
    \<and> (\<forall>j. j < 0 \<or> 0 + int 5 \<le> j \<longrightarrow> get buf' j = get [9, 9, 9, 9, 9] j)
    \<and> readIntBE buf' 0 (int 5) False = Inr (JNum (- 256))"
  by (rule writeIntBE_readIntBE) (simp_all add: in_bounds_def)

text \<open>A signed 32-bit integer written by \<^verbatim>\<open>writeInt32BE\<close>, on either of its two implementations, is read
  back by \<^verbatim>\<open>readInt32BE\<close>; no other byte changes.\<close>

theorem writeInt32BE_readInt32BE:
  assumes "in_bounds buf offset 4" "- 2147483648 \<le> v" "v \<le> 2147483647"
  shows "\<exists>buf'. writeInt32BE ta buf v offset noAssert = Inr (offset + int 4, buf') \<and> length buf' = length buf
    \<and> (\<forall>j. j < offset \<or> offset + int 4 \<le> j \<longrightarrow> get buf' j = get buf j)
    \<and> readInt32BE buf' offset noAssert' = Inr (JNum v)"
  by (rule Int32BE.write_read [OF assms])

theorem writeInt32BE_readInt32BE_witness:
  "\<exists>buf'. writeInt32BE False [1, 2, 3, 4, 5] (- 2147483648) 1 False = Inr (1 + int 4, buf')
    \<and> length buf' = length [1, 2, 3, 4, 5 :: byte]
    \<and> (\<forall>j. j < 1 \<or> 1 + int 4 \<le> j \<longrightarrow> get buf' j = get [1, 2, 3, 4, 5] j)
    \<and> readInt32BE buf' 1 False = Inr (JNum (- 2147483648))"
  by (rule writeInt32BE_readInt32BE) (simp_all add: in_bounds_def)

text \<open>Two fields that do not overlap, one an unsigned 32-bit big endian integer and one a signed 16-bit
  little endian one, are written one after the other and both are read back.\<close>

theorem independent_UInt32BE_Int16LE:
  assumes "in_bounds buf off1 4" "0 \<le> v1" "v1 \<le> 4294967295"
    and "in_bounds buf off2 2" "- 32768 \<le> v2" "v2 \<le> 32767"
    and "off1 + int 4 \<le> off2 \<or> off2 + int 2 \<le> off1"
  shows "\<exists>buf1 buf2. writeUInt32BE ta buf v1 off1 na1 = Inr (off1 + int 4, buf1)
    \<and> writeInt16LE ta buf1 v2 off2 na2 = Inr (off2 + int 2, buf2)
    \<and> readUInt32BE buf2 off1 na1 = Inr (JNum v1) \<and> readInt16LE buf2 off2 na2 = Inr (JNum v2)"
  using assms by (rule mixed.independent_fields)

theorem independent_UInt32BE_Int16LE_witness:
  "\<exists>buf1 buf2. writeUInt32BE True [0, 0, 0, 0, 0, 0, 0] 4026531841 3 False = Inr (3 + int 4, buf1)
    \<and> writeInt16LE True buf1 (- 2) 1 False = Inr (1 + int 2, buf2)
    \<and> readUInt32BE buf2 3 False = Inr (JNum 4026531841) \<and> readInt16LE buf2 1 False = Inr (JNum (- 2))"
  by (rule independent_UInt32BE_Int16LE) (simp_all add: in_bounds_def)

text \<open>Where a field fits, the byte loops for engines without typed arrays leave the same buffer and
  result as the stores into the typed array, whatever the value, checked or not.\<close>

theorem fallback_equivalent:
  assumes "in_bounds buf offset 4"
  shows "writeUInt16LE False buf v offset na = writeUInt16LE True buf v offset na
    \<and> writeUInt16BE False buf v offset na = writeUInt16BE True buf v offset na
    \<and> writeUInt32LE False buf v offset na = writeUInt32LE True buf v offset na
    \<and> writeUInt32BE False buf v offset na = writeUInt32BE True buf v offset na
    \<and> writeInt16LE False buf v offset na = writeInt16LE True buf v offset na
    \<and> writeInt16BE False buf v offset na = writeInt16BE True buf v offset na
    \<and> writeInt32BE False buf v offset na = writeInt32BE True buf v offset na
    \<and> writeInt32LE False buf v offset na = writeInt32LE True buf v offset na"
proof -
  have b: "in_bounds buf offset 2" using assms by (simp add: in_bounds_def)
  show ?thesis
    using wrote_unique [OF put32LE_wrote(2,1) [OF assms, of v]]
    by (simp add: writes Let_def in_bounds_offset [OF assms] ta_irrelevant [of _ _ False] assms b objectWriteUInt32_eq)
qed

theorem fallback_equivalent_witness:
  "in_bounds [1, 2, 3, 4, 5] 1 4
    \<and> writeInt32LE False [1, 2, 3, 4, 5] (- 3) 1 False = writeInt32LE True [1, 2, 3, 4, 5] (- 3) 1 False"
  using fallback_equivalent [of "[1, 2, 3, 4, 5]" 1] by (simp add: in_bounds_def)

text \<open>A checked write does not reject a negative offset, unlike a checked read: the byte is dropped, the
  buffer is unchanged, and the call returns as if it had written.\<close>

theorem writeUInt8_negative_offset:
  assumes "- (2 ^ 31) \<le> offset" "offset < 0" "0 \<le> v" "v \<le> 255"
  shows "writeUInt8 buf v offset False = Inr (offset + 1, buf)
    \<and> (\<exists>m. readUInt8 buf offset False = Inl (RangeError m))"
  using assms UInt8.read_rejects [of offset buf]
  by (simp add: writeUInt8_def js_or_zero toInt32_small checked_write_def checkInt_def set_at_def)

theorem writeUInt8_negative_offset_witness:
  "writeUInt8 [1, 2] 7 (- 1) False = Inr (- 1 + 1, [1, 2])
    \<and> (\<exists>m. readUInt8 [1, 2] (- 1) False = Inl (RangeError m))"
  by (rule writeUInt8_negative_offset) simp_all

end
