(* ===== verification/Base64Js.thy ===== *)
theory Base64Js
  imports JsCore
begin

text \<open>
  The base64-js module, which the Buffer module requires and which is bundled in
  \<^verbatim>\<open>swagger-ui-bundle.js\<close> (lines 21850 to 21886): \<^verbatim>\<open>fromByteArray\<close> and \<^verbatim>\<open>toByteArray\<close> with their
  index loops, the chunking of the encoder and the placeholder arithmetic of the decoder. The lemmas
  show that decoding an encoded array gives the array back, for every length.
\<close>

section \<open>Tables\<close>

text \<open>\<^verbatim>\<open>lookup\<close> (\<^verbatim>\<open>r\<close>) and \<^verbatim>\<open>revLookup\<close> (\<^verbatim>\<open>o\<close>); an undefined entry reads as 0 in a bitwise operation.\<close>

definition base64_code :: jsstr where
  "base64_code = js ''ABCDEFGHIJKLMNOPQRSTUVWXYZabcdefghijklmnopqrstuvwxyz0123456789+/''"

definition base64_lookup :: "int \<Rightarrow> 16 word" where
  "base64_lookup i = base64_code ! nat i"

definition base64_revLookup :: "int \<Rightarrow> int" where
  "base64_revLookup c =
     (if 65 \<le> c \<and> c \<le> 90 then c - 65
      else if 97 \<le> c \<and> c \<le> 122 then c - 71
      else if 48 \<le> c \<and> c \<le> 57 then c + 4
      else if c = 43 \<or> c = 45 then 62
      else if c = 47 \<or> c = 95 then 63
      else 0)"

section \<open>Operations\<close>

text \<open>\<^verbatim>\<open>getLens\<close> (\<^verbatim>\<open>l\<close>): the valid length and the number of placeholders.\<close>

fun index_of :: "'a \<Rightarrow> 'a list \<Rightarrow> nat" where
  "index_of a [] = 0"
| "index_of a (b # bs) = (if a = b then 0 else Suc (index_of a bs))"

definition base64_getLens :: "jsstr \<Rightarrow> jserr + nat \<times> nat" where
  "base64_getLens b64 =
     (let len = length b64 in
      if len mod 4 > 0 then Inl (PlainError ''Invalid string. Length must be a multiple of 4'')
      else
        (let validLen = index_of 61 b64
         in Inr (validLen, if validLen = len then 0 else 4 - validLen mod 4)))"

text \<open>The sum of the two lengths is a multiple of four; a string with \<^verbatim>\<open>=\<close> in front gives a negative length.\<close>

definition base64_lenOf :: "nat \<Rightarrow> nat \<Rightarrow> int" where
  "base64_lenOf validLen placeHoldersLen = 3 * int (validLen + placeHoldersLen) div 4 - int placeHoldersLen"

definition base64_byteLength :: "jsstr \<Rightarrow> jserr + int" where
  "base64_byteLength b64 =
     rbind (base64_getLens b64) (\<lambda>(validLen, placeHoldersLen). Inr (base64_lenOf validLen placeHoldersLen))"

text \<open>
  The array of the results, \<^verbatim>\<open>new Uint8Array(n)\<close>: a negative length is refused, the elements are stored from
  the first one on, stores out of range are dropped and the remaining elements are 0.
\<close>

definition filled_array :: "int \<Rightarrow> int list \<Rightarrow> jserr + int list" where
  "filled_array n stores =
     (if n < 0 then Inl (RangeError ''Invalid typed array length'')
      else Inr (take (nat n) (stores @ replicate (nat n) 0)))"

definition rev_at :: "jsstr \<Rightarrow> nat \<Rightarrow> int" where
  "rev_at b64 i = base64_revLookup (charCodeAt b64 (int i))"

text \<open>The main loop of \<^verbatim>\<open>toByteArray\<close>: four characters give three bytes; the position is returned too.\<close>

function base64_decode_loop :: "jsstr \<Rightarrow> nat \<Rightarrow> nat \<Rightarrow> int list \<Rightarrow> int list \<times> nat" where
  "base64_decode_loop b64 i len arr =
     (if i < len then
        (let tmp = js_or (js_or (js_or (js_shl (rev_at b64 i) 18) (js_shl (rev_at b64 (i + 1)) 12))
                     (js_shl (rev_at b64 (i + 2)) 6)) (rev_at b64 (i + 3))
         in base64_decode_loop b64 (i + 4) len
              (arr @ [js_and (js_shr tmp 16) 255, js_and (js_shr tmp 8) 255, js_and tmp 255]))
      else (arr, i))"
  by pat_completeness auto
termination
  by (relation "measure (\<lambda>(b64, i, len, arr). len - i)") auto

declare base64_decode_loop.simps [simp del]

definition base64_toByteArray :: "jsstr \<Rightarrow> jserr + int list" where
  "base64_toByteArray b64 =
     rbind (base64_getLens b64) (\<lambda>(validLen, placeHoldersLen).
       case base64_decode_loop b64 0 (if placeHoldersLen > 0 then validLen - 4 else validLen) [] of
         (arr, i) \<Rightarrow>
         filled_array (base64_lenOf validLen placeHoldersLen)
          (if placeHoldersLen = 2 then
             (let tmp = js_or (js_shl (rev_at b64 i) 2) (js_shr (rev_at b64 (i + 1)) 4)
              in arr @ [js_and tmp 255])
           else if placeHoldersLen = 1 then
             (let tmp = js_or (js_or (js_shl (rev_at b64 i) 10) (js_shl (rev_at b64 (i + 1)) 4))
                          (js_shr (rev_at b64 (i + 2)) 2)
              in arr @ [js_and (js_shr tmp 8) 255, js_and tmp 255])
           else arr))"

text \<open>\<^verbatim>\<open>uint8[i]\<close> as a bitwise operation reads it: out of range is \<^verbatim>\<open>undefined\<close>, hence 0.\<close>

definition byte_at :: "byte list \<Rightarrow> nat \<Rightarrow> int" where
  "byte_at uint8 i = (if i < length uint8 then uint (uint8 ! i) else 0)"

function base64_encodeChunk :: "byte list \<Rightarrow> nat \<Rightarrow> nat \<Rightarrow> jsstr" where
  "base64_encodeChunk uint8 i end' =
     (if i < end' then
        (let tmp = js_and (js_shl (byte_at uint8 i) 16) 16711680 + js_and (js_shl (byte_at uint8 (i + 1)) 8) 65280
                     + js_and (byte_at uint8 (i + 2)) 255
         in [base64_lookup (js_and (js_shr tmp 18) 63), base64_lookup (js_and (js_shr tmp 12) 63),
             base64_lookup (js_and (js_shr tmp 6) 63), base64_lookup (js_and tmp 63)]
            @ base64_encodeChunk uint8 (i + 3) end')
      else [])"
  by pat_completeness auto
termination
  by (relation "measure (\<lambda>(uint8, i, end'). end' - i)") auto

declare base64_encodeChunk.simps [simp del]

definition base64_maxChunkLength :: nat where
  "base64_maxChunkLength = 16383"

function base64_chunks :: "byte list \<Rightarrow> nat \<Rightarrow> nat \<Rightarrow> jsstr" where
  "base64_chunks uint8 i len2 =
     (if i < len2 then
        base64_encodeChunk uint8 i
          (if i + base64_maxChunkLength > len2 then len2 else i + base64_maxChunkLength)
        @ base64_chunks uint8 (i + base64_maxChunkLength) len2
      else [])"
  by pat_completeness auto
termination
  by (relation "measure (\<lambda>(uint8, i, len2). len2 - i)") (auto simp: base64_maxChunkLength_def)

declare base64_chunks.simps [simp del]

definition base64_fromByteArray :: "byte list \<Rightarrow> jsstr" where
  "base64_fromByteArray uint8 =
     (let len = length uint8; extraBytes = len mod 3; parts = base64_chunks uint8 0 (len - extraBytes)
      in if extraBytes = 1 then
           (let tmp = byte_at uint8 (len - 1)
            in parts @ [base64_lookup (js_shr tmp 2), base64_lookup (js_and (js_shl tmp 4) 63)] @ js ''=='')
         else if extraBytes = 2 then
           (let tmp = js_shl (byte_at uint8 (len - 2)) 8 + byte_at uint8 (len - 1)
            in parts @ [base64_lookup (js_shr tmp 10), base64_lookup (js_and (js_shr tmp 4) 63),
                 base64_lookup (js_and (js_shl tmp 2) 63)] @ js ''='')
         else parts)"

section \<open>The tables are inverse\<close>

lemma base64_code_eq: "base64_code =
  [65, 66, 67, 68, 69, 70, 71, 72, 73, 74, 75, 76, 77, 78, 79, 80, 81, 82, 83, 84, 85, 86, 87, 88, 89, 90,
   97, 98, 99, 100, 101, 102, 103, 104, 105, 106, 107, 108, 109, 110, 111, 112, 113, 114, 115, 116, 117,
   118, 119, 120, 121, 122, 48, 49, 50, 51, 52, 53, 54, 55, 56, 57, 43, 47]"
  by (simp add: base64_code_def js_def of_char_Char)

lemma base64_table: "\<forall>i \<in> set [0..<64]. base64_revLookup (uint (base64_code ! i)) = int i \<and> base64_code ! i \<noteq> 61"
  unfolding base64_code_eq by (simp add: upt_rec base64_revLookup_def)

lemma base64_rev_lookup:
  assumes "0 \<le> x" and "x < 64"
  shows "base64_revLookup (uint (base64_lookup x)) = x" and "base64_lookup x \<noteq> 61"
proof -
  have "nat x \<in> set [0..<64]" using assms by auto
  then show "base64_revLookup (uint (base64_lookup x)) = x" and "base64_lookup x \<noteq> 61"
    using base64_table assms by (auto simp: base64_lookup_def)
qed

section \<open>Four digits of six bits, three of eight\<close>

lemma sextets:
  assumes "0 \<le> w" "w < 64" "0 \<le> x" "x < 64" "0 \<le> y" "y < 64" "0 \<le> z" "z < 64"
    and t: "t = w * 262144 + x * 4096 + y * 64 + (z::int)"
  shows "t div 262144 = w" "t div 4096 mod 64 = x" "t div 64 mod 64 = y" "t mod 64 = z"
proof -
  have "t div 64 = w * 4096 + x * 64 + y" and "t mod 64 = z"
    using int_join_div_mod [of z 64 "w * 4096 + x * 64 + y"] assms by (simp_all add: algebra_simps)
  moreover have "(w * 4096 + x * 64 + y) mod 64 = y"
    using int_join_div_mod [of y 64 "w * 64 + x"] assms by (simp add: algebra_simps)
  moreover have "t div 4096 = w * 64 + x"
    using int_join_div_mod [of "y * 64 + z" 4096 "w * 64 + x"] assms by (simp add: algebra_simps)
  moreover have "(w * 64 + x) mod 64 = x" using int_join_div_mod assms by simp
  moreover have "t div 262144 = w"
    using int_join_div_mod [of "x * 4096 + y * 64 + z" 262144 w] assms by (simp add: algebra_simps)
  ultimately show "t div 262144 = w" "t div 4096 mod 64 = x" "t div 64 mod 64 = y" "t mod 64 = z"
    by (simp_all only:)
qed

lemma octets:
  assumes "0 \<le> a" "a < 256" "0 \<le> b" "b < 256" "0 \<le> c" "c < 256"
    and t: "t = a * 65536 + b * 256 + (c::int)"
  shows "t div 65536 = a" "t div 256 mod 256 = b" "t mod 256 = c"
proof -
  have "t div 256 = a * 256 + b" and "t mod 256 = c"
    using int_join_div_mod [of c 256 "a * 256 + b"] assms by (simp_all add: algebra_simps)
  moreover have "(a * 256 + b) mod 256 = b" using int_join_div_mod assms by simp
  moreover have "t div 65536 = a"
    using int_join_div_mod [of "b * 256 + c" 65536 a] assms by (simp add: algebra_simps)
  ultimately show "t div 65536 = a" "t div 256 mod 256 = b" "t mod 256 = c" by simp_all
qed

lemma sextet_octet:
  "a * 65536 + b * 256 + (c::int)
     = a div 4 * 262144 + (a mod 4 * 16 + b div 16) * 4096 + (b mod 16 * 4 + c div 64) * 64 + c mod 64"
proof -
  have "a1 * 4 + a0 = a \<Longrightarrow> b1 * 16 + b0 = b \<Longrightarrow> c1 * 64 + c0 = c \<Longrightarrow>
    a * 65536 + b * 256 + c = a1 * 262144 + (a0 * 16 + b1) * 4096 + (b0 * 4 + c1) * 64 + c0"
    for a1 a0 b1 b0 c1 c0 :: int by auto
  from this [OF div_mult_mod_eq div_mult_mod_eq div_mult_mod_eq] show ?thesis .
qed

lemma sextet_ranges:
  assumes "0 \<le> a" "a < 256" "0 \<le> b" "b < 256" "0 \<le> c" "c < (256::int)"
  shows "0 \<le> a div 4" "a div 4 < 64" "0 \<le> a mod 4 * 16 + b div 16" "a mod 4 * 16 + b div 16 < 64"
    "0 \<le> b mod 16 * 4 + c div 64" "b mod 16 * 4 + c div 64 < 64" "0 \<le> c mod 64" "c mod 64 < 64"
proof -
  have "a mod 4 \<le> 3" "b mod 16 \<le> 15" using pos_mod_bound [of 4 a] pos_mod_bound [of 16 b] by linarith+
  moreover have "b div 16 \<le> 15" "c div 64 \<le> 3" "0 \<le> b div 16" "0 \<le> c div 64"
    "0 \<le> a mod 4" "0 \<le> b mod 16" using assms by auto
  ultimately show "0 \<le> a mod 4 * 16 + b div 16" "a mod 4 * 16 + b div 16 < 64"
    "0 \<le> b mod 16 * 4 + c div 64" "b mod 16 * 4 + c div 64 < 64" by linarith+
qed (use assms in auto)

section \<open>The reference encoding\<close>

definition sextet_chars :: "int \<Rightarrow> int \<Rightarrow> int \<Rightarrow> jsstr" where
  "sextet_chars a b c = [base64_lookup (a div 4), base64_lookup (a mod 4 * 16 + b div 16),
     base64_lookup (b mod 16 * 4 + c div 64), base64_lookup (c mod 64)]"

text \<open>Base 64 as RFC 4648 defines it, three bytes at a time, padded with \<^verbatim>\<open>=\<close>.\<close>

fun rfc4648 :: "byte list \<Rightarrow> jsstr" where
  "rfc4648 [] = []"
| "rfc4648 [a] = take 2 (sextet_chars (uint a) 0 0) @ [61, 61]"
| "rfc4648 [a, b] = take 3 (sextet_chars (uint a) (uint b) 0) @ [61]"
| "rfc4648 (a # b # c # rest) = sextet_chars (uint a) (uint b) (uint c) @ rfc4648 rest"

section \<open>The encoder computes it\<close>

lemma js_and_shifted:
  assumes "0 \<le> x" and "x < 256" and "k \<le> 16"
  shows "js_and (js_shl x k) (255 * 2 ^ k) = x * 2 ^ k"
proof -
  have k: "(2::int) ^ k \<le> 2 ^ 16" using assms(3) by (intro power_increasing) auto
  have "x * 2 ^ k \<le> 255 * 2 ^ 16" and "(255::int) * 2 ^ k \<le> 255 * 2 ^ 16"
    using assms k by (intro mult_mono; simp)+
  then have small: "x * 2 ^ k < 2 ^ 31" "(255::int) * 2 ^ k < 2 ^ 31" by auto
  have "push_bit k x AND push_bit k 255 = push_bit k (x AND (2 ^ 8 - 1))"
    by (simp add: push_bit_and)
  also have "\<dots> = push_bit k x" using assms by (simp only: int_and_mask) simp
  finally have "(x * 2 ^ k) AND (255 * 2 ^ k) = x * 2 ^ k" by (simp add: push_bit_eq_mult)
  moreover have "0 \<le> x * 2 ^ k" "0 \<le> (255::int) * 2 ^ k" using assms by auto
  ultimately show ?thesis
    using small assms by (simp add: js_and_def js_shl_small toInt32_nonneg)
qed

lemma byte_at_range [simp]: "0 \<le> byte_at u i" "byte_at u i < 256"
  by (simp_all add: byte_at_def)

lemma sextet_chars_shifts:
  assumes "0 \<le> a" "a < 256" "0 \<le> b" "b < 256" "0 \<le> c" "c < 256"
    and t: "t = a * 65536 + b * 256 + c"
  shows "[base64_lookup (js_and (js_shr t 18) 63), base64_lookup (js_and (js_shr t 12) 63),
          base64_lookup (js_and (js_shr t 6) 63), base64_lookup (js_and t 63)] = sextet_chars a b c"
proof -
  note r = sextet_ranges [OF assms(1-6)]
  note x = sextets [OF r t [unfolded sextet_octet]]
  have small: "- (2 ^ 31) \<le> t" "t < 2 ^ 31" using assms by simp_all
  have "js_and (js_shr t 18) 63 = a div 4"
    using x(1) r(1,2) by (simp add: js_shr_small [OF small] js_and_63)
  moreover have "js_and (js_shr t 12) 63 = a mod 4 * 16 + b div 16"
    using x(2) by (simp add: js_shr_small [OF small] js_and_63)
  moreover have "js_and (js_shr t 6) 63 = b mod 16 * 4 + c div 64"
    using x(3) by (simp add: js_shr_small [OF small] js_and_63)
  moreover have "js_and t 63 = c mod 64" using x(4) by (simp add: js_and_63)
  ultimately show ?thesis by (simp only: sextet_chars_def)
qed

lemma base64_encodeChunk_step:
  assumes "i < end'"
  shows "base64_encodeChunk u i end'
    = sextet_chars (byte_at u i) (byte_at u (i + 1)) (byte_at u (i + 2)) @ base64_encodeChunk u (i + 3) end'"
proof -
  let ?a = "byte_at u i" and ?b = "byte_at u (i + 1)" and ?c = "byte_at u (i + 2)"
  have "js_and (js_shl ?a 16) 16711680 + js_and (js_shl ?b 8) 65280 + js_and ?c 255
          = ?a * 65536 + ?b * 256 + ?c"
    using js_and_shifted [of ?a 16] js_and_shifted [of ?b 8] by (simp add: js_and_255)
  note chars = sextet_chars_shifts [OF byte_at_range byte_at_range byte_at_range this]
  show ?thesis
    using assms by (subst base64_encodeChunk.simps) (simp only: if_True Let_def chars)
qed

lemma rfc4648_append: "length xs mod 3 = 0 \<Longrightarrow> rfc4648 (xs @ ys) = rfc4648 xs @ rfc4648 ys"
  by (induction xs rule: rfc4648.induct) auto

lemma str_slice_3:
  assumes "i + 3 \<le> end'" and "end' \<le> length u"
  shows "str_slice u i end' = u ! i # u ! (i + 1) # u ! (i + 2) # str_slice u (i + 3) end'"
proof -
  have "drop i u = u ! i # u ! (i + 1) # u ! (i + 2) # drop (i + 3) u"
    using assms by (simp add: Cons_nth_drop_Suc numeral_3_eq_3)
  moreover have "end' - i = Suc (Suc (Suc (end' - (i + 3))))" using assms by simp
  ultimately show ?thesis by (simp add: str_slice_def)
qed

lemma base64_encodeChunk_eq:
  "i \<le> end' \<Longrightarrow> end' \<le> length u \<Longrightarrow> (end' - i) mod 3 = 0 \<Longrightarrow>
     base64_encodeChunk u i end' = rfc4648 (str_slice u i end')"
proof (induction u i end' rule: base64_encodeChunk.induct)
  case (1 u i end')
  show ?case
  proof (cases "i < end'")
    case True
    then have le: "i + 3 \<le> end'" using "1.prems"(3) by presburger
    then have "(end' - (i + 3)) mod 3 = 0" using "1.prems"(3) by presburger
    then have "base64_encodeChunk u (i + 3) end' = rfc4648 (str_slice u (i + 3) end')"
      using 1 True le by simp
    then show ?thesis
      using True le "1.prems"(2)
      by (simp add: base64_encodeChunk_step str_slice_3 byte_at_def)
  next
    case False
    then show ?thesis using "1.prems" by (simp add: base64_encodeChunk.simps str_slice_def)
  qed
qed

lemma base64_chunks_eq:
  "i \<le> len2 \<Longrightarrow> len2 \<le> length u \<Longrightarrow> (len2 - i) mod 3 = 0 \<Longrightarrow>
     base64_chunks u i len2 = rfc4648 (str_slice u i len2)"
proof (induction u i len2 rule: base64_chunks.induct)
  case (1 u i len2)
  let ?m = base64_maxChunkLength
  have m: "?m mod 3 = 0" "0 < ?m" by (simp_all add: base64_maxChunkLength_def)
  consider "\<not> i < len2" | "i < len2" "i + ?m > len2" | "i < len2" "i + ?m \<le> len2" by linarith
  then show ?case
  proof cases
    case 1
    then show ?thesis using "1.prems" by (simp add: base64_chunks.simps str_slice_def)
  next
    case 2
    then show ?thesis
      using "1.prems" by (simp add: base64_chunks.simps [of u i] base64_chunks.simps [of u "i + ?m"]
          base64_encodeChunk_eq)
  next
    case 3
    have e: "base64_encodeChunk u i (i + ?m) = rfc4648 (str_slice u i (i + ?m))"
      using 3 "1.prems" m by (intro base64_encodeChunk_eq) auto
    have "(len2 - (i + ?m)) mod 3 = 0"
      using 3 "1.prems"(3) m(1) unfolding base64_maxChunkLength_def by presburger
    then have "base64_chunks u (i + ?m) len2 = rfc4648 (str_slice u (i + ?m) len2)"
      using 1 3 by simp
    moreover have "str_slice u i len2 = str_slice u i (i + ?m) @ str_slice u (i + ?m) len2"
      using 3 by (intro str_slice_split) auto
    moreover have "length (str_slice u i (i + ?m)) mod 3 = 0"
      using 3 "1.prems" m by (simp add: min_absorb1)
    ultimately show ?thesis
      using 3 e by (simp add: base64_chunks.simps [of u i] rfc4648_append)
  qed
qed

lemma rfc4648_tail1:
  assumes "0 \<le> t" "t < 256"
  shows "[base64_lookup (js_shr t 2), base64_lookup (js_and (js_shl t 4) 63)] = take 2 (sextet_chars t 0 0)"
proof -
  have "js_and (js_shl t 4) 63 = t mod 4 * 16"
    using assms mult_mod_right [of 16 t 4] by (simp add: js_shl_small js_and_63 mult.commute)
  then show ?thesis using assms by (simp add: js_shr_small sextet_chars_def)
qed

lemma rfc4648_tail2:
  assumes "0 \<le> a" "a < 256" "0 \<le> b" "b < 256" and t: "t = js_shl a 8 + b"
  shows "[base64_lookup (js_shr t 10), base64_lookup (js_and (js_shr t 4) 63),
          base64_lookup (js_and (js_shl t 2) 63)] = take 3 (sextet_chars a b 0)"
proof -
  have t': "t = a * 256 + b" using assms by (simp add: js_shl_small)
  have small: "0 \<le> t" "t < 65536" using t' assms by simp_all
  define w x y where wxy: "w = a div 4" "x = a mod 4 * 16 + b div 16" "y = b mod 16"
  have "0 \<le> w" "w < 64" "0 \<le> x" "x < 64"
    unfolding wxy by (rule sextet_ranges(1-4) [OF assms(1-4), of 0]; simp)+
  moreover have "0 \<le> y" "y < 16" by (simp_all add: wxy)
  ultimately have r: "0 \<le> w" "w < 64" "0 \<le> x" "x < 64" "0 \<le> y" "y < 16" by this+
  have "t * 256 = w * 262144 + x * 4096 + y * 256"
    using sextet_octet [of a b 0] t' by (simp add: wxy)
  then have digits: "t = w * 1024 + x * 16 + y" by linarith
  have "t div 1024 = w" "t div 16 = w * 64 + x"
    using digits r int_join_div_mod(1) [of "x * 16 + y" 1024 w]
      int_join_div_mod(1) [of y 16 "w * 64 + x"] by (simp_all add: algebra_simps)
  moreover have "t * 4 mod 64 = y * 4"
    using int_join_div_mod(2) [of "y * 4" 64 "w * 64 + x"] digits r by (simp add: algebra_simps)
  ultimately show ?thesis
    using small r int_join_div_mod(2) [of x 64 w]
    by (simp add: js_shr_small js_shl_small js_and_63 sextet_chars_def wxy [symmetric])
qed

lemma base64_fromByteArray_rfc4648: "base64_fromByteArray u = rfc4648 u"
proof -
  let ?n = "length u" and ?e = "length u mod 3"
  have parts: "base64_chunks u 0 (?n - ?e) = rfc4648 (take (?n - ?e) u)"
    by (subst base64_chunks_eq) (simp_all add: str_slice_def minus_mod_eq_mult_div)
  have split: "rfc4648 u = rfc4648 (take (?n - ?e) u) @ rfc4648 (drop (?n - ?e) u)"
    using rfc4648_append [of "take (?n - ?e) u" "drop (?n - ?e) u"]
    by (simp add: min_absorb2 minus_mod_eq_mult_div)
  have last: "js ''='' = [61]" "js ''=='' = [61, 61]" by (simp_all add: js_def of_char_Char)
  consider "?e = 0" | "?e = 1" | "?e = 2" by linarith
  then show ?thesis
  proof cases
    case 1
    then show ?thesis using parts by (simp add: base64_fromByteArray_def)
  next
    case 2
    then have n: "0 < ?n" by (cases u) auto
    then have "drop (?n - 1) u = [u ! (?n - 1)]" by (simp add: Cons_nth_drop_Suc [symmetric])
    then show ?thesis
      using 2 n parts split
      by (simp add: base64_fromByteArray_def last byte_at_def Let_def flip: rfc4648_tail1)
  next
    case 3
    then have "2 \<le> ?n" using mod_less_eq_dividend [of ?n 3] by simp
    then have "u \<noteq> []" by auto
    have "drop (?n - 2) u = [u ! (?n - 2), u ! (?n - 1)]"
      using \<open>2 \<le> ?n\<close> by (simp add: Cons_nth_drop_Suc [symmetric] Suc_diff_Suc numeral_2_eq_2)
    then show ?thesis
      using 3 parts split \<open>2 \<le> ?n\<close> \<open>u \<noteq> []\<close>
      by (simp add: base64_fromByteArray_def last byte_at_def Let_def flip: rfc4648_tail2)
  qed
qed

section \<open>The decoder reads it back\<close>

lemma rev_at_lookup:
  assumes "b64 ! i = base64_lookup x" "i < length b64" "0 \<le> x" "x < 64"
  shows "rev_at b64 i = x"
  using assms base64_rev_lookup(1) [of x] by (simp add: rev_at_def charCodeAt_def)

lemma js_join_sextets:
  assumes "0 \<le> w" "w < 64" "0 \<le> x" "x < 64" "0 \<le> y" "y < 64" "0 \<le> z" "z < 64"
  shows "js_or (js_or (js_or (js_shl w 18) (js_shl x 12)) (js_shl y 6)) z
           = w * 262144 + x * 4096 + y * 64 + z"
  using assms js_or_disjoint [of "x * 4096" 18 w] js_or_disjoint [of "y * 64" 12 "w * 64 + x"]
    js_or_disjoint [of z 6 "w * 4096 + x * 64 + y"]
  by (simp add: js_shl_small algebra_simps)

lemma base64_decode_step:
  assumes i: "i < len"
    and q: "take 4 (drop i b64) = sextet_chars a b c"
    and r: "0 \<le> a" "a < 256" "0 \<le> b" "b < 256" "0 \<le> c" "c < 256"
  shows "base64_decode_loop b64 i len arr = base64_decode_loop b64 (i + 4) len (arr @ [a, b, c])"
proof -
  note s = sextet_ranges [OF r]
  have "length (take 4 (drop i b64)) = 4" by (simp add: q sextet_chars_def)
  then have len: "i + 4 \<le> length b64" by simp
  have nth: "b64 ! (i + k) = sextet_chars a b c ! k" if "k < 4" for k
    using that len by (simp flip: q)
  have revs: "rev_at b64 i = a div 4" "rev_at b64 (i + 1) = a mod 4 * 16 + b div 16"
    "rev_at b64 (i + 2) = b mod 16 * 4 + c div 64" "rev_at b64 (i + 3) = c mod 64"
    by (rule rev_at_lookup [OF _ _ s(1,2)] rev_at_lookup [OF _ _ s(3,4)] rev_at_lookup [OF _ _ s(5,6)]
          rev_at_lookup [OF _ _ s(7,8)];
        use nth [of 0] nth [of 1] nth [of 2] nth [of 3] len in \<open>simp add: sextet_chars_def\<close>)+
  define t where t: "t = a * 65536 + b * 256 + c"
  have tmp: "js_or (js_or (js_or (js_shl (rev_at b64 i) 18) (js_shl (rev_at b64 (i + 1)) 12))
      (js_shl (rev_at b64 (i + 2)) 6)) (rev_at b64 (i + 3)) = t"
    unfolding revs js_join_sextets [OF s] t sextet_octet ..
  have small: "- (2 ^ 31) \<le> t" "t < 2 ^ 31" using r by (simp_all add: t)
  have "js_and (js_shr t 16) 255 = a" "js_and (js_shr t 8) 255 = b" "js_and t 255 = c"
    using octets [OF r t] r(1,2) by (simp_all add: js_shr_small [OF small] js_and_255)
  then show ?thesis
    using i by (subst base64_decode_loop.simps) (simp only: if_True Let_def tmp)
qed

text \<open>The loop bound may lie up to three short of the end of the last full group.\<close>

lemma base64_decode_loop_rfc4648:
  "length xs mod 3 = 0 \<Longrightarrow> len \<le> length pre + length (rfc4648 xs) \<Longrightarrow>
   length pre + length (rfc4648 xs) < len + 4 \<Longrightarrow>
     base64_decode_loop (pre @ rfc4648 xs @ post) (length pre) len arr
       = (arr @ map uint xs, length pre + length (rfc4648 xs))"
proof (induction xs arbitrary: pre arr rule: rfc4648.induct)
  case 1
  then show ?case by (simp add: base64_decode_loop.simps)
next
  case (4 a b c rest)
  let ?q = "sextet_chars (uint a) (uint b) (uint c)"
  let ?s = "pre @ rfc4648 (a # b # c # rest) @ post"
  have q: "length ?q = 4" by (simp add: sextet_chars_def)
  have "base64_decode_loop ?s (length pre) len arr
      = base64_decode_loop ?s (length pre + 4) len (arr @ [uint a, uint b, uint c])"
    using q "4.prems" by (intro base64_decode_step) auto
  also have "\<dots> = (arr @ [uint a, uint b, uint c] @ map uint rest, length pre + (4 + length (rfc4648 rest)))"
    using "4.IH" [of "pre @ ?q"] "4.prems" q by (simp add: add.assoc)
  finally show ?case using q by simp
qed auto

lemma index_of_append: "a \<notin> set xs \<Longrightarrow> index_of a (xs @ ys) = length xs + index_of a ys"
  by (induction xs) auto

lemma sextet_chars_no_pad:
  assumes "0 \<le> a" "a < 256" "0 \<le> b" "b < 256" "0 \<le> c" "c < 256"
  shows "61 \<notin> set (sextet_chars a b c)"
  unfolding sextet_chars_def
  using base64_rev_lookup(2) [OF sextet_ranges(1,2) [OF assms]]
    base64_rev_lookup(2) [OF sextet_ranges(3,4) [OF assms]]
    base64_rev_lookup(2) [OF sextet_ranges(5,6) [OF assms]]
    base64_rev_lookup(2) [OF sextet_ranges(7,8) [OF assms]] by auto

lemma rfc4648_multiple:
  "length xs mod 3 = 0 \<Longrightarrow> 61 \<notin> set (rfc4648 xs) \<and> length (rfc4648 xs) mod 4 = 0"
proof (induction xs rule: rfc4648.induct)
  case (4 a b c rest)
  then show ?case using sextet_chars_no_pad [of "uint a" "uint b" "uint c"]
    by (simp add: sextet_chars_def)
qed auto

lemma base64_decode_tail1:
  assumes "rev_at b64 i = a div 4" "rev_at b64 (i + 1) = a mod 4 * 16" "0 \<le> a" "a < 256"
  shows "js_and (js_or (js_shl (rev_at b64 i) 2) (js_shr (rev_at b64 (i + 1)) 4)) 255 = a"
proof -
  define w x where wx: "w = a div 4" "x = a mod 4"
  have r: "0 \<le> w" "w < 64" "0 \<le> x" "x < 4" "w * 4 + x = a" using assms by (simp_all add: wx)
  then have "js_or (js_shl w 2) (js_shr (x * 16) 4) = a"
    using js_or_disjoint [of x 2 w] by (simp add: js_shl_small js_shr_small)
  then show ?thesis using assms by (simp add: wx [symmetric] js_and_255)
qed

lemma base64_decode_tail2:
  assumes "rev_at b64 i = a div 4" "rev_at b64 (i + 1) = a mod 4 * 16 + b div 16"
    "rev_at b64 (i + 2) = b mod 16 * 4" and r: "0 \<le> a" "a < 256" "0 \<le> b" "b < 256"
    and t: "t = js_or (js_or (js_shl (rev_at b64 i) 10) (js_shl (rev_at b64 (i + 1)) 4)) (js_shr (rev_at b64 (i + 2)) 2)"
  shows "js_and (js_shr t 8) 255 = a" "js_and t 255 = b"
proof -
  define w x y where wxy: "w = a div 4" "x = a mod 4 * 16 + b div 16" "y = b mod 16"
  have "0 \<le> w" "w < 64" "0 \<le> x" "x < 64"
    unfolding wxy by (rule sextet_ranges(1-4) [OF r, of 0]; simp)+
  moreover have "0 \<le> y" "y < 16" by (simp_all add: wxy)
  ultimately have s: "0 \<le> w" "w < 64" "0 \<le> x" "x < 64" "0 \<le> y" "y < 16" by this+
  have "js_or (js_or (js_shl w 10) (js_shl x 4)) (js_shr (y * 4) 2) = w * 1024 + x * 16 + y"
    using s js_or_disjoint [of "x * 16" 10 w] js_or_disjoint [of y 4 "w * 64 + x"]
    by (simp add: js_shl_small js_shr_small algebra_simps)
  then have "t = w * 1024 + x * 16 + y" by (simp only: t assms(1-3) wxy)
  moreover have "a * 65536 + b * 256 = w * 262144 + x * 4096 + y * 256"
    using sextet_octet [of a b 0] by (simp add: wxy)
  ultimately have "t = a * 256 + b" by linarith
  then show "js_and (js_shr t 8) 255 = a" "js_and t 255 = b"
    using r int_join_div_mod [of b 256 a] by (simp_all add: js_shr_small js_and_255)
qed

lemma rev_at_append:
  assumes "0 \<le> x" "x < 64" "k < length ys" "ys ! k = base64_lookup x"
  shows "rev_at (p @ ys) (length p + k) = x"
  using assms by (intro rev_at_lookup) (auto simp: nth_append)

lemma filled_array_exact: "n = int (length xs) \<Longrightarrow> filled_array n xs = Inr xs"
  by (simp add: filled_array_def)

lemma length_rfc4648: "length xs mod 3 = 0 \<Longrightarrow> 3 * length (rfc4648 xs) = 4 * length xs"
  by (induction xs rule: rfc4648.induct) (auto simp: sextet_chars_def)

lemma base64_lenOf_eq:
  "3 * p = 4 * n \<Longrightarrow> base64_lenOf p 0 = int n"
  "3 * p = 4 * n \<Longrightarrow> base64_lenOf (p + 2) 2 = int n + 1"
  "3 * p = 4 * n \<Longrightarrow> base64_lenOf (p + 3) 1 = int n + 2"
  unfolding base64_lenOf_def by presburger+

lemma base64_toByteArray_rfc4648:
  "base64_toByteArray (rfc4648 u) = Inr (map uint u) \<and> base64_byteLength (rfc4648 u) = Inr (int (length u))"
proof -
  let ?k = "length u - length u mod 3"
  define xs ys where u: "xs = take ?k u" "ys = drop ?k u"
  have split: "u = xs @ ys" by (simp add: u)
  have xs: "length xs mod 3 = 0" by (simp add: u min_absorb2 minus_mod_eq_mult_div)
  have ys: "length ys < 3" by (simp add: u)
  let ?p = "rfc4648 xs"
  have s: "rfc4648 u = ?p @ rfc4648 ys" using rfc4648_append [OF xs] split by simp
  note p = rfc4648_multiple [OF xs] and n = base64_lenOf_eq [OF length_rfc4648 [OF xs]]
  note loop = base64_decode_loop_rfc4648 [OF xs, where pre = "[]", simplified]
  consider "ys = []" | a where "ys = [a]" | a b where "ys = [a, b]"
    using ys by (cases ys; cases "tl ys"; cases "tl (tl ys)") auto
  then show ?thesis
  proof cases
    case 1
    have "index_of 61 (?p @ []) = length ?p" using p index_of_append [of 61 ?p "[]"] by simp
    then show ?thesis
      using 1 p loop [of "length ?p" "[]" "[]"] s split
      by (simp add: base64_toByteArray_def base64_byteLength_def base64_getLens_def n filled_array_exact)
  next
    case (2 a)
    let ?c = "take 2 (sextet_chars (uint a) 0 0)"
    have r: "0 \<le> uint a div 4" "uint a div 4 < 64" "0 \<le> uint a mod 4 * 16" "uint a mod 4 * 16 < 64"
      using sextet_ranges [of "uint a" 0 0] by simp_all
    have c: "?c = [base64_lookup (uint a div 4), base64_lookup (uint a mod 4 * 16)]"
      by (simp add: sextet_chars_def)
    have idx: "index_of 61 (?p @ ?c @ [61, 61]) = length ?p + 2"
      using p index_of_append [of 61 ?p] base64_rev_lookup(2) r(1-4) by (simp add: c)
    have "rev_at (?p @ ?c @ [61, 61]) (length ?p) = uint a div 4"
      "rev_at (?p @ ?c @ [61, 61]) (length ?p + 1) = uint a mod 4 * 16"
      using rev_at_append [OF r(1,2), of 0 "?c @ [61, 61]" ?p] rev_at_append [OF r(3,4), of 1 "?c @ [61, 61]" ?p]
      by (simp_all add: c)
    note tail = base64_decode_tail1 [OF this uint8_range]
    have "(length ?p + 2) mod 4 = 2" "(length ?p + 4) mod 4 = 0" using p [THEN conjunct2] by presburger+
    then have "base64_getLens (?p @ ?c @ [61, 61]) = Inr (length ?p + 2, 2)"
      using idx by (simp add: base64_getLens_def c)
    then show ?thesis
      using 2 loop [of "length ?p - 2" "?c @ [61, 61]" "[]"] s split tail
      by (simp add: base64_toByteArray_def base64_byteLength_def n [simplified] filled_array_exact)
  next
    case (3 a b)
    let ?c = "take 3 (sextet_chars (uint a) (uint b) 0)"
    have "0 \<le> uint b mod 16 * 4" "uint b mod 16 * 4 < 64" by simp_all
    note r = sextet_ranges(1-4) [of "uint a" "uint b" 0, OF uint8_range uint8_range order.refl zero_less_numeral] this
    have c: "?c = [base64_lookup (uint a div 4), base64_lookup (uint a mod 4 * 16 + uint b div 16),
        base64_lookup (uint b mod 16 * 4)]"
      by (simp add: sextet_chars_def)
    have idx: "index_of 61 (?p @ ?c @ [61]) = length ?p + 3"
      using p index_of_append [of 61 ?p] base64_rev_lookup(2) r by (simp add: c)
    have "rev_at (?p @ ?c @ [61]) (length ?p) = uint a div 4"
      "rev_at (?p @ ?c @ [61]) (length ?p + 1) = uint a mod 4 * 16 + uint b div 16"
      "rev_at (?p @ ?c @ [61]) (length ?p + 2) = uint b mod 16 * 4"
      using rev_at_append [OF r(1,2), of 0 "?c @ [61]" ?p] rev_at_append [OF r(3,4), of 1 "?c @ [61]" ?p]
        rev_at_append [OF r(5,6), of 2 "?c @ [61]" ?p]
      by (simp_all add: c)
    note tail = base64_decode_tail2 [OF this uint8_range uint8_range refl]
    have "(length ?p + 3) mod 4 = 3" "(length ?p + 4) mod 4 = 0" using p [THEN conjunct2] by presburger+
    then have "base64_getLens (?p @ ?c @ [61]) = Inr (length ?p + 3, 1)"
      using idx by (simp add: base64_getLens_def c)
    then show ?thesis
      using 3 loop [of "length ?p - 1" "?c @ [61]" "[]"] s split tail
      by (simp add: base64_toByteArray_def base64_byteLength_def n [simplified] filled_array_exact)
  qed
qed

section \<open>The properties of the base 64 codec\<close>

text \<open>C30: \<^verbatim>\<open>fromByteArray\<close>, which encodes in chunks of 16383 bytes and finishes the last one or two bytes apart,
  computes the base 64 encoding of RFC 4648.\<close>

theorem base64_fromByteArray_is_rfc4648: "base64_fromByteArray u = rfc4648 u"
  by (rule base64_fromByteArray_rfc4648)

text \<open>C31: \<^verbatim>\<open>toByteArray\<close> accepts what \<^verbatim>\<open>fromByteArray\<close> writes and returns the bytes it was given, and \<^verbatim>\<open>byteLength\<close>
  predicts their number.\<close>

theorem base64_round_trip:
  "base64_toByteArray (base64_fromByteArray u) = Inr (map uint u)
   \<and> base64_byteLength (base64_fromByteArray u) = Inr (int (length u))"
  using base64_toByteArray_rfc4648 [of u]
  by (simp add: base64_fromByteArray_rfc4648)

text \<open>\<^verbatim>\<open>toByteArray\<close> rejects every string whose length is not a multiple of four.\<close>

theorem base64_toByteArray_rejects:
  assumes "length b64 mod 4 \<noteq> 0"
  shows "base64_toByteArray b64 = Inl (PlainError ''Invalid string. Length must be a multiple of 4'')
    \<and> base64_byteLength b64 = Inl (PlainError ''Invalid string. Length must be a multiple of 4'')"
  using assms by (simp add: base64_toByteArray_def base64_byteLength_def base64_getLens_def)

theorem base64_toByteArray_rejects_witness:
  "base64_toByteArray [65, 66, 67] = Inl (PlainError ''Invalid string. Length must be a multiple of 4'')
    \<and> base64_byteLength [65, 66, 67] = Inl (PlainError ''Invalid string. Length must be a multiple of 4'')"
  by (rule base64_toByteArray_rejects) simp

end
