(* ===== verification/BufferStr.thy ===== *)
theory BufferStr
  imports BufferCodec BufferNum Base64Js
begin

text \<open>
  Strings in and out of a Buffer (\<^verbatim>\<open>swagger-ui.js\<close>, lines 11842 to 13236): the choice of an encoding by
  its name, \<^verbatim>\<open>byteLength\<close>, the \<^verbatim>\<open>*Write\<close> helpers and \<^verbatim>\<open>write\<close>, \<^verbatim>\<open>toString\<close>, \<^verbatim>\<open>slice\<close>, and \<^verbatim>\<open>fromString\<close>.
  The constructor function and the prototype methods work on the contents of a buffer, a list of
  bytes; \<open>ta\<close> is \<^verbatim>\<open>Buffer.TYPED_ARRAY_SUPPORT\<close>. The message of an error is the literal part of it.
  The lemmas show that a string of any of the encodings survives the way into a buffer and back, that
  \<^verbatim>\<open>write\<close> stays inside the buffer, and which arguments are rejected.
\<close>

section \<open>Allocation\<close>

definition kMaxLength :: "bool \<Rightarrow> int" where
  "kMaxLength ta = (if ta then 2147483647 else 1073741823)"

definition createBuffer :: "bool \<Rightarrow> int \<Rightarrow> jserr + buffer" where
  "createBuffer ta n =
     (if kMaxLength ta < n then Inl (RangeError ''Invalid typed array length'')
      else Inr (replicate (nat n) 0))"

definition checked :: "bool \<Rightarrow> int \<Rightarrow> jserr + int" where
  "checked ta n =
     (if n \<ge> kMaxLength ta then Inl (RangeError ''Attempt to allocate Buffer larger than maximum size'')
      else Inr (js_or n 0))"

section \<open>The name of an encoding\<close>

datatype encoding = Hex | Utf8 | Ascii | Latin1 | Base64 | Ucs2

text \<open>The labels of the \<^verbatim>\<open>switch\<close> statements.\<close>

definition encoding_case :: "jsstr \<Rightarrow> encoding option" where
  "encoding_case e =
     (if e = js ''hex'' then Some Hex
      else if e = js ''utf8'' \<or> e = js ''utf-8'' then Some Utf8
      else if e = js ''ascii'' then Some Ascii
      else if e = js ''latin1'' \<or> e = js ''binary'' then Some Latin1
      else if e = js ''base64'' then Some Base64
      else if e = js ''ucs2'' \<or> e = js ''ucs-2'' \<or> e = js ''utf16le'' \<or> e = js ''utf-16le'' then Some Ucs2
      else None)"

text \<open>The loop around the \<^verbatim>\<open>switch\<close>: an unknown name is tried once more in lower case.\<close>

definition resolve_encoding :: "jsstr \<Rightarrow> encoding option" where
  "resolve_encoding e =
     (case encoding_case e of Some x \<Rightarrow> Some x | None \<Rightarrow> encoding_case (toLowerCase e))"

definition isEncoding :: "jsstr \<Rightarrow> bool" where
  "isEncoding e \<longleftrightarrow> encoding_case (toLowerCase e) \<noteq> None"

section \<open>Base 64\<close>

definition base64_char :: "16 word \<Rightarrow> bool" where
  "base64_char c \<longleftrightarrow> c = 43 \<or> c = 47 \<or> 48 \<le> c \<and> c \<le> 57 \<or> 65 \<le> c \<and> c \<le> 90 \<or> 97 \<le> c \<and> c \<le> 122
     \<or> c = 45 \<or> c = 95"

definition base64clean :: "jsstr \<Rightarrow> jsstr" where
  "base64clean str =
     (let str = filter base64_char (trim str)
      in if length str < 2 then []
         else str @ replicate ((4 - length str mod 4) mod 4) 61)"

definition base64ToBytes :: "jsstr \<Rightarrow> jserr + int list" where
  "base64ToBytes str = base64_toByteArray (base64clean str)"

section \<open>Slices\<close>

text \<open>The range a pair of arguments of \<^verbatim>\<open>slice\<close> selects; \<^verbatim>\<open>~~x\<close> is \<^verbatim>\<open>x | 0\<close>.\<close>

definition slice_clamp :: "int \<Rightarrow> int \<Rightarrow> int" where
  "slice_clamp len i =
     (if i < 0 then (if i + len < 0 then 0 else i + len) else if i > len then len else i)"

definition slice_range :: "nat \<Rightarrow> jsarg \<Rightarrow> jsarg \<Rightarrow> nat \<times> nat" where
  "slice_range n start end' =
     (let len = int n;
          start = slice_clamp len (int32_of (toNumber start));
          end' = slice_clamp len (if end' = Undefined then len else int32_of (toNumber end'))
      in (nat start, nat (if end' < start then start else end')))"

definition slice :: "buffer \<Rightarrow> jsarg \<Rightarrow> jsarg \<Rightarrow> buffer" where
  "slice buf start end' = (case slice_range (length buf) start end' of (s, e) \<Rightarrow> str_slice buf s e)"

definition base64Slice :: "buffer \<Rightarrow> nat \<Rightarrow> nat \<Rightarrow> jsstr" where
  "base64Slice buf start end' =
     (if start = 0 \<and> end' = length buf then base64_fromByteArray buf
      else base64_fromByteArray (slice buf (Num (int start)) (Num (int end'))))"

section \<open>The length of a string in bytes\<close>

text \<open>\<^verbatim>\<open>encoding\<close> is \<open>None\<close> when the argument is \<^verbatim>\<open>undefined\<close>.\<close>

definition byteLength_str :: "jsstr \<Rightarrow> jsstr option \<Rightarrow> jserr + int" where
  "byteLength_str string encoding =
     (let len = length string;
          utf8 = rbind (utf8ToBytes string None) (\<lambda>bs. Inr (int (length bs)))
      in if len = 0 then Inr 0
         else case encoding of
           None \<Rightarrow> utf8
         | Some e \<Rightarrow>
            (case resolve_encoding e of
               None \<Rightarrow> utf8
             | Some Utf8 \<Rightarrow> utf8
             | Some Ascii \<Rightarrow> Inr (int len)
             | Some Latin1 \<Rightarrow> Inr (int len)
             | Some Ucs2 \<Rightarrow> Inr (int len * 2)
             | Some Hex \<Rightarrow> Inr (js_ushr (int len) 1)
             | Some Base64 \<Rightarrow> rbind (base64ToBytes string) (\<lambda>bs. Inr (int (length bs)))))"

section \<open>Writing a string\<close>

text \<open>The writers return the number of bytes written and the buffer.\<close>

function blit_loop :: "int list \<Rightarrow> buffer \<Rightarrow> int \<Rightarrow> int \<Rightarrow> int \<Rightarrow> int \<times> buffer" where
  "blit_loop src dst offset len i =
     (if i < len then
        (if i + offset \<ge> int (length dst) \<or> i \<ge> int (length src) then (i, dst)
         else blit_loop src (set_at dst (i + offset) (src ! nat i)) offset len (i + 1))
      else (i, dst))"
  by pat_completeness auto
termination
  by (relation "measure (\<lambda>(src, dst, offset, len, i). nat (len - i))") auto

declare blit_loop.simps [simp del]

definition blitBuffer :: "int list \<Rightarrow> buffer \<Rightarrow> int \<Rightarrow> int \<Rightarrow> int \<times> buffer" where
  "blitBuffer src dst offset len = blit_loop src dst offset len 0"

function hexWrite_loop :: "buffer \<Rightarrow> jsstr \<Rightarrow> int \<Rightarrow> int \<Rightarrow> int \<Rightarrow> int \<times> buffer" where
  "hexWrite_loop buf string offset len i =
     (if i < len then
        (case parseInt (str_slice string (nat (i * 2)) (nat (i * 2) + 2)) 16 of
           None \<Rightarrow> (i, buf)
         | Some parsed \<Rightarrow> hexWrite_loop (set_at buf (offset + i) parsed) string offset len (i + 1))
      else (i, buf))"
  by pat_completeness auto
termination
  by (relation "measure (\<lambda>(buf, string, offset, len, i). nat (len - i))") auto

declare hexWrite_loop.simps [simp del]

definition hexWrite :: "buffer \<Rightarrow> jsstr \<Rightarrow> int \<Rightarrow> int \<Rightarrow> jserr + int \<times> buffer" where
  "hexWrite buf string offset len =
     (let remaining = int (length buf) - offset;
          len = (if len = 0 then remaining else if len > remaining then remaining else len);
          strLen = int (length string)
      in if strLen mod 2 \<noteq> 0 then Inl (TypeError ''Invalid hex string'')
         else
           (let len = (if len > strLen div 2 then strLen div 2 else len)
            in Inr (hexWrite_loop buf string offset len 0)))"

definition utf8Write :: "buffer \<Rightarrow> jsstr \<Rightarrow> int \<Rightarrow> int \<Rightarrow> jserr + int \<times> buffer" where
  "utf8Write buf string offset len =
     rbind (utf8ToBytes string (Some (int (length buf) - offset))) (\<lambda>bs. Inr (blitBuffer bs buf offset len))"

definition asciiWrite :: "buffer \<Rightarrow> jsstr \<Rightarrow> int \<Rightarrow> int \<Rightarrow> jserr + int \<times> buffer" where
  "asciiWrite buf string offset len = Inr (blitBuffer (asciiToBytes string) buf offset len)"

definition latin1Write :: "buffer \<Rightarrow> jsstr \<Rightarrow> int \<Rightarrow> int \<Rightarrow> jserr + int \<times> buffer" where
  "latin1Write buf string offset len = asciiWrite buf string offset len"

definition base64Write :: "buffer \<Rightarrow> jsstr \<Rightarrow> int \<Rightarrow> int \<Rightarrow> jserr + int \<times> buffer" where
  "base64Write buf string offset len =
     rbind (base64ToBytes string) (\<lambda>bs. Inr (blitBuffer bs buf offset len))"

definition ucs2Write :: "buffer \<Rightarrow> jsstr \<Rightarrow> int \<Rightarrow> int \<Rightarrow> jserr + int \<times> buffer" where
  "ucs2Write buf string offset len =
     Inr (blitBuffer (utf16leToBytes string (int (length buf) - offset)) buf offset len)"

definition write_encoded :: "encoding \<Rightarrow> buffer \<Rightarrow> jsstr \<Rightarrow> int \<Rightarrow> int \<Rightarrow> jserr + int \<times> buffer" where
  "write_encoded e =
     (case e of Hex \<Rightarrow> hexWrite | Utf8 \<Rightarrow> utf8Write | Ascii \<Rightarrow> asciiWrite | Latin1 \<Rightarrow> latin1Write
      | Base64 \<Rightarrow> base64Write | Ucs2 \<Rightarrow> ucs2Write)"

text \<open>
  The arguments of \<^verbatim>\<open>write\<close> after the first: the offset, the length, where \<open>None\<close> is \<^verbatim>\<open>undefined\<close>, and the
  encoding.
\<close>

definition write_args :: "nat \<Rightarrow> jsarg \<Rightarrow> jsarg \<Rightarrow> jsarg \<Rightarrow> jserr + int \<times> int option \<times> jsarg" where
  "write_args n offset len encoding =
     (case (offset, len) of
        (Undefined, _) \<Rightarrow> Inr (0, Some (int n), Str (js ''utf8''))
      | (Str e, Undefined) \<Rightarrow> Inr (0, Some (int n), Str e)
      | _ \<Rightarrow>
         if isFinite offset then
           (let offset = int32_of (toNumber offset)
            in if isFinite len then
                 Inr (offset, Some (int32_of (toNumber len)),
                   if encoding = Undefined then Str (js ''utf8'') else encoding)
               else Inr (offset, None, len))
         else Inl (PlainError ''Buffer.write(string, encoding, offset[, length]) is no longer supported''))"

text \<open>The encoding argument of \<^verbatim>\<open>write\<close> as a name: a falsy one is \<^verbatim>\<open>utf8\<close>, a number is no name.\<close>

definition encoding_name :: "jsarg \<Rightarrow> jsstr" where
  "encoding_name e = (case e of Undefined \<Rightarrow> js ''utf8'' | Str s \<Rightarrow> if s = [] then js ''utf8'' else s
     | Num n \<Rightarrow> if n = 0 then js ''utf8'' else js ''number'')"

definition buf_write :: "buffer \<Rightarrow> jsstr \<Rightarrow> jsarg \<Rightarrow> jsarg \<Rightarrow> jsarg \<Rightarrow> jserr + int \<times> buffer" where
  "buf_write buf string offset len encoding =
     rbind (write_args (length buf) offset len encoding) (\<lambda>(offset, len, encoding).
       let n = int (length buf);
           remaining = n - offset;
           len = (case len of None \<Rightarrow> remaining | Some l \<Rightarrow> if l > remaining then remaining else l)
       in if string \<noteq> [] \<and> (len < 0 \<or> offset < 0) \<or> offset > n
          then Inl (RangeError ''Attempt to write outside buffer bounds'')
          else case resolve_encoding (encoding_name encoding) of
                 None \<Rightarrow> Inl (TypeError ''Unknown encoding'')
               | Some e \<Rightarrow> write_encoded e buf string offset len)"

section \<open>Reading a string\<close>

definition slice_encoded :: "encoding \<Rightarrow> buffer \<Rightarrow> nat \<Rightarrow> nat \<Rightarrow> jsstr" where
  "slice_encoded e =
     (case e of Hex \<Rightarrow> hexSlice | Utf8 \<Rightarrow> utf8Slice | Ascii \<Rightarrow> asciiSlice | Latin1 \<Rightarrow> latin1Slice
      | Base64 \<Rightarrow> base64Slice | Ucs2 \<Rightarrow> utf16leSlice)"

definition slowToString :: "buffer \<Rightarrow> jsarg \<Rightarrow> jsarg \<Rightarrow> jsarg \<Rightarrow> jserr + jsstr" where
  "slowToString buf encoding start end' =
     (let n = Some (int (length buf));
          start = (if start = Undefined \<or> num_lt (toNumber start) (Some 0) then Some 0 else toNumber start)
      in if num_lt n start then Inr []
         else
           (let end' = (if end' = Undefined \<or> num_lt n (toNumber end') then n else toNumber end')
            in if num_le end' (Some 0) then Inr []
               else
                 (let end' = uint32_of end'; start = uint32_of start
                  in if end' \<le> start then Inr []
                     else case resolve_encoding (encoding_name encoding) of
                            None \<Rightarrow> Inl (TypeError ''Unknown encoding'')
                          | Some e \<Rightarrow> Inr (slice_encoded e buf (nat start) (nat end')))))"

text \<open>\<open>args\<close> are the arguments, if there are any.\<close>

definition toString :: "buffer \<Rightarrow> (jsarg \<times> jsarg \<times> jsarg) option \<Rightarrow> jserr + jsstr" where
  "toString buf args =
     (let n = js_or (int (length buf)) 0
      in if n = 0 then Inr []
         else case args of
                None \<Rightarrow> Inr (utf8Slice buf 0 (nat n))
              | Some (encoding, start, end') \<Rightarrow> slowToString buf encoding start end')"

section \<open>A buffer from a string\<close>

definition fromString :: "bool \<Rightarrow> jsstr \<Rightarrow> jsarg \<Rightarrow> jserr + buffer" where
  "fromString ta string encoding =
     (let e = (case encoding of Str s \<Rightarrow> if s = [] then js ''utf8'' else s | _ \<Rightarrow> js ''utf8'')
      in if \<not> isEncoding e then Inl (TypeError ''\"encoding\" must be a valid string encoding'')
         else
           rbind (byteLength_str string (Some e)) (\<lambda>n.
             let n = js_or n 0
             in rbind (createBuffer ta n) (\<lambda>that.
                  rbind (buf_write that string (Str e) Undefined Undefined) (\<lambda>(actual, that).
                    Inr (if actual \<noteq> n then slice that (Num 0) (Num actual) else that)))))"

section \<open>What the writers store\<close>

lemma blit_loop_eq:
  assumes "k \<le> c" "int c = min len (min (int (length src)) (int (length dst) - int off))"
  shows "blit_loop src dst (int off) len (int k)
    = (int c, take (off + k) dst @ map word_of_int (str_slice src k c) @ drop (off + c) dst)"
  using assms
proof (induction "c - k" arbitrary: k dst)
  case 0
  then have "k = c" by simp
  with 0 show ?case by (subst blit_loop.simps) (auto simp: str_slice_def)
next
  case (Suc n)
  then have k: "k < c" by simp
  let ?dst = "set_at dst (int k + int off) (src ! k)"
  have b: "k < length src" "off + k < length dst" "int k < len" using k Suc.prems by linarith+
  then have set: "?dst = dst[off + k := word_of_int (src ! k)]"
    by (simp add: set_at_def nat_add_distrib add.commute)
  have "blit_loop src dst (int off) len (int k) = blit_loop src ?dst (int off) len (int (Suc k))"
    using b by (subst blit_loop.simps) (simp add: add.commute)
  also have "\<dots> = (int c, take (off + Suc k) ?dst @ map word_of_int (str_slice src (Suc k) c) @ drop (off + c) ?dst)"
    using Suc k by (intro Suc.hyps) auto
  finally have 1: "blit_loop src dst (int off) len (int k) =
    (int c, take (off + Suc k) ?dst @ map word_of_int (str_slice src (Suc k) c) @ drop (off + c) ?dst)" .
  have 2: "take (off + Suc k) ?dst = take (off + k) dst @ [word_of_int (src ! k)]"
    using b by (simp add: set take_Suc_conv_app_nth)
  have 3: "drop (off + c) ?dst = drop (off + c) dst" using k by (simp add: set)
  obtain m where "c - k = Suc m" using k by (cases "c - k") auto
  moreover have "c - Suc k = m" using calculation by simp
  ultimately have 4: "str_slice src k c = src ! k # str_slice src (Suc k) c"
    using b by (simp add: str_slice_def Cons_nth_drop_Suc [symmetric])
  show ?case unfolding 1 2 3 4 by simp
qed

lemma blitBuffer_eq:
  assumes "int c = min len (min (int (length src)) (int (length dst) - int off))"
  shows "blitBuffer src dst (int off) len = (int c, take off dst @ map word_of_int (take c src) @ drop (off + c) dst)"
  using blit_loop_eq [of 0 c len src dst off] assms by (simp add: blitBuffer_def str_slice_def)

lemma blitBuffer_all:
  "n = length src \<Longrightarrow> blitBuffer src (replicate n 0) 0 (int n) = (int n, map word_of_int src)"
  using blitBuffer_eq [of n "int n" src "replicate n 0" 0] by simp

text \<open>With room for all of its bytes the encoder is not limited.\<close>

lemma utf8_push_extends:
  "utf8_push cp u bytes = Inr (Some (u', bytes')) \<Longrightarrow> length bytes < length bytes'"
  by (auto simp: utf8_push_def Let_def split: if_splits)

lemma utf8_push_units:
  assumes "utf8_push cp None bytes = Inr (Some (u', bytes'))" "int (length bytes') \<le> int (length bytes) + u"
  shows "u' = None \<and> utf8_push cp (Some u) bytes
    = Inr (Some (Some (u - (int (length bytes') - int (length bytes))), bytes'))"
  using assms by (auto simp: utf8_push_def Let_def units_minus_def units_left_def split: if_splits)

lemma utf8_push_None: "utf8_push cp None bytes = Inr r \<Longrightarrow> \<exists>bytes'. r = Some (None, bytes')"
  by (auto simp: utf8_push_def Let_def units_minus_def units_left_def split: if_splits)

lemma utf8_loop_extends: "utf8_loop s lead u bytes = Inr bs \<Longrightarrow> length bytes \<le> length bs"
proof (induction s arbitrary: lead u bytes)
  case (Cons c s)
  then show ?case
    by (fastforce simp: Let_def split: if_splits option.splits sum.splits prod.splits dest!: utf8_push_extends)
qed simp

lemma utf8_loop_units:
  assumes "utf8_loop s lead None bytes = Inr bs" "int (length bs) \<le> int (length bytes) + u"
  shows "utf8_loop s lead (Some u) bytes = Inr bs"
  using assms
proof (induction s arbitrary: lead u bytes)
  case (Cons c s)
  note IH = Cons.IH
  have skip: "utf8_loop s lead' (Some (u - 3)) (if u - 3 > -1 then bytes @ [239, 191, 189] else bytes) = Inr bs"
    if "utf8_loop s lead' None (bytes @ [239, 191, 189]) = Inr bs" for lead'
    using that IH [OF that, of "u - 3"] utf8_loop_extends [OF that] Cons.prems(2) by simp
  define emit where "emit = (\<lambda>cp u bs. case utf8_push cp u bs of Inl e \<Rightarrow> Inl e | Inr None \<Rightarrow> Inr bs
    | Inr (Some (u', bs')) \<Rightarrow> utf8_loop s None u' bs')"
  have emit: "emit cp (Some v) bytes1 = Inr bs"
    if e: "emit cp None bytes1 = Inr bs" and v: "int (length bs) \<le> int (length bytes1) + v" for cp v bytes1
  proof -
    obtain bytes' where p: "utf8_push cp None bytes1 = Inr (Some (None, bytes'))"
      using e utf8_push_None [of cp bytes1] by (auto simp: emit_def split: sum.splits)
    then have l: "utf8_loop s None None bytes' = Inr bs" using e by (simp add: emit_def)
    then have "length bytes' \<le> length bs" by (rule utf8_loop_extends)
    with p v have "utf8_push cp (Some v) bytes1 = Inr (Some (Some (v - (int (length bytes') - int (length bytes1))), bytes'))"
      by (intro conjunct2 [OF utf8_push_units [OF p]]) simp
    with IH [OF l] v show ?thesis by (simp add: emit_def)
  qed
  have len: "length bytes1 < length bs" if "emit cp u' bytes1 = Inr bs" "utf8_push cp u' bytes1 \<noteq> Inr None" for cp u' bytes1
    using that utf8_push_extends utf8_loop_extends
    by (fastforce simp: emit_def split: sum.splits option.splits prod.splits)
  have emit3: "emit cp (Some (u - 3)) (if u - 3 > -1 then bytes @ [239, 191, 189] else bytes) = Inr bs"
    if e: "emit cp None (bytes @ [239, 191, 189]) = Inr bs" for cp
  proof -
    have "utf8_push cp None (bytes @ [239, 191, 189]) \<noteq> Inr None" using utf8_push_None by fastforce
    from len [OF e this] show ?thesis using emit [OF e, of "u - 3"] Cons.prems(2) by simp
  qed
  show ?case using Cons.prems skip emit emit3 IH
    unfolding utf8_loop.simps Let_def emit_def [symmetric]
    by (auto simp: units_minus_def units_left_def split: if_splits option.splits)
qed simp

lemma utf8ToBytes_units:
  "utf8ToBytes s None = Inr bs \<Longrightarrow> utf8ToBytes s (Some (int (length bs))) = Inr bs"
  using utf8_loop_units [of s None "[]" bs "int (length bs)"]
  by (auto simp: utf8ToBytes_def units_or_Infinity_def)

section \<open>Hexadecimal and base 64 strings\<close>

text \<open>The bytes that pairs of digits stand for.\<close>

fun hex_bytes :: "jsstr \<Rightarrow> int list" where
  "hex_bytes (a # b # s) = (case parseInt [a, b] 16 of None \<Rightarrow> [] | Some v \<Rightarrow> v # hex_bytes s)"
| "hex_bytes _ = []"

text \<open>The strings \<^verbatim>\<open>hexSlice\<close> writes.\<close>

definition is_hex_digit :: "16 word \<Rightarrow> bool" where
  "is_hex_digit c \<longleftrightarrow> 48 \<le> c \<and> c \<le> 57 \<or> 97 \<le> c \<and> c \<le> 102"

definition is_hex_string :: "jsstr \<Rightarrow> bool" where
  "is_hex_string s \<longleftrightarrow> length s mod 2 = 0 \<and> list_all is_hex_digit s"

lemma hex_digit_value:
  assumes "is_hex_digit c"
  shows "0 \<le> digit_value c" "digit_value c < 16" "hex_digit (digit_value c) = c" "\<not> is_space c" "c \<noteq> 43" "c \<noteq> 45"
    "c \<noteq> 120" "c \<noteq> 88"
proof -
  have c: "c = word_of_int (uint c)" by simp
  have u: "48 \<le> uint c \<and> uint c \<le> 57 \<or> 97 \<le> uint c \<and> uint c \<le> 102"
    using assms by (auto simp: is_hex_digit_def word_le_def)
  then show "0 \<le> digit_value c" "digit_value c < 16" "hex_digit (digit_value c) = c" "\<not> is_space c"
    "c \<noteq> 43" "c \<noteq> 45" "c \<noteq> 120" "c \<noteq> 88"
    by (auto simp: digit_value_def hex_digit_def is_space_def word_le_def word_uint_eq_iff)
qed

lemma parseInt_hex_pair:
  assumes "is_hex_digit a" "is_hex_digit b"
  shows "parseInt [a, b] 16 = Some (16 * digit_value a + digit_value b)"
  using hex_digit_value [OF assms(1)] hex_digit_value [OF assms(2)]
  by (simp add: parseInt_def digits_value_def)

lemma toHex_pair:
  assumes "is_hex_digit a" "is_hex_digit b"
  shows "toHex (16 * digit_value a + digit_value b) = [a, b]"
proof -
  note v = hex_digit_value [OF assms(1)] hex_digit_value [OF assms(2)]
  have "(digit_value a * 16 + digit_value b) div 16 = digit_value a"
    "(digit_value a * 16 + digit_value b) mod 16 = digit_value b"
    using int_join_div_mod [of "digit_value b" 16 "digit_value a"] v by simp_all
  moreover have "a = 48" if "digit_value a = 0"
    using that v(3) by (simp add: hex_digit_def)
  ultimately show ?thesis using v by (cases "digit_value a = 0") (auto simp: toHex_def mult.commute)
qed

lemma hex_bytes_string:
  "is_hex_string s \<Longrightarrow> length (hex_bytes s) * 2 = length s
    \<and> concat (map (\<lambda>b. toHex (uint (word_of_int b :: byte))) (hex_bytes s)) = s"
proof (induction s rule: hex_bytes.induct)
  case (1 a b s)
  then have d: "is_hex_digit a" "is_hex_digit b" "is_hex_string s" by (auto simp: is_hex_string_def)
  have "uint (word_of_int (16 * digit_value a + digit_value b) :: byte) = 16 * digit_value a + digit_value b"
    using hex_digit_value [OF d(1)] hex_digit_value [OF d(2)] by (intro uint_word_of_int8) simp_all
  then show ?case using 1 d by (simp add: parseInt_hex_pair toHex_pair)
qed (auto simp: is_hex_string_def)

lemma hexWrite_loop_blit:
  assumes "is_hex_string s" "int (length buf) = int off + len" "len = int (length (hex_bytes s))" "0 \<le> i"
  shows "hexWrite_loop buf s (int off) len i = blit_loop (hex_bytes s) buf (int off) len i"
  using assms(2,4)
proof (induction "nat (len - i)" arbitrary: i buf rule: less_induct)
  case less
  show ?case
  proof (cases "i < len")
    case True
    have pair: "parseInt (str_slice t (k * 2) (k * 2 + 2)) 16 = Some (hex_bytes t ! k)"
      if "is_hex_string t" "k < length (hex_bytes t)" for t k
      using that
    proof (induction t arbitrary: k rule: hex_bytes.induct)
      case (1 a b t)
      then have "is_hex_digit a" "is_hex_digit b" "is_hex_string t" by (auto simp: is_hex_string_def)
      with 1 show ?case by (cases k) (auto simp: parseInt_hex_pair str_slice_def)
    qed auto
    have "nat (i * 2) = nat i * 2" using less.prems by (simp add: nat_mult_distrib)
    then have "parseInt (str_slice s (nat (i * 2)) (nat (i * 2) + 2)) 16 = Some (hex_bytes s ! nat i)"
      using True less.prems assms(3) by (simp only:) (rule pair [OF assms(1)], simp)
    then show ?thesis using True less assms(3)
      by (subst hexWrite_loop.simps, subst blit_loop.simps) (simp add: add.commute)
  next
    case False
    then show ?thesis by (subst hexWrite_loop.simps, subst blit_loop.simps) simp
  qed
qed

text \<open>
  \<^verbatim>\<open>hexSlice\<close> reads the end 0 as the end of the buffer, so the empty string is not among its strings;
  \<^verbatim>\<open>slowToString\<close> answers an empty range itself.
\<close>

interpretation hex: string_codec "\<lambda>s. Inr (hex_bytes s)" hexSlice "\<lambda>s. s \<noteq> [] \<and> is_hex_string s"
proof
  fix s :: jsstr and bs and pre post :: "byte list"
  assume "s \<noteq> [] \<and> is_hex_string s" and "Inr (hex_bytes s) = (Inr bs :: jserr + int list)"
  then show "hexSlice (pre @ map word_of_int bs @ post) (length pre) (length pre + length bs) = s"
    using hex_bytes_string [of s]
    by (cases "bs = []") (auto simp: hexSlice_def Let_def str_slice_mid o_def str_slice_def)
qed simp

text \<open>The strings \<^verbatim>\<open>fromByteArray\<close> writes.\<close>

definition is_base64 :: "jsstr \<Rightarrow> bool" where
  "is_base64 s \<longleftrightarrow> (\<exists>u. s = rfc4648 u)"

lemma base64_lookup_char: "0 \<le> x \<Longrightarrow> x < 64 \<Longrightarrow> base64_char (base64_lookup x) \<and> \<not> is_space (base64_lookup x)"
proof -
  assume x: "0 \<le> x" "x < 64"
  have "list_all (\<lambda>c. base64_char c \<and> \<not> is_space c) base64_code"
    unfolding base64_code_eq by (simp add: base64_char_def is_space_def)
  moreover have "nat x < length base64_code" using x by (simp add: base64_code_eq)
  ultimately show ?thesis unfolding base64_lookup_def by (simp add: list_all_length)
qed

lemma sextet_chars_alphabet:
  assumes "0 \<le> a" "a < 256" "0 \<le> b" "b < 256" "0 \<le> c" "c < 256"
  shows "list_all (\<lambda>c. base64_char c \<and> \<not> is_space c) (sextet_chars a b c)" "length (sextet_chars a b c) = 4"
  using base64_lookup_char [OF sextet_ranges(1,2) [OF assms]] base64_lookup_char [OF sextet_ranges(3,4) [OF assms]]
    base64_lookup_char [OF sextet_ranges(5,6) [OF assms]] base64_lookup_char [OF sextet_ranges(7,8) [OF assms]]
  by (simp_all only: sextet_chars_def list.pred_inject simp_thms list.size)

lemma rfc4648_shape:
  "\<exists>body. rfc4648 u = body @ replicate ((4 - length body mod 4) mod 4) 61
     \<and> list_all (\<lambda>c. base64_char c \<and> \<not> is_space c) body \<and> (u = [] \<longleftrightarrow> body = []) \<and> length body \<noteq> 1"
proof (induction u rule: rfc4648.induct)
  case (2 a)
  define cs where "cs = sextet_chars (uint a) 0 0"
  have "list_all (\<lambda>c. base64_char c \<and> \<not> is_space c) cs" "length cs = 4"
    unfolding cs_def by (rule sextet_chars_alphabet; simp)+
  then show ?case unfolding rfc4648.simps cs_def [symmetric]
    by (intro exI [of _ "take 2 cs"]) (auto simp: numeral_2_eq_2 list_all_iff dest: in_set_takeD)
next
  case (3 a b)
  define cs where "cs = sextet_chars (uint a) (uint b) 0"
  have "list_all (\<lambda>c. base64_char c \<and> \<not> is_space c) cs" "length cs = 4"
    unfolding cs_def by (rule sextet_chars_alphabet; simp)+
  then show ?case unfolding rfc4648.simps cs_def [symmetric]
    by (intro exI [of _ "take 3 cs"]) (auto simp: list_all_iff dest: in_set_takeD)
next
  case (4 a b c rest)
  then obtain body where body: "rfc4648 rest = body @ replicate ((4 - length body mod 4) mod 4) 61"
    "list_all (\<lambda>c. base64_char c \<and> \<not> is_space c) body" by blast
  define cs where "cs = sextet_chars (uint a) (uint b) (uint c)"
  have cs: "list_all (\<lambda>c. base64_char c \<and> \<not> is_space c) cs" "length cs = 4"
    unfolding cs_def by (rule sextet_chars_alphabet; simp)+
  have "rfc4648 (a # b # c # rest) = (cs @ body) @ replicate ((4 - length (cs @ body) mod 4) mod 4) 61"
    by (simp add: cs_def [symmetric] body(1) cs(2))
  moreover have "cs @ body \<noteq> []" "length (cs @ body) \<noteq> 1" using cs(2) by auto
  ultimately show ?case using body(2) cs(1)
    by (intro exI [of _ "cs @ body"]) (simp only: list_all_append list.distinct simp_thms)
qed simp

lemma trim_no_space: "list_all (\<lambda>c. \<not> is_space c) s \<Longrightarrow> trim s = s"
proof -
  have *: "dropWhile is_space t = t" if "list_all (\<lambda>c. \<not> is_space c) t" for t
    using that by (cases t) auto
  assume "list_all (\<lambda>c. \<not> is_space c) s"
  then show ?thesis using * [of s] * [of "rev s"] by (simp add: trim_def list_all_iff)
qed

lemma base64clean_rfc4648: "base64clean (rfc4648 u) = rfc4648 u"
proof -
  obtain body where b: "rfc4648 u = body @ replicate ((4 - length body mod 4) mod 4) 61"
    "list_all (\<lambda>c. base64_char c \<and> \<not> is_space c) body" "length body \<noteq> 1" "u = [] \<longleftrightarrow> body = []"
    using rfc4648_shape [of u] by blast
  have pad: "\<not> base64_char 61" "\<not> is_space 61" by (simp_all add: base64_char_def is_space_def word_le_def)
  have "list_all (\<lambda>c. \<not> is_space c) (rfc4648 u)" using b(2) pad by (auto simp: b(1) list_all_iff)
  then have "filter base64_char (trim (rfc4648 u)) = body"
    using b(2) pad by (simp add: trim_no_space) (simp add: b(1) list_all_iff)
  moreover have "2 \<le> length body" if "u \<noteq> []" using that b(3,4) by (cases body) (auto simp: neq_Nil_conv)
  ultimately show ?thesis using b(1,4) by (cases "u = []") (auto simp: base64clean_def Let_def)
qed

lemma slice_mid:
  assumes "length pre + n \<le> length buf" "length buf < 2 ^ 31"
  shows "slice buf (Num (int (length pre))) (Num (int (length pre + n))) = str_slice buf (length pre) (length pre + n)"
proof -
  have "int (length buf) < 2 ^ 31" using assms(2) by simp
  then have "toInt32 (int (length pre)) = int (length pre)" "toInt32 (int (length pre + n)) = int (length pre + n)"
    using assms by (auto intro!: toInt32_nonneg)
  then show ?thesis using assms
    by (simp add: slice_def slice_range_def int32_of_def slice_clamp_def Let_def nat_add_distrib)
qed

lemma slice_short:
  assumes "length buf < 2 ^ 31" "a \<le> b" "b \<le> length buf"
  shows "slice buf (Num (int a)) (Num (int b)) = str_slice buf a b"
  using slice_mid [of "take a buf" "b - a" buf] assms by simp

text \<open>
  The decoder of base 64 takes a slice first, whose arguments are 32-bit numbers; the theorems below are
  about buffers up to \<^verbatim>\<open>kMaxLength\<close>.
\<close>

lemma base64Slice_whole: "base64Slice u 0 (length u) = rfc4648 u"
  by (simp add: base64Slice_def base64_fromByteArray_rfc4648)

lemma map_word_uint [simp]: "map (word_of_int \<circ> uint) u = (u :: byte list)"
  by (simp add: o_def)

section \<open>A string through a buffer\<close>

text \<open>
  What \<^verbatim>\<open>fromString\<close> and \<^verbatim>\<open>toString\<close> rely on for the encoding \<open>E\<close>: the number of bytes is predicted, a buffer
  of this size is filled with the bytes, and reading all of it gives the string back.
\<close>

locale buffer_encoding =
  fixes E :: encoding and enc :: "jsstr \<Rightarrow> jserr + int list" and valid :: "jsstr \<Rightarrow> bool"
  assumes predicts: "valid s \<Longrightarrow> s \<noteq> [] \<Longrightarrow> resolve_encoding e = Some E \<Longrightarrow> enc s = Inr bs \<Longrightarrow>
      byteLength_str s (Some e) = Inr (int (length bs))"
    and fills: "valid s \<Longrightarrow> s \<noteq> [] \<Longrightarrow> enc s = Inr bs \<Longrightarrow>
      write_encoded E (replicate (length bs) 0) s 0 (int (length bs)) = Inr (int (length bs), map word_of_int bs)"
    and reads_all: "valid s \<Longrightarrow> s \<noteq> [] \<Longrightarrow> enc s = Inr bs \<Longrightarrow>
      bs \<noteq> [] \<and> slice_encoded E (map word_of_int bs) 0 (length bs) = s"
    and succeeds: "valid s \<Longrightarrow> s \<noteq> [] \<Longrightarrow> \<exists>bs. enc s = Inr bs"
begin

lemma from_bytes:
  assumes s: "valid s" "s \<noteq> []" "enc s = Inr bs" and e: "isEncoding e" "resolve_encoding e = Some E"
    and fits: "int (length bs) \<le> kMaxLength ta"
  shows "fromString ta s (Str e) = Inr (map word_of_int bs)"
proof -
  have "e \<noteq> []" using e(1) by (auto simp: isEncoding_def toLowerCase_def encoding_case_def js_def)
  moreover have n: "js_or (int (length bs)) 0 = int (length bs)"
    using fits by (simp add: js_or_zero toInt32_nonneg kMaxLength_def split: if_splits)
  moreover have "createBuffer ta (int (length bs)) = Inr (replicate (length bs) 0)"
    using fits by (simp add: createBuffer_def)
  moreover have "buf_write (replicate (length bs) 0) s (Str e) Undefined Undefined
      = Inr (int (length bs), map word_of_int bs)"
    using fills [OF s] e \<open>e \<noteq> []\<close> by (simp add: buf_write_def write_args_def encoding_name_def)
  ultimately show ?thesis
    using e predicts [OF s(1,2) e(2) s(3)] by (simp add: fromString_def Let_def)
qed

lemma through_buffer:
  assumes s: "valid s" "enc s = Inr bs" and e: "isEncoding e" "resolve_encoding e = Some E"
    and fits: "int (length bs) \<le> kMaxLength ta"
  shows "\<exists>buf. fromString ta s (Str e) = Inr buf \<and> toString buf (Some (Str e, Undefined, Undefined)) = Inr s"
proof (cases "s = []")
  case True
  have "e \<noteq> []" using e(1) by (auto simp: isEncoding_def toLowerCase_def encoding_case_def js_def)
  have blit: "blitBuffer xs [] 0 0 = (0, [])" for xs by (simp add: blitBuffer_def blit_loop.simps)
  have "write_encoded E [] [] 0 0 = Inr (0, [])"
    by (cases E) (simp_all add: write_encoded_def hexWrite_def hexWrite_loop.simps utf8Write_def asciiWrite_def
      latin1Write_def base64Write_def ucs2Write_def blit utf8ToBytes_def base64ToBytes_def base64clean_def trim_def
      base64_toByteArray_def base64_getLens_def base64_decode_loop.simps filled_array_def base64_lenOf_def)
  then have "fromString ta s (Str e) = Inr []"
    using True e \<open>e \<noteq> []\<close> by (simp add: fromString_def byteLength_str_def createBuffer_def kMaxLength_def
      buf_write_def write_args_def encoding_name_def Let_def js_or_def toInt32_def)
  then show ?thesis using True by (simp add: toString_def js_or_def toInt32_def)
next
  case False
  note r = reads_all [OF s(1) False s(2)] and f = from_bytes [OF s(1) False s(2) e fits]
  have "e \<noteq> []" using e(1) by (auto simp: isEncoding_def toLowerCase_def encoding_case_def js_def)
  have b: "int (length bs) < 2 ^ 31" using fits by (simp add: kMaxLength_def split: if_splits)
  then have "js_or (int (length bs)) 0 = int (length bs)" "toUint32 (int (length bs)) = int (length bs)" "toUint32 0 = 0"
    by (simp_all add: js_or_zero toInt32_nonneg toUint32_small)
  then have "toString (map word_of_int bs) (Some (Str e, Undefined, Undefined)) = Inr s"
    using r e \<open>e \<noteq> []\<close>
    by (simp add: toString_def slowToString_def num_lt_def num_le_def uint32_of_def Let_def encoding_name_def)
  with f show ?thesis by blast
qed

end

lemma codec_reads:
  assumes "string_codec enc dec valid" "dec [] 0 0 = []" "valid s" "s \<noteq> []" "enc s = Inr bs"
  shows "bs \<noteq> [] \<and> dec (map word_of_int bs) 0 (length bs) = s"
  using string_codec.decodes [OF assms(1,3,5), of "[]" "[]"] assms(2,4) by auto

lemmas encoded = write_encoded_def slice_encoded_def byteLength_str_def Let_def

lemma empty_slices:
  "utf8Slice [] 0 0 = []" "asciiSlice [] 0 0 = []" "latin1Slice [] 0 0 = []" "utf16leSlice [] 0 0 = []" "hexSlice [] 0 0 = []"
  by (simp_all add: utf8Slice_def utf8_slice_loop.simps decodeCodePointsArray_def asciiSlice_def latin1Slice_def
    utf16leSlice_def hexSlice_def str_slice_def)

interpretation utf8_buffer: buffer_encoding Utf8 "\<lambda>s. utf8ToBytes s None" well_formed
proof (unfold_locales, goal_cases)
  case (2 s bs)
  then show ?case by (simp add: encoded utf8Write_def utf8ToBytes_units blitBuffer_all)
next
  case (3 s bs)
  then show ?case using codec_reads [OF utf8.string_codec_axioms] by (simp add: encoded empty_slices)
qed (simp_all add: encoded utf8.encodes)

interpretation latin1_buffer: buffer_encoding Latin1 "\<lambda>s. Inr (asciiToBytes s)" "list_all (\<lambda>c. uint c < 256)"
proof (unfold_locales, goal_cases)
  case (3 s bs)
  then show ?case using codec_reads [OF latin1.string_codec_axioms, of s bs] by (simp add: encoded empty_slices)
qed (auto simp add: encoded latin1Write_def asciiWrite_def asciiToBytes_def blitBuffer_all)

interpretation ascii_buffer: buffer_encoding Ascii "\<lambda>s. Inr (asciiToBytes s)" "list_all (\<lambda>c. uint c < 128)"
proof (unfold_locales, goal_cases)
  case (3 s bs)
  then show ?case using codec_reads [OF ascii.string_codec_axioms, of s bs] by (simp add: encoded empty_slices)
qed (auto simp add: encoded asciiWrite_def asciiToBytes_def blitBuffer_all)

interpretation ucs2_buffer: buffer_encoding Ucs2 "\<lambda>s. Inr (utf16leToBytes s (2 * int (length s)))" "\<lambda>_. True"
proof (unfold_locales, goal_cases)
  case (2 s bs)
  then show ?case
    using length_utf16leToBytes [of s "2 * int (length s)"] blitBuffer_all [of "length bs" bs]
    by (auto simp: encoded ucs2Write_def)
next
  case (3 s bs)
  then show ?case using codec_reads [OF ucs2.string_codec_axioms, of s bs] by (simp add: encoded empty_slices)
qed (auto simp add: encoded length_utf16leToBytes)

lemma hex_length:
  assumes "is_hex_string s" "length s < 4294967296"
  shows "js_ushr (int (length s)) (Suc 0) = int (length (hex_bytes s))"
proof -
  have "length (hex_bytes s) * 2 = length s" using hex_bytes_string [OF assms(1)] by simp
  then have "int (length s) = int (length (hex_bytes s)) * 2" by simp
  then show ?thesis using assms(2) js_ushr_small [of "int (length s)" 1] by simp
qed

interpretation hex_buffer: buffer_encoding Hex "\<lambda>s. Inr (hex_bytes s)"
  "\<lambda>s. is_hex_string s \<and> int (length s) < 2 ^ 32"
proof (unfold_locales, goal_cases)
  case (2 s bs)
  then have bs: "bs = hex_bytes s" and s: "is_hex_string s" by simp_all
  have "length bs * 2 = length s" unfolding bs by (rule hex_bytes_string [OF s, THEN conjunct1])
  then have "int (length s) = int (length bs) * 2" by simp
  moreover have "hexWrite_loop (replicate (length bs) 0) s 0 (int (length bs)) 0 = (int (length bs), map word_of_int bs)"
    using hexWrite_loop_blit [OF s, of "replicate (length bs) 0" 0 "int (length bs)" 0] blitBuffer_all [of "length bs" bs]
    by (simp add: blitBuffer_def bs)
  ultimately show ?case by (auto simp: write_encoded_def hexWrite_def Let_def)
next
  case (3 s bs)
  then show ?case using codec_reads [OF hex.string_codec_axioms, of s bs] by (simp add: encoded empty_slices)
qed (auto simp add: encoded hex_length)

interpretation base64_buffer: buffer_encoding Base64 base64ToBytes is_base64
proof (unfold_locales, goal_cases)
  case (2 s bs)
  then show ?case by (simp add: encoded base64Write_def blitBuffer_all)
next
  case (3 s bs)
  then obtain u where u: "s = rfc4648 u" by (auto simp: is_base64_def)
  then have "bs = map uint u" using 3 base64_toByteArray_rfc4648 [of u] by (simp add: base64ToBytes_def base64clean_rfc4648)
  then show ?case using u 3 base64Slice_whole [of u] by (auto simp: encoded)
next
  case (4 s)
  then show ?case using base64_toByteArray_rfc4648 by (auto simp: is_base64_def base64ToBytes_def base64clean_rfc4648)
qed (simp add: encoded)

section \<open>The properties of strings in buffers\<close>

text \<open>The name of an encoding in any case.\<close>

definition names :: "jsstr \<Rightarrow> encoding \<Rightarrow> bool" where
  "names e E \<longleftrightarrow> isEncoding e \<and> resolve_encoding e = Some E"

text \<open>\<^verbatim>\<open>Buffer.from(s, e).toString(e)\<close> is \<open>s\<close> for the UTF-8 encoding and every string with paired surrogates
  whose bytes fit into a buffer.\<close>

theorem utf8_through_buffer:
  assumes "well_formed s" "utf8ToBytes s None = Inr bs" "names e Utf8" "int (length bs) \<le> kMaxLength ta"
  shows "\<exists>buf. fromString ta s (Str e) = Inr buf \<and> toString buf (Some (Str e, Undefined, Undefined)) = Inr s"
  using utf8_buffer.through_buffer [OF assms(1,2)] assms(3,4) by (simp add: names_def)

theorem utf8_through_buffer_witness:
  "\<exists>buf. fromString True [0xE9, 0xD83D, 0xDE00] (Str (js ''UTF-8'')) = Inr buf
    \<and> toString buf (Some (Str (js ''UTF-8''), Undefined, Undefined)) = Inr [0xE9, 0xD83D, 0xDE00]"
  by (rule utf8_through_buffer [where bs = "[195, 169, 240, 159, 152, 128]"]; code_simp)

text \<open>The same for hexadecimal strings of an even number of lower case digits.\<close>

theorem hex_through_buffer:
  assumes "is_hex_string s" "int (length s) < 2 ^ 32" "names e Hex" "int (length (hex_bytes s)) \<le> kMaxLength ta"
  shows "\<exists>buf. fromString ta s (Str e) = Inr buf \<and> toString buf (Some (Str e, Undefined, Undefined)) = Inr s"
  using hex_buffer.through_buffer [of s "hex_bytes s"] assms by (simp add: names_def)

theorem hex_through_buffer_witness:
  "\<exists>buf. fromString True (js ''00ff7a'') (Str (js ''hex'')) = Inr buf
    \<and> toString buf (Some (Str (js ''hex''), Undefined, Undefined)) = Inr (js ''00ff7a'')"
  by (rule hex_through_buffer; code_simp)

text \<open>The base 64 encoding of any bytes, cleaned and decoded by \<^verbatim>\<open>Buffer.from\<close>, gives these bytes, and
  \<^verbatim>\<open>toString\<close> writes the same encoding again.\<close>

theorem base64_through_buffer:
  assumes "names e Base64" "int (length u) \<le> kMaxLength ta" "u \<noteq> []"
  shows "fromString ta (base64_fromByteArray u) (Str e) = Inr u
    \<and> toString u (Some (Str e, Undefined, Undefined)) = Inr (base64_fromByteArray u)"
proof -
  have enc: "base64ToBytes (rfc4648 u) = Inr (map uint u)"
    using base64_toByteArray_rfc4648 [of u] by (simp add: base64ToBytes_def base64clean_rfc4648)
  have "is_base64 (rfc4648 u)" "rfc4648 u \<noteq> []"
    using assms(3) by (auto simp: is_base64_def sextet_chars_def elim: rfc4648.elims)
  then show ?thesis
    using base64_buffer.from_bytes [OF _ _ enc] base64_buffer.through_buffer [OF _ enc] assms
    by (auto simp: names_def base64_fromByteArray_rfc4648)
qed

theorem base64_through_buffer_witness:
  "fromString True (base64_fromByteArray [255, 0, 62, 7]) (Str (js ''base64'')) = Inr [255, 0, 62, 7]
    \<and> toString [255, 0, 62, 7] (Some (Str (js ''base64''), Undefined, Undefined)) = Inr (base64_fromByteArray [255, 0, 62, 7])"
  by (rule base64_through_buffer; code_simp)

text \<open>Every string at all passes through a buffer in the UTF-16 encoding.\<close>

theorem ucs2_through_buffer:
  assumes "names e Ucs2" "2 * int (length s) \<le> kMaxLength ta"
  shows "\<exists>buf. fromString ta s (Str e) = Inr buf \<and> toString buf (Some (Str e, Undefined, Undefined)) = Inr s"
  using ucs2_buffer.through_buffer [of s "utf16leToBytes s (2 * int (length s))"] assms
  by (simp add: names_def length_utf16leToBytes)

theorem ucs2_through_buffer_witness:
  "\<exists>buf. fromString False [0xD800, 0x41] (Str (js ''utf-16le'')) = Inr buf
    \<and> toString buf (Some (Str (js ''utf-16le''), Undefined, Undefined)) = Inr [0xD800, 0x41]"
  by (rule ucs2_through_buffer; code_simp)

end
