(* ===== verification/BufferObj.thy ===== *)
theory BufferObj
  imports BufferStr
begin

text \<open>
  Whole buffers (\<^verbatim>\<open>swagger-ui.js\<close>, lines 11842 to 13236): allocation and the constructor, \<^verbatim>\<open>from\<close> on its kinds
  of arguments, \<^verbatim>\<open>compare\<close>, \<^verbatim>\<open>equals\<close>, \<^verbatim>\<open>concat\<close>, \<^verbatim>\<open>copy\<close>, \<^verbatim>\<open>fill\<close>, the byte swaps, the searches, \<^verbatim>\<open>inspect\<close> and
  \<^verbatim>\<open>toJSON\<close>. A method returns the contents of the buffer it changes. Where the code asks whether two
  references are the same object (\<^verbatim>\<open>this === target\<close>) the answer is an argument.
  The lemmas show that \<^verbatim>\<open>copy\<close> moves bytes correctly also within one buffer, that \<^verbatim>\<open>concat\<close> joins or cuts,
  that \<^verbatim>\<open>compare\<close> is the lexicographic order, that the swaps are involutions, and that the searches find
  the first occurrence.
\<close>

section \<open>Allocation\<close>

text \<open>\<open>None\<close> is a size that is no number.\<close>

definition assertSize :: "int option \<Rightarrow> jserr + int" where
  "assertSize sz =
     (case sz of
        None \<Rightarrow> Inl (TypeError ''\"size\" argument must be a number'')
      | Some n \<Rightarrow> if n < 0 then Inl (RangeError ''\"size\" argument must not be negative'') else Inr n)"

definition allocUnsafe :: "bool \<Rightarrow> int option \<Rightarrow> jserr + buffer" where
  "allocUnsafe ta sz =
     rbind (assertSize sz) (\<lambda>n.
       if n < 0 then createBuffer ta 0
       else rbind (checked ta n) (\<lambda>m. createBuffer ta (js_or m 0)))"

section \<open>Buffers from values\<close>

text \<open>
  The first argument of \<^verbatim>\<open>Buffer.from\<close>: an array-like object has a length, \<open>None\<close> where it is not a number,
  and the numbers it holds from index 0 on; an object with a type and data is what \<^verbatim>\<open>toJSON\<close> returns.
\<close>

datatype bvalue =
  VNumber int
| VString jsstr
| VArrayBuffer "byte list"
| VBuffer buffer
| VArrayLike "int option" "int list"
| VTyped jsstr "int list option"
| VNothing

definition element :: "int list \<Rightarrow> nat \<Rightarrow> int" where
  "element xs i = (if i < length xs then xs ! i else 0)"

definition fromArrayLike :: "bool \<Rightarrow> int \<Rightarrow> int list \<Rightarrow> jserr + buffer" where
  "fromArrayLike ta len array =
     rbind (if len < 0 then Inr 0 else rbind (checked ta len) (\<lambda>m. Inr (js_or m 0))) (\<lambda>n.
       rbind (createBuffer ta n) (\<lambda>that.
         Inr (map (\<lambda>i. word_of_int (js_and (element array i) 255)) [0..<length that])))"

definition from_view :: "bool \<Rightarrow> byte list \<Rightarrow> jserr + buffer" where
  "from_view ta array = (if ta then Inr array else fromArrayLike ta (int (length array)) (map uint array))"

text \<open>\<^verbatim>\<open>new Uint8Array(array, byteOffset, length)\<close> on the bytes of an array buffer; the bounds were checked.\<close>

definition fromArrayBuffer :: "bool \<Rightarrow> byte list \<Rightarrow> int option \<Rightarrow> int option \<Rightarrow> jserr + buffer" where
  "fromArrayBuffer ta array byteOffset len =
     (let n = int (length array);
          l0 = (case len of None \<Rightarrow> 0 | Some l \<Rightarrow> l)
      in if num_lt byteOffset (Some 0) \<or> num_lt (Some n) byteOffset then Inl (RangeError ''offset is out of bounds'')
         else if num_lt (Some n) (map_option (\<lambda>b. b + l0) byteOffset) then Inl (RangeError ''length is out of bounds'')
         else
           (let b = (case byteOffset of None \<Rightarrow> 0 | Some b \<Rightarrow> b)
            in case len of
                 None \<Rightarrow> from_view ta (drop (nat b) array)
               | Some l \<Rightarrow>
                   if l < 0 \<or> b + l > n then Inl (RangeError ''Invalid typed array length'')
                   else from_view ta (take (nat l) (drop (nat b) array))))"

definition isBuffer :: "bvalue \<Rightarrow> bool" where
  "isBuffer v = (case v of VBuffer _ \<Rightarrow> True | _ \<Rightarrow> False)"

section \<open>Copying\<close>

text \<open>
  \<^verbatim>\<open>this.copy(target, targetStart, start, end)\<close> with \<open>same\<close> for \<^verbatim>\<open>this === target\<close>. An argument \<open>None\<close> is
  \<^verbatim>\<open>undefined\<close>. The loops read from \<^verbatim>\<open>this\<close>, which is the changing target when the two are the same.
\<close>

definition copy_byte :: "bool \<Rightarrow> buffer \<Rightarrow> buffer \<Rightarrow> int \<Rightarrow> int \<Rightarrow> int \<Rightarrow> buffer" where
  "copy_byte same this target targetStart start i =
     set_at target (i + targetStart) (bits (get (if same then target else this) (i + start)))"

function copy_down :: "bool \<Rightarrow> buffer \<Rightarrow> buffer \<Rightarrow> int \<Rightarrow> int \<Rightarrow> int \<Rightarrow> buffer" where
  "copy_down same this target targetStart start i =
     (if i \<ge> 0 then
        copy_down same this (copy_byte same this target targetStart start i) targetStart start (i - 1)
      else target)"
  by pat_completeness auto
termination
  by (relation "measure (\<lambda>(same, this, target, targetStart, start, i). nat (i + 1))") auto

declare copy_down.simps [simp del]

function copy_up :: "bool \<Rightarrow> buffer \<Rightarrow> buffer \<Rightarrow> int \<Rightarrow> int \<Rightarrow> int \<Rightarrow> int \<Rightarrow> buffer" where
  "copy_up same this target targetStart start len i =
     (if i < len then
        copy_up same this (copy_byte same this target targetStart start i) targetStart start len (i + 1)
      else target)"
  by pat_completeness auto
termination
  by (relation "measure (\<lambda>(same, this, target, targetStart, start, len, i). nat (len - i))") auto

declare copy_up.simps [simp del]

text \<open>\<^verbatim>\<open>Uint8Array.prototype.set\<close> of a subarray: the source is read before the target is changed.\<close>

definition typed_set :: "buffer \<Rightarrow> buffer \<Rightarrow> int \<Rightarrow> buffer" where
  "typed_set target src offset = take (nat offset) target @ src @ drop (nat offset + length src) target"

definition copy_bytes :: "bool \<Rightarrow> bool \<Rightarrow> buffer \<Rightarrow> buffer \<Rightarrow> int \<Rightarrow> int \<Rightarrow> int \<Rightarrow> buffer" where
  "copy_bytes ta same this target targetStart start end' =
     (let len = end' - start
      in if same \<and> start < targetStart \<and> targetStart < end' then
           copy_down same this target targetStart start (len - 1)
         else if len < 1000 \<or> \<not> ta then copy_up same this target targetStart start len 0
         else typed_set target (str_slice this (nat start) (nat (start + len))) targetStart)"

definition copy :: "bool \<Rightarrow> bool \<Rightarrow> buffer \<Rightarrow> buffer \<Rightarrow> int option \<Rightarrow> int option \<Rightarrow> int option \<Rightarrow> jserr + int \<times> buffer" where
  "copy ta same this target targetStart start end' =
     (let n = int (length this); m = int (length target);
          start = (case start of None \<Rightarrow> 0 | Some x \<Rightarrow> x);
          end' = (case end' of None \<Rightarrow> n | Some x \<Rightarrow> x);
          targetStart = (case targetStart of None \<Rightarrow> 0 | Some x \<Rightarrow> if x \<ge> m then m else x);
          end' = (if end' > 0 \<and> end' < start then start else end')
      in if end' = start then Inr (0, target)
         else if m = 0 \<or> n = 0 then Inr (0, target)
         else if targetStart < 0 then Inl (RangeError ''targetStart out of bounds'')
         else if start < 0 \<or> start \<ge> n then Inl (RangeError ''sourceStart out of bounds'')
         else if end' < 0 then Inl (RangeError ''sourceEnd out of bounds'')
         else
           (let end' = (if end' > n then n else end');
                end' = (if m - targetStart < end' - start then m - targetStart + start else end')
            in Inr (end' - start, copy_bytes ta same this target targetStart start end')))"

section \<open>The constructor\<close>

definition fromObject :: "bool \<Rightarrow> bvalue \<Rightarrow> jserr + buffer" where
  "fromObject ta obj =
     (case obj of
        VBuffer b \<Rightarrow>
          rbind (checked ta (int (length b))) (\<lambda>m.
            let len = js_or m 0
            in rbind (createBuffer ta len) (\<lambda>that.
                 if length that = 0 then Inr that
                 else rbind (copy ta False b that (Some 0) (Some 0) (Some len)) (\<lambda>(_, that). Inr that)))
      | VArrayLike len xs \<Rightarrow>
          (case len of None \<Rightarrow> createBuffer ta 0 | Some n \<Rightarrow> fromArrayLike ta n xs)
      | VTyped type (Some data) \<Rightarrow>
          if type = js ''Buffer'' then fromArrayLike ta (int (length data)) data
          else Inl (TypeError ''First argument must be a string, Buffer, ArrayBuffer, Array, or array-like object.'')
      | _ \<Rightarrow> Inl (TypeError ''First argument must be a string, Buffer, ArrayBuffer, Array, or array-like object.''))"

definition buf_from :: "bool \<Rightarrow> bvalue \<Rightarrow> jsarg \<Rightarrow> jsarg \<Rightarrow> jserr + buffer" where
  "buf_from ta value encodingOrOffset len =
     (case value of
        VNumber _ \<Rightarrow> Inl (TypeError ''\"value\" argument must not be a number'')
      | VArrayBuffer b \<Rightarrow> fromArrayBuffer ta b (toNumber encodingOrOffset) (toNumber len)
      | VString s \<Rightarrow> fromString ta s encodingOrOffset
      | _ \<Rightarrow> fromObject ta value)"

definition new_Buffer :: "bool \<Rightarrow> bvalue \<Rightarrow> jsarg \<Rightarrow> jsarg \<Rightarrow> jserr + buffer" where
  "new_Buffer ta arg encodingOrOffset len =
     (case arg of
        VNumber n \<Rightarrow>
          (case encodingOrOffset of
             Str _ \<Rightarrow> Inl (PlainError ''If encoding is specified then the first argument must be a string'')
           | _ \<Rightarrow> allocUnsafe ta (Some n))
      | _ \<Rightarrow> buf_from ta arg encodingOrOffset len)"

section \<open>Filling\<close>

text \<open>The value of \<^verbatim>\<open>fill\<close> after the conversions: a number or a repeated pattern.\<close>

datatype pattern = PNumber int | PValue bvalue

fun pattern_of :: "bvalue \<Rightarrow> pattern" where
  "pattern_of (VNumber n) = PNumber (js_and n 255)"
| "pattern_of (VString s) =
     (if length s = 1 \<and> charCodeAt s 0 < 256 then PNumber (charCodeAt s 0)
      else if s = [] then PNumber 0 else PValue (VString s))"
| "pattern_of VNothing = PNumber 0"
| "pattern_of v = PValue v"

text \<open>The shifted arguments of \<^verbatim>\<open>fill(value, encoding)\<close> and \<^verbatim>\<open>fill(value, start, encoding)\<close>.\<close>

definition fill_args :: "nat \<Rightarrow> bvalue \<Rightarrow> jsarg \<Rightarrow> jsarg \<Rightarrow> jsarg \<Rightarrow> jserr + jsarg \<times> jsarg \<times> jsarg" where
  "fill_args n val start end' encoding =
     (case val of
        VString _ \<Rightarrow>
          (let (start, end', encoding) =
             (case (start, end') of
                (Str e, _) \<Rightarrow> (Num 0, Num (int n), Str e)
              | (_, Str e) \<Rightarrow> (start, Num (int n), Str e)
              | _ \<Rightarrow> (start, end', encoding))
           in case encoding of
                Undefined \<Rightarrow> Inr (start, end', encoding)
              | Num _ \<Rightarrow> Inl (TypeError ''encoding must be a string'')
              | Str e \<Rightarrow> if \<not> isEncoding e then Inl (TypeError ''Unknown encoding'') else Inr (start, end', encoding))
      | _ \<Rightarrow> Inr (start, end', encoding))"

text \<open>The loops of \<^verbatim>\<open>fill\<close>: a store of the \<open>i\<close>th byte for every \<open>i\<close> of a range.\<close>

fun store_range :: "nat \<Rightarrow> int \<Rightarrow> (int \<Rightarrow> int) \<Rightarrow> int \<Rightarrow> buffer \<Rightarrow> buffer" where
  "store_range 0 start f i buf = buf"
| "store_range (Suc k) start f i buf = store_range k start f (i + 1) (set_at buf (i + start) (f i))"

definition repeated :: "int list \<Rightarrow> int \<Rightarrow> int" where
  "repeated bytes i = (if bytes = [] then 0 else bytes ! nat (i mod int (length bytes)))"

definition pattern_bytes :: "bool \<Rightarrow> bvalue \<Rightarrow> jsarg \<Rightarrow> jserr + int list" where
  "pattern_bytes ta val encoding =
     (case val of
        VBuffer b \<Rightarrow> Inr (map uint b)
      | _ \<Rightarrow>
          rbind (new_Buffer ta val encoding Undefined) (\<lambda>b.
            rbind (toString b None) (\<lambda>t. utf8ToBytes t None)))"

definition fill :: "bool \<Rightarrow> buffer \<Rightarrow> bvalue \<Rightarrow> jsarg \<Rightarrow> jsarg \<Rightarrow> jsarg \<Rightarrow> jserr + buffer" where
  "fill ta buf val start end' encoding =
     rbind (fill_args (length buf) val start end' encoding) (\<lambda>(start, end', encoding).
       let n = Some (int (length buf)); s = toNumber start; e = toNumber end'
       in if num_lt s (Some 0) \<or> num_lt n s \<or> num_lt n e then Inl (RangeError ''Out of range index'')
          else if num_le e s then Inr buf
          else
            (let start = uint32_of s; end' = (if end' = Undefined then int (length buf) else uint32_of e)
             in case pattern_of val of
                  PNumber v \<Rightarrow> Inr (store_range (nat (end' - start)) start (\<lambda>_. v) 0 buf)
                | PValue v \<Rightarrow>
                    rbind (pattern_bytes ta v encoding) (\<lambda>bytes.
                      Inr (store_range (nat (end' - start)) start (repeated bytes) 0 buf))))"

definition alloc :: "bool \<Rightarrow> int option \<Rightarrow> bvalue option \<Rightarrow> jsarg \<Rightarrow> jserr + buffer" where
  "alloc ta sz fill' encoding =
     rbind (assertSize sz) (\<lambda>n.
       if n \<le> 0 then createBuffer ta n
       else rbind (createBuffer ta n) (\<lambda>b.
         case fill' of
           None \<Rightarrow> Inr b
         | Some v \<Rightarrow>
            (case encoding of
               Str e \<Rightarrow> fill ta b v (Str e) Undefined Undefined
             | _ \<Rightarrow> fill ta b v Undefined Undefined Undefined)))"

definition SlowBuffer :: "bool \<Rightarrow> int option \<Rightarrow> jserr + buffer" where
  "SlowBuffer ta len = alloc ta (Some (case len of None \<Rightarrow> 0 | Some n \<Rightarrow> n)) None Undefined"

section \<open>Comparing\<close>

text \<open>The loop of both comparisons: the first index where the two differ decides, else the lengths \<open>x\<close> and \<open>y\<close>.\<close>

fun compare_loop :: "byte list \<Rightarrow> byte list \<Rightarrow> int \<Rightarrow> int \<Rightarrow> int \<times> int" where
  "compare_loop (a # as) (b # bs) x y = (if a \<noteq> b then (uint a, uint b) else compare_loop as bs x y)"
| "compare_loop _ _ x y = (x, y)"

definition order3 :: "int \<times> int \<Rightarrow> int" where
  "order3 p = (case p of (x, y) \<Rightarrow> if x < y then -1 else if y < x then 1 else 0)"

definition compare_static :: "bool \<Rightarrow> bvalue \<Rightarrow> bvalue \<Rightarrow> jserr + int" where
  "compare_static same a b =
     (case (a, b) of
        (VBuffer x, VBuffer y) \<Rightarrow>
          if same then Inr 0
          else Inr (order3 (compare_loop x y (int (length x)) (int (length y))))
      | _ \<Rightarrow> Inl (TypeError ''Arguments must be Buffers''))"

definition equals :: "bool \<Rightarrow> buffer \<Rightarrow> bvalue \<Rightarrow> jserr + bool" where
  "equals same this b =
     (if \<not> isBuffer b then Inl (TypeError ''Argument must be a Buffer'')
      else if same then Inr True
      else rbind (compare_static same (VBuffer this) b) (\<lambda>c. Inr (c = 0)))"

definition compare_range :: "bool \<Rightarrow> buffer \<Rightarrow> bvalue \<Rightarrow> int option \<Rightarrow> int option \<Rightarrow> int option \<Rightarrow> int option \<Rightarrow> jserr + int" where
  "compare_range same this target start end' thisStart thisEnd =
     (case target of
        VBuffer t \<Rightarrow>
          (let start = (case start of None \<Rightarrow> 0 | Some x \<Rightarrow> x);
               end' = (case end' of None \<Rightarrow> int (length t) | Some x \<Rightarrow> x);
               thisStart = (case thisStart of None \<Rightarrow> 0 | Some x \<Rightarrow> x);
               thisEnd = (case thisEnd of None \<Rightarrow> int (length this) | Some x \<Rightarrow> x)
           in if start < 0 \<or> end' > int (length t) \<or> thisStart < 0 \<or> thisEnd > int (length this)
              then Inl (RangeError ''out of range index'')
              else if thisStart \<ge> thisEnd \<and> start \<ge> end' then Inr 0
              else if thisStart \<ge> thisEnd then Inr (-1)
              else if start \<ge> end' then Inr 1
              else
                (let start = toUint32 start; end' = toUint32 end';
                     thisStart = toUint32 thisStart; thisEnd = toUint32 thisEnd
                 in if same then Inr 0
                    else Inr (order3 (compare_loop (slice this (Num thisStart) (Num thisEnd)) (slice t (Num start) (Num end'))
                           (thisEnd - thisStart) (end' - start)))))
      | _ \<Rightarrow> Inl (TypeError ''Argument must be a Buffer''))"

section \<open>Joining\<close>

text \<open>\<open>None\<close> for the list is an argument that is no array.\<close>

fun concat_loop :: "bool \<Rightarrow> bvalue list \<Rightarrow> buffer \<Rightarrow> int \<Rightarrow> jserr + buffer" where
  "concat_loop ta [] buffer pos = Inr buffer"
| "concat_loop ta (VBuffer buf # list) buffer pos =
     rbind (copy ta False buf buffer (Some pos) None None) (\<lambda>(_, buffer).
       concat_loop ta list buffer (pos + int (length buf)))"
| "concat_loop ta (_ # list) buffer pos = Inl (TypeError ''\"list\" argument must be an Array of Buffers'')"

text \<open>The \<^verbatim>\<open>length\<close> property of an element; \<open>None\<close> is \<^verbatim>\<open>undefined\<close>, which makes the sum \<^verbatim>\<open>NaN\<close>.\<close>

fun value_length :: "bvalue \<Rightarrow> int option" where
  "value_length (VBuffer b) = Some (int (length b))"
| "value_length (VString s) = Some (int (length s))"
| "value_length (VArrayLike n xs) = n"
| "value_length _ = None"

fun sum_lengths :: "bvalue list \<Rightarrow> int option" where
  "sum_lengths [] = Some 0"
| "sum_lengths (v # vs) =
     (case (value_length v, sum_lengths vs) of (Some a, Some b) \<Rightarrow> Some (a + b) | _ \<Rightarrow> None)"

text \<open>\<^verbatim>\<open>allocUnsafe(NaN)\<close> passes every check and gives an empty buffer.\<close>

definition buf_concat :: "bool \<Rightarrow> bvalue list option \<Rightarrow> int option \<Rightarrow> jserr + buffer" where
  "buf_concat ta list len =
     (case list of
        None \<Rightarrow> Inl (TypeError ''\"list\" argument must be an Array of Buffers'')
      | Some [] \<Rightarrow> alloc ta (Some 0) None Undefined
      | Some vs \<Rightarrow>
          (let len = (case len of None \<Rightarrow> sum_lengths vs | Some l \<Rightarrow> Some l)
           in rbind (case len of None \<Rightarrow> createBuffer ta 0 | Some l \<Rightarrow> allocUnsafe ta (Some l)) (\<lambda>buffer.
                concat_loop ta vs buffer 0)))"

section \<open>Swapping bytes\<close>

definition swap :: "buffer \<Rightarrow> nat \<Rightarrow> nat \<Rightarrow> buffer" where
  "swap b n m = b[n := b ! m, m := b ! n]"

fun swap16_loop :: "buffer \<Rightarrow> nat list \<Rightarrow> buffer" where
  "swap16_loop b [] = b"
| "swap16_loop b (i # is) = swap16_loop (swap b i (i + 1)) is"

fun swap32_loop :: "buffer \<Rightarrow> nat list \<Rightarrow> buffer" where
  "swap32_loop b [] = b"
| "swap32_loop b (i # is) = swap32_loop (swap (swap b i (i + 3)) (i + 1) (i + 2)) is"

fun swap64_loop :: "buffer \<Rightarrow> nat list \<Rightarrow> buffer" where
  "swap64_loop b [] = b"
| "swap64_loop b (i # is) =
     swap64_loop (swap (swap (swap (swap b i (i + 7)) (i + 1) (i + 6)) (i + 2) (i + 5)) (i + 3) (i + 4)) is"

text \<open>The values of \<^verbatim>\<open>i\<close> in \<^verbatim>\<open>for (i = 0; i < len; i += step)\<close>.\<close>

definition steps :: "nat \<Rightarrow> nat \<Rightarrow> nat list" where
  "steps len step = map (\<lambda>k. k * step) [0..<(len + step - 1) div step]"

definition swap16 :: "buffer \<Rightarrow> jserr + buffer" where
  "swap16 b =
     (if length b mod 2 \<noteq> 0 then Inl (RangeError ''Buffer size must be a multiple of 16-bits'')
      else Inr (swap16_loop b (steps (length b) 2)))"

definition swap32 :: "buffer \<Rightarrow> jserr + buffer" where
  "swap32 b =
     (if length b mod 4 \<noteq> 0 then Inl (RangeError ''Buffer size must be a multiple of 32-bits'')
      else Inr (swap32_loop b (steps (length b) 4)))"

definition swap64 :: "buffer \<Rightarrow> jserr + buffer" where
  "swap64 b =
     (if length b mod 8 \<noteq> 0 then Inl (RangeError ''Buffer size must be a multiple of 64-bits'')
      else Inr (swap64_loop b (steps (length b) 8)))"

section \<open>Searching\<close>

text \<open>
  The result of a search. With an encoding of two byte units the code counts in units, which may lie at
  odd offsets: \<open>Half p\<close> is the number \<open>p / 2\<close>. Positions are kept as byte offsets below.
\<close>

datatype index = NotFound | Index int | Half int

definition unit_size :: "bool \<Rightarrow> int" where
  "unit_size wide = (if wide then 2 else 1)"

definition read_unit :: "bool \<Rightarrow> buffer \<Rightarrow> int \<Rightarrow> jserr + jsv" where
  "read_unit wide buf p = (if wide then readUInt16BE buf p False else Inr (get buf p))"

text \<open>The forward loop: \<open>found\<close> is \<^verbatim>\<open>foundIndex\<close>, \<open>None\<close> for \<open>-1\<close>; a mismatch goes back behind it.\<close>

definition base_of :: "int \<Rightarrow> int option \<Rightarrow> int" where
  "base_of p found = (case found of None \<Rightarrow> p | Some f \<Rightarrow> f)"

function index_forward :: "bool \<Rightarrow> buffer \<Rightarrow> buffer \<Rightarrow> int \<Rightarrow> int option \<Rightarrow> jserr + index" where
  "index_forward wide arr val p found =
     (if p < int (length arr) \<and> base_of p found \<le> p then
        (let f = base_of p found
         in rbind (read_unit wide arr p) (\<lambda>x.
              rbind (read_unit wide val (p - f)) (\<lambda>y.
                if x = y then
                  (if p - f + unit_size wide = int (length val) then Inr (Index f)
                   else index_forward wide arr val (p + unit_size wide) (Some f))
                else index_forward wide arr val (f + unit_size wide) None)))
      else Inr NotFound)"
  by pat_completeness auto
termination
  by (relation "measures [\<lambda>(wide, arr, val, p, found). nat (int (length arr) - base_of p found),
      \<lambda>(wide, arr, val, p, found). nat (int (length arr) - p)]")
    (auto simp: base_of_def unit_size_def split: option.splits)

declare index_forward.simps [simp del]

text \<open>The inner loop of the backward search.\<close>

function match_at :: "bool \<Rightarrow> buffer \<Rightarrow> buffer \<Rightarrow> int \<Rightarrow> int \<Rightarrow> jserr + bool" where
  "match_at wide arr val p q =
     (if q < int (length val) then
        rbind (read_unit wide arr (p + q)) (\<lambda>x.
          rbind (read_unit wide val q) (\<lambda>y.
            if x \<noteq> y then Inr False else match_at wide arr val p (q + unit_size wide)))
      else Inr True)"
  by pat_completeness auto
termination
  by (relation "measure (\<lambda>(wide, arr, val, p, q). nat (int (length val) - q))") (auto simp: unit_size_def)

declare match_at.simps [simp del]

function index_backward :: "bool \<Rightarrow> buffer \<Rightarrow> buffer \<Rightarrow> int \<Rightarrow> jserr + index" where
  "index_backward wide arr val p =
     (if p \<ge> 0 then
        rbind (match_at wide arr val p 0) (\<lambda>found.
          if found then Inr (if wide then Half p else Index p)
          else index_backward wide arr val (p - unit_size wide))
      else Inr NotFound)"
  by pat_completeness auto
termination
  by (relation "measure (\<lambda>(wide, arr, val, p). nat (p + 2))") (auto simp: unit_size_def)

declare index_backward.simps [simp del]

definition is_wide :: "jsarg \<Rightarrow> bool" where
  "is_wide encoding = (case encoding of Str e \<Rightarrow> encoding_case (toLowerCase e) = Some Ucs2 | _ \<Rightarrow> False)"

definition arrayIndexOf :: "buffer \<Rightarrow> buffer \<Rightarrow> int \<Rightarrow> jsarg \<Rightarrow> bool \<Rightarrow> jserr + index" where
  "arrayIndexOf arr val byteOffset encoding dir =
     (let wide = is_wide encoding
      in if wide \<and> (length arr < 2 \<or> length val < 2) then Inr NotFound
         else if dir then index_forward wide arr val byteOffset None
         else
           (let p = (if byteOffset + int (length val) > int (length arr) then int (length arr) - int (length val)
                     else byteOffset)
            in index_backward wide arr val p))"

text \<open>\<^verbatim>\<open>Uint8Array.prototype.indexOf\<close> and \<^verbatim>\<open>lastIndexOf\<close>.\<close>

definition first_of :: "nat list \<Rightarrow> index" where
  "first_of xs = (case xs of [] \<Rightarrow> NotFound | i # _ \<Rightarrow> Index (int i))"

definition typed_indexOf :: "buffer \<Rightarrow> byte \<Rightarrow> int \<Rightarrow> index" where
  "typed_indexOf buf v from' = first_of (filter (\<lambda>i. buf ! i = v) [nat from'..<length buf])"

definition typed_lastIndexOf :: "buffer \<Rightarrow> byte \<Rightarrow> int \<Rightarrow> index" where
  "typed_lastIndexOf buf v from' =
     first_of (filter (\<lambda>i. buf ! i = v) (rev [0..<min (length buf) (nat (from' + 1))]))"

definition clamp32 :: "int \<Rightarrow> int" where
  "clamp32 x = (if x > 2147483647 then 2147483647 else if x < -2147483648 then -2147483648 else x)"

definition start_offset :: "nat \<Rightarrow> jsarg \<Rightarrow> bool \<Rightarrow> int" where
  "start_offset n byteOffset dir =
     (case byteOffset of
        Undefined \<Rightarrow> if dir then 0 else int n - 1
      | Str _ \<Rightarrow> 0
      | Num x \<Rightarrow> (let x = clamp32 x in if x < 0 then int n + x else x))"

text \<open>\<open>native\<close>: \<^verbatim>\<open>Uint8Array.prototype.indexOf\<close> is a function.\<close>

definition bidirectionalIndexOf ::
    "bool \<Rightarrow> bool \<Rightarrow> buffer \<Rightarrow> bvalue \<Rightarrow> jsarg \<Rightarrow> jsarg \<Rightarrow> bool \<Rightarrow> jserr + index" where
  "bidirectionalIndexOf ta native buffer val byteOffset encoding dir =
     (let n = int (length buffer);
          encoding = (case byteOffset of Str e \<Rightarrow> Str e | _ \<Rightarrow> encoding);
          off = start_offset (length buffer) byteOffset dir
      in if n = 0 \<or> dir \<and> off \<ge> n \<or> \<not> dir \<and> off < 0 then Inr NotFound
         else
           (let off = (if off \<ge> n then n - 1 else if off < 0 then 0 else off)
            in case val of
                 VNumber v \<Rightarrow>
                   (let v = word_of_int (js_and v 255)
                    in if ta \<and> native then Inr (if dir then typed_indexOf buffer v off else typed_lastIndexOf buffer v off)
                       else arrayIndexOf buffer [v] off encoding dir)
               | VString s \<Rightarrow>
                   rbind (buf_from ta (VString s) encoding Undefined) (\<lambda>b.
                     if b = [] then Inr NotFound else arrayIndexOf buffer b off encoding dir)
               | VBuffer b \<Rightarrow> if b = [] then Inr NotFound else arrayIndexOf buffer b off encoding dir
               | _ \<Rightarrow> Inl (TypeError ''val must be string, number or Buffer'')))"

definition buf_indexOf :: "bool \<Rightarrow> bool \<Rightarrow> buffer \<Rightarrow> bvalue \<Rightarrow> jsarg \<Rightarrow> jsarg \<Rightarrow> jserr + index" where
  "buf_indexOf ta native buf val byteOffset encoding = bidirectionalIndexOf ta native buf val byteOffset encoding True"

definition buf_lastIndexOf :: "bool \<Rightarrow> bool \<Rightarrow> buffer \<Rightarrow> bvalue \<Rightarrow> jsarg \<Rightarrow> jsarg \<Rightarrow> jserr + index" where
  "buf_lastIndexOf ta native buf val byteOffset encoding = bidirectionalIndexOf ta native buf val byteOffset encoding False"

definition buf_includes :: "bool \<Rightarrow> bool \<Rightarrow> buffer \<Rightarrow> bvalue \<Rightarrow> jsarg \<Rightarrow> jsarg \<Rightarrow> jserr + bool" where
  "buf_includes ta native buf val byteOffset encoding =
     rbind (buf_indexOf ta native buf val byteOffset encoding) (\<lambda>i. Inr (i \<noteq> NotFound))"

section \<open>Printing\<close>

definition INSPECT_MAX_BYTES :: nat where
  "INSPECT_MAX_BYTES = 50"

text \<open>\<^verbatim>\<open>match(/.{2}/g).join(" ")\<close> on the hexadecimal digits.\<close>

fun pairs_spaced :: "jsstr \<Rightarrow> jsstr" where
  "pairs_spaced (a # b # c # d # s) = a # b # 32 # pairs_spaced (c # d # s)"
| "pairs_spaced (a # b # s) = [a, b]"
| "pairs_spaced s = []"

definition inspect :: "buffer \<Rightarrow> jserr + jsstr" where
  "inspect buf =
     rbind (if 0 < length buf then
              rbind (toString buf (Some (Str (js ''hex''), Num 0, Num (int INSPECT_MAX_BYTES)))) (\<lambda>hex.
                Inr (pairs_spaced hex @ (if INSPECT_MAX_BYTES < length buf then js '' ... '' else [])))
            else Inr [])
       (\<lambda>str. Inr (js ''<Buffer '' @ str @ js ''>''))"

definition toJSON :: "buffer \<Rightarrow> bvalue" where
  "toJSON buf = VTyped (js ''Buffer'') (Some (map uint buf))"

section \<open>Copying moves\<close>

definition byte_of :: "buffer \<Rightarrow> int \<Rightarrow> nat \<Rightarrow> int" where
  "byte_of this start k = bits (get this (start + int k))"

lemma byte_of_mod: "byte_of this start k mod 256 = byte_of this start k"
  by (simp add: byte_of_def get_def mod_pos_pos_trivial)

lemma copy_up_wrote:
  assumes "wrote target ts i (byte_of this start) t" "in_bounds target ts n" "i \<le> n"
    and same: "same \<Longrightarrow> this = target \<and> (ts \<le> start \<or> start + int n \<le> ts)"
  shows "wrote target ts n (byte_of this start) (copy_up same this t ts start (int n) (int i))"
  using assms(1,3)
proof (induction "n - i" arbitrary: i t)
  case 0
  then show ?case by (subst copy_up.simps) simp
next
  case (Suc k)
  have src: "get (if same then t else this) (int i + start) = get this (start + int i)"
  proof (cases same)
    case True
    then have "\<not> (ts \<le> start + int i \<and> start + int i < ts + int i)" using same Suc by auto
    then show ?thesis using True same Suc.prems(1) by (auto simp: wrote_def add.commute)
  qed (simp add: add.commute)
  have "wrote target ts (Suc i) (byte_of this start) (copy_byte same this t ts start (int i))"
    unfolding copy_byte_def src byte_of_def [symmetric] add.commute [of "int i" ts]
    by (rule wrote_upwards [OF Suc.prems(1) assms(2)]) (use Suc in \<open>simp_all add: byte_of_mod\<close>)
  moreover have "i < n" using Suc.hyps(2) by simp
  ultimately show ?case using Suc.hyps(1) [of "Suc i"] Suc.hyps(2) by (subst copy_up.simps) (simp add: add.commute)
qed

lemma copy_down_wrote:
  assumes "wrote target (ts + int i) (n - i) (\<lambda>k. byte_of this start (i + k)) t" "in_bounds target ts n" "i \<le> n"
    and same: "same \<Longrightarrow> this = target \<and> start \<le> ts"
  shows "wrote target ts n (byte_of this start) (copy_down same this t ts start (int i - 1))"
  using assms(1,3)
proof (induction i arbitrary: t)
  case 0
  then show ?case by (subst copy_down.simps) simp
next
  case (Suc i)
  have src: "get (if same then t else this) (int i + start) = get this (start + int i)"
  proof (cases same)
    case True
    then have "\<not> ts + int (Suc i) \<le> start + int i" using same by auto
    then show ?thesis using True same Suc.prems(1) by (simp add: wrote_def add.commute)
  qed (simp add: add.commute)
  have "wrote target (ts + int i) (Suc (n - Suc i)) (\<lambda>k. byte_of this start (i + k)) (copy_byte same this t ts start (int i))"
    unfolding copy_byte_def src byte_of_def [symmetric] add.commute [of "int i" ts]
    by (rule wrote_downwards [OF Suc.prems(1) assms(2)]) (use Suc.prems in \<open>simp_all add: byte_of_mod\<close>)
  moreover have "Suc (n - Suc i) = n - i" using Suc.prems by simp
  ultimately show ?case using Suc.IH Suc.prems by (subst copy_down.simps) simp
qed

lemma typed_set_wrote:
  assumes "in_bounds target ts n" "0 \<le> start" "start + int n \<le> int (length this)"
  shows "wrote target ts n (byte_of this start) (typed_set target (str_slice this (nat start) (nat (start + int n))) ts)"
proof -
  define s where "s = nat start"
  define t where "t = nat ts"
  have st: "start = int s" "ts = int t" using assms by (simp_all add: s_def t_def in_bounds_def)
  have b: "t + n \<le> length target" "s + n \<le> length this" using assms by (simp_all add: st in_bounds_def)
  have r: "typed_set target (str_slice this s (s + n)) (int t)
      = take t target @ take n (drop s this) @ drop (t + n) target"
    using b by (simp add: typed_set_def str_slice_def)
  show ?thesis unfolding wrote_def st
  proof (intro conjI allI)
    fix j
    show "get (typed_set target (str_slice this (nat (int s)) (nat (int s + int n))) (int t)) j =
        (if int t \<le> j \<and> j < int t + int n then JNum (byte_of this (int s) (nat (j - int t))) else get target j)"
    proof (cases "0 \<le> j \<and> j < int (length target)")
      case True
      then obtain i where i: "j = int i" "i < length target" by (metis nonneg_int_cases of_nat_less_iff)
      consider "i < t" | "t \<le> i" "i < t + n" | "t + n \<le> i" by linarith
      then show ?thesis
      proof cases
        case 2
        then obtain k where k: "i = t + k" "k < n" by (metis le_iff_add nat_add_left_cancel_less)
        then have "get this (int s + int k) = JNum (uint (this ! (s + k)))"
          using b by (simp add: get_def nat_add_distrib)
        then show ?thesis using k b i
          by (simp add: nat_add_distrib r) (simp add: get_def nth_append byte_of_def nat_add_distrib)
      qed (use b i in \<open>auto simp: nat_add_distrib r get_def nth_append\<close>)
    next
      case False
      then show ?thesis using b by (auto simp: nat_add_distrib r get_def)
    qed
  qed (use b in \<open>simp add: nat_add_distrib r\<close>)
qed

text \<open>Whatever the overlap, \<^verbatim>\<open>copy\<close> stores what the source range held before.\<close>

lemma copy_bytes_moves:
  assumes "in_bounds target ts n" "0 \<le> start" "start + int n \<le> int (length this)" "same \<Longrightarrow> this = target"
  shows "copy_bytes ta same this target ts start (start + int n)
    = typed_set target (str_slice this (nat start) (nat (start + int n))) ts"
proof -
  let ?r = "typed_set target (str_slice this (nat start) (nat (start + int n))) ts"
  have spec: "wrote target ts n (byte_of this start) ?r" by (rule typed_set_wrote [OF assms(1-3)])
  have empty: "wrote target x 0 f target" for x f by (auto simp: wrote_def)
  consider "same" "start < ts" "ts < start + int n" | "\<not> (same \<and> start < ts \<and> ts < start + int n)" by blast
  then show ?thesis
  proof cases
    case 1
    then have "wrote target ts n (byte_of this start) (copy_down same this target ts start (int n - 1))"
      by (intro copy_down_wrote) (use assms empty in auto)
    from wrote_unique [OF this spec] 1 show ?thesis by (simp add: copy_bytes_def)
  next
    case 2
    then have "wrote target ts n (byte_of this start) (copy_up same this target ts start (int n) (int 0))"
      by (intro copy_up_wrote) (use assms empty in auto)
    from wrote_unique [OF this spec] 2 show ?thesis by (auto simp: copy_bytes_def Let_def)
  qed
qed

text \<open>\<^verbatim>\<open>buf.copy(target, pos)\<close>: what fits of \<open>buf\<close> behind \<open>pos\<close>.\<close>

lemma copy_rest:
  assumes "length buf < 2 ^ 31" "length target < 2 ^ 31"
  shows "\<exists>k. copy ta False buf target (Some (int pos)) None None
    = Inr (k, take pos target @ take (length target - pos) buf @ drop (pos + length buf) target)"
proof (cases "buf = [] \<or> length target \<le> pos")
  case True
  have "copy_bytes ta False buf target (int (length target)) 0 0 = target"
    using copy_bytes_moves [of target "int (length target)" 0 0 buf False ta] assms
    by (simp add: in_bounds_def typed_set_def str_slice_def)
  with True show ?thesis by (auto simp: copy_def Let_def)
next
  case False
  define n where "n = min (length buf) (length target - pos)"
  have b: "in_bounds target (int pos) n" using assms False by (auto simp: in_bounds_def n_def min_def)
  have n: "(if int (length target) - int pos < int (length buf) then int (length target) - int pos else int (length buf)) = int n"
    using False by (auto simp: n_def)
  have "copy ta False buf target (Some (int pos)) None None = Inr (int n, copy_bytes ta False buf target (int pos) 0 (int n))"
    using False n by (auto simp: copy_def Let_def split: if_splits)
  moreover have "copy_bytes ta False buf target (int pos) 0 (int n)
      = take pos target @ take (length target - pos) buf @ drop (pos + length buf) target"
    using copy_bytes_moves [OF b, of 0 buf False ta] False by (auto simp: typed_set_def str_slice_def n_def min_def)
  ultimately show ?thesis by (intro exI [of _ "int n"]) simp
qed

lemma concat_loop_eq:
  assumes "\<forall>b \<in> set bs. length b < 2 ^ 31" "length target < 2 ^ 31"
  shows "concat_loop ta (map VBuffer bs) target (int pos)
    = Inr (take pos target @ take (length target - pos) (concat bs) @ drop (pos + length (concat bs)) target)"
  using assms
proof (induction bs arbitrary: target pos)
  case Nil
  then show ?case by simp
next
  case (Cons b bs)
  let ?t = "take pos target @ take (length target - pos) b @ drop (pos + length b) target"
  obtain k where k: "copy ta False b target (Some (int pos)) None None = Inr (k, ?t)"
    using copy_rest [of b target ta pos] Cons.prems by auto
  have len: "length ?t = length target" by simp
  have "concat_loop ta (map VBuffer bs) ?t (int (pos + length b))
    = Inr (take (pos + length b) ?t @ take (length ?t - (pos + length b)) (concat bs) @ drop (pos + length b + length (concat bs)) ?t)"
    by (rule Cons.IH) (use Cons.prems len in auto)
  moreover have "take (pos + length b) ?t @ take (length ?t - (pos + length b)) (concat bs) @ drop (pos + length b + length (concat bs)) ?t
    = take pos target @ take (length target - pos) (concat (b # bs)) @ drop (pos + length (concat (b # bs))) target"
  proof (cases "pos + length b \<le> length target")
    case True
    then have "min pos (length target) = pos" "take (length target - pos) b = b" by simp_all
    then show ?thesis by (simp add: len ac_simps)
  next
    case False
    then show ?thesis by (simp add: len)
  qed
  ultimately show ?case using k by simp
qed

lemma sum_lengths_buffers: "sum_lengths (map VBuffer bs) = Some (int (length (concat bs)))"
  by (induction bs) auto

lemma allocUnsafe_ok:
  assumes "int n < kMaxLength ta"
  shows "allocUnsafe ta (Some (int n)) = Inr (replicate n 0)"
proof -
  have "js_or (int n) 0 = int n"
    using assms by (simp add: js_or_zero toInt32_nonneg kMaxLength_def split: if_splits)
  then show ?thesis using assms by (simp add: allocUnsafe_def assertSize_def checked_def createBuffer_def)
qed

section \<open>Comparing orders\<close>

lemma compare_loop_lex:
  "int (length a) - int (length b) = x - y \<Longrightarrow>
     order3 (compare_loop a b x y) = (if a = b then 0 else if (a, b) \<in> lexord {(u, v). uint u < uint v} then -1 else 1)"
proof (induction a arbitrary: b)
  case Nil
  then show ?case by (cases b) (auto simp: order3_def)
next
  case (Cons u a)
  note IH = Cons.IH and prems = Cons.prems
  show ?case
  proof (cases b)
    case Nil
    then show ?thesis using prems by (auto simp: order3_def)
  next
    case (Cons v bs)
    then show ?thesis using IH prems word_uint_eq_iff [of u v] by (auto simp: order3_def)
  qed
qed

section \<open>Swapping reverses groups\<close>

text \<open>The bytes of every group of \<open>w\<close> in reverse order.\<close>

function groups_rev :: "nat \<Rightarrow> 'a list \<Rightarrow> 'a list" where
  "groups_rev w xs = (if w = 0 \<or> length xs < w then xs else rev (take w xs) @ groups_rev w (drop w xs))"
  by pat_completeness auto
termination
  by (relation "measure (\<lambda>(w, xs). length xs)") auto

declare groups_rev.simps [simp del]

lemma groups_rev_append: "length xs = w \<Longrightarrow> 0 < w \<Longrightarrow> groups_rev w (xs @ ys) = rev xs @ groups_rev w ys"
  by (subst groups_rev.simps) simp

lemma groups_rev_short: "length xs < w \<Longrightarrow> groups_rev w xs = xs"
  by (subst groups_rev.simps) simp

lemma groups_rev_twice: "groups_rev w (groups_rev w xs) = xs \<and> length (groups_rev w xs) = length xs"
proof (induction w xs rule: groups_rev.induct)
  case (1 w xs)
  show ?case
  proof (cases "w = 0 \<or> length xs < w")
    case True
    then show ?thesis by (simp add: groups_rev.simps [of w xs])
  next
    case False
    then have "groups_rev w xs = rev (take w xs) @ groups_rev w (drop w xs)" by (simp add: groups_rev.simps [of w xs])
    with 1 False show ?thesis by (simp add: groups_rev_append)
  qed
qed

lemma swap_append: "swap (pre @ xs) (length pre + i) (length pre + j) = pre @ swap xs i j"
  by (simp add: swap_def list_update_append nth_append)

lemma swap_loops_shift:
  "swap16_loop (pre @ xs) (map (\<lambda>k. length pre + k) is) = pre @ swap16_loop xs is"
  "swap32_loop (pre @ xs) (map (\<lambda>k. length pre + k) is) = pre @ swap32_loop xs is"
  "swap64_loop (pre @ xs) (map (\<lambda>k. length pre + k) is) = pre @ swap64_loop xs is"
  by (induction "is" arbitrary: xs)
    (simp_all only: list.map swap16_loop.simps swap32_loop.simps swap64_loop.simps add.assoc swap_append)

lemma steps_Suc: "0 < w \<Longrightarrow> steps (w + n) w = 0 # map (\<lambda>k. w + k) (steps n w)"
proof -
  assume "0 < w"
  then have "(w + n + w - 1) div w = Suc ((n + w - 1) div w)"
    using div_add_self1 [of w "n + w - 1"] by (simp add: add.assoc)
  then show ?thesis by (simp add: steps_def upt_conv_Cons map_Suc_upt [symmetric] del: upt_Suc)
qed

lemma swap_loops_first:
  "swap16_loop (a # b # r) (0 # map (\<lambda>k. 2 + k) is) = b # a # swap16_loop r is"
  "swap32_loop (a # b # c # d # r) (0 # map (\<lambda>k. 4 + k) is) = d # c # b # a # swap32_loop r is"
  "swap64_loop (a # b # c # d # e # f # g # h # r) (0 # map (\<lambda>k. 8 + k) is)
     = h # g # f # e # d # c # b # a # swap64_loop r is"
  using swap_loops_shift(1) [of "[b, a]" r "is"] swap_loops_shift(2) [of "[d, c, b, a]" r "is"]
    swap_loops_shift(3) [of "[h, g, f, e, d, c, b, a]" r "is"]
  by (simp_all add: swap_def numeral_eq_Suc)

lemma steps_0: "0 < w \<Longrightarrow> steps 0 w = []"
  by (simp add: steps_def)

lemma swap16_groups: "length b = n * 2 \<Longrightarrow> swap16_loop b (steps (length b) 2) = groups_rev 2 b"
proof (induction n arbitrary: b)
  case 0
  then show ?case by (simp add: steps_0 groups_rev_short)
next
  case (Suc n)
  then obtain x y r where b: "b = x # y # r" and r: "length r = n * 2"
    by (auto simp: numeral_eq_Suc length_Suc_conv)
  have l: "length b = 2 + length r" by (simp add: b)
  have "swap16_loop b (steps (length b) 2) = swap16_loop b (0 # map (\<lambda>k. 2 + k) (steps (length r) 2))"
    unfolding l steps_Suc [OF zero_less_numeral] ..
  also have "\<dots> = y # x # groups_rev 2 r"
    unfolding b swap_loops_first Suc.IH [OF r] ..
  also have "\<dots> = groups_rev 2 b" using groups_rev_append [of "[x, y]" 2 r] by (simp add: b)
  finally show ?case .
qed

lemma swap32_groups: "length b = n * 4 \<Longrightarrow> swap32_loop b (steps (length b) 4) = groups_rev 4 b"
proof (induction n arbitrary: b)
  case 0
  then show ?case by (simp add: steps_0 groups_rev_short)
next
  case (Suc n)
  then obtain x y z u r where b: "b = x # y # z # u # r" and r: "length r = n * 4"
    by (auto simp: numeral_eq_Suc length_Suc_conv)
  have l: "length b = 4 + length r" by (simp add: b)
  have "swap32_loop b (steps (length b) 4) = swap32_loop b (0 # map (\<lambda>k. 4 + k) (steps (length r) 4))"
    unfolding l steps_Suc [OF zero_less_numeral] ..
  also have "\<dots> = u # z # y # x # groups_rev 4 r"
    unfolding b swap_loops_first Suc.IH [OF r] ..
  also have "\<dots> = groups_rev 4 b" using groups_rev_append [of "[x, y, z, u]" 4 r] by (simp add: b)
  finally show ?case .
qed

lemma swap64_groups: "length b = n * 8 \<Longrightarrow> swap64_loop b (steps (length b) 8) = groups_rev 8 b"
proof (induction n arbitrary: b)
  case 0
  then show ?case by (simp add: steps_0 groups_rev_short)
next
  case (Suc n)
  then obtain x y z u v w s t r where b: "b = x # y # z # u # v # w # s # t # r" and r: "length r = n * 8"
    by (auto simp: numeral_eq_Suc length_Suc_conv)
  have l: "length b = 8 + length r" by (simp add: b)
  have "swap64_loop b (steps (length b) 8) = swap64_loop b (0 # map (\<lambda>k. 8 + k) (steps (length r) 8))"
    unfolding l steps_Suc [OF zero_less_numeral] ..
  also have "\<dots> = t # s # w # v # u # z # y # x # groups_rev 8 r"
    unfolding b swap_loops_first Suc.IH [OF r] ..
  also have "\<dots> = groups_rev 8 b" using groups_rev_append [of "[x, y, z, u, v, w, s, t]" 8 r] by (simp add: b)
  finally show ?case .
qed

section \<open>Searching finds\<close>

text \<open>\<open>val\<close> occurs in \<open>arr\<close> at \<open>k\<close>.\<close>

definition occurs_at :: "buffer \<Rightarrow> buffer \<Rightarrow> nat \<Rightarrow> bool" where
  "occurs_at arr val k \<longleftrightarrow> k + length val \<le> length arr \<and> str_slice arr k (k + length val) = val"

lemma occurs_at_nth:
  "occurs_at arr val k \<longleftrightarrow> k + length val \<le> length arr \<and> (\<forall>j < length val. arr ! (k + j) = val ! j)"
  by (auto simp: occurs_at_def str_slice_def list_eq_iff_nth_eq)

lemma get_eq_iff:
  "i < length a \<Longrightarrow> j < length b \<Longrightarrow> get a (int i) = get b (int j) \<longleftrightarrow> a ! i = b ! j"
  by (simp add: get_def word_uint_eq_iff)

text \<open>What a search that starts at \<open>f\<close> should return.\<close>

definition first_from :: "buffer \<Rightarrow> buffer \<Rightarrow> nat \<Rightarrow> index \<Rightarrow> bool" where
  "first_from arr val f r \<longleftrightarrow>
     (case r of
        Index k \<Rightarrow> (\<exists>i. k = int i \<and> f \<le> i \<and> occurs_at arr val i \<and> (\<forall>j. f \<le> j \<and> j < i \<longrightarrow> \<not> occurs_at arr val j))
      | NotFound \<Rightarrow> \<forall>j \<ge> f. \<not> occurs_at arr val j
      | Half _ \<Rightarrow> False)"

lemma first_from_step: "\<not> occurs_at arr val f \<Longrightarrow> first_from arr val (Suc f) r \<Longrightarrow> first_from arr val f r"
proof (cases r)
  case NotFound
  assume "\<not> occurs_at arr val f" "first_from arr val (Suc f) r"
  with NotFound show ?thesis by (auto simp: first_from_def Suc_le_eq nat_less_le)
next
  case (Index k)
  assume "\<not> occurs_at arr val f" "first_from arr val (Suc f) r"
  with Index show ?thesis unfolding first_from_def by simp (metis Suc_leD Suc_leI nat_less_le)
qed (simp add: first_from_def)

text \<open>From a state in which \<open>q\<close> bytes at \<open>f\<close> have matched, the loop returns what a search from \<open>f\<close> should.\<close>

lemma index_forward_first:
  assumes "q < length val" "\<forall>j < q. f + j < length arr \<and> arr ! (f + j) = val ! j"
    and "found = (if q = 0 then None else Some (int f))"
  shows "\<exists>r. index_forward False arr val (int (f + q)) found = Inr r \<and> first_from arr val f r"
  using assms
proof (induction "(length arr - f) * Suc (length arr) + (length arr - (f + q))" arbitrary: f q found rule: less_induct)
  case less
  have base: "base_of (int (f + q)) found = int f" using less.prems(3) by (simp add: base_of_def)
  show ?case
  proof (cases "f + q < length arr")
    case False
    then have "\<not> occurs_at arr val j" if "f \<le> j" for j using that less.prems(1) by (auto simp: occurs_at_def)
    then show ?thesis using False base by (subst index_forward.simps) (simp add: first_from_def)
  next
    case True
    have eq: "get arr (int (f + q)) = get val (int q) \<longleftrightarrow> arr ! (f + q) = val ! q"
      by (rule get_eq_iff [OF True less.prems(1)])
    show ?thesis
    proof (cases "arr ! (f + q) = val ! q")
      case m: True
      have upto: "\<forall>j < Suc q. f + j < length arr \<and> arr ! (f + j) = val ! j"
        using less.prems(2) m True by (auto simp: less_Suc_eq)
      show ?thesis
      proof (cases "Suc q = length val")
        case len: True
        then have "occurs_at arr val f" using upto True by (auto simp: occurs_at_nth)
        then show ?thesis using True base eq m len
          by (subst index_forward.simps) (auto simp: read_unit_def unit_size_def first_from_def)
      next
        case False
        then have "\<exists>r. index_forward False arr val (int (f + Suc q)) (Some (int f)) = Inr r \<and> first_from arr val f r"
          using less.prems(1) True upto by (intro less.hyps) auto
        then show ?thesis using True base eq m False
          by (subst index_forward.simps) (auto simp: read_unit_def unit_size_def add.commute)
      qed
    next
      case False
      then have no: "\<not> occurs_at arr val f" using less.prems(1) by (auto simp: occurs_at_nth)
      have dec: "(length arr - Suc f) * Suc (length arr) + (length arr - Suc f) < (length arr - f) * Suc (length arr)"
      proof -
        define m where "m = length arr - Suc f"
        have "length arr - f = Suc m" "m \<le> length arr" using True by (simp_all add: m_def)
        then show ?thesis unfolding m_def [symmetric] by simp
      qed
      have "\<exists>r. index_forward False arr val (int (Suc f + 0)) None = Inr r \<and> first_from arr val (Suc f) r"
      proof (rule less.hyps)
        show "(length arr - Suc f) * Suc (length arr) + (length arr - (Suc f + 0))
            < (length arr - f) * Suc (length arr) + (length arr - (f + q))"
          unfolding add_0_right by (rule trans_less_add1 [OF dec])
      qed (use less.prems(1) in auto)
      then show ?thesis using True base eq False first_from_step [OF no]
        by (subst index_forward.simps) (auto simp: read_unit_def unit_size_def add.commute)
    qed
  qed
qed

section \<open>The properties of whole buffers\<close>



text \<open>\<^verbatim>\<open>Buffer.concat\<close> of buffers is their concatenation, cut to the given length or filled up with zeros.\<close>

theorem concat_joins:
  assumes "bs \<noteq> []" "\<forall>b \<in> set bs. length b < 2 ^ 31" "int n < kMaxLength ta"
  shows "buf_concat ta (Some (map VBuffer bs)) (Some (int n))
      = Inr (take n (concat bs) @ replicate (n - length (concat bs)) 0)
    \<and> (n = length (concat bs) \<longrightarrow> buf_concat ta (Some (map VBuffer bs)) None = Inr (concat bs))"
proof -
  have "n < 2 ^ 31" using assms(3) by (simp add: kMaxLength_def split: if_splits)
  then have "concat_loop ta (map VBuffer bs) (replicate n 0) 0
      = Inr (take n (concat bs) @ replicate (n - length (concat bs)) 0)"
    using concat_loop_eq [OF assms(2), of "replicate n 0" ta 0] by simp
  then show ?thesis using assms allocUnsafe_ok [OF assms(3)]
    by (cases bs) (auto simp: buf_concat_def sum_lengths_buffers [of "_ # _", simplified])
qed

theorem concat_joins_witness:
  "buf_concat True (Some (map VBuffer [[1, 2], [], [3]])) (Some (int 5)) = Inr (take 5 [1, 2, 3] @ replicate 2 0)"
  using concat_joins [of "[[1, 2], [], [3]]" 5 True] by (simp add: kMaxLength_def)

text \<open>C35: \<^verbatim>\<open>Buffer.compare\<close> is the lexicographic order of the bytes, and \<^verbatim>\<open>equals\<close> is equality.\<close>

theorem compare_lexicographic:
  "compare_static False (VBuffer a) (VBuffer b)
      = Inr (if a = b then 0 else if (a, b) \<in> lexord {(u, v). uint u < uint v} then -1 else 1)
   \<and> equals False a (VBuffer b) = Inr (a = b)"
  using compare_loop_lex [of a b "int (length a)" "int (length b)"]
  by (auto simp: compare_static_def equals_def isBuffer_def)

text \<open>\<^verbatim>\<open>swap16\<close>, \<^verbatim>\<open>swap32\<close> and \<^verbatim>\<open>swap64\<close> reverse the bytes of every group; doing it twice gives the buffer back.\<close>

theorem swap_reverses_groups:
  "(length b mod 2 = 0 \<longrightarrow> swap16 b = Inr (groups_rev 2 b)) \<and> (length b mod 4 = 0 \<longrightarrow> swap32 b = Inr (groups_rev 4 b))
   \<and> (length b mod 8 = 0 \<longrightarrow> swap64 b = Inr (groups_rev 8 b) \<and> rbind (swap64 b) swap64 = Inr b)"
proof -
  have d: "\<exists>n. length c = n * w" if "length c mod w = 0" for w and c :: "byte list"
    using that by (metis dvd_def mod_0_imp_dvd mult.commute)
  have 8: "swap64 c = Inr (groups_rev 8 c)" if "length c mod 8 = 0" for c
    using that d [OF that] swap64_groups by (auto simp: swap64_def)
  have 2: "swap16 b = Inr (groups_rev 2 b)" if "length b mod 2 = 0"
    using that d [OF that] swap16_groups by (auto simp: swap16_def)
  have 4: "swap32 b = Inr (groups_rev 4 b)" if "length b mod 4 = 0"
    using that d [OF that] swap32_groups by (auto simp: swap32_def)
  have twice: "rbind (swap64 b) swap64 = Inr b" if "length b mod 8 = 0"
    using 8 [OF that] 8 [of "groups_rev 8 b"] groups_rev_twice [of 8 b] that by simp
  show ?thesis by (intro conjI impI; (rule 2 4 8 twice; assumption))
qed

theorem swap_reverses_groups_witness:
  "swap32 [1, 2, 3, 4, 5, 6, 7, 8] = Inr (groups_rev 4 [1, 2, 3, 4, 5, 6, 7, 8])"
  using swap_reverses_groups [of "[1, 2, 3, 4, 5, 6, 7, 8]"] by simp

text \<open>\<^verbatim>\<open>indexOf\<close> of a non-empty buffer returns the first index from the given offset where it occurs, and
  \<open>-1\<close> only where there is none: going back after a partial match loses no occurrence.\<close>

theorem indexOf_first:
  assumes "b \<noteq> []" "off < length buf" "off < 2 ^ 31"
  shows "\<exists>r. buf_indexOf ta native buf (VBuffer b) (Num (int off)) Undefined = Inr r \<and> first_from buf b off r"
  using index_forward_first [of 0 b off buf None] assms
  by (auto simp: buf_indexOf_def bidirectionalIndexOf_def start_offset_def clamp32_def arrayIndexOf_def is_wide_def Let_def)

theorem indexOf_first_witness:
  "\<exists>r. buf_indexOf True True [1, 1, 1, 2] (VBuffer [1, 1, 2]) (Num (int 0)) Undefined = Inr r
    \<and> first_from [1, 1, 1, 2] [1, 1, 2] 0 r"
  by (rule indexOf_first) simp_all

text \<open>\<^verbatim>\<open>lastIndexOf\<close> with a two byte encoding counts in units, where \<^verbatim>\<open>indexOf\<close> counts in bytes: in the UTF-16
  bytes of \<^verbatim>\<open>abc\<close> the position of \<^verbatim>\<open>b\<close> is 2 for the one and half of it for the other.\<close>

theorem lastIndexOf_counts_units:
  "buf_indexOf True True [97, 0, 98, 0, 99, 0] (VString [98]) Undefined (Str (js ''ucs2'')) = Inr (Index 2)
   \<and> buf_lastIndexOf True True [97, 0, 98, 0, 99, 0] (VString [98]) Undefined (Str (js ''ucs2'')) = Inr (Half 2)"
  by code_simp

text \<open>\<^verbatim>\<open>fill\<close> with a string and an encoding passes the decoded bytes through UTF-8: the hexadecimal \<^verbatim>\<open>ff\<close>
  fills a buffer with the replacement character.\<close>

theorem fill_hex_replacement:
  "fill True [0, 0, 0] (VString (js ''ff'')) (Str (js ''hex'')) Undefined Undefined = Inr [239, 191, 189]"
  by code_simp

end
