(* ===== verification/JsRegex.thy ===== *)
theory JsRegex
  imports JsCore
begin

text \<open>
  The regular expressions that the modules of \<^verbatim>\<open>swagger-ui.js\<close> test strings with, as data: a pattern of the
  source is transcribed constructor by constructor, and \<open>re_test\<close> decides \<^verbatim>\<open>/^(?:r)$/.test(s)\<close> by
  derivatives. \<open>re_lang\<close> is the usual meaning of a pattern; \<open>re_test_lang\<close> shows that the test decides it.
\<close>

named_theorems re_simps \<open>equations that evaluate a test of a pattern on a concrete string\<close>

datatype regex = RNone | REmpty | RClass "16 word \<Rightarrow> bool" | RSeq regex regex | RAlt regex regex | RStar regex

fun re_nullable :: "regex \<Rightarrow> bool" where
  "re_nullable RNone = False"
| "re_nullable REmpty = True"
| "re_nullable (RClass p) = False"
| "re_nullable (RSeq r t) = (re_nullable r \<and> re_nullable t)"
| "re_nullable (RAlt r t) = (re_nullable r \<or> re_nullable t)"
| "re_nullable (RStar r) = True"

text \<open>The constructors that keep a derivative small.\<close>

fun mk_seq :: "regex \<Rightarrow> regex \<Rightarrow> regex" where
  "mk_seq RNone t = RNone"
| "mk_seq REmpty t = t"
| "mk_seq r t = RSeq r t"

fun mk_alt :: "regex \<Rightarrow> regex \<Rightarrow> regex" where
  "mk_alt RNone t = t"
| "mk_alt r RNone = r"
| "mk_alt r t = RAlt r t"

fun re_deriv :: "16 word \<Rightarrow> regex \<Rightarrow> regex" where
  "re_deriv c RNone = RNone"
| "re_deriv c REmpty = RNone"
| "re_deriv c (RClass p) = (if p c then REmpty else RNone)"
| "re_deriv c (RSeq r t) =
     (if re_nullable r then mk_alt (mk_seq (re_deriv c r) t) (re_deriv c t) else mk_seq (re_deriv c r) t)"
| "re_deriv c (RAlt r t) = mk_alt (re_deriv c r) (re_deriv c t)"
| "re_deriv c (RStar r) = mk_seq (re_deriv c r) (RStar r)"

fun re_test :: "regex \<Rightarrow> jsstr \<Rightarrow> bool" where
  "re_test r [] = re_nullable r"
| "re_test r (c # s) = re_test (re_deriv c r) s"

text \<open>Abbreviations of the pattern language.\<close>

definition re_char :: "16 word \<Rightarrow> regex" where
  "re_char c = RClass (\<lambda>d. d = c)"

definition re_range :: "16 word \<Rightarrow> 16 word \<Rightarrow> regex" where
  "re_range a b = RClass (\<lambda>d. a \<le> d \<and> d \<le> b)"

definition re_set :: "jsstr \<Rightarrow> regex" where
  "re_set cs = RClass (\<lambda>d. d \<in> set cs)"

definition re_word :: "jsstr \<Rightarrow> regex" where
  "re_word cs = foldr (\<lambda>c. RSeq (re_char c)) cs REmpty"

definition re_opt :: "regex \<Rightarrow> regex" where
  "re_opt r = RAlt REmpty r"

definition re_plus :: "regex \<Rightarrow> regex" where
  "re_plus r = RSeq r (RStar r)"

definition re_seq :: "regex list \<Rightarrow> regex" where
  "re_seq rs = foldr RSeq rs REmpty"

definition re_alt :: "regex list \<Rightarrow> regex" where
  "re_alt rs = foldr RAlt rs RNone"

definition re_any :: regex where
  "re_any = RClass (\<lambda>d. True)"

text \<open>\<^verbatim>\<open>/r/.test(s)\<close> without anchors: some part of the string matches.\<close>

definition re_search :: "regex \<Rightarrow> jsstr \<Rightarrow> bool" where
  "re_search r s = re_test (re_seq [RStar re_any, r, RStar re_any]) s"

section \<open>The language of a pattern\<close>

inductive_set lang_star :: "jsstr set \<Rightarrow> jsstr set" for L where
  Nil: "[] \<in> lang_star L"
| Append: "u \<in> L \<Longrightarrow> v \<in> lang_star L \<Longrightarrow> u @ v \<in> lang_star L"

fun re_lang :: "regex \<Rightarrow> jsstr set" where
  "re_lang RNone = {}"
| "re_lang REmpty = {[]}"
| "re_lang (RClass p) = {[c] | c. p c}"
| "re_lang (RSeq r t) = {u @ v | u v. u \<in> re_lang r \<and> v \<in> re_lang t}"
| "re_lang (RAlt r t) = re_lang r \<union> re_lang t"
| "re_lang (RStar r) = lang_star (re_lang r)"

lemma re_nullable_lang: "re_nullable r \<longleftrightarrow> [] \<in> re_lang r"
  by (induction r) (auto intro: lang_star.Nil)

lemma lang_mk_seq [simp]: "re_lang (mk_seq r t) = re_lang (RSeq r t)"
  by (cases r) auto

lemma lang_mk_alt [simp]: "re_lang (mk_alt r t) = re_lang (RAlt r t)"
  by (cases r; cases t) auto

lemma lang_star_Cons:
  "c # s \<in> lang_star L \<longleftrightarrow> (\<exists>u v. s = u @ v \<and> c # u \<in> L \<and> v \<in> lang_star L)"
proof
  assume "c # s \<in> lang_star L"
  then show "\<exists>u v. s = u @ v \<and> c # u \<in> L \<and> v \<in> lang_star L"
    by (induction "c # s" arbitrary: s rule: lang_star.induct) (auto simp: append_eq_Cons_conv)
next
  assume "\<exists>u v. s = u @ v \<and> c # u \<in> L \<and> v \<in> lang_star L"
  then obtain u v where "s = u @ v" "c # u \<in> L" "v \<in> lang_star L" by blast
  then show "c # s \<in> lang_star L" using lang_star.Append [of "c # u" L v] by simp
qed

lemma re_deriv_lang: "s \<in> re_lang (re_deriv c r) \<longleftrightarrow> c # s \<in> re_lang r"
proof (induction r arbitrary: s)
  case (RSeq r t)
  have split: "c # s \<in> re_lang (RSeq r t) \<longleftrightarrow>
      (\<exists>u v. s = u @ v \<and> c # u \<in> re_lang r \<and> v \<in> re_lang t) \<or> [] \<in> re_lang r \<and> c # s \<in> re_lang t"
    unfolding re_lang.simps mem_Collect_eq Cons_eq_append_conv by (metis append_Cons append_Nil)
  show ?case
  proof (cases "re_nullable r")
    case True
    then show ?thesis unfolding split using RSeq by (auto simp: re_nullable_lang)
  next
    case False
    then show ?thesis unfolding split using RSeq by (auto simp: re_nullable_lang)
  qed
next
  case (RStar r)
  then show ?case by (auto simp: lang_star_Cons)
qed auto

lemma re_test_lang: "re_test r s \<longleftrightarrow> s \<in> re_lang r"
  by (induction s arbitrary: r) (auto simp: re_nullable_lang re_deriv_lang)

lemma lang_re_seq_Nil [simp]: "re_lang (re_seq []) = {[]}"
  by (simp add: re_seq_def)

lemma lang_re_seq_Cons [simp]:
  "re_lang (re_seq (r # rs)) = {u @ v | u v. u \<in> re_lang r \<and> v \<in> re_lang (re_seq rs)}"
  by (simp add: re_seq_def)

lemma lang_re_alt [simp]: "re_lang (re_alt rs) = (\<Union>r \<in> set rs. re_lang r)"
  by (induction rs) (auto simp: re_alt_def)

lemma lang_re_opt [simp]: "re_lang (re_opt r) = insert [] (re_lang r)"
  by (simp add: re_opt_def)

lemma lang_re_char [simp]: "re_lang (re_char c) = {[c]}"
  by (auto simp: re_char_def)

lemma lang_star_class: "lang_star {[c] | c. p c} = {s. \<forall>c \<in> set s. p c}"
proof (intro set_eqI iffI)
  fix s assume "s \<in> lang_star {[c] | c. p c}"
  then show "s \<in> {s. \<forall>c \<in> set s. p c}" by induction auto
next
  fix s assume "s \<in> {s. \<forall>c \<in> set s. p c}"
  then show "s \<in> lang_star {[c] | c. p c}"
  proof (induction s)
    case (Cons a s)
    then show ?case using lang_star.Append [of "[a]" "{[c] | c. p c}" s] by auto
  qed (rule lang_star.Nil)
qed

end
