(* ===== verification/YamlValue.thy ===== *)
theory YamlValue
  imports BufferCodec JsRegex
begin

text \<open>
  The values that \<^verbatim>\<open>js-yaml\<close> (modules 11, 55, 56, 72 and 502 to 522 of \<^verbatim>\<open>swagger-ui.js\<close>) reads and writes,
  and what it uses of the language to handle them.
  \<^item> A number is kept as the decimal numeral that \<^verbatim>\<open>toString\<close> prints: an integer, or \<open>m / 10^k\<close> with
    \<open>k > 0\<close> and \<open>10\<close> not dividing \<open>m\<close>, or one of the special values, negative zero among them. The
    rounding of a numeral to the nearest double is left out: arithmetic is exact.
  \<^item> Objects have an identity, because anchors and aliases share them: a value is a primitive or a reference
    into a store of arrays, plain objects, dates and byte buffers.
  \<^item> \<open>objectKeys\<close> lists the keys of an object as the language does: the array indices first, in ascending
    order, then the other keys in the order in which they were added. Assigning to the key \<^verbatim>\<open>__proto__\<close> adds
    no property.
\<close>

section \<open>Numbers\<close>

datatype jsnum = NaN | PosInf | NegInf | NegZero | IntN int | Frac int nat

text \<open>\<open>m / 10^k\<close> in its normal form.\<close>

fun mk_frac :: "int \<Rightarrow> nat \<Rightarrow> jsnum" where
  "mk_frac m 0 = IntN m"
| "mk_frac m (Suc k) = (if m mod 10 = 0 then mk_frac (m div 10) k else Frac m (Suc k))"

definition mk_dec :: "int \<Rightarrow> int \<Rightarrow> jsnum" where
  "mk_dec m e = (if 0 \<le> e then IntN (m * 10 ^ nat e) else mk_frac m (nat (- e)))"

fun num_neg :: "jsnum \<Rightarrow> jsnum" where
  "num_neg NaN = NaN"
| "num_neg PosInf = NegInf"
| "num_neg NegInf = PosInf"
| "num_neg NegZero = IntN 0"
| "num_neg (IntN n) = (if n = 0 then NegZero else IntN (- n))"
| "num_neg (Frac m k) = Frac (- m) k"

text \<open>\<^verbatim>\<open>sign * x\<close> for a sign that is \<open>1\<close> or \<open>-1\<close>.\<close>

definition num_sign :: "int \<Rightarrow> jsnum \<Rightarrow> jsnum" where
  "num_sign sign x = (if sign = -1 then num_neg x else x)"

text \<open>The numerator of a finite number over \<open>10^k\<close>, for a \<open>k\<close> that is large enough.\<close>

fun num_scale :: "jsnum \<Rightarrow> nat" where
  "num_scale (Frac m k) = k"
| "num_scale x = 0"

fun num_scaled :: "nat \<Rightarrow> jsnum \<Rightarrow> int" where
  "num_scaled k (IntN n) = n * 10 ^ k"
| "num_scaled k (Frac m j) = m * 10 ^ (k - j)"
| "num_scaled k x = 0"

fun is_finite :: "jsnum \<Rightarrow> bool" where
  "is_finite NegZero = True"
| "is_finite (IntN n) = True"
| "is_finite (Frac m k) = True"
| "is_finite x = False"

text \<open>\<^verbatim>\<open>x + d * base\<close> for numbers that the parsers below produce: \<^verbatim>\<open>NaN\<close> is absorbing, and no infinity occurs.\<close>

definition num_add_mul :: "jsnum \<Rightarrow> jsnum \<Rightarrow> int \<Rightarrow> jsnum" where
  "num_add_mul x d base =
     (if \<not> is_finite x \<or> \<not> is_finite d then NaN
      else let k = max (num_scale x) (num_scale d) in mk_frac (num_scaled k x + num_scaled k d * base) k)"

definition isNegativeZero :: "jsnum \<Rightarrow> bool" where
  "isNegativeZero x = (x = NegZero)"

text \<open>\<^verbatim>\<open>x % 1 === 0\<close>.\<close>

fun num_integral :: "jsnum \<Rightarrow> bool" where
  "num_integral (IntN n) = True"
| "num_integral NegZero = True"
| "num_integral x = False"

subsection \<open>Numerals\<close>

definition digit_char :: "int \<Rightarrow> 16 word" where
  "digit_char d = word_of_int (if d < 10 then 48 + d else 87 + d)"

function nat_digits :: "int \<Rightarrow> int \<Rightarrow> jsstr" where
  "nat_digits radix n =
     (if radix < 2 \<or> n < radix then [digit_char n] else nat_digits radix (n div radix) @ [digit_char (n mod radix)])"
  by auto
termination
proof (relation "measure (\<lambda>(radix, n). nat n)")
  fix radix n :: int
  assume "\<not> (radix < 2 \<or> n < radix)"
  then have "n div radix < n" and "0 < n" by (auto intro: int_div_less_self)
  then show "((radix, n div radix), (radix, n)) \<in> measure (\<lambda>(radix, n). nat n)" by auto
qed simp

declare nat_digits.simps [simp del]

text \<open>\<^verbatim>\<open>n.toString(radix)\<close> for an integer.\<close>

definition int_toString :: "int \<Rightarrow> int \<Rightarrow> jsstr" where
  "int_toString radix n = (if n < 0 then js ''-'' else []) @ nat_digits radix \<bar>n\<bar>"

text \<open>
  \<^verbatim>\<open>x.toString()\<close> of a positive number that is not an integer below \<open>10^21\<close>: with the digits \<open>ds\<close> and the
  decimal point after the first \<open>n\<close> of them, the four forms of the language specification.
\<close>

definition exp_form :: "jsstr \<Rightarrow> int \<Rightarrow> jsstr" where
  "exp_form ds n = take 1 ds @ (if length ds = 1 then [] else js ''.'' @ drop 1 ds) @ js ''e''
     @ (if n - 1 < 0 then js ''-'' else js ''+'') @ nat_digits 10 \<bar>n - 1\<bar>"

definition point_form :: "jsstr \<Rightarrow> int \<Rightarrow> jsstr" where
  "point_form ds n =
     (if 0 < n \<and> n \<le> 21 then take (nat n) ds @ js ''.'' @ drop (nat n) ds
      else if -6 < n \<and> n \<le> 0 then js ''0.'' @ replicate (nat (- n)) 48 @ ds
      else exp_form ds n)"

definition strip_zeros :: "jsstr \<Rightarrow> jsstr" where
  "strip_zeros ds = rev (dropWhile (\<lambda>c. c = 48) (rev ds))"

fun num_toString :: "jsnum \<Rightarrow> jsstr" where
  "num_toString NaN = js ''NaN''"
| "num_toString PosInf = js ''Infinity''"
| "num_toString NegInf = js ''-Infinity''"
| "num_toString NegZero = js ''0''"
| "num_toString (IntN n) =
     (if \<bar>n\<bar> < 10 ^ 21 then int_toString 10 n
      else let ds = nat_digits 10 \<bar>n\<bar>
           in (if n < 0 then js ''-'' else []) @ exp_form (strip_zeros ds) (int (length ds)))"
| "num_toString (Frac m k) =
     (let ds = nat_digits 10 \<bar>m\<bar>
      in (if m < 0 then js ''-'' else []) @ point_form ds (int (length ds) - int k))"

text \<open>
  \<^verbatim>\<open>parseFloat(s)\<close> of a string without a sign in front: the longest prefix that is a decimal numeral, and
  \<^verbatim>\<open>NaN\<close> if there is none.
\<close>

definition is_digit :: "16 word \<Rightarrow> bool" where
  "is_digit c \<longleftrightarrow> 48 \<le> c \<and> c \<le> 57"

definition parse_exponent :: "jsstr \<Rightarrow> int" where
  "parse_exponent s =
     (if s \<noteq> [] \<and> (hd s = 101 \<or> hd s = 69) then
        let t = tl s;
            neg = (t \<noteq> [] \<and> hd t = 45);
            t = (if t \<noteq> [] \<and> (hd t = 45 \<or> hd t = 43) then tl t else t);
            ds = takeWhile is_digit t
        in if ds = [] then 0 else (if neg then - digits_value 10 ds else digits_value 10 ds)
      else 0)"

definition parseFloat :: "jsstr \<Rightarrow> jsnum" where
  "parseFloat s =
     (let s = dropWhile is_space s;
          whole = takeWhile is_digit s;
          rest = dropWhile is_digit s;
          dotted = (rest \<noteq> [] \<and> hd rest = 46);
          frac = (if dotted then takeWhile is_digit (tl rest) else []);
          rest = (if dotted then dropWhile is_digit (tl rest) else rest)
      in if whole = [] \<and> frac = [] then NaN
         else mk_dec (digits_value 10 (whole @ frac)) (parse_exponent rest - int (length frac)))"

section \<open>Values and objects\<close>

datatype jsval = VUndef | VNull | VBool bool | VNum jsnum | VStr jsstr | VRef nat

type_synonym props = "(jsstr \<times> jsval) list"

text \<open>A date is its time value in milliseconds, \<open>None\<close> when it is invalid.\<close>

datatype jsobj = OArr "jsval list" | OObj props | ODate "int option" | OBuf "byte list"

type_synonym store = "jsobj list"

definition lookup :: "store \<Rightarrow> nat \<Rightarrow> jsobj option" where
  "lookup h r = (if r < length h then Some (h ! r) else None)"

definition alloc_obj :: "store \<Rightarrow> jsobj \<Rightarrow> store \<times> jsval" where
  "alloc_obj h ob = (h @ [ob], VRef (length h))"

text \<open>
  A property of an object. The key \<^verbatim>\<open>__proto__\<close> reaches the accessor of \<^verbatim>\<open>Object.prototype\<close>, so that an
  assignment does not add a property.
\<close>

definition hasOwn :: "(jsstr \<times> 'a) list \<Rightarrow> jsstr \<Rightarrow> bool" where
  "hasOwn ps k \<longleftrightarrow> map_of ps k \<noteq> None"

fun prop_set :: "(jsstr \<times> 'a) list \<Rightarrow> jsstr \<Rightarrow> 'a \<Rightarrow> (jsstr \<times> 'a) list" where
  "prop_set [] k v = [(k, v)]"
| "prop_set ((k', v') # ps) k v = (if k' = k then (k, v) # ps else (k', v') # prop_set ps k v)"

definition assign :: "(jsstr \<times> 'a) list \<Rightarrow> jsstr \<Rightarrow> 'a \<Rightarrow> (jsstr \<times> 'a) list" where
  "assign ps k v = (if k = js ''__proto__'' then ps else prop_set ps k v)"

definition prop_delete :: "(jsstr \<times> 'a) list \<Rightarrow> jsstr \<Rightarrow> (jsstr \<times> 'a) list" where
  "prop_delete ps k = filter (\<lambda>(k', v). k' \<noteq> k) ps"

text \<open>\<^verbatim>\<open>Object.keys(o)\<close>.\<close>

definition is_array_index :: "jsstr \<Rightarrow> bool" where
  "is_array_index k \<longleftrightarrow> k = js ''0'' \<or>
     k \<noteq> [] \<and> (\<forall>c \<in> set k. is_digit c) \<and> hd k \<noteq> 48 \<and> digits_value 10 k < 2 ^ 32 - 1"

definition objectKeys :: "(jsstr \<times> 'a) list \<Rightarrow> jsstr list" where
  "objectKeys ps =
     (let ks = map fst ps
      in sort_key (digits_value 10) (filter is_array_index ks) @ filter (\<lambda>k. \<not> is_array_index k) ks)"

definition prop_get :: "props \<Rightarrow> jsstr \<Rightarrow> jsval" where
  "prop_get ps k = (case map_of ps k of None \<Rightarrow> VUndef | Some v \<Rightarrow> v)"

text \<open>\<^verbatim>\<open>toString.call(v)\<close>.\<close>

fun object_tag :: "store \<Rightarrow> jsval \<Rightarrow> jsstr" where
  "object_tag h VUndef = js ''[object Undefined]''"
| "object_tag h VNull = js ''[object Null]''"
| "object_tag h (VBool b) = js ''[object Boolean]''"
| "object_tag h (VNum n) = js ''[object Number]''"
| "object_tag h (VStr s) = js ''[object String]''"
| "object_tag h (VRef r) =
     (case lookup h r of
        Some (OArr xs) \<Rightarrow> js ''[object Array]''
      | Some (ODate d) \<Rightarrow> js ''[object Date]''
      | Some (OBuf bs) \<Rightarrow> js ''[object Uint8Array]''
      | _ \<Rightarrow> js ''[object Object]'')"

text \<open>
  \<^verbatim>\<open>String(v)\<close>. An array joins its elements with commas; \<^verbatim>\<open>null\<close>, \<^verbatim>\<open>undefined\<close> and an array that is already
  being joined count as empty. A buffer is decoded as UTF-8. How a date is spelled depends on the time zone
  of the host, \<open>datestr\<close>. Every nested array is another object, so \<open>length h\<close> levels are enough.
\<close>

fun join_with :: "'a list \<Rightarrow> 'a list list \<Rightarrow> 'a list" where
  "join_with sep [] = []"
| "join_with sep [x] = x"
| "join_with sep (x # y # xs) = x @ sep @ join_with sep (y # xs)"

fun string_of :: "(int option \<Rightarrow> jsstr) \<Rightarrow> store \<Rightarrow> nat \<Rightarrow> nat list \<Rightarrow> jsval \<Rightarrow> jsstr" where
  "string_of datestr h n seen VUndef = js ''undefined''"
| "string_of datestr h n seen VNull = js ''null''"
| "string_of datestr h n seen (VBool b) = (if b then js ''true'' else js ''false'')"
| "string_of datestr h n seen (VNum x) = num_toString x"
| "string_of datestr h n seen (VStr s) = s"
| "string_of datestr h 0 seen (VRef r) = []"
| "string_of datestr h (Suc n) seen (VRef r) =
     (case lookup h r of
        Some (OArr xs) \<Rightarrow>
          (if r \<in> set seen then []
           else join_with (js '','')
                  (map (\<lambda>v. if v = VNull \<or> v = VUndef then [] else string_of datestr h n (r # seen) v) xs))
      | Some (ODate d) \<Rightarrow> datestr d
      | Some (OBuf bs) \<Rightarrow> utf8Slice bs 0 (length bs)
      | _ \<Rightarrow> js ''[object Object]'')"

definition toStr :: "(int option \<Rightarrow> jsstr) \<Rightarrow> store \<Rightarrow> jsval \<Rightarrow> jsstr" where
  "toStr datestr h v = string_of datestr h (Suc (length h)) [] v"

end
