(* ===== verification/YamlScalar.thy ===== *)
theory YamlScalar
  imports YamlValue Base64Js
begin

text \<open>
  The scalar types of \<^verbatim>\<open>js-yaml\<close> (modules 505 to 518 of \<^verbatim>\<open>swagger-ui.js\<close>): for every type the test whether a
  node spells a value of the type (\<^verbatim>\<open>resolve\<close>), the value (\<^verbatim>\<open>construct\<close>) and the spelling that the dumper
  writes (\<^verbatim>\<open>represent\<close>). The data of a node is \<^verbatim>\<open>null\<close> or a string, and, when a tag stands on the line above
  a plain scalar, the value that the scalar was resolved to already; the functions are defined on all of
  them, with the \<^verbatim>\<open>TypeError\<close> that a missing method throws. The theorems are the round trips of the
  numerals, the literals and the binary data.
\<close>

section \<open>Strings\<close>

fun str_split :: "16 word \<Rightarrow> jsstr \<Rightarrow> jsstr list" where
  "str_split sep [] = [[]]"
| "str_split sep (c # s) =
     (if c = sep then [] # str_split sep s
      else case str_split sep s of [] \<Rightarrow> [[c]] | t # ts \<Rightarrow> (c # t) # ts)"

definition without :: "jsstr \<Rightarrow> jsstr \<Rightarrow> jsstr" where
  "without cs s = filter (\<lambda>c. c \<notin> set cs) s"

definition not_a_function :: "jserr" where
  "not_a_function = TypeError ''not a function''"

section \<open>null and booleans\<close>

fun resolveYamlNull :: "jsval \<Rightarrow> bool" where
  "resolveYamlNull VNull = True"
| "resolveYamlNull (VStr data) =
     (length data = 1 \<and> data = js ''~''
      \<or> length data = 4 \<and> (data = js ''null'' \<or> data = js ''Null'' \<or> data = js ''NULL''))"
| "resolveYamlNull _ = False"

definition constructYamlNull :: jsval where
  "constructYamlNull = VNull"

definition isNull :: "jsval \<Rightarrow> bool" where
  "isNull v = (v = VNull)"

definition representYamlNull :: "jsstr \<Rightarrow> jsstr option" where
  "representYamlNull style =
     (if style = js ''canonical'' then Some (js ''~'')
      else if style = js ''lowercase'' then Some (js ''null'')
      else if style = js ''uppercase'' then Some (js ''NULL'')
      else if style = js ''camelcase'' then Some (js ''Null'')
      else None)"

fun resolveYamlBoolean :: "jsval \<Rightarrow> bool" where
  "resolveYamlBoolean (VStr data) =
     (length data = 4 \<and> (data = js ''true'' \<or> data = js ''True'' \<or> data = js ''TRUE'')
      \<or> length data = 5 \<and> (data = js ''false'' \<or> data = js ''False'' \<or> data = js ''FALSE''))"
| "resolveYamlBoolean _ = False"

definition constructYamlBoolean :: "jsval \<Rightarrow> jsval" where
  "constructYamlBoolean data =
     VBool (data = VStr (js ''true'') \<or> data = VStr (js ''True'') \<or> data = VStr (js ''TRUE''))"

fun isBoolean :: "jsval \<Rightarrow> bool" where
  "isBoolean (VBool b) = True"
| "isBoolean _ = False"

definition representYamlBoolean :: "bool \<Rightarrow> jsstr \<Rightarrow> jsstr option" where
  "representYamlBoolean b style =
     (if style = js ''lowercase'' then Some (if b then js ''true'' else js ''false'')
      else if style = js ''uppercase'' then Some (if b then js ''TRUE'' else js ''FALSE'')
      else if style = js ''camelcase'' then Some (if b then js ''True'' else js ''False'')
      else None)"

section \<open>Integers\<close>

definition isHexCode :: "16 word \<Rightarrow> bool" where
  "isHexCode c \<longleftrightarrow> 48 \<le> c \<and> c \<le> 57 \<or> 65 \<le> c \<and> c \<le> 70 \<or> 97 \<le> c \<and> c \<le> 102"

definition isOctCode :: "16 word \<Rightarrow> bool" where
  "isOctCode c \<longleftrightarrow> 48 \<le> c \<and> c \<le> 55"

definition isDecCode :: "16 word \<Rightarrow> bool" where
  "isDecCode c \<longleftrightarrow> 48 \<le> c \<and> c \<le> 57"

text \<open>
  The loops over the digits: underscores are skipped, a character that is no digit refuses the numeral, and
  the last character seen may not be an underscore.
\<close>

fun radix_loop :: "(16 word \<Rightarrow> bool) \<Rightarrow> jsstr \<Rightarrow> bool \<Rightarrow> 16 word \<Rightarrow> bool" where
  "radix_loop ok [] hasDigits ch = (hasDigits \<and> ch \<noteq> 95)"
| "radix_loop ok (c # s) hasDigits ch =
     (if c = 95 then radix_loop ok s hasDigits c
      else if \<not> ok c then False
      else radix_loop ok s True c)"

text \<open>The decimal loop also stops at a colon; \<open>None\<close> is the refusal.\<close>

fun dec_loop :: "jsstr \<Rightarrow> bool \<Rightarrow> 16 word option \<Rightarrow> (bool \<times> 16 word option \<times> jsstr) option" where
  "dec_loop [] hasDigits ch = Some (hasDigits, ch, [])"
| "dec_loop (c # s) hasDigits ch =
     (if c = 95 then dec_loop s hasDigits (Some c)
      else if c = 58 then Some (hasDigits, Some c, c # s)
      else if \<not> isDecCode c then None
      else dec_loop s True (Some c))"

definition sexagesimal_tail :: regex where
  "sexagesimal_tail = re_plus (re_seq [re_char 58, re_opt (re_range 48 53), re_range 48 57])"

definition int_resolves :: "jsstr \<Rightarrow> bool" where
  "int_resolves data =
     (if data = [] then False
      else
        let s = (if hd data = 45 \<or> hd data = 43 then tl data else data)
        in case s of
             c # rest \<Rightarrow>
               (if c = 48 then
                  (case rest of
                     [] \<Rightarrow> True
                   | d # rest' \<Rightarrow>
                       (if d = 98 then radix_loop (\<lambda>ch. ch = 48 \<or> ch = 49) rest' False d
                        else if d = 120 then radix_loop isHexCode rest' False d
                        else radix_loop isOctCode rest False d))
                else if c = 95 then False
                else
                  (case dec_loop s False None of
                     None \<Rightarrow> False
                   | Some (hasDigits, ch, tail) \<Rightarrow>
                       (if \<not> hasDigits \<or> ch = Some 95 then False
                        else if ch \<noteq> Some 58 then True
                        else re_test sexagesimal_tail tail)))
           | [] \<Rightarrow> False)"

fun resolveYamlInteger :: "jsval \<Rightarrow> bool" where
  "resolveYamlInteger (VStr data) = int_resolves data"
| "resolveYamlInteger _ = False"

definition num_of_int :: "int option \<Rightarrow> jsnum" where
  "num_of_int n = (case n of None \<Rightarrow> NaN | Some i \<Rightarrow> IntN i)"

text \<open>\<^verbatim>\<open>value += d * base; base *= 60\<close> over the digits, the last one first.\<close>

fun base60 :: "jsnum list \<Rightarrow> int \<Rightarrow> jsnum \<Rightarrow> jsnum" where
  "base60 [] base v = v"
| "base60 (d # ds) base v = base60 ds (base * 60) (num_add_mul v d base)"

definition int_value :: "jsstr \<Rightarrow> jsnum" where
  "int_value data =
     (let s = without (js ''_'') data;
          neg = (s \<noteq> [] \<and> hd s = 45);
          sign = (if neg then -1 else 1);
          s = (if s \<noteq> [] \<and> (hd s = 45 \<or> hd s = 43) then tl s else s)
      in if s = js ''0'' then IntN 0
         else if s \<noteq> [] \<and> hd s = 48 then
           (if length s > 1 \<and> s ! 1 = 98 then num_sign sign (num_of_int (parseInt (drop 2 s) 2))
            else if length s > 1 \<and> s ! 1 = 120 then num_sign sign (num_of_int (parseInt s 16))
            else num_sign sign (num_of_int (parseInt s 8)))
         else if 58 \<in> set s then
           num_sign sign (base60 (rev (map (\<lambda>v. num_of_int (parseInt v 10)) (str_split 58 s))) 1 (IntN 0))
         else num_sign sign (num_of_int (parseInt s 10)))"

fun constructYamlInteger :: "jsval \<Rightarrow> jserr + jsval" where
  "constructYamlInteger (VStr data) = Inr (VNum (int_value data))"
| "constructYamlInteger _ = Inl not_a_function"

fun isInteger :: "jsval \<Rightarrow> bool" where
  "isInteger (VNum x) = (num_integral x \<and> \<not> isNegativeZero x)"
| "isInteger _ = False"

definition representYamlInteger :: "int \<Rightarrow> jsstr \<Rightarrow> jsstr option" where
  "representYamlInteger n style =
     (if style = js ''binary'' then
        Some (if 0 \<le> n then js ''0b'' @ int_toString 2 n else js ''-0b'' @ drop 1 (int_toString 2 n))
      else if style = js ''octal'' then
        Some (if 0 \<le> n then js ''0'' @ int_toString 8 n else js ''-0'' @ drop 1 (int_toString 8 n))
      else if style = js ''decimal'' then Some (num_toString (IntN n))
      else if style = js ''hexadecimal'' then
        Some (if 0 \<le> n then js ''0x'' @ toUpperCase (int_toString 16 n)
              else js ''-0x'' @ drop 1 (toUpperCase (int_toString 16 n)))
      else None)"

section \<open>Floating point numbers\<close>

definition digit_us :: regex where
  "digit_us = RClass (\<lambda>c. isDecCode c \<or> c = 95)"

definition sign_opt :: regex where
  "sign_opt = re_opt (re_set (js ''-+''))"

definition exponent_opt :: regex where
  "exponent_opt = re_opt (re_seq [re_set (js ''eE''), sign_opt, re_plus (re_range 48 57)])"

definition YAML_FLOAT_PATTERN :: regex where
  "YAML_FLOAT_PATTERN = re_alt
     [re_seq [sign_opt, RAlt (re_char 48) (RSeq (re_range 49 57) (RStar digit_us)),
        re_opt (RSeq (re_char 46) (RStar digit_us)), exponent_opt],
      re_seq [re_char 46, re_plus digit_us, exponent_opt],
      re_seq [sign_opt, re_range 48 57, RStar digit_us,
        re_plus (re_seq [re_char 58, re_opt (re_range 48 53), re_range 48 57]), re_char 46, RStar digit_us],
      re_seq [sign_opt, re_char 46, re_alt [re_word (js ''inf''), re_word (js ''Inf''), re_word (js ''INF'')]],
      re_seq [re_char 46, re_alt [re_word (js ''nan''), re_word (js ''NaN''), re_word (js ''NAN'')]]]"

text \<open>The test converts the data to a string; only a string has a last character.\<close>

fun resolveYamlFloat :: "(jsval \<Rightarrow> jsstr) \<Rightarrow> jsval \<Rightarrow> bool" where
  "resolveYamlFloat str VNull = False"
| "resolveYamlFloat str (VStr data) = (re_test YAML_FLOAT_PATTERN data \<and> \<not> (data \<noteq> [] \<and> last data = 95))"
| "resolveYamlFloat str data = re_test YAML_FLOAT_PATTERN (str data)"

definition float_value :: "jsstr \<Rightarrow> jsnum" where
  "float_value data =
     (let s = toLowerCase (without (js ''_'') data);
          sign = (if s \<noteq> [] \<and> hd s = 45 then -1 else 1);
          s = (if s \<noteq> [] \<and> (hd s = 43 \<or> hd s = 45) then tl s else s)
      in if s = js ''.inf'' then (if sign = 1 then PosInf else NegInf)
         else if s = js ''.nan'' then NaN
         else if 58 \<in> set s then num_sign sign (base60 (rev (map parseFloat (str_split 58 s))) 1 (IntN 0))
         else num_sign sign (parseFloat s))"

fun constructYamlFloat :: "jsval \<Rightarrow> jserr + jsval" where
  "constructYamlFloat (VStr data) = Inr (VNum (float_value data))"
| "constructYamlFloat _ = Inl not_a_function"

definition SCIENTIFIC_WITHOUT_DOT :: regex where
  "SCIENTIFIC_WITHOUT_DOT = re_seq [sign_opt, re_plus (re_range 48 57), re_char 101, RStar re_any]"

fun replace_first :: "16 word \<Rightarrow> jsstr \<Rightarrow> jsstr \<Rightarrow> jsstr" where
  "replace_first c t [] = []"
| "replace_first c t (d # s) = (if d = c then t @ s else d # replace_first c t s)"

definition plain_numeral :: "jsnum \<Rightarrow> jsstr" where
  "plain_numeral x =
     (let res = num_toString x in if re_test SCIENTIFIC_WITHOUT_DOT res then replace_first 101 (js ''.e'') res else res)"

fun representYamlFloat :: "jsnum \<Rightarrow> jsstr \<Rightarrow> jsstr" where
  "representYamlFloat NaN style =
     (if style = js ''lowercase'' then js ''.nan''
      else if style = js ''uppercase'' then js ''.NAN''
      else if style = js ''camelcase'' then js ''.NaN''
      else plain_numeral NaN)"
| "representYamlFloat PosInf style =
     (if style = js ''lowercase'' then js ''.inf''
      else if style = js ''uppercase'' then js ''.INF''
      else if style = js ''camelcase'' then js ''.Inf''
      else plain_numeral PosInf)"
| "representYamlFloat NegInf style =
     (if style = js ''lowercase'' then js ''-.inf''
      else if style = js ''uppercase'' then js ''-.INF''
      else if style = js ''camelcase'' then js ''-.Inf''
      else plain_numeral NegInf)"
| "representYamlFloat NegZero style = js ''-0.0''"
| "representYamlFloat x style = plain_numeral x"

fun isFloat :: "jsval \<Rightarrow> bool" where
  "isFloat (VNum x) = (\<not> num_integral x \<or> isNegativeZero x)"
| "isFloat _ = False"

section \<open>Timestamps\<close>

text \<open>\<^verbatim>\<open>[0-9]\<close> at least \<open>lo\<close> and at most \<open>hi\<close> times, as many as there are.\<close>

definition digits_group :: "nat \<Rightarrow> nat \<Rightarrow> jsstr \<Rightarrow> (jsstr \<times> jsstr) option" where
  "digits_group lo hi s =
     (let ds = take hi (takeWhile isDecCode s)
      in if length ds < lo then None else Some (ds, drop (length ds) s))"

definition char_group :: "16 word list \<Rightarrow> jsstr \<Rightarrow> (16 word \<times> jsstr) option" where
  "char_group cs s = (case s of c # t \<Rightarrow> (if c \<in> set cs then Some (c, t) else None) | [] \<Rightarrow> None)"

text \<open>The capture groups 1 to 3 of \<^verbatim>\<open>YAML_DATE_REGEXP\<close> and 1 to 11 of \<^verbatim>\<open>YAML_TIMESTAMP_REGEXP\<close>.\<close>

record ts_match =
  ts_year :: jsstr
  ts_month :: jsstr
  ts_day :: jsstr
  ts_time :: "(jsstr \<times> jsstr \<times> jsstr) option"
  ts_fraction :: "jsstr option"
  ts_zone :: "(16 word \<times> jsstr \<times> jsstr option) option"

definition date_group :: "nat \<Rightarrow> jsstr \<Rightarrow> (jsstr \<times> jsstr \<times> jsstr \<times> jsstr) option" where
  "date_group lo s =
     Option.bind (digits_group 4 4 s) (\<lambda>(y, s).
     Option.bind (char_group [45] s) (\<lambda>(_, s).
     Option.bind (digits_group lo 2 s) (\<lambda>(m, s).
     Option.bind (char_group [45] s) (\<lambda>(_, s).
     Option.bind (digits_group lo 2 s) (\<lambda>(d, s). Some (y, m, d, s))))))"

definition date_exec :: "jsstr \<Rightarrow> ts_match option" where
  "date_exec s =
     Option.bind (date_group 2 s) (\<lambda>(y, m, d, rest).
       if rest = [] then
         Some \<lparr> ts_year = y, ts_month = m, ts_day = d, ts_time = None, ts_fraction = None, ts_zone = None \<rparr>
       else None)"

text \<open>\<^verbatim>\<open>(?:[Tt]|[ \t]+)\<close>.\<close>

definition ts_separator :: "jsstr \<Rightarrow> jsstr option" where
  "ts_separator s =
     (case s of
        c # t \<Rightarrow>
          (if c = 84 \<or> c = 116 then Some t
           else if c = 32 \<or> c = 9 then Some (dropWhile (\<lambda>c. c = 32 \<or> c = 9) t)
           else None)
      | [] \<Rightarrow> None)"

definition clock_group :: "jsstr \<Rightarrow> ((jsstr \<times> jsstr \<times> jsstr) \<times> jsstr) option" where
  "clock_group s =
     Option.bind (digits_group 1 2 s) (\<lambda>(hh, s).
     Option.bind (char_group [58] s) (\<lambda>(_, s).
     Option.bind (digits_group 2 2 s) (\<lambda>(mm, s).
     Option.bind (char_group [58] s) (\<lambda>(_, s).
     Option.bind (digits_group 2 2 s) (\<lambda>(ss, s). Some ((hh, mm, ss), s))))))"

text \<open>
  \<^verbatim>\<open>(?:[ \t]*(Z|([-+])([0-9][0-9]?)(?::([0-9][0-9]))?))?$\<close>: the outer \<open>None\<close> is a mismatch, the inner one
  the absence of an offset.
\<close>

definition zone_exec :: "jsstr \<Rightarrow> (16 word \<times> jsstr \<times> jsstr option) option option" where
  "zone_exec s =
     (if s = [] then Some None
      else
        let t = dropWhile (\<lambda>c. c = 32 \<or> c = 9) s
        in if t = [90] then Some None
           else
             Option.bind (char_group [45, 43] t) (\<lambda>(sg, t).
             Option.bind (digits_group 1 2 t) (\<lambda>(hh, t).
               if t = [] then Some (Some (sg, hh, None))
               else
                 Option.bind (char_group [58] t) (\<lambda>(_, t).
                 Option.bind (digits_group 2 2 t) (\<lambda>(mm, t).
                   if t = [] then Some (Some (sg, hh, Some mm)) else None)))))"

definition timestamp_exec :: "jsstr \<Rightarrow> ts_match option" where
  "timestamp_exec s =
     Option.bind (date_group 1 s) (\<lambda>(y, m, d, s).
     Option.bind (ts_separator s) (\<lambda>s.
     Option.bind (clock_group s) (\<lambda>(clock, s).
       let dotted = (s \<noteq> [] \<and> hd s = 46);
           fraction = (if dotted then Some (takeWhile isDecCode (tl s)) else None);
           rest = (if dotted then dropWhile isDecCode (tl s) else s)
       in Option.bind (zone_exec rest) (\<lambda>zone.
            Some \<lparr> ts_year = y, ts_month = m, ts_day = d, ts_time = Some clock,
                   ts_fraction = fraction, ts_zone = zone \<rparr>))))"

fun resolveYamlTimestamp :: "(jsval \<Rightarrow> jsstr) \<Rightarrow> jsval \<Rightarrow> bool" where
  "resolveYamlTimestamp str VNull = False"
| "resolveYamlTimestamp str data = (date_exec (str data) \<noteq> None \<or> timestamp_exec (str data) \<noteq> None)"

text \<open>
  \<^verbatim>\<open>Date.UTC\<close>: the day number of the first of January of a year, the days before a month, and the time value
  of a date whose fields may be out of range. A year from 0 to 99 means 1900 and later.
\<close>

definition leap_year :: "int \<Rightarrow> bool" where
  "leap_year y \<longleftrightarrow> y mod 4 = 0 \<and> (y mod 100 \<noteq> 0 \<or> y mod 400 = 0)"

definition dayFromYear :: "int \<Rightarrow> int" where
  "dayFromYear y = 365 * (y - 1970) + (y - 1969) div 4 - (y - 1901) div 100 + (y - 1601) div 400"

definition month_lengths :: "int \<Rightarrow> int list" where
  "month_lengths y = [31, if leap_year y then 29 else 28, 31, 30, 31, 30, 31, 31, 30, 31, 30, 31]"

definition makeDay :: "int \<Rightarrow> int \<Rightarrow> int \<Rightarrow> int" where
  "makeDay y m d =
     (let ym = y + m div 12 in dayFromYear ym + sum_list (take (nat (m mod 12)) (month_lengths ym)) + (d - 1))"

definition Date_UTC :: "int \<Rightarrow> int \<Rightarrow> int \<Rightarrow> int \<Rightarrow> int \<Rightarrow> int \<Rightarrow> int \<Rightarrow> int option" where
  "Date_UTC y m d hh mm ss ms =
     (let y = (if 0 \<le> y \<and> y \<le> 99 then 1900 + y else y);
          t = makeDay y m d * 86400000 + (hh * 3600000 + mm * 60000 + ss * 1000 + ms)
      in if \<bar>t\<bar> \<le> 8640000000000000 then Some t else None)"

definition dec :: "jsstr \<Rightarrow> int" where
  "dec ds = digits_value 10 ds"

text \<open>The milliseconds of a fraction: its first three digits, filled with zeros.\<close>

definition fraction_ms :: "jsstr option \<Rightarrow> int" where
  "fraction_ms f =
     (case f of
        None \<Rightarrow> 0
      | Some ds \<Rightarrow> if ds = [] then 0 else dec (take 3 ds @ replicate (3 - length ds) 48))"

definition zone_delta :: "(16 word \<times> jsstr \<times> jsstr option) option \<Rightarrow> int" where
  "zone_delta z =
     (case z of
        None \<Rightarrow> 0
      | Some (sg, hh, mm) \<Rightarrow>
          let delta = (dec hh * 60 + (case mm of None \<Rightarrow> 0 | Some ds \<Rightarrow> dec ds)) * 60000
          in if sg = 45 then - delta else delta)"

definition timestamp_value :: "jsstr \<Rightarrow> jserr + int option" where
  "timestamp_value s =
     (case (case date_exec s of None \<Rightarrow> timestamp_exec s | m \<Rightarrow> m) of
        None \<Rightarrow> Inl (PlainError ''Date resolve error'')
      | Some m \<Rightarrow>
          (let year = dec (ts_year m); month = dec (ts_month m) - 1; day = dec (ts_day m)
           in case ts_time m of
                None \<Rightarrow> Inr (Date_UTC year month day 0 0 0 0)
              | Some (hh, mm, ss) \<Rightarrow>
                  Inr (map_option (\<lambda>t. t - zone_delta (ts_zone m))
                         (Date_UTC year month day (dec hh) (dec mm) (dec ss) (fraction_ms (ts_fraction m))))))"

definition constructYamlTimestamp :: "(jsval \<Rightarrow> jsstr) \<Rightarrow> store \<Rightarrow> jsval \<Rightarrow> jserr + (store \<times> jsval)" where
  "constructYamlTimestamp str h data = rbind (timestamp_value (str data)) (\<lambda>t. Inr (alloc_obj h (ODate t)))"

text \<open>\<^verbatim>\<open>toISOString\<close>: the year, month and day of a day number, and the fields with leading zeros.\<close>

definition year_of_day :: "int \<Rightarrow> int" where
  "year_of_day n =
     (let y = 1970 + (n * 400) div 146097
      in if dayFromYear (y + 1) \<le> n then y + 1 else if n < dayFromYear y then y - 1 else y)"

fun month_of_day :: "int list \<Rightarrow> int \<Rightarrow> int \<times> int" where
  "month_of_day [] n = (0, n)"
| "month_of_day (l # ls) n = (if n < l then (0, n) else case month_of_day ls (n - l) of (m, d) \<Rightarrow> (m + 1, d))"

definition zero_pad :: "nat \<Rightarrow> int \<Rightarrow> jsstr" where
  "zero_pad w n = (let ds = nat_digits 10 n in replicate (w - length ds) 48 @ ds)"

definition iso_year :: "int \<Rightarrow> jsstr" where
  "iso_year y =
     (if 0 \<le> y \<and> y \<le> 9999 then zero_pad 4 y
      else (if y < 0 then js ''-'' else js ''+'') @ zero_pad 6 \<bar>y\<bar>)"

definition toISOString :: "int option \<Rightarrow> jserr + jsstr" where
  "toISOString t =
     (case t of
        None \<Rightarrow> Inl (RangeError ''Invalid time value'')
      | Some t \<Rightarrow>
          (let n = t div 86400000; ms = t mod 86400000; y = year_of_day n;
               md = month_of_day (month_lengths y) (n - dayFromYear y)
           in Inr (iso_year y @ js ''-'' @ zero_pad 2 (fst md + 1) @ js ''-'' @ zero_pad 2 (snd md + 1) @ js ''T''
                @ zero_pad 2 (ms div 3600000) @ js '':'' @ zero_pad 2 (ms div 60000 mod 60) @ js '':''
                @ zero_pad 2 (ms div 1000 mod 60) @ js ''.'' @ zero_pad 3 (ms mod 1000) @ js ''Z'')))"

definition representYamlTimestamp :: "int option \<Rightarrow> jserr + jsstr" where
  "representYamlTimestamp t = toISOString t"

section \<open>Merge keys and binary data\<close>

definition resolveYamlMerge :: "jsval \<Rightarrow> bool" where
  "resolveYamlMerge data = (data = VStr (js ''<<'') \<or> data = VNull)"

definition BASE64_MAP :: jsstr where
  "BASE64_MAP = base64_code @ js ''='' @ [10, 13]"

text \<open>\<^verbatim>\<open>map.indexOf(c)\<close>, \<open>-1\<close> if the character does not occur.\<close>

definition map_index :: "16 word \<Rightarrow> int" where
  "map_index c = (if c \<in> set BASE64_MAP then int (index_of c BASE64_MAP) else -1)"

fun binary_scan :: "jsstr \<Rightarrow> nat \<Rightarrow> bool" where
  "binary_scan [] bitlen = (bitlen mod 8 = 0)"
| "binary_scan (c # s) bitlen =
     (let code = map_index c
      in if code > 64 then binary_scan s bitlen
         else if code < 0 then False
         else binary_scan s (bitlen + 6))"

fun resolveYamlBinary :: "jsval \<Rightarrow> bool" where
  "resolveYamlBinary VNull = False"
| "resolveYamlBinary (VStr data) = binary_scan data 0"
| "resolveYamlBinary _ = True"

definition three_bytes :: "int \<Rightarrow> int list" where
  "three_bytes bits = [js_and (js_shr bits 16) 255, js_and (js_shr bits 8) 255, js_and bits 255]"

fun binary_in :: "jsstr \<Rightarrow> nat \<Rightarrow> int \<Rightarrow> int list \<Rightarrow> int \<times> int list" where
  "binary_in [] idx bits result = (bits, result)"
| "binary_in (c # s) idx bits result =
     (let result = (if idx mod 4 = 0 \<and> idx \<noteq> 0 then result @ three_bytes bits else result)
      in binary_in s (Suc idx) (js_or (js_shl bits 6) (map_index c)) result)"

definition binary_value :: "jsstr \<Rightarrow> int list" where
  "binary_value data =
     (let input = without [13, 10, 61] data;
          (bits, result) = binary_in input 0 0 [];
          tailbits = length input mod 4 * 6
      in if tailbits = 0 then result @ three_bytes bits
         else if tailbits = 18 then result @ [js_and (js_shr bits 10) 255, js_and (js_shr bits 2) 255]
         else if tailbits = 12 then result @ [js_and (js_shr bits 4) 255]
         else result)"

text \<open>\<^verbatim>\<open>NodeBuffer.from\<close> stores the numbers as bytes.\<close>

fun constructYamlBinary :: "store \<Rightarrow> jsval \<Rightarrow> jserr + (store \<times> jsval)" where
  "constructYamlBinary h (VStr data) = Inr (alloc_obj h (OBuf (map word_of_int (binary_value data))))"
| "constructYamlBinary h _ = Inl not_a_function"

definition map_char :: "int \<Rightarrow> 16 word" where
  "map_char i = BASE64_MAP ! nat i"

definition four_chars :: "int \<Rightarrow> jsstr" where
  "four_chars bits =
     [map_char (js_and (js_shr bits 18) 63), map_char (js_and (js_shr bits 12) 63),
      map_char (js_and (js_shr bits 6) 63), map_char (js_and bits 63)]"

fun binary_out :: "byte list \<Rightarrow> nat \<Rightarrow> int \<Rightarrow> jsstr \<Rightarrow> int \<times> jsstr" where
  "binary_out [] idx bits result = (bits, result)"
| "binary_out (b # bs) idx bits result =
     (let result = (if idx mod 3 = 0 \<and> idx \<noteq> 0 then result @ four_chars bits else result)
      in binary_out bs (Suc idx) (js_shl bits 8 + uint b) result)"

definition representYamlBinary :: "byte list \<Rightarrow> jsstr" where
  "representYamlBinary object =
     (let (bits, result) = binary_out object 0 0 [];
          tail = length object mod 3
      in if tail = 0 then result @ four_chars bits
         else if tail = 2 then
           result @ [map_char (js_and (js_shr bits 10) 63), map_char (js_and (js_shr bits 4) 63),
                     map_char (js_and (js_shl bits 2) 63), map_char 64]
         else if tail = 1 then
           result @ [map_char (js_and (js_shr bits 2) 63), map_char (js_and (js_shl bits 4) 63),
                     map_char 64, map_char 64]
         else result)"

section \<open>Collections\<close>

definition obj_props :: "store \<Rightarrow> jsval \<Rightarrow> props option" where
  "obj_props h v =
     (case v of VRef r \<Rightarrow> (case lookup h r of Some (OObj ps) \<Rightarrow> Some ps | _ \<Rightarrow> None) | _ \<Rightarrow> None)"

definition arr_items :: "store \<Rightarrow> jsval \<Rightarrow> jsval list option" where
  "arr_items h v =
     (case v of VRef r \<Rightarrow> (case lookup h r of Some (OArr xs) \<Rightarrow> Some xs | _ \<Rightarrow> None) | _ \<Rightarrow> None)"

text \<open>Every entry of an ordered map is an object with one key, and no key comes twice.\<close>

fun omap_loop :: "store \<Rightarrow> jsval list \<Rightarrow> jsstr list \<Rightarrow> bool" where
  "omap_loop h [] keys = True"
| "omap_loop h (pair # pairs) keys =
     (case obj_props h pair of
        None \<Rightarrow> False
      | Some ps \<Rightarrow>
          (case objectKeys ps of
             [k] \<Rightarrow> (if k \<in> set keys then False else omap_loop h pairs (keys @ [k]))
           | _ \<Rightarrow> False))"

definition resolveYamlOmap :: "store \<Rightarrow> jsval \<Rightarrow> bool" where
  "resolveYamlOmap h data = (case arr_items h data of None \<Rightarrow> True | Some pairs \<Rightarrow> omap_loop h pairs [])"

definition constructYamlOmap :: "store \<Rightarrow> jsval \<Rightarrow> store \<times> jsval" where
  "constructYamlOmap h data = (if data \<noteq> VNull then (h, data) else alloc_obj h (OArr []))"

definition pair_ok :: "store \<Rightarrow> jsval \<Rightarrow> bool" where
  "pair_ok h pair = (case obj_props h pair of None \<Rightarrow> False | Some ps \<Rightarrow> length (objectKeys ps) = 1)"

definition resolveYamlPairs :: "store \<Rightarrow> jsval \<Rightarrow> bool" where
  "resolveYamlPairs h data = (case arr_items h data of None \<Rightarrow> True | Some pairs \<Rightarrow> list_all (pair_ok h) pairs)"

definition pair_entry :: "store \<Rightarrow> jsval \<Rightarrow> jsobj" where
  "pair_entry h pair =
     (case obj_props h pair of
        None \<Rightarrow> OArr [VUndef, VUndef]
      | Some ps \<Rightarrow>
          (case objectKeys ps of [] \<Rightarrow> OArr [VUndef, VUndef] | k # _ \<Rightarrow> OArr [VStr k, prop_get ps k]))"

fun pairs_loop :: "store \<Rightarrow> jsval list \<Rightarrow> jsval list \<Rightarrow> store \<times> jsval list" where
  "pairs_loop h [] result = (h, result)"
| "pairs_loop h (pair # pairs) result =
     (case alloc_obj h (pair_entry h pair) of (h', e) \<Rightarrow> pairs_loop h' pairs (result @ [e]))"

definition constructYamlPairs :: "store \<Rightarrow> jsval \<Rightarrow> store \<times> jsval" where
  "constructYamlPairs h data =
     (case arr_items h data of
        None \<Rightarrow> alloc_obj h (OArr [])
      | Some pairs \<Rightarrow> (case pairs_loop h pairs [] of (h', result) \<Rightarrow> alloc_obj h' (OArr result)))"

definition resolveYamlSet :: "store \<Rightarrow> jsval \<Rightarrow> bool" where
  "resolveYamlSet h data =
     (case obj_props h data of None \<Rightarrow> True | Some ps \<Rightarrow> list_all (\<lambda>k. prop_get ps k = VNull) (objectKeys ps))"

definition constructYamlSet :: "store \<Rightarrow> jsval \<Rightarrow> store \<times> jsval" where
  "constructYamlSet h data = (if data \<noteq> VNull then (h, data) else alloc_obj h (OObj []))"

text \<open>The three types of the failsafe schema.\<close>

definition constructYamlStr :: "jsval \<Rightarrow> jsval" where
  "constructYamlStr data = (if data \<noteq> VNull then data else VStr [])"

definition constructYamlSeq :: "store \<Rightarrow> jsval \<Rightarrow> store \<times> jsval" where
  "constructYamlSeq h data = (if data \<noteq> VNull then (h, data) else alloc_obj h (OArr []))"

definition constructYamlMap :: "store \<Rightarrow> jsval \<Rightarrow> store \<times> jsval" where
  "constructYamlMap h data = (if data \<noteq> VNull then (h, data) else alloc_obj h (OObj []))"

section \<open>Properties of the numerals\<close>

named_theorems numerals \<open>facts on the digits of a numeral\<close>

lemma digit_char_table:
  "list_all (\<lambda>d. digit_value (digit_char d) = d \<and> digit_value (upper_char (digit_char d)) = d
     \<and> isHexCode (upper_char (digit_char d)) = (d < 16) \<and> isOctCode (digit_char d) = (d < 8)
     \<and> isDecCode (digit_char d) = (d < 10) \<and> (digit_char d = 48 \<longleftrightarrow> d = 0) \<and> (digit_char d = 49 \<longleftrightarrow> d = 1)
     \<and> digit_char d \<notin> {95, 58, 45, 43} \<and> upper_char (digit_char d) \<notin> {95, 58, 45, 43}
     \<and> \<not> is_space (digit_char d) \<and> is_digit (digit_char d) = (d < 10)
     \<and> (upper_char (digit_char d) = 48 \<longleftrightarrow> d = 0)
     \<and> (d < 16 \<longrightarrow> digit_char d \<noteq> 120 \<and> upper_char (digit_char d) \<noteq> 120)
     \<and> (d < 10 \<longrightarrow> digit_char d \<noteq> 98)) [0..35]"
  by code_simp

lemma digit_char_facts:
  assumes "0 \<le> d" and "d < 36"
  shows "digit_value (digit_char d) = d" and "digit_value (upper_char (digit_char d)) = d"
    and "isHexCode (upper_char (digit_char d)) = (d < 16)" and "isOctCode (digit_char d) = (d < 8)"
    and "isDecCode (digit_char d) = (d < 10)" and "digit_char d = 48 \<longleftrightarrow> d = 0" and "digit_char d = 49 \<longleftrightarrow> d = 1"
    and "digit_char d \<notin> {95, 58, 45, 43}" and "upper_char (digit_char d) \<notin> {95, 58, 45, 43}"
    and "\<not> is_space (digit_char d)" and "is_digit (digit_char d) = (d < 10)"
    and "upper_char (digit_char d) = 48 \<longleftrightarrow> d = 0"
    and "d < 16 \<Longrightarrow> digit_char d \<noteq> 120 \<and> upper_char (digit_char d) \<noteq> 120"
    and "d < 10 \<Longrightarrow> digit_char d \<noteq> 98"
proof -
  have "d \<in> set [0..35]" using assms by auto
  from digit_char_table [unfolded list_all_iff, rule_format, OF \<open>d \<in> set [0..35]\<close>]
  show "digit_value (digit_char d) = d" and "digit_value (upper_char (digit_char d)) = d"
    and "isHexCode (upper_char (digit_char d)) = (d < 16)" and "isOctCode (digit_char d) = (d < 8)"
    and "isDecCode (digit_char d) = (d < 10)" and "digit_char d = 48 \<longleftrightarrow> d = 0" and "digit_char d = 49 \<longleftrightarrow> d = 1"
    and "digit_char d \<notin> {95, 58, 45, 43}" and "upper_char (digit_char d) \<notin> {95, 58, 45, 43}"
    and "\<not> is_space (digit_char d)" and "is_digit (digit_char d) = (d < 10)"
    and "upper_char (digit_char d) = 48 \<longleftrightarrow> d = 0"
    and "d < 16 \<Longrightarrow> digit_char d \<noteq> 120 \<and> upper_char (digit_char d) \<noteq> 120"
    and "d < 10 \<Longrightarrow> digit_char d \<noteq> 98"
    by blast+
qed

lemma digits_value_append: "digits_value r (s @ t) = digits_value r s * r ^ length t + digits_value r t"
proof -
  have acc: "foldl (\<lambda>v c. v * r + digit_value c) a t = a * r ^ length t + digits_value r t" for a
    unfolding digits_value_def
  proof (induction t arbitrary: a)
    case (Cons c t)
    have "foldl (\<lambda>v c. v * r + digit_value c) a (c # t)
        = (a * r + digit_value c) * r ^ length t + foldl (\<lambda>v c. v * r + digit_value c) 0 t"
      using Cons [of "a * r + digit_value c"] by simp
    moreover have "foldl (\<lambda>v c. v * r + digit_value c) 0 (c # t)
        = digit_value c * r ^ length t + foldl (\<lambda>v c. v * r + digit_value c) 0 t"
      using Cons [of "digit_value c"] by simp
    ultimately show ?case by (simp add: distrib_right)
  qed simp
  show ?thesis unfolding digits_value_def [of r "s @ t"] foldl_append acc by (simp only: digits_value_def)
qed

lemma digits_value_map_upper:
  assumes "\<forall>c \<in> set s. \<exists>d. 0 \<le> d \<and> d < 36 \<and> c = digit_char d"
  shows "digits_value r (map upper_char s) = digits_value r s"
  using assms
proof (induction s rule: rev_induct)
  case (snoc c s)
  then obtain d where "0 \<le> d" "d < 36" "c = digit_char d" by auto
  with snoc show ?case by (simp add: digits_value_append digits_value_def [of _ "[_]"] digit_char_facts)
qed (simp add: digits_value_def)

text \<open>The digits of a numeral: what they are, that they spell the number, and that the first is not 0.\<close>

lemma nat_digits_set:
  assumes "2 \<le> r" and "0 \<le> n"
  shows "\<forall>c \<in> set (nat_digits r n). \<exists>d. 0 \<le> d \<and> d < r \<and> c = digit_char d"
  using assms
proof (induction r n rule: nat_digits.induct)
  case (1 r n)
  show ?case
  proof (cases "n < r")
    case False
    with 1 have "\<forall>c \<in> set (nat_digits r (n div r)). \<exists>d. 0 \<le> d \<and> d < r \<and> c = digit_char d"
      by (simp add: pos_imp_zdiv_nonneg_iff)
    moreover have "0 \<le> n mod r \<and> n mod r < r" using 1 by simp
    then have "\<exists>d. 0 \<le> d \<and> d < r \<and> digit_char (n mod r) = digit_char d" by blast
    ultimately show ?thesis using 1 False by (subst nat_digits.simps) auto
  qed (use 1 in \<open>subst nat_digits.simps; auto\<close>)
qed

lemma nat_digits_value:
  assumes "2 \<le> r" and "r \<le> 36" and "0 \<le> n"
  shows "digits_value r (nat_digits r n) = n"
  using assms
proof (induction r n rule: nat_digits.induct)
  case (1 r n)
  show ?case
  proof (cases "n < r")
    case True
    then show ?thesis using 1 by (subst nat_digits.simps) (simp add: digits_value_def digit_char_facts)
  next
    case False
    with 1 have "digits_value r (nat_digits r (n div r)) = n div r"
      by (simp add: pos_imp_zdiv_nonneg_iff)
    moreover have "0 \<le> n mod r" and "n mod r < 36"
      using 1(2,3) pos_mod_bound [of r n] by (simp, linarith)
    ultimately show ?thesis using 1 False
      by (subst nat_digits.simps) (simp add: digits_value_append digits_value_def [of _ "[_]"] digit_char_facts)
  qed
qed

lemma nat_digits_not_Nil [simp]: "nat_digits r n \<noteq> []"
  by (subst nat_digits.simps) simp

lemma nat_digits_hd:
  assumes "2 \<le> r" and "0 < n"
  shows "\<exists>d. 0 < d \<and> d < r \<and> hd (nat_digits r n) = digit_char d"
  using assms
proof (induction r n rule: nat_digits.induct)
  case (1 r n)
  show ?case
  proof (cases "n < r")
    case False
    then have "0 < n div r" using 1 by (simp add: pos_imp_zdiv_pos_iff)
    with 1 False have "\<exists>d. 0 < d \<and> d < r \<and> hd (nat_digits r (n div r)) = digit_char d" by simp
    then show ?thesis using 1 False by (subst nat_digits.simps) simp
  qed (use 1 in \<open>subst nat_digits.simps; auto\<close>)
qed

text \<open>\<^verbatim>\<open>parseInt\<close> reads a sequence of digits, with \<^verbatim>\<open>0x\<close> in front or not.\<close>

lemma digit_value_space: "is_space c \<Longrightarrow> digit_value c = 36"
  by (auto simp: is_space_def digit_value_def word_le_nat_alt)

lemma digit_value_marks: "digit_value 45 = 36" "digit_value 43 = 36" "digit_value 120 = 33" "digit_value 88 = 33"
  by (simp_all add: digit_value_def)

lemma parseInt_digits:
  assumes "s \<noteq> []" and "\<forall>c \<in> set s. digit_value c < radix" and "radix \<le> 16"
  shows "parseInt s radix = Some (digits_value radix s)"
proof -
  have hd: "hd s \<in> set s" using assms(1) by simp
  have sp: "dropWhile is_space s = s"
    using assms hd digit_value_space [of "hd s"] by (cases s) fastforce+
  have sg: "hd s \<noteq> 45" "hd s \<noteq> 43"
    using assms hd digit_value_marks by fastforce+
  have "\<not> (length s \<ge> 2 \<and> s ! 0 = 48 \<and> (s ! 1 = 120 \<or> s ! 1 = 88))"
  proof
    assume two: "length s \<ge> 2 \<and> s ! 0 = 48 \<and> (s ! 1 = 120 \<or> s ! 1 = 88)"
    then have "digit_value (s ! 1) = 33" and "s ! 1 \<in> set s"
      using digit_value_marks by (auto intro: nth_mem)
    then show False using assms(2,3) by fastforce
  qed
  moreover have tw: "takeWhile (\<lambda>c. digit_value c < radix) s = s"
    using assms(2) by (simp add: takeWhile_eq_all_conv)
  ultimately show ?thesis
    unfolding parseInt_def Let_def sp using assms(1) sg by (simp only: tw if_False simp_thms) simp
qed

lemma parseInt_hex:
  assumes "s \<noteq> []" and "\<forall>c \<in> set s. digit_value c < 16"
  shows "parseInt (48 # 120 # s) 16 = Some (digits_value 16 s)"
proof -
  have tw: "takeWhile (\<lambda>c. digit_value c < 16) s = s"
    using assms(2) by (simp add: takeWhile_eq_all_conv)
  have "\<not> is_space 48" by (simp add: is_space_def)
  then show ?thesis using assms(1) by (simp add: parseInt_def Let_def tw)
qed

text \<open>The loops accept a sequence of digits.\<close>

lemma radix_loop_digits:
  assumes "s \<noteq> [] \<or> hasDigits \<and> ch \<noteq> 95" and "\<forall>c \<in> set s. ok c \<and> c \<noteq> 95"
  shows "radix_loop ok s hasDigits ch"
  using assms by (induction s arbitrary: hasDigits ch) auto

lemma dec_loop_digits:
  assumes "\<forall>c \<in> set s. isDecCode c \<and> c \<noteq> 95 \<and> c \<noteq> 58"
  shows "dec_loop s hasDigits ch = Some (hasDigits \<or> s \<noteq> [], if s = [] then ch else Some (last s), [])"
  using assms by (induction s arbitrary: hasDigits ch) auto

lemma without_id: "set s \<inter> set cs = {} \<Longrightarrow> without cs s = s"
  unfolding without_def by (rule filter_True) auto

text \<open>The digits of a number in the four notations.\<close>

lemma nat_digits_chars:
  assumes "2 \<le> r" and "r \<le> 16" and "0 \<le> n" and "c \<in> set (nat_digits r n)"
  shows "digit_value c < r" and "digit_value (upper_char c) < r" and "c \<notin> {95, 58, 45, 43}"
    and "upper_char c \<notin> {95, 58, 45, 43}" and "isHexCode (upper_char c)" and "r \<le> 8 \<Longrightarrow> isOctCode c"
    and "r \<le> 10 \<Longrightarrow> isDecCode c" and "r = 2 \<Longrightarrow> c = 48 \<or> c = 49" and "c \<noteq> 120" and "r \<le> 10 \<Longrightarrow> c \<noteq> 98"
    and "upper_char c \<noteq> 120"
proof -
  obtain d where d: "0 \<le> d" "d < r" "c = digit_char d"
    using nat_digits_set [OF assms(1,3)] assms(4) by blast
  then have d36: "d < 36" using assms(2) by linarith
  note f = digit_char_facts [OF d(1) d36]
  show "digit_value c < r" "digit_value (upper_char c) < r" "c \<notin> {95, 58, 45, 43}"
    "upper_char c \<notin> {95, 58, 45, 43}" "isHexCode (upper_char c)" "r \<le> 8 \<Longrightarrow> isOctCode c"
    "r \<le> 10 \<Longrightarrow> isDecCode c" "c \<noteq> 120" "r \<le> 10 \<Longrightarrow> c \<noteq> 98" "upper_char c \<noteq> 120"
    using f d assms(2) by simp_all
  show "r = 2 \<Longrightarrow> c = 48 \<or> c = 49" using f(6,7) d by auto
qed

definition notation_ok :: "jsstr \<Rightarrow> int \<Rightarrow> bool" where
  "notation_ok s n \<longleftrightarrow> int_resolves s \<and> int_value s = IntN n"

text \<open>A sign in front of the notation of a positive number.\<close>

lemma int_value_sign:
  assumes "s \<noteq> []" and "hd s \<notin> {45, 43}" and "n \<noteq> 0" and "notation_ok s n" and "95 \<notin> set s"
  shows "notation_ok (45 # s) (- n)"
proof -
  have "int_resolves (45 # s) = int_resolves s"
    using assms(1,2) by (simp add: int_resolves_def)
  moreover have "without (js ''_'') s = s" "without (js ''_'') (45 # s) = 45 # s"
    using assms(5) by (auto simp: js_def without_def intro!: filter_True)
  moreover have "int_value s = IntN n" using assms(4) by (simp add: notation_ok_def)
  ultimately show ?thesis
    using assms(1,2,3,4)
    by (auto simp: notation_ok_def int_value_def Let_def num_sign_def split: if_splits)
qed

lemma notation_binary:
  assumes "0 \<le> n"
  shows "notation_ok (48 # 98 # nat_digits 2 n) n"
proof -
  let ?ds = "nat_digits 2 n"
  note c = nat_digits_chars [of 2 n, OF _ _ assms]
  have "radix_loop (\<lambda>ch. ch = 48 \<or> ch = 49) ?ds False 98"
    using c(3,8) by (intro radix_loop_digits) auto
  moreover have "parseInt ?ds 2 = Some n"
    using c(1) by (subst parseInt_digits) (auto simp: nat_digits_value assms)
  moreover have "without (js ''_'') (48 # 98 # ?ds) = 48 # 98 # ?ds"
    using c(3) by (intro without_id) (auto simp: js_def)
  ultimately show ?thesis
    by (simp add: notation_ok_def int_resolves_def int_value_def num_of_int_def num_sign_def js_def)
qed

lemma notation_hex:
  assumes "0 \<le> n"
  shows "notation_ok (48 # 120 # map upper_char (nat_digits 16 n)) n"
proof -
  let ?ds = "map upper_char (nat_digits 16 n)"
  note c = nat_digits_chars [of 16 n, OF _ _ assms]
  have "radix_loop isHexCode ?ds False 120"
    using c(4,5) by (intro radix_loop_digits) auto
  moreover have "\<forall>c \<in> set (nat_digits 16 n). \<exists>d\<ge>0. d < 36 \<and> c = digit_char d"
    using nat_digits_set [of 16 n] assms by fastforce
  then have "digits_value 16 ?ds = n"
    by (simp add: digits_value_map_upper nat_digits_value assms)
  then have "parseInt (48 # 120 # ?ds) 16 = Some n"
    using c(2) by (subst parseInt_hex) auto
  moreover have "without (js ''_'') (48 # 120 # ?ds) = 48 # 120 # ?ds"
    using c(4) by (intro without_id) (auto simp: js_def)
  ultimately show ?thesis
    by (simp add: notation_ok_def int_resolves_def int_value_def num_of_int_def num_sign_def js_def)
qed

lemma notation_octal:
  assumes "0 \<le> n"
  shows "notation_ok (48 # nat_digits 8 n) n"
proof -
  note c = nat_digits_chars [of 8 n, OF _ _ assms]
  obtain d t where ds: "nat_digits 8 n = d # t" by (cases "nat_digits 8 n") auto
  have "radix_loop isOctCode (d # t) False d"
    using c(3,6) by (intro radix_loop_digits) (auto simp: ds)
  moreover have "digits_value 8 (48 # d # t) = n"
    using nat_digits_value [of 8 n] assms by (simp add: ds digits_value_def digit_value_def)
  then have "parseInt (48 # d # t) 8 = Some n"
    using c(1) by (subst parseInt_digits) (auto simp: ds digit_value_def [of 48])
  moreover have "without (js ''_'') (48 # d # t) = 48 # d # t"
    using c(3) by (intro without_id) (auto simp: js_def ds)
  moreover have "d \<noteq> 98" "d \<noteq> 120" using c(9,10) by (auto simp: ds)
  ultimately show ?thesis
    by (simp add: ds notation_ok_def int_resolves_def int_value_def num_of_int_def num_sign_def js_def)
qed

lemma notation_decimal:
  assumes "0 \<le> n"
  shows "notation_ok (nat_digits 10 n) n"
proof (cases "n = 0")
  case True
  have "nat_digits 10 0 = [48]" by (subst nat_digits.simps) (simp add: digit_char_def)
  then show ?thesis
    using True by (simp add: notation_ok_def int_resolves_def int_value_def js_def without_def)
next
  case False
  note c = nat_digits_chars [of 10 n, OF _ _ assms]
  obtain d t where ds: "nat_digits 10 n = d # t" by (cases "nat_digits 10 n") auto
  obtain e where e: "0 < e" "e < 10" "d = digit_char e"
    using nat_digits_hd [of 10 n] False assms ds by auto
  have d: "d \<noteq> 48" "d \<notin> {95, 58, 45, 43}"
    using digit_char_facts(6,8) [of e] e by simp_all
  have "dec_loop (d # t) False None = Some (True, Some (last (d # t)), [])"
    using c(3,7) by (subst dec_loop_digits) (auto simp: ds)
  moreover have "last (d # t) \<notin> {95, 58}"
    using c(3) last_in_set [of "d # t"] by (auto simp: ds)
  moreover have "parseInt (d # t) 10 = Some n"
    using c(1) nat_digits_value [of 10 n] assms by (subst parseInt_digits) (auto simp: ds)
  moreover have "without (js ''_'') (d # t) = d # t"
    using c(3) by (intro without_id) (auto simp: js_def ds)
  moreover have "58 \<notin> set (d # t)" using c(3) by (auto simp: ds)
  ultimately show ?thesis
    using d by (simp add: ds notation_ok_def int_resolves_def int_value_def num_of_int_def num_sign_def js_def)
qed

lemma notation_signed:
  assumes "\<And>m. 0 \<le> m \<Longrightarrow> notation_ok (f m) m" and "f \<bar>n\<bar> \<noteq> []" and "hd (f \<bar>n\<bar>) \<notin> {45, 43}"
    and "95 \<notin> set (f \<bar>n\<bar>)"
  shows "notation_ok (if 0 \<le> n then f n else 45 # f \<bar>n\<bar>) n"
proof (cases "0 \<le> n")
  case True
  then show ?thesis using assms(1) by simp
next
  case False
  then show ?thesis using int_value_sign [of "f \<bar>n\<bar>" "\<bar>n\<bar>"] assms by simp
qed

definition int_styles :: "jsstr list" where
  "int_styles = [js ''binary'', js ''octal'', js ''decimal'', js ''hexadecimal'']"

lemma int_toString_neg: "n < 0 \<Longrightarrow> drop 1 (int_toString r n) = nat_digits r \<bar>n\<bar>"
  by (simp add: int_toString_def js_def)

lemma representYamlInteger_notation:
  assumes "\<bar>n\<bar> \<le> 2 ^ 53" and "style \<in> set int_styles"
  shows "\<exists>s. representYamlInteger n style = Some s \<and> notation_ok s n"
proof -
  have "2 ^ 53 < (10 :: int) ^ 21" by simp
  then have big: "\<bar>n\<bar> < 10 ^ 21" using assms(1) by linarith
  have us: "95 \<notin> set (nat_digits r \<bar>n\<bar>)" "95 \<notin> set (map upper_char (nat_digits r \<bar>n\<bar>))"
    and hd: "hd (nat_digits r \<bar>n\<bar>) \<notin> {45, 43}" if "2 \<le> r" "r \<le> 16" for r
    using nat_digits_chars(3,4) [of r "\<bar>n\<bar>"] that hd_in_set [of "nat_digits r \<bar>n\<bar>"] by (auto | fastforce)+
  consider "style = js ''binary''" | "style = js ''octal''" | "style = js ''decimal''" | "style = js ''hexadecimal''"
    using assms(2) by (auto simp: int_styles_def)
  then show ?thesis
  proof cases
    case 1
    let ?f = "\<lambda>m. 48 # 98 # nat_digits 2 m"
    have "notation_ok (if 0 \<le> n then ?f n else 45 # ?f \<bar>n\<bar>) n"
      by (rule notation_signed) (simp_all add: notation_binary us)
    moreover have "representYamlInteger n style = Some (if 0 \<le> n then ?f n else 45 # ?f \<bar>n\<bar>)"
      using 1 by (simp add: representYamlInteger_def int_toString_def js_def)
    ultimately show ?thesis by blast
  next
    case 2
    let ?f = "\<lambda>m. 48 # nat_digits 8 m"
    have "notation_ok (if 0 \<le> n then ?f n else 45 # ?f \<bar>n\<bar>) n"
      by (rule notation_signed) (simp_all add: notation_octal us)
    moreover have "representYamlInteger n style = Some (if 0 \<le> n then ?f n else 45 # ?f \<bar>n\<bar>)"
      using 2 by (simp add: representYamlInteger_def int_toString_def js_def)
    ultimately show ?thesis by blast
  next
    case 3
    have "notation_ok (if 0 \<le> n then nat_digits 10 n else 45 # nat_digits 10 \<bar>n\<bar>) n"
      using us(1) [of 10] hd [of 10] by (intro notation_signed) (auto simp: notation_decimal)
    moreover have "representYamlInteger n style = Some (if 0 \<le> n then nat_digits 10 n else 45 # nat_digits 10 \<bar>n\<bar>)"
      using 3 big by (simp add: representYamlInteger_def int_toString_def js_def)
    ultimately show ?thesis by blast
  next
    case 4
    let ?f = "\<lambda>m. 48 # 120 # map upper_char (nat_digits 16 m)"
    have up: "upper_char 45 = 45" by (simp add: upper_char_def)
    have "notation_ok (if 0 \<le> n then ?f n else 45 # ?f \<bar>n\<bar>) n"
      using us(2) [of 16] by (intro notation_signed) (simp_all add: notation_hex)
    moreover have "representYamlInteger n style = Some (if 0 \<le> n then ?f n else 45 # ?f \<bar>n\<bar>)"
      using 4 by (simp add: representYamlInteger_def int_toString_def js_def toUpperCase_def up)
    ultimately show ?thesis by blast
  qed
qed

section \<open>Properties of the binary type\<close>

subsection \<open>Fields of a number\<close>

lemma js_shr_field: "k + n \<le> 31 \<Longrightarrow> take_bit n (js_shr x k) = take_bit n (drop_bit k x)"
  unfolding js_shr_def toInt32_def by (intro bit_eqI) (auto simp: bit_simps)

lemma js_and_shr_63: "k \<le> 25 \<Longrightarrow> js_and (js_shr x k) 63 = x div 2 ^ k mod 64"
  using js_shr_field [of k 6 x] by (simp add: js_and_63 take_bit_eq_mod drop_bit_eq_div)

lemma js_and_shr_255: "k \<le> 23 \<Longrightarrow> js_and (js_shr x k) 255 = x div 2 ^ k mod 256"
  using js_shr_field [of k 8 x] by (simp add: js_and_255 take_bit_eq_mod drop_bit_eq_div)

lemma js_shl_mod: "m \<le> 32 \<Longrightarrow> k < 32 \<Longrightarrow> js_shl x k mod 2 ^ m = x * 2 ^ k mod 2 ^ m"
proof -
  assume "m \<le> 32" "k < 32"
  then have "take_bit m (js_shl x k) = take_bit m (push_bit k x)"
    unfolding js_shl_def toInt32_def by (intro bit_eqI) (auto simp: bit_simps)
  then show ?thesis by (simp add: take_bit_eq_mod push_bit_eq_mult)
qed

lemma js_or_shl_mod:
  assumes "0 \<le> c" and "c < 64"
  shows "js_or (js_shl x 6) c mod 16777216 = (x * 64 + c) mod 16777216"
proof -
  have c: "toInt32 c = c" using assms by (simp add: toInt32_nonneg)
  have "take_bit 24 (js_or (js_shl x 6) c) = take_bit 24 (push_bit 6 x) OR take_bit 24 c"
    unfolding js_or_def c js_shl_def toInt32_def by (intro bit_eqI) (auto simp: bit_simps)
  also have "\<dots> = take_bit 24 ((x * 2 ^ 6) OR c)" by (simp add: push_bit_eq_mult)
  also have "(x * 2 ^ 6) OR c = x * 2 ^ 6 + c" using assms by (intro int_or_disjoint) auto
  finally show ?thesis by (simp add: take_bit_eq_mod)
qed

text \<open>A field of the low 24 bits.\<close>

lemma field_mod24:
  assumes "(x::int) mod 16777216 = y mod 16777216"
  shows "x mod 64 = y mod 64" "x mod 256 = y mod 256" "k + 6 \<le> 24 \<Longrightarrow> x div 2 ^ k mod 64 = y div 2 ^ k mod 64"
    "k + 8 \<le> 24 \<Longrightarrow> x div 2 ^ k mod 256 = y div 2 ^ k mod 256"
proof -
  have low: "take_bit 24 x = take_bit 24 y" using assms by (simp add: take_bit_eq_mod)
  have *: "x div 2 ^ j mod 2 ^ n = y div 2 ^ j mod 2 ^ n" if "j + n \<le> 24" for j n
  proof -
    have "take_bit n (drop_bit j x) = take_bit n (drop_bit j y)"
    proof (rule bit_eqI)
      fix i
      show "bit (take_bit n (drop_bit j x)) i = bit (take_bit n (drop_bit j y)) i"
        using that arg_cong [OF low, of "\<lambda>z. bit z (j + i)"] by (auto simp: bit_simps)
    qed
    then show ?thesis by (simp add: take_bit_eq_mod drop_bit_eq_div)
  qed
  show "x mod 64 = y mod 64" "x mod 256 = y mod 256" using * [of 0 6] * [of 0 8] by simp_all
  show "x div 2 ^ k mod 64 = y div 2 ^ k mod 64" if "k + 6 \<le> 24" using * [of k 6] that by simp
  show "x div 2 ^ k mod 256 = y div 2 ^ k mod 256" if "k + 8 \<le> 24" using * [of k 8] that by simp
qed

lemma map_char_lookup: "0 \<le> i \<Longrightarrow> i < 64 \<Longrightarrow> map_char i = base64_lookup i"
proof -
  assume "0 \<le> i" "i < 64"
  then have "nat i < length base64_code" by (simp add: base64_code_eq)
  then show ?thesis by (simp add: map_char_def base64_lookup_def BASE64_MAP_def nth_append)
qed

lemma map_char_64: "map_char 64 = 61"
  by (simp add: map_char_def BASE64_MAP_def base64_code_eq js_def)

lemma four_chars_sextets:
  assumes "0 \<le> a" "a < 256" "0 \<le> b" "b < 256" "0 \<le> c" "c < 256"
    and t: "bits mod 16777216 = (a * 65536 + b * 256 + c) mod 16777216"
  shows "four_chars bits = sextet_chars a b c"
proof -
  let ?t = "a * 65536 + b * 256 + c"
  note f = field_mod24 [OF t]
  have s: "js_and (js_shr bits k) 63 = js_and (js_shr ?t k) 63" if "k + 6 \<le> 24" for k
    using f(3) [OF that] that by (simp add: js_and_shr_63)
  have "js_and bits 63 = js_and ?t 63" using f(1) by (simp add: js_and_63)
  then have "four_chars bits = map map_char [js_and (js_shr ?t 18) 63, js_and (js_shr ?t 12) 63, js_and (js_shr ?t 6) 63, js_and ?t 63]"
    by (simp add: four_chars_def s)
  moreover have "map_char (js_and y 63) = base64_lookup (js_and y 63)" for y
    by (rule map_char_lookup) (simp_all add: js_and_63)
  ultimately show ?thesis
    using sextet_chars_shifts [OF assms(1-6) refl] by simp
qed

subsection \<open>The encoder\<close>

definition out_tail :: "nat \<Rightarrow> int \<times> jsstr \<Rightarrow> jsstr" where
  "out_tail tail br = (case br of (bits, result) \<Rightarrow>
     if tail = 0 then result @ four_chars bits
     else if tail = 2 then
       result @ [map_char (js_and (js_shr bits 10) 63), map_char (js_and (js_shr bits 4) 63),
                 map_char (js_and (js_shl bits 2) 63), map_char 64]
     else if tail = 1 then
       result @ [map_char (js_and (js_shr bits 2) 63), map_char (js_and (js_shl bits 4) 63),
                 map_char 64, map_char 64]
     else result)"

lemma shift_div: "(x * 2 ^ j) div 2 ^ (j + k) = (x::int) div 2 ^ k"
  by (simp add: power_add)

lemma js_and_shl_63: "k < 6 \<Longrightarrow> js_and (js_shl x k) 63 = x * 2 ^ k mod 64"
  using js_shl_mod [of 6 k x] by (simp add: js_and_63)

lemma div_shift_mod: "(x * 256) div 64 = (x::int) * 4" "(x * 65536) div 4096 = (x::int) * 16"
  by linarith+

lemma out_tail_2:
  "[map_char (js_and (js_shr bits 10) 63), map_char (js_and (js_shr bits 4) 63), map_char (js_and (js_shl bits 2) 63)]
     = take 3 (four_chars (bits * 256))"
  using shift_div [of bits 8 10] shift_div [of bits 8 4]
  by (simp add: four_chars_def js_and_shr_63 js_and_shl_63 div_shift_mod)

lemma out_tail_1:
  "[map_char (js_and (js_shr bits 2) 63), map_char (js_and (js_shl bits 4) 63)] = take 2 (four_chars (bits * 65536))"
  using shift_div [of bits 16 2]
  by (simp add: four_chars_def js_and_shr_63 js_and_shl_63 div_shift_mod)

lemma mod_lin_cong: "x mod m = y mod m \<Longrightarrow> (x * k + c) mod m = (y * k + c) mod (m::int)"
  by (intro mod_add_cong mod_mult_cong) simp_all

lemma shl_add_mod: "(js_shl x 8 + b) mod 16777216 = (x * 256 + b) mod 16777216"
  using js_shl_mod [of 24 8 x] by (intro mod_add_cong) simp_all

text \<open>The bits of the last three, two and one bytes.\<close>

lemma shl_bytes:
  "(js_shl (js_shl (js_shl x 8 + a) 8 + b) 8 + c) mod 16777216 = (a * 65536 + b * 256 + c) mod 16777216"
  "(js_shl (js_shl x 8 + a) 8 + b) * 256 mod 16777216 = (a * 65536 + b * 256) mod 16777216"
  "(js_shl x 8 + a) * 65536 mod 16777216 = a * 65536 mod 16777216"
proof -
  have two: "(js_shl (js_shl x 8 + a) 8 + b) mod 16777216 = ((x * 256 + a) * 256 + b) mod 16777216"
    by (rule trans [OF shl_add_mod]) (rule mod_lin_cong [OF shl_add_mod])
  have three: "(js_shl (js_shl (js_shl x 8 + a) 8 + b) 8 + c) mod 16777216
      = (((x * 256 + a) * 256 + b) * 256 + c) mod 16777216"
    by (rule trans [OF shl_add_mod]) (rule mod_lin_cong [OF two])
  have reduce: "((x * 256 + a) * 256 + b) * 256 + c' = a * 65536 + b * 256 + c' + x * 16777216" for c'
    by (simp add: distrib_right)
  have drop: "(y + x * 16777216) mod 16777216 = y mod 16777216" for y
    by (rule mod_mult_self1)
  show "(js_shl (js_shl (js_shl x 8 + a) 8 + b) 8 + c) mod 16777216 = (a * 65536 + b * 256 + c) mod 16777216"
    by (simp only: three reduce drop)
  show "(js_shl (js_shl x 8 + a) 8 + b) * 256 mod 16777216 = (a * 65536 + b * 256) mod 16777216"
    using mod_lin_cong [OF two, of 256 0] reduce [of 0] drop by (simp only: add_0_right)
  have "(x * 256 + a) * 65536 = a * 65536 + x * 16777216" by (simp add: distrib_right)
  then show "(js_shl x 8 + a) * 65536 mod 16777216 = a * 65536 mod 16777216"
    using mod_lin_cong [OF shl_add_mod, of x a 65536 0] drop by (simp only: add_0_right)
qed

lemma binary_out_rfc4648:
  assumes "idx mod 3 = 0" and "bs \<noteq> []"
  shows "out_tail (length bs mod 3) (binary_out bs idx bits result)
    = (if idx = 0 then result else result @ four_chars bits) @ rfc4648 bs"
  using assms
proof (induction bs arbitrary: idx bits result rule: rfc4648.induct)
  case (2 a)
  define y where "y = js_shl bits 8 + uint a"
  have y: "y * 65536 mod 16777216 = (uint a * 65536 + 0 * 256 + 0) mod 16777216"
    using shl_bytes(3) [of bits "uint a"] by (simp add: y_def)
  have "take 2 (four_chars (y * 65536)) = take 2 (sextet_chars (uint a) 0 0)"
    using four_chars_sextets [OF _ _ _ _ _ _ y] by simp
  moreover have "binary_out [a] idx bits result = (y, if idx = 0 then result else result @ four_chars bits)"
    using 2 by (simp add: y_def)
  ultimately show ?case
    using out_tail_1 [of y] by (simp add: out_tail_def map_char_64)
next
  case (3 a b)
  define y where "y = js_shl (js_shl bits 8 + uint a) 8 + uint b"
  have y: "y * 256 mod 16777216 = (uint a * 65536 + uint b * 256 + 0) mod 16777216"
    using shl_bytes(2) [of bits "uint a" "uint b"] by (simp add: y_def)
  have "take 3 (four_chars (y * 256)) = take 3 (sextet_chars (uint a) (uint b) 0)"
    using four_chars_sextets [OF _ _ _ _ _ _ y] by simp
  moreover have "Suc idx mod 3 \<noteq> 0" using 3 by presburger
  then have "binary_out [a, b] idx bits result = (y, if idx = 0 then result else result @ four_chars bits)"
    using 3 by (simp add: y_def)
  ultimately show ?case
    using out_tail_2 [of y] by (simp add: out_tail_def map_char_64)
next
  case (4 a b c rest)
  let ?bits = "js_shl (js_shl (js_shl bits 8 + uint a) 8 + uint b) 8 + uint c"
  let ?res = "if idx = 0 then result else result @ four_chars bits"
  have group: "four_chars ?bits = sextet_chars (uint a) (uint b) (uint c)"
    using shl_bytes(1) by (intro four_chars_sextets) simp_all
  have "Suc idx mod 3 \<noteq> 0" "Suc (Suc idx) mod 3 \<noteq> 0" using 4(2) by presburger+
  then have out: "binary_out (a # b # c # rest) idx bits result = binary_out rest (idx + 3) ?bits ?res"
    using 4(2) by (cases "idx = 0") (simp_all only: binary_out.simps Let_def simp_thms if_False if_True
        numeral_3_eq_3 add_Suc_right add_0_right nat.distinct)
  have len: "length (a # b # c # rest) mod 3 = length rest mod 3"
    using mod_add_self2 [of "length rest" 3] by (simp only: list.size add_Suc_right add_0_right numeral_3_eq_3)
  show ?case
  proof (cases "rest = []")
    case True
    then show ?thesis unfolding out len by (simp add: out_tail_def group)
  next
    case False
    then have "out_tail (length rest mod 3) (binary_out rest (idx + 3) ?bits ?res)
        = (?res @ four_chars ?bits) @ rfc4648 rest"
      using 4(1) [of "idx + 3"] 4(2) by simp
    then show ?thesis unfolding out len by (simp add: group)
  qed
qed simp

lemma representYamlBinary_rfc4648: "bs \<noteq> [] \<Longrightarrow> representYamlBinary bs = rfc4648 bs"
  using binary_out_rfc4648 [of 0 bs 0 "[]"]
  by (simp add: representYamlBinary_def out_tail_def split: prod.splits)

subsection \<open>The decoder\<close>

definition in_tail :: "nat \<Rightarrow> int \<times> int list \<Rightarrow> int list" where
  "in_tail tailbits br = (case br of (bits, result) \<Rightarrow>
     if tailbits = 0 then result @ three_bytes bits
     else if tailbits = 18 then result @ [js_and (js_shr bits 10) 255, js_and (js_shr bits 2) 255]
     else if tailbits = 12 then result @ [js_and (js_shr bits 4) 255]
     else result)"

lemma in_tail_18: "[js_and (js_shr bits 10) 255, js_and (js_shr bits 2) 255] = take 2 (three_bytes (bits * 64))"
  using shift_div [of bits 6 10] shift_div [of bits 6 2]
  by (simp add: three_bytes_def js_and_shr_255)

lemma in_tail_12: "[js_and (js_shr bits 4) 255] = take 1 (three_bytes (bits * 4096))"
  using shift_div [of bits 12 4] by (simp add: three_bytes_def js_and_shr_255)

lemma three_bytes_octets:
  assumes "0 \<le> a" "a < 256" "0 \<le> b" "b < 256" "0 \<le> c" "c < 256"
    and t: "bits mod 16777216 = (a * 65536 + b * 256 + c) mod 16777216"
  shows "three_bytes bits = [a, b, c]"
proof -
  note f = field_mod24 [OF t]
  have "js_and (js_shr bits 16) 255 = (a * 65536 + b * 256 + c) div 65536 mod 256"
    using f(4) [of 16] by (simp add: js_and_shr_255)
  moreover have "js_and (js_shr bits 8) 255 = (a * 65536 + b * 256 + c) div 256 mod 256"
    using f(4) [of 8] by (simp add: js_and_shr_255)
  moreover have "js_and bits 255 = (a * 65536 + b * 256 + c) mod 256"
    using f(2) by (simp add: js_and_255)
  moreover have "(a * 65536 + b * 256 + c) div 65536 = a" "(a * 65536 + b * 256 + c) div 256 mod 256 = b"
    "(a * 65536 + b * 256 + c) mod 256 = c"
    using octets [OF assms(1-6) refl] .
  moreover have "a mod 256 = a" using assms(1,2) by simp
  ultimately show ?thesis by (simp only: three_bytes_def)
qed

lemma index_of_nth: "n < length xs \<Longrightarrow> (\<And>m. m < n \<Longrightarrow> xs ! m \<noteq> xs ! n) \<Longrightarrow> index_of (xs ! n) xs = n"
proof (induction xs arbitrary: n)
  case (Cons x xs)
  show ?case
  proof (cases n)
    case (Suc k)
    then have "x \<noteq> xs ! k" using Cons(3) [of 0] by simp
    moreover have "index_of (xs ! k) xs = k"
    proof (rule Cons(1))
      show "k < length xs" using Cons(2) Suc by simp
      show "xs ! m \<noteq> xs ! k" if "m < k" for m using Cons(3) [of "Suc m"] Suc that by simp
    qed
    ultimately show ?thesis using Suc by simp
  qed simp
qed simp

lemma map_index_lookup:
  assumes "0 \<le> i" and "i < 64"
  shows "map_index (base64_lookup i) = i"
proof -
  have len: "length base64_code = 64" by (simp add: base64_code_eq)
  have nth: "BASE64_MAP ! n = base64_code ! n" if "n < 64" for n
    using that by (simp add: BASE64_MAP_def nth_append len)
  have "base64_code ! m \<noteq> base64_code ! nat i" if "m < nat i" for m
  proof -
    have "m < 64" "nat i < 64" using that assms by linarith+
    then have "base64_revLookup (uint (base64_code ! m)) = int m"
      and "base64_revLookup (uint (base64_code ! nat i)) = int (nat i)" using base64_table by auto
    then show ?thesis using that by (metis less_irrefl of_nat_eq_iff)
  qed
  then have "BASE64_MAP ! m \<noteq> BASE64_MAP ! nat i" if "m < nat i" for m
    using that assms by (simp add: nth)
  then have "index_of (BASE64_MAP ! nat i) BASE64_MAP = nat i"
    using assms by (intro index_of_nth) (auto simp: BASE64_MAP_def len)
  moreover have "base64_lookup i = BASE64_MAP ! nat i" "BASE64_MAP ! nat i \<in> set BASE64_MAP"
    using assms by (auto simp: base64_lookup_def nth intro!: nth_mem) (auto simp: BASE64_MAP_def len)
  ultimately show ?thesis using assms by (simp add: map_index_def)
qed

lemma or_codes:
  assumes "0 \<le> w" "w < 64" "0 \<le> x" "x < 64" "0 \<le> y" "y < 64" "0 \<le> z" "z < 64"
  defines "b1 \<equiv> \<lambda>bits. js_or (js_shl bits 6) w"
  defines "b2 \<equiv> \<lambda>bits. js_or (js_shl (b1 bits) 6) x"
  defines "b3 \<equiv> \<lambda>bits. js_or (js_shl (b2 bits) 6) y"
  defines "b4 \<equiv> \<lambda>bits. js_or (js_shl (b3 bits) 6) z"
  shows "b4 bits mod 16777216 = (((w * 64 + x) * 64 + y) * 64 + z) mod 16777216"
    and "b3 bits * 64 mod 16777216 = ((w * 64 + x) * 64 + y) * 64 mod 16777216"
    and "b2 bits * 4096 mod 16777216 = (w * 64 + x) * 4096 mod 16777216"
proof -
  have 1: "b1 bits mod 16777216 = (bits * 64 + w) mod 16777216"
    unfolding b1_def using assms by (intro js_or_shl_mod) auto
  have 2: "b2 bits mod 16777216 = ((bits * 64 + w) * 64 + x) mod 16777216"
    unfolding b2_def using assms by (intro trans [OF js_or_shl_mod] mod_lin_cong 1) auto
  have 3: "b3 bits mod 16777216 = (((bits * 64 + w) * 64 + x) * 64 + y) mod 16777216"
    unfolding b3_def using assms by (intro trans [OF js_or_shl_mod] mod_lin_cong 2) auto
  have 4: "b4 bits mod 16777216 = ((((bits * 64 + w) * 64 + x) * 64 + y) * 64 + z) mod 16777216"
    unfolding b4_def using assms by (intro trans [OF js_or_shl_mod] mod_lin_cong 3) auto
  have drop: "(v + bits * 16777216) mod 16777216 = v mod 16777216" for v
    by (rule mod_mult_self1)
  have e: "(((bits * 64 + w) * 64 + x) * 64 + y) * 64 + z' = ((w * 64 + x) * 64 + y) * 64 + z' + bits * 16777216" for z'
    by (simp add: distrib_right)
  show "b4 bits mod 16777216 = (((w * 64 + x) * 64 + y) * 64 + z) mod 16777216"
    by (simp only: 4 e drop)
  show "b3 bits * 64 mod 16777216 = ((w * 64 + x) * 64 + y) * 64 mod 16777216"
    using mod_lin_cong [OF 3, of 64 0] e [of 0] drop by (simp only: add_0_right)
  have "((bits * 64 + w) * 64 + x) * 4096 = (w * 64 + x) * 4096 + bits * 16777216"
    by (simp add: distrib_right)
  then show "b2 bits * 4096 mod 16777216 = (w * 64 + x) * 4096 mod 16777216"
    using mod_lin_cong [OF 2, of 4096 0] drop by (simp only: add_0_right)
qed

text \<open>The characters of the encoding without the padding.\<close>

lemma without_pad:
  assumes "i < 64" "0 \<le> i"
  shows "base64_lookup i \<notin> set [13, 10, 61]"
proof -
  have "base64_lookup i \<noteq> 61" using base64_rev_lookup(2) assms by simp
  moreover have "map_index (base64_lookup i) = i" using map_index_lookup assms by simp
  moreover have "map_index 13 = 66" "map_index 10 = 65" by code_simp+
  ultimately show ?thesis using assms by auto
qed

lemma without_sextets:
  assumes "0 \<le> a" "a < 256" "0 \<le> b" "b < 256" "0 \<le> c" "c < 256"
  shows "without [13, 10, 61] (take n (sextet_chars a b c) @ t) = take n (sextet_chars a b c) @ without [13, 10, 61] t"
proof -
  note r = sextet_ranges [OF assms]
  have "\<forall>x \<in> set (sextet_chars a b c). x \<notin> set [13, 10, 61]"
    using without_pad [OF r(2,1)] without_pad [OF r(4,3)] without_pad [OF r(6,5)] without_pad [OF r(8,7)]
    by (simp add: sextet_chars_def)
  then have "\<forall>x \<in> set (take n (sextet_chars a b c)). x \<notin> set [13, 10, 61]"
    by (meson in_set_takeD)
  then have "filter (\<lambda>x. x \<notin> set [13, 10, 61]) (take n (sextet_chars a b c)) = take n (sextet_chars a b c)"
    by (intro filter_True) auto
  then show ?thesis by (simp only: without_def filter_append)
qed

lemma map_index_sextets:
  assumes "0 \<le> a" "a < 256" "0 \<le> b" "b < 256" "0 \<le> c" "c < 256"
  shows "map map_index (sextet_chars a b c)
    = [a div 4, a mod 4 * 16 + b div 16, b mod 16 * 4 + c div 64, c mod 64]"
proof -
  note r = sextet_ranges [OF assms]
  show ?thesis
    by (simp add: sextet_chars_def map_index_lookup [OF r(1,2)] map_index_lookup [OF r(3,4)]
        map_index_lookup [OF r(5,6)] map_index_lookup [OF r(7,8)])
qed

lemma codes_octets:
  "((a div 4 * 64 + (a mod 4 * 16 + b div 16)) * 64 + (b mod 16 * 4 + c div 64)) * 64 + c mod 64
     = a * 65536 + b * 256 + (c::int)"
  unfolding sextet_octet by (simp add: distrib_right)

lemma binary_in_rfc4648:
  assumes "idx mod 4 = 0" and "bs \<noteq> []"
  shows "in_tail (length (without [13, 10, 61] (rfc4648 bs)) mod 4 * 6)
      (binary_in (without [13, 10, 61] (rfc4648 bs)) idx bits result)
    = (if idx = 0 then result else result @ three_bytes bits) @ map uint bs"
  using assms
proof (induction bs arbitrary: idx bits result rule: rfc4648.induct)
  case (2 a)
  note r = sextet_ranges [of "uint a" 0 0, simplified]
  define y where "y = js_or (js_shl (js_or (js_shl bits 6) (uint a div 4)) 6) (uint a mod 4 * 16)"
  have idx: "Suc idx mod 4 \<noteq> 0" using 2(1) by presburger
  have u: "without [13, 10, 61] (rfc4648 [a]) = [base64_lookup (uint a div 4), base64_lookup (uint a mod 4 * 16)]"
    using without_sextets [of "uint a" 0 0 2 "[61, 61]"] by (simp add: without_def sextet_chars_def)
  have "y * 4096 mod 16777216 = (uint a * 65536 + 0 * 256 + 0) mod 16777216"
  proof -
    have "y * 4096 mod 16777216 = (uint a div 4 * 64 + uint a mod 4 * 16) * 4096 mod 16777216"
      unfolding y_def by (rule or_codes(3) [where y = 0 and z = 0]) (use r in simp_all)
    moreover have "(w * 64 + x) * 4096 = ((w * 64 + x) * 64 + 0) * 64 + (0::int)" for w x by simp
    ultimately show ?thesis using codes_octets [of "uint a" 0 0] by simp
  qed
  then have "take 1 (three_bytes (y * 4096)) = [uint a]"
    by (subst three_bytes_octets [of "uint a" 0 0]) simp_all
  moreover have inn: "binary_in (without [13, 10, 61] (rfc4648 [a])) idx bits result
      = (y, if idx = 0 then result else result @ three_bytes bits)"
    unfolding u using 2(1) idx by (simp add: y_def map_index_lookup r Let_def)
  moreover have len: "length (without [13, 10, 61] (rfc4648 [a])) mod 4 * 6 = 12" unfolding u by simp
  ultimately show ?case
    unfolding inn len using in_tail_12 [of y] by (simp add: in_tail_def)
next
  case (3 a b)
  note r = sextet_ranges [of "uint a" "uint b" 0, simplified]
  define x where "x = uint a mod 4 * 16 + uint b div 16"
  define y where "y = js_or (js_shl (js_or (js_shl (js_or (js_shl bits 6) (uint a div 4)) 6) x) 6) (uint b mod 16 * 4)"
  have m: "map_index (base64_lookup (uint a div 4)) = uint a div 4" "map_index (base64_lookup x) = x"
    "map_index (base64_lookup (uint b mod 16 * 4)) = uint b mod 16 * 4"
    unfolding x_def by (rule map_index_lookup; use r in simp)+
  have idx: "Suc idx mod 4 \<noteq> 0" "Suc (Suc idx) mod 4 \<noteq> 0" using 3(1) by presburger+
  have u: "without [13, 10, 61] (rfc4648 [a, b])
      = [base64_lookup (uint a div 4), base64_lookup x, base64_lookup (uint b mod 16 * 4)]"
    using without_sextets [of "uint a" "uint b" 0 3 "[61]"] by (simp add: without_def sextet_chars_def x_def)
  have "y * 64 mod 16777216 = (uint a * 65536 + uint b * 256 + 0) mod 16777216"
  proof -
    have "y * 64 mod 16777216 = ((uint a div 4 * 64 + x) * 64 + uint b mod 16 * 4) * 64 mod 16777216"
      unfolding y_def x_def by (rule or_codes(2) [where z = 0]) (use r in simp_all)
    moreover have "((uint a div 4 * 64 + x) * 64 + uint b mod 16 * 4) * 64 = uint a * 65536 + uint b * 256 + 0"
      using codes_octets [of "uint a" "uint b" 0] unfolding x_def by (simp only: div_0 mod_0 add_0_right)
    ultimately show ?thesis by (simp only:)
  qed
  then have "take 2 (three_bytes (y * 64)) = [uint a, uint b]"
    by (subst three_bytes_octets [of "uint a" "uint b" 0]) simp_all
  moreover have inn: "binary_in (without [13, 10, 61] (rfc4648 [a, b])) idx bits result
      = (y, if idx = 0 then result else result @ three_bytes bits)"
    unfolding u using 3(1) idx by (simp add: y_def Let_def m)
  moreover have len: "length (without [13, 10, 61] (rfc4648 [a, b])) mod 4 * 6 = 18" unfolding u by simp
  ultimately show ?case
    unfolding inn len using in_tail_18 [of y] by (simp add: in_tail_def)
next
  case (4 a b c rest)
  note r = sextet_ranges [of "uint a" "uint b" "uint c", OF uint8_range uint8_range uint8_range]
  let ?w = "uint a div 4" and ?x = "uint a mod 4 * 16 + uint b div 16"
    and ?y = "uint b mod 16 * 4 + uint c div 64" and ?z = "uint c mod 64"
  define y where "y = js_or (js_shl (js_or (js_shl (js_or (js_shl (js_or (js_shl bits 6) ?w) 6) ?x) 6) ?y) 6) ?z"
  let ?u = "without [13, 10, 61] (rfc4648 rest)"
  let ?res = "if idx = 0 then result else result @ three_bytes bits"
  have idx: "Suc idx mod 4 \<noteq> 0" "Suc (Suc idx) mod 4 \<noteq> 0" "Suc (Suc (Suc idx)) mod 4 \<noteq> 0"
    and idx4: "Suc (Suc (Suc (Suc idx))) mod 4 = 0"
    using 4(2) by presburger+
  have u: "without [13, 10, 61] (rfc4648 (a # b # c # rest))
      = base64_lookup ?w # base64_lookup ?x # base64_lookup ?y # base64_lookup ?z # ?u"
    using without_sextets [of "uint a" "uint b" "uint c" 4 "rfc4648 rest"] by (simp add: sextet_chars_def)
  have "y mod 16777216 = (uint a * 65536 + uint b * 256 + uint c) mod 16777216"
    using or_codes(1) [OF r, of bits] unfolding codes_octets y_def .
  then have group: "three_bytes y = [uint a, uint b, uint c]"
    by (rule three_bytes_octets [rotated 6]) simp_all
  have inn: "binary_in (without [13, 10, 61] (rfc4648 (a # b # c # rest))) idx bits result
      = binary_in ?u (Suc (Suc (Suc (Suc idx)))) y ?res"
    unfolding u using 4(2) idx
    by (simp add: y_def Let_def map_index_lookup [OF r(1,2)] map_index_lookup [OF r(3,4)]
        map_index_lookup [OF r(5,6)] map_index_lookup [OF r(7,8)])
  have len: "length (without [13, 10, 61] (rfc4648 (a # b # c # rest))) mod 4 = length ?u mod 4"
    unfolding u using mod_add_self2 [of "length ?u" 4] by simp
  show ?case
  proof (cases "rest = []")
    case True
    then show ?thesis unfolding inn len by (simp add: in_tail_def group without_def)
  next
    case False
    then have "in_tail (length ?u mod 4 * 6) (binary_in ?u (Suc (Suc (Suc (Suc idx)))) y ?res)
        = (?res @ three_bytes y) @ map uint rest"
      using 4(1) [OF idx4] by simp
    then show ?thesis unfolding inn len by (simp add: group)
  qed
qed simp

lemma binary_value_rfc4648: "bs \<noteq> [] \<Longrightarrow> binary_value (rfc4648 bs) = map uint bs"
  using binary_in_rfc4648 [of 0 bs 0 "[]"]
  by (simp add: binary_value_def in_tail_def split: prod.splits)

lemma binary_scan_chars:
  assumes "\<forall>c \<in> set s. 0 \<le> map_index c \<and> map_index c \<le> 64"
  shows "binary_scan s n = ((n + 6 * length s) mod 8 = 0)"
  using assms
proof (induction s arbitrary: n)
  case (Cons c s)
  then have "\<not> map_index c > 64" "\<not> map_index c < 0" by auto
  then show ?case using Cons by (simp add: Let_def algebra_simps)
qed simp

lemma rfc4648_chars: "\<forall>c \<in> set (rfc4648 bs). 0 \<le> map_index c \<and> map_index c \<le> 64"
proof -
  have pad: "map_index 61 = 64" by code_simp
  have six: "0 \<le> map_index c \<and> map_index c \<le> 64"
    if c: "c \<in> set (sextet_chars (uint x) (uint y) (uint z))" for c and x y z :: byte
  proof -
    note r = sextet_ranges [of "uint x" "uint y" "uint z", OF uint8_range uint8_range uint8_range]
    have "list_all (\<lambda>i. 0 \<le> i \<and> i < 64) (map map_index (sextet_chars (uint x) (uint y) (uint z)))"
      unfolding map_index_sextets [OF uint8_range uint8_range uint8_range]
      using r by (simp only: list.pred_inject simp_thms)
    then show ?thesis using c by (fastforce simp: list_all_iff)
  qed
  show ?thesis
    by (induction bs rule: rfc4648.induct)
      (use six [of _ _ 0 0] six [of _ _ _ 0] six pad in \<open>auto dest!: in_set_takeD\<close>)
qed

lemma length_rfc4648_mod: "length (rfc4648 bs) mod 4 = 0"
  by (induction bs rule: rfc4648.induct) (simp_all add: sextet_chars_def)

lemma binary_scan_rfc4648: "binary_scan (rfc4648 bs) 0"
proof -
  have "(6 * length (rfc4648 bs)) mod 8 = 0" using length_rfc4648_mod [of bs] by presburger
  then show ?thesis using binary_scan_chars [OF rfc4648_chars, of bs 0] by simp
qed

section \<open>Properties of the timestamps\<close>

lemma dec_4: "dec [a, b, c, d] = ((digit_value a * 10 + digit_value b) * 10 + digit_value c) * 10 + digit_value d"
  by (simp add: dec_def digits_value_def)

lemma digits_group_4:
  "isDecCode a \<Longrightarrow> isDecCode b \<Longrightarrow> isDecCode c \<Longrightarrow> isDecCode d \<Longrightarrow>
     digits_group 4 4 (a # b # c # d # s) = Some ([a, b, c, d], s)"
  by (simp add: digits_group_def Let_def numeral_nat)

lemma date_group_year:
  assumes "isDecCode a" "isDecCode b" "isDecCode c" "isDecCode d" "isDecCode a'" "isDecCode b'"
  shows "date_group lo (a' # b' # c # d # s)
    = map_option (\<lambda>(y, r). ([a', b', c, d], r)) (date_group lo (a # b # c # d # s))"
  unfolding date_group_def
  by (simp add: digits_group_4 assms split: Option.bind_splits prod.splits)

text \<open>\<^verbatim>\<open>Date.UTC\<close> reads a year below 100 as a year of the twentieth century.\<close>

lemma Date_UTC_19: "0 \<le> y \<Longrightarrow> y \<le> 99 \<Longrightarrow> Date_UTC (1900 + y) m d hh mm ss ms = Date_UTC y m d hh mm ss ms"
  by (simp add: Date_UTC_def)

lemma timestamp_value_19:
  assumes "isDecCode a" and "isDecCode b"
  shows "timestamp_value (48 # 48 # a # b # s) = timestamp_value (49 # 57 # a # b # s)"
proof -
  have zero: "isDecCode 48" "isDecCode 49" "isDecCode 57" by (simp_all add: isDecCode_def)
  have range: "0 \<le> digit_value c" "digit_value c \<le> 9" if "isDecCode c" for c
    using that by (auto simp: isDecCode_def digit_value_def word_le_def)
  have years: "dec [49, 57, a, b] = 1900 + dec [48, 48, a, b]" "0 \<le> dec [48, 48, a, b]" "dec [48, 48, a, b] \<le> 99"
    using range [OF assms(1)] range [OF assms(2)] by (simp_all add: dec_4 digit_value_def [of "numeral _"])
  note group = date_group_year [OF zero(1) zero(1) assms zero(2,3), of _ s]
  have date: "date_exec (49 # 57 # a # b # s)
      = map_option (\<lambda>m. m\<lparr>ts_year := [49, 57, a, b]\<rparr>) (date_exec (48 # 48 # a # b # s))"
    unfolding date_exec_def group by (cases "date_group 2 (48 # 48 # a # b # s)") auto
  have ts: "timestamp_exec (49 # 57 # a # b # s)
      = map_option (\<lambda>m. m\<lparr>ts_year := [49, 57, a, b]\<rparr>) (timestamp_exec (48 # 48 # a # b # s))"
    unfolding timestamp_exec_def group
    by (cases "date_group 1 (48 # 48 # a # b # s)") (auto simp: Let_def split: Option.bind_splits)
  have yd: "date_exec (48 # 48 # a # b # s) = Some m \<Longrightarrow> ts_year m = [48, 48, a, b]" for m
    by (auto simp: date_exec_def date_group_def digits_group_4 zero assms split: Option.bind_splits if_splits)
  have yt: "timestamp_exec (48 # 48 # a # b # s) = Some m \<Longrightarrow> ts_year m = [48, 48, a, b]" for m
    by (auto simp: timestamp_exec_def date_group_def digits_group_4 zero assms Let_def split: Option.bind_splits if_splits)
  show ?thesis
    unfolding timestamp_value_def date ts
    using yd yt years Date_UTC_19 [OF years(2,3)]
    by (auto simp: Let_def split: option.splits)
qed

section \<open>Round trips\<close>

text \<open>C36: In each of the four notations (binary, octal, decimal, hexadecimal) the numeral that
  \<^verbatim>\<open>represent\<close> writes for a safe integer is accepted by \<^verbatim>\<open>resolveYamlInteger\<close>, and \<^verbatim>\<open>constructYamlInteger\<close>
  reads the same integer from it.\<close>

theorem yaml_int_round_trip:
  assumes "\<bar>n\<bar> \<le> 2 ^ 53" and "style \<in> set int_styles"
  shows "\<exists>s. representYamlInteger n style = Some s \<and> resolveYamlInteger (VStr s)
    \<and> constructYamlInteger (VStr s) = Inr (VNum (IntN n))"
  using representYamlInteger_notation [OF assms] by (auto simp: notation_ok_def)

theorem yaml_int_round_trip_witness:
  "\<exists>s. representYamlInteger (-1234) (js ''hexadecimal'') = Some s \<and> resolveYamlInteger (VStr s)
    \<and> constructYamlInteger (VStr s) = Inr (VNum (IntN (-1234)))"
  by (rule yaml_int_round_trip) (simp_all add: int_styles_def)

text \<open>C37: The binary type writes a non-empty buffer as the base 64 encoder of base64-js does, the text is
  accepted, and reading it allocates a buffer with the same bytes.\<close>

theorem yaml_binary_round_trip:
  assumes "bs \<noteq> []"
  shows "representYamlBinary bs = base64_fromByteArray bs
    \<and> resolveYamlBinary (VStr (representYamlBinary bs))
    \<and> constructYamlBinary h (VStr (representYamlBinary bs)) = Inr (h @ [OBuf bs], VRef (length h))"
  using assms
  by (simp add: representYamlBinary_rfc4648 base64_fromByteArray_rfc4648 binary_scan_rfc4648
      binary_value_rfc4648 alloc_obj_def comp_def)

theorem yaml_binary_round_trip_witness:
  "constructYamlBinary [] (VStr (representYamlBinary [1, 2, 3, 4])) = Inr ([OBuf [1, 2, 3, 4]], VRef 0)"
proof -
  have "constructYamlBinary [] (VStr (representYamlBinary bs)) = Inr ([OBuf bs], VRef 0)"
    if "bs = [1, 2, 3, 4]" for bs
    using yaml_binary_round_trip [of bs "[]"] that by fastforce
  then show ?thesis by blast
qed

text \<open>An empty buffer is written as four characters, and the empty text is read as three zero bytes: the
  last group is flushed also when there is none.\<close>

theorem yaml_binary_empty:
  "representYamlBinary [] = js ''AAAA'' \<and> resolveYamlBinary (VStr [])
   \<and> constructYamlBinary h (VStr []) = Inr (h @ [OBuf [0, 0, 0]], VRef (length h))"
proof -
  have "representYamlBinary [] = js ''AAAA''" by code_simp
  moreover have "binary_value [] = [0, 0, 0]" by code_simp
  ultimately show ?thesis by (simp add: alloc_obj_def)
qed

text \<open>A timestamp of the first century is read as the same date of the twentieth century.\<close>

theorem yaml_timestamp_century:
  assumes "isDecCode a" and "isDecCode b"
  shows "timestamp_value (48 # 48 # a # b # s) = timestamp_value (49 # 57 # a # b # s)"
  using assms by (rule timestamp_value_19)

theorem yaml_timestamp_century_witness:
  "timestamp_value (48 # 48 # 53 # 48 # js ''-01-01'') = timestamp_value (49 # 57 # 53 # 48 # js ''-01-01'')
   \<and> timestamp_value (49 # 57 # 53 # 48 # js ''-01-01'') = Inr (Some (-631152000000))"
proof
  show "timestamp_value (48 # 48 # 53 # 48 # js ''-01-01'') = timestamp_value (49 # 57 # 53 # 48 # js ''-01-01'')"
    by (rule yaml_timestamp_century) (simp_all add: isDecCode_def)
  show "timestamp_value (49 # 57 # 53 # 48 # js ''-01-01'') = Inr (Some (-631152000000))"
    by code_simp
qed

end
