(* ===== verification/YamlCommon.thy ===== *)
theory YamlCommon
  imports YamlScalar
begin

text \<open>
  The parts that the loader and the dumper of \<^verbatim>\<open>js-yaml\<close> share: the exception with its mark (modules 72
  and 504), the helpers (module 55), the \<^verbatim>\<open>Type\<close> and \<^verbatim>\<open>Schema\<close> constructors (modules 11 and 56) and the
  schemas from failsafe to safe (modules 143, 227, 226 and 73). A type is a record of functions, as the
  objects of the source are. The theorems say which types the safe schema compiles to, and that compiling
  a schema keeps the last of the types with the same tag and kind.
\<close>

section \<open>Helpers\<close>

definition isNothing :: "jsval \<Rightarrow> bool" where
  "isNothing v = (v = VUndef \<or> v = VNull)"

fun isObject :: "jsval \<Rightarrow> bool" where
  "isObject (VRef r) = True"
| "isObject _ = False"

definition repeat :: "jsstr \<Rightarrow> int \<Rightarrow> jsstr" where
  "repeat s n = concat (replicate (nat n) s)"

lemma repeat_single [simp]: "repeat [c] n = replicate (nat n) c"
  by (simp add: repeat_def concat_replicate_single)

fun extend :: "props \<Rightarrow> props \<Rightarrow> props" where
  "extend target [] = target"
| "extend target ((k, v) # source) = extend (assign target k v) source"

section \<open>Marks and exceptions\<close>

record mark =
  m_name :: "jsstr option"
  m_buffer :: jsstr
  m_position :: nat
  m_line :: nat
  m_column :: int

definition charAt :: "jsstr \<Rightarrow> int \<Rightarrow> jsstr" where
  "charAt s i = (if 0 \<le> i \<and> i < int (length s) then [s ! nat i] else [])"

text \<open>The characters that end a line in a snippet; the empty string occurs in every string.\<close>

definition line_end :: "jsstr \<Rightarrow> bool" where
  "line_end c = (c = [] \<or> hd c \<in> set [0, 13, 10, 0x2028, 0x2029])"

text \<open>The two loops of \<^verbatim>\<open>getSnippet\<close>: from the mark to the left and to the right.\<close>

fun snippet_left :: "jsstr \<Rightarrow> nat \<Rightarrow> nat \<Rightarrow> nat \<Rightarrow> nat \<times> jsstr" where
  "snippet_left buffer maxLength pos 0 = (0, [])"
| "snippet_left buffer maxLength pos (Suc start) =
     (if line_end (charAt buffer (int start)) then (Suc start, [])
      else if 2 * (pos - start) > maxLength - 2 then (start + 5, js '' ... '')
      else snippet_left buffer maxLength pos start)"

function snippet_right :: "jsstr \<Rightarrow> nat \<Rightarrow> nat \<Rightarrow> nat \<Rightarrow> nat \<times> jsstr" where
  "snippet_right buffer maxLength pos stop =
     (if stop < length buffer \<and> \<not> line_end (charAt buffer (int stop)) then
        if 2 * (Suc stop - pos) > maxLength - 2 then (Suc stop - 5, js '' ... '')
        else snippet_right buffer maxLength pos (Suc stop)
      else (stop, []))"
  by auto
termination
  by (relation "measure (\<lambda>(buffer, m, p, stop). length buffer - stop)") auto

declare snippet_right.simps [simp del]

definition getSnippet :: "mark \<Rightarrow> jsstr option" where
  "getSnippet m =
     (if m_buffer m = [] then None
      else
        let pos = m_position m;
            (start, head) = snippet_left (m_buffer m) 75 pos pos;
            (stop, tail) = snippet_right (m_buffer m) 75 pos pos;
            snippet = str_slice (m_buffer m) start stop
        in Some (repeat (js '' '') 4 @ head @ snippet @ tail @ [10]
                 @ repeat (js '' '') (4 + int pos - int start + int (length head)) @ js ''^''))"

definition mark_toString :: "mark \<Rightarrow> jsstr" where
  "mark_toString m =
     (let whr = (case m_name m of None \<Rightarrow> [] | Some n \<Rightarrow> if n = [] then [] else js ''in \"'' @ n @ js ''\" '');
          whr = whr @ js ''at line '' @ int_toString 10 (int (m_line m) + 1) @ js '', column ''
                @ int_toString 10 (m_column m + 1)
      in case getSnippet m of None \<Rightarrow> whr | Some snippet \<Rightarrow> whr @ js '':'' @ [10] @ snippet)"

text \<open>
  What a call can end with instead of a value: an exception of the library, an error of the language, or no
  end at all.
\<close>

datatype yerror = YAMLException jsstr "mark option" | JsError jserr | Diverges

fun message :: "yerror \<Rightarrow> jsstr" where
  "message (YAMLException reason m) =
     (if reason = [] then js ''(unknown reason)'' else reason)
     @ (case m of None \<Rightarrow> [] | Some mk \<Rightarrow> js '' '' @ mark_toString mk)"
| "message _ = []"

definition lift_js :: "jserr + 'a \<Rightarrow> yerror + 'a" where
  "lift_js x = (case x of Inl e \<Rightarrow> Inl (JsError e) | Inr v \<Rightarrow> Inr v)"

section \<open>Types\<close>

text \<open>
  \<^verbatim>\<open>represent\<close> is absent, a function of the object and the style, or a table with a function per style.
  Functions that look at objects get the store, and those that convert a value to a string the conversion.
\<close>

datatype represent = NoRep | RepFun "store \<Rightarrow> jsval \<Rightarrow> jsstr \<Rightarrow> jserr + jsstr"
  | RepTable "store \<Rightarrow> jsval \<Rightarrow> jsstr \<Rightarrow> jsstr option"

record ytype =
  y_tag :: jsstr
  y_kind :: jsstr
  y_resolve :: "(jsval \<Rightarrow> jsstr) \<Rightarrow> store \<Rightarrow> jsval \<Rightarrow> bool"
  y_construct :: "(jsval \<Rightarrow> jsstr) \<Rightarrow> store \<Rightarrow> jsval \<Rightarrow> jserr + (store \<times> jsval)"
  y_instanceOf :: "(store \<Rightarrow> jsval \<Rightarrow> bool) option"
  y_predicate :: "(store \<Rightarrow> jsval \<Rightarrow> bool) option"
  y_represent :: represent
  y_defaultStyle :: "jsstr option"
  y_styleAliases :: "(jsstr \<times> jsstr) list"

text \<open>The options of the constructor, with the names of all of them; an option that is not given is \<open>None\<close>.\<close>

record type_options =
  o_names :: "jsstr list"
  o_kind :: "jsstr option"
  o_resolve :: "((jsval \<Rightarrow> jsstr) \<Rightarrow> store \<Rightarrow> jsval \<Rightarrow> bool) option"
  o_construct :: "((jsval \<Rightarrow> jsstr) \<Rightarrow> store \<Rightarrow> jsval \<Rightarrow> jserr + (store \<times> jsval)) option"
  o_instanceOf :: "(store \<Rightarrow> jsval \<Rightarrow> bool) option"
  o_predicate :: "(store \<Rightarrow> jsval \<Rightarrow> bool) option"
  o_represent :: represent
  o_defaultStyle :: "jsstr option"
  o_styleAliases :: "(jsstr \<times> jsstr list) list option"

definition TYPE_CONSTRUCTOR_OPTIONS :: "jsstr list" where
  "TYPE_CONSTRUCTOR_OPTIONS = map js [''kind'', ''resolve'', ''construct'', ''instanceOf'', ''predicate'',
     ''represent'', ''defaultStyle'', ''styleAliases'']"

definition YAML_NODE_KINDS :: "jsstr list" where
  "YAML_NODE_KINDS = map js [''scalar'', ''sequence'', ''mapping'']"

text \<open>The table from an alias to its style; a later alias of the same name wins.\<close>

definition compileStyleAliases :: "(jsstr \<times> jsstr list) list option \<Rightarrow> (jsstr \<times> jsstr) list" where
  "compileStyleAliases m =
     (case m of None \<Rightarrow> [] | Some styles \<Rightarrow> rev (concat (map (\<lambda>(style, aliases). map (\<lambda>a. (a, style)) aliases) styles)))"

definition Type :: "jsstr \<Rightarrow> type_options \<Rightarrow> yerror + ytype" where
  "Type tag options =
     (case filter (\<lambda>name. name \<notin> set TYPE_CONSTRUCTOR_OPTIONS) (o_names options) of
        name # _ \<Rightarrow> Inl (YAMLException (js ''Unknown option \"'' @ name @ js ''\" is met in definition of \"'' @ tag
          @ js ''\" YAML type.'') None)
      | [] \<Rightarrow>
          let kind = (case o_kind options of None \<Rightarrow> js ''null'' | Some k \<Rightarrow> k)
          in if kind \<notin> set YAML_NODE_KINDS then
               Inl (YAMLException (js ''Unknown kind \"'' @ kind @ js ''\" is specified for \"'' @ tag
                 @ js ''\" YAML type.'') None)
             else Inr \<lparr> y_tag = tag, y_kind = kind,
               y_resolve = (case o_resolve options of None \<Rightarrow> (\<lambda>str h v. True) | Some f \<Rightarrow> f),
               y_construct = (case o_construct options of None \<Rightarrow> (\<lambda>str h v. Inr (h, v)) | Some f \<Rightarrow> f),
               y_instanceOf = o_instanceOf options, y_predicate = o_predicate options,
               y_represent = o_represent options, y_defaultStyle = o_defaultStyle options,
               y_styleAliases = compileStyleAliases (o_styleAliases options) \<rparr>)"

definition no_options :: type_options where
  "no_options = \<lparr> o_names = [], o_kind = None, o_resolve = None, o_construct = None, o_instanceOf = None,
     o_predicate = None, o_represent = NoRep, o_defaultStyle = None, o_styleAliases = None \<rparr>"

definition new_Type :: "string \<Rightarrow> type_options \<Rightarrow> ytype" where
  "new_Type tag options = projr (Type (js ''tag:yaml.org,2002:'' @ js tag) options)"

subsection \<open>The types of the library\<close>

definition scalar_options :: "type_options" where
  "scalar_options = no_options\<lparr> o_names := map js [''kind'', ''resolve'', ''construct''], o_kind := Some (js ''scalar'') \<rparr>"

definition type_str :: ytype where
  "type_str = new_Type ''str'' (no_options\<lparr> o_names := map js [''kind'', ''construct''],
     o_kind := Some (js ''scalar''), o_construct := Some (\<lambda>str h v. Inr (h, constructYamlStr v)) \<rparr>)"

definition type_seq :: ytype where
  "type_seq = new_Type ''seq'' (no_options\<lparr> o_names := map js [''kind'', ''construct''],
     o_kind := Some (js ''sequence''), o_construct := Some (\<lambda>str h v. Inr (constructYamlSeq h v)) \<rparr>)"

definition type_map :: ytype where
  "type_map = new_Type ''map'' (no_options\<lparr> o_names := map js [''kind'', ''construct''],
     o_kind := Some (js ''mapping''), o_construct := Some (\<lambda>str h v. Inr (constructYamlMap h v)) \<rparr>)"

definition type_null :: ytype where
  "type_null = new_Type ''null'' (scalar_options\<lparr>
     o_resolve := Some (\<lambda>str h v. resolveYamlNull v),
     o_construct := Some (\<lambda>str h v. Inr (h, constructYamlNull)),
     o_predicate := Some (\<lambda>h v. isNull v),
     o_represent := RepTable (\<lambda>h v style. representYamlNull style),
     o_defaultStyle := Some (js ''lowercase'') \<rparr>)"

fun the_bool :: "jsval \<Rightarrow> bool" where
  "the_bool (VBool b) = b"
| "the_bool v = True"

definition type_bool :: ytype where
  "type_bool = new_Type ''bool'' (scalar_options\<lparr>
     o_resolve := Some (\<lambda>str h v. resolveYamlBoolean v),
     o_construct := Some (\<lambda>str h v. Inr (h, constructYamlBoolean v)),
     o_predicate := Some (\<lambda>h v. isBoolean v),
     o_represent := RepTable (\<lambda>h v style. representYamlBoolean (the_bool v) style),
     o_defaultStyle := Some (js ''lowercase'') \<rparr>)"

fun the_int :: "jsval \<Rightarrow> int" where
  "the_int (VNum (IntN n)) = n"
| "the_int v = 0"

definition type_int :: ytype where
  "type_int = new_Type ''int'' (scalar_options\<lparr>
     o_resolve := Some (\<lambda>str h v. resolveYamlInteger v),
     o_construct := Some (\<lambda>str h v. map_sum id (\<lambda>x. (h, x)) (constructYamlInteger v)),
     o_predicate := Some (\<lambda>h v. isInteger v),
     o_represent := RepTable (\<lambda>h v style. representYamlInteger (the_int v) style),
     o_defaultStyle := Some (js ''decimal''),
     o_styleAliases := Some [(js ''binary'', [js ''2'', js ''bin'']), (js ''octal'', [js ''8'', js ''oct'']),
       (js ''decimal'', [js ''10'', js ''dec'']), (js ''hexadecimal'', [js ''16'', js ''hex''])] \<rparr>)"

fun the_num :: "jsval \<Rightarrow> jsnum" where
  "the_num (VNum x) = x"
| "the_num v = NaN"

definition type_float :: ytype where
  "type_float = new_Type ''float'' (scalar_options\<lparr>
     o_resolve := Some (\<lambda>str h v. resolveYamlFloat str v),
     o_construct := Some (\<lambda>str h v. map_sum id (\<lambda>x. (h, x)) (constructYamlFloat v)),
     o_predicate := Some (\<lambda>h v. isFloat v),
     o_represent := RepFun (\<lambda>h v style. Inr (representYamlFloat (the_num v) style)),
     o_defaultStyle := Some (js ''lowercase'') \<rparr>)"

definition date_of :: "store \<Rightarrow> jsval \<Rightarrow> int option option" where
  "date_of h v = (case v of VRef r \<Rightarrow> (case lookup h r of Some (ODate t) \<Rightarrow> Some t | _ \<Rightarrow> None) | _ \<Rightarrow> None)"

definition type_timestamp :: ytype where
  "type_timestamp = new_Type ''timestamp'' (scalar_options\<lparr>
     o_resolve := Some (\<lambda>str h v. resolveYamlTimestamp str v),
     o_construct := Some constructYamlTimestamp,
     o_instanceOf := Some (\<lambda>h v. date_of h v \<noteq> None),
     o_represent := RepFun (\<lambda>h v style. representYamlTimestamp (Option.bind (date_of h v) id)) \<rparr>)"

definition type_merge :: ytype where
  "type_merge = new_Type ''merge'' (no_options\<lparr> o_names := map js [''kind'', ''resolve''],
     o_kind := Some (js ''scalar''), o_resolve := Some (\<lambda>str h v. resolveYamlMerge v) \<rparr>)"

definition bytes_of :: "store \<Rightarrow> jsval \<Rightarrow> byte list option" where
  "bytes_of h v = (case v of VRef r \<Rightarrow> (case lookup h r of Some (OBuf bs) \<Rightarrow> Some bs | _ \<Rightarrow> None) | _ \<Rightarrow> None)"

definition type_binary :: ytype where
  "type_binary = new_Type ''binary'' (scalar_options\<lparr>
     o_resolve := Some (\<lambda>str h v. resolveYamlBinary v),
     o_construct := Some (\<lambda>str h v. constructYamlBinary h v),
     o_predicate := Some (\<lambda>h v. bytes_of h v \<noteq> None),
     o_represent := RepFun (\<lambda>h v style.
       Inr (representYamlBinary (case bytes_of h v of None \<Rightarrow> [] | Some bs \<Rightarrow> bs))) \<rparr>)"

definition type_omap :: ytype where
  "type_omap = new_Type ''omap'' (scalar_options\<lparr> o_kind := Some (js ''sequence''),
     o_resolve := Some (\<lambda>str h v. resolveYamlOmap h v),
     o_construct := Some (\<lambda>str h v. Inr (constructYamlOmap h v)) \<rparr>)"

definition type_pairs :: ytype where
  "type_pairs = new_Type ''pairs'' (scalar_options\<lparr> o_kind := Some (js ''sequence''),
     o_resolve := Some (\<lambda>str h v. resolveYamlPairs h v),
     o_construct := Some (\<lambda>str h v. Inr (constructYamlPairs h v)) \<rparr>)"

definition type_set :: ytype where
  "type_set = new_Type ''set'' (scalar_options\<lparr> o_kind := Some (js ''mapping''),
     o_resolve := Some (\<lambda>str h v. resolveYamlSet h v),
     o_construct := Some (\<lambda>str h v. Inr (constructYamlSet h v)) \<rparr>)"

section \<open>Schemas\<close>

text \<open>
  The lists of a schema. The constructor also looks for a property \<^verbatim>\<open>loadKind\<close> of the implicit types, which no
  type has, so that it never throws.
\<close>

datatype yschema = Schema (s_include: "yschema list") (s_implicit: "ytype list") (s_explicit: "ytype list")

definition same_type :: "ytype \<Rightarrow> ytype \<Rightarrow> bool" where
  "same_type t u = (y_tag t = y_tag u \<and> y_kind t = y_kind u)"

definition keep_indices :: "nat list \<Rightarrow> 'a list \<Rightarrow> 'a list" where
  "keep_indices exclude xs = map fst (filter (\<lambda>(x, i). i \<notin> set exclude) (zip xs [0..<length xs]))"

fun add_types :: "ytype list \<Rightarrow> ytype list \<Rightarrow> nat list \<Rightarrow> ytype list" where
  "add_types [] result exclude = keep_indices exclude result"
| "add_types (t # ts) result exclude =
     add_types ts (result @ [t]) (exclude @ filter (\<lambda>i. same_type (result ! i) t) [0..<length result])"

fun compileList :: "(yschema \<Rightarrow> ytype list) \<Rightarrow> yschema \<Rightarrow> ytype list \<Rightarrow> ytype list" where
  "compileList name (Schema inc imp ex) result =
     add_types (name (Schema inc imp ex)) (fold (compileList name) inc result) []"

text \<open>The map of a schema: a type is found under its kind and tag and under \<^verbatim>\<open>fallback\<close> and its tag.\<close>

type_synonym type_table = "((jsstr \<times> jsstr) \<times> ytype) list"

definition collectType :: "ytype \<Rightarrow> type_table \<Rightarrow> type_table" where
  "collectType t result = ((y_kind t, y_tag t), t) # ((js ''fallback'', y_tag t), t) # result"

definition compileMap :: "ytype list list \<Rightarrow> type_table" where
  "compileMap tss = fold (fold collectType) tss []"

definition compiledImplicit :: "yschema \<Rightarrow> ytype list" where
  "compiledImplicit s = compileList s_implicit s []"

definition compiledExplicit :: "yschema \<Rightarrow> ytype list" where
  "compiledExplicit s = compileList s_explicit s []"

definition compiledTypeMap :: "yschema \<Rightarrow> type_table" where
  "compiledTypeMap s = compileMap [compiledImplicit s, compiledExplicit s]"

definition FAILSAFE_SCHEMA :: yschema where
  "FAILSAFE_SCHEMA = Schema [] [] [type_str, type_seq, type_map]"

definition JSON_SCHEMA :: yschema where
  "JSON_SCHEMA = Schema [FAILSAFE_SCHEMA] [type_null, type_bool, type_int, type_float] []"

definition CORE_SCHEMA :: yschema where
  "CORE_SCHEMA = Schema [JSON_SCHEMA] [] []"

definition DEFAULT_SAFE_SCHEMA :: yschema where
  "DEFAULT_SAFE_SCHEMA = Schema [CORE_SCHEMA] [type_timestamp, type_merge] [type_binary, type_omap, type_pairs, type_set]"

section \<open>Properties\<close>

subsection \<open>Compiled schemas\<close>

definition no_doubles :: "ytype list \<Rightarrow> bool" where
  "no_doubles ts = sorted_wrt (\<lambda>t u. \<not> same_type t u) ts"

lemma same_type_refl [simp]: "same_type t t"
  by (simp add: same_type_def)

lemma keep_indices_Nil: "keep_indices [] xs = xs"
  by (simp add: keep_indices_def case_prod_unfold)

lemma keep_indices_append:
  "keep_indices ex (xs @ [x]) = keep_indices ex xs @ (if length xs \<in> set ex then [] else [x])"
  by (simp add: keep_indices_def)

lemma keep_indices_set: "set (keep_indices ex xs) = {xs ! i | i. i < length xs \<and> i \<notin> set ex}"
  by (induction xs rule: rev_induct)
    (auto simp: keep_indices_append keep_indices_def [of _ "[]"] nth_append less_Suc_eq split: if_splits)

lemma keep_indices_no_doubles:
  "(\<And>i j. i < j \<Longrightarrow> j < length xs \<Longrightarrow> same_type (xs ! i) (xs ! j) \<Longrightarrow> i \<in> set ex) \<Longrightarrow> no_doubles (keep_indices ex xs)"
proof (induction xs rule: rev_induct)
  case (snoc x xs)
  have "i \<in> set ex" if "i < j" "j < length xs" "same_type (xs ! i) (xs ! j)" for i j
    using snoc(2) [of i j] that by (simp add: nth_append)
  then have "no_doubles (keep_indices ex xs)" by (rule snoc(1))
  moreover have "\<not> same_type t x" if t: "t \<in> set (keep_indices ex xs)" for t
  proof
    assume same: "same_type t x"
    obtain i where i: "t = xs ! i" "i < length xs" "i \<notin> set ex" using t by (auto simp: keep_indices_set)
    then show False using snoc(2) [of i "length xs"] same by (simp add: nth_append)
  qed
  ultimately show ?case
    by (simp add: no_doubles_def keep_indices_append sorted_wrt_append)
qed (simp add: no_doubles_def keep_indices_def)

lemma add_types_no_doubles:
  assumes "\<And>i j. i < j \<Longrightarrow> j < length result \<Longrightarrow> same_type (result ! i) (result ! j) \<Longrightarrow> i \<in> set ex"
  shows "no_doubles (add_types ts result ex)"
  using assms
proof (induction ts arbitrary: result ex)
  case (Cons t ts)
  show ?case unfolding add_types.simps
  proof (rule Cons(1))
    fix i j
    assume "i < j" "j < length (result @ [t])" "same_type ((result @ [t]) ! i) ((result @ [t]) ! j)"
    then show "i \<in> set (ex @ filter (\<lambda>i. same_type (result ! i) t) [0..<length result])"
      using Cons(2) [of i j] by (cases "j = length result") (auto simp: nth_append)
  qed
qed (simp add: keep_indices_no_doubles)

lemma no_doubles_nth:
  "no_doubles ts \<Longrightarrow> i < j \<Longrightarrow> j < length ts \<Longrightarrow> \<not> same_type (ts ! i) (ts ! j)"
  unfolding no_doubles_def using sorted_wrt_nth_less by fastforce

lemma fold_no_doubles:
  "(\<And>s r. s \<in> set inc \<Longrightarrow> no_doubles r \<Longrightarrow> no_doubles (f s r)) \<Longrightarrow> no_doubles r \<Longrightarrow> no_doubles (fold f inc r)"
  by (induction inc arbitrary: r) auto

lemma compileList_no_doubles: "no_doubles result \<Longrightarrow> no_doubles (compileList name s result)"
proof (induction name s result rule: compileList.induct)
  case (1 name inc imp ex result)
  then have "no_doubles (fold (compileList name) inc result)" by (intro fold_no_doubles) auto
  then show ?case
    unfolding compileList.simps by (intro add_types_no_doubles) (blast dest: no_doubles_nth)
qed

text \<open>A type stays until another one with the same tag and kind is added.\<close>

lemma add_types_keeps:
  "t \<in> set ts \<or> (\<exists>i < length result. result ! i = t \<and> i \<notin> set ex) \<Longrightarrow>
     (\<And>i. i \<in> set ex \<Longrightarrow> i < length result) \<Longrightarrow> \<exists>u \<in> set (add_types ts result ex). same_type u t"
proof (induction ts arbitrary: result ex t)
  case Nil
  then show ?case by (auto simp: keep_indices_set intro!: bexI [of _ t])
next
  case (Cons v ts)
  let ?ex = "ex @ filter (\<lambda>i. same_type (result ! i) v) [0..<length result]"
  have bound: "i < length (result @ [v])" if "i \<in> set ?ex" for i
    using that Cons(3) by (auto simp: less_Suc_eq)
  have v: "\<exists>i < length (result @ [v]). (result @ [v]) ! i = v \<and> i \<notin> set ?ex"
    using Cons(3) by (intro exI [of _ "length result"]) auto
  show ?case
  proof (cases "same_type v t")
    case True
    then obtain u where "u \<in> set (add_types ts (result @ [v]) ?ex)" "same_type u v"
      using Cons(1) [of v "result @ [v]" ?ex] v bound by blast
    then show ?thesis using True by (auto simp: same_type_def)
  next
    case False
    then have "t \<in> set ts \<or> (\<exists>i < length (result @ [v]). (result @ [v]) ! i = t \<and> i \<notin> set ?ex)"
    proof -
      have old: "i \<notin> set ?ex" if "i < length result" "result ! i = t" "i \<notin> set ex" for i
        using that False by (auto simp: same_type_def)
      have "v \<noteq> t" using False by auto
      then consider "t \<in> set ts" | i where "i < length result" "result ! i = t" "i \<notin> set ex"
        using Cons(2) by auto
      then show ?thesis
      proof cases
        case 2
        then have "(result @ [v]) ! i = t \<and> i \<notin> set ?ex" using old by (simp add: nth_append)
        then show ?thesis using 2(1) by (intro disjI2 exI [of _ i]) simp
      qed simp
    qed
    then show ?thesis using Cons(1) [of t "result @ [v]" ?ex] bound by simp
  qed
qed

text \<open>The types that the safe schema compiles to.\<close>

lemma js_append: "js (s @ t) = js s @ js t"
  by (simp add: js_def)

lemma kinds_set: "set YAML_NODE_KINDS = {js ''scalar'', js ''sequence'', js ''mapping''}"
  by (auto simp: YAML_NODE_KINDS_def)

lemma Type_known:
  assumes "set (o_names options) \<subseteq> set TYPE_CONSTRUCTOR_OPTIONS" and "o_kind options = Some kind"
    and "kind \<in> set YAML_NODE_KINDS"
  shows "Type tag options = Inr \<lparr> y_tag = tag, y_kind = kind,
               y_resolve = (case o_resolve options of None \<Rightarrow> (\<lambda>str h v. True) | Some f \<Rightarrow> f),
               y_construct = (case o_construct options of None \<Rightarrow> (\<lambda>str h v. Inr (h, v)) | Some f \<Rightarrow> f),
               y_instanceOf = o_instanceOf options, y_predicate = o_predicate options,
               y_represent = o_represent options, y_defaultStyle = o_defaultStyle options,
               y_styleAliases = compileStyleAliases (o_styleAliases options) \<rparr>"
proof -
  have "filter (\<lambda>name. name \<notin> set TYPE_CONSTRUCTOR_OPTIONS) (o_names options) = []"
    using assms(1) by (auto simp: filter_empty_conv)
  then show ?thesis using assms(2,3) by (simp add: Type_def)
qed

lemma options_known:
  "set (o_names scalar_options) \<subseteq> set TYPE_CONSTRUCTOR_OPTIONS"
  "js ''kind'' \<in> set TYPE_CONSTRUCTOR_OPTIONS" "js ''construct'' \<in> set TYPE_CONSTRUCTOR_OPTIONS"
  "js ''resolve'' \<in> set TYPE_CONSTRUCTOR_OPTIONS"
  by (auto simp: scalar_options_def TYPE_CONSTRUCTOR_OPTIONS_def)

lemma scalar_options_fields [simp]:
  "o_kind scalar_options = Some (js ''scalar'')" "o_resolve scalar_options = None"
  "o_construct scalar_options = None" "o_instanceOf scalar_options = None" "o_predicate scalar_options = None"
  "o_represent scalar_options = NoRep" "o_defaultStyle scalar_options = None" "o_styleAliases scalar_options = None"
  "o_kind no_options = None" "o_resolve no_options = None"
  "o_construct no_options = None" "o_instanceOf no_options = None" "o_predicate no_options = None"
  "o_represent no_options = NoRep" "o_defaultStyle no_options = None" "o_styleAliases no_options = None"
  by (simp_all add: scalar_options_def no_options_def)

lemmas type_defs = type_str_def type_seq_def type_map_def type_null_def type_bool_def type_int_def type_float_def
  type_timestamp_def type_merge_def type_binary_def type_omap_def type_pairs_def type_set_def

lemmas Type_simps = new_Type_def Type_known options_known kinds_set

lemma type_tags [simp]:
  "y_tag type_str = js ''tag:yaml.org,2002:str''" "y_tag type_seq = js ''tag:yaml.org,2002:seq''"
  "y_tag type_map = js ''tag:yaml.org,2002:map''" "y_tag type_null = js ''tag:yaml.org,2002:null''"
  "y_tag type_bool = js ''tag:yaml.org,2002:bool''" "y_tag type_int = js ''tag:yaml.org,2002:int''"
  "y_tag type_float = js ''tag:yaml.org,2002:float''" "y_tag type_timestamp = js ''tag:yaml.org,2002:timestamp''"
  "y_tag type_merge = js ''tag:yaml.org,2002:merge''" "y_tag type_binary = js ''tag:yaml.org,2002:binary''"
  "y_tag type_omap = js ''tag:yaml.org,2002:omap''" "y_tag type_pairs = js ''tag:yaml.org,2002:pairs''"
  "y_tag type_set = js ''tag:yaml.org,2002:set''"
  unfolding type_defs by (simp_all add: Type_simps js_append [symmetric])

lemma type_kinds [simp]:
  "y_kind type_str = js ''scalar''" "y_kind type_seq = js ''sequence''"
  "y_kind type_map = js ''mapping''" "y_kind type_null = js ''scalar''"
  "y_kind type_bool = js ''scalar''" "y_kind type_int = js ''scalar''"
  "y_kind type_float = js ''scalar''" "y_kind type_timestamp = js ''scalar''"
  "y_kind type_merge = js ''scalar''" "y_kind type_binary = js ''scalar''"
  "y_kind type_omap = js ''sequence''" "y_kind type_pairs = js ''sequence''"
  "y_kind type_set = js ''mapping''"
  unfolding type_defs by (simp_all add: Type_simps)

lemma type_resolves [simp]:
  "y_resolve type_null = (\<lambda>str h v. resolveYamlNull v)" "y_resolve type_bool = (\<lambda>str h v. resolveYamlBoolean v)"
  "y_resolve type_int = (\<lambda>str h v. resolveYamlInteger v)" "y_resolve type_float = (\<lambda>str h v. resolveYamlFloat str v)"
  "y_resolve type_timestamp = (\<lambda>str h v. resolveYamlTimestamp str v)"
  "y_resolve type_merge = (\<lambda>str h v. resolveYamlMerge v)"
  unfolding type_defs by (simp_all add: Type_simps)

lemma safe_implicit:
  "compiledImplicit DEFAULT_SAFE_SCHEMA = [type_null, type_bool, type_int, type_float, type_timestamp, type_merge]"
  by (simp add: compiledImplicit_def DEFAULT_SAFE_SCHEMA_def CORE_SCHEMA_def JSON_SCHEMA_def FAILSAFE_SCHEMA_def
      keep_indices_def same_type_def)

lemma safe_explicit:
  "compiledExplicit DEFAULT_SAFE_SCHEMA
     = [type_str, type_seq, type_map, type_binary, type_omap, type_pairs, type_set]"
  by (simp add: compiledExplicit_def DEFAULT_SAFE_SCHEMA_def CORE_SCHEMA_def JSON_SCHEMA_def FAILSAFE_SCHEMA_def
      keep_indices_def same_type_def)

text \<open>C38: A compiled list of a schema never holds two types with the same tag and kind, and for every type that
  the schema itself declares it holds one with that tag and kind.\<close>

theorem compileList_unique:
  "no_doubles (compileList name s [])
   \<and> (\<forall>t \<in> set (name s). \<exists>u \<in> set (compileList name s []). same_type u t)"
proof
  show "no_doubles (compileList name s [])" by (rule compileList_no_doubles) (simp add: no_doubles_def)
  show "\<forall>t \<in> set (name s). \<exists>u \<in> set (compileList name s []). same_type u t"
    by (cases s) (auto intro!: add_types_keeps)
qed

theorem compileList_unique_witness:
  "type_int \<in> set (s_implicit JSON_SCHEMA)
   \<and> (\<exists>u \<in> set (compileList s_implicit JSON_SCHEMA []). same_type u type_int)"
  using compileList_unique [of s_implicit JSON_SCHEMA] by (simp add: JSON_SCHEMA_def)

end
