(* ===== verification/YamlScanner.thy ===== *)
theory YamlScanner
  imports YamlCommon
begin

text \<open>
  The first half of the loader of \<^verbatim>\<open>js-yaml\<close> (module 503 of \<^verbatim>\<open>swagger-ui.js\<close>): its state, the classes of
  characters, white space and comments, and the scalars in their five styles, tags, anchors and aliases.
  A function that changes the state returns its value and the new state, or an error; a loop that would
  run past the end of the input forever ends in \<open>Diverges\<close>. The properties are that no scan does, from every
  state of a loader (\<open>ready\<close>), that the position never moves back and never beyond the final NUL, and
  the text that the quoted styles read.
\<close>

section \<open>Characters\<close>

definition is_EOL :: "int \<Rightarrow> bool" where
  "is_EOL c \<longleftrightarrow> c = 10 \<or> c = 13"

definition is_WHITE_SPACE :: "int \<Rightarrow> bool" where
  "is_WHITE_SPACE c \<longleftrightarrow> c = 9 \<or> c = 32"

definition is_WS_OR_EOL :: "int \<Rightarrow> bool" where
  "is_WS_OR_EOL c \<longleftrightarrow> c = 9 \<or> c = 32 \<or> c = 10 \<or> c = 13"

definition is_FLOW_INDICATOR :: "int \<Rightarrow> bool" where
  "is_FLOW_INDICATOR c \<longleftrightarrow> c = 44 \<or> c = 91 \<or> c = 93 \<or> c = 123 \<or> c = 125"

definition fromHexCode :: "int \<Rightarrow> int" where
  "fromHexCode c =
     (if 48 \<le> c \<and> c \<le> 57 then c - 48
      else let lc = js_or c 32 in if 97 \<le> lc \<and> lc \<le> 102 then lc - 97 + 10 else -1)"

definition escapedHexLen :: "int \<Rightarrow> nat" where
  "escapedHexLen c = (if c = 120 then 2 else if c = 117 then 4 else if c = 85 then 8 else 0)"

definition fromDecimalCode :: "int \<Rightarrow> int" where
  "fromDecimalCode c = (if 48 \<le> c \<and> c \<le> 57 then c - 48 else -1)"

definition simpleEscapeSequence :: "int \<Rightarrow> jsstr" where
  "simpleEscapeSequence c =
     (if c = 48 then [0] else if c = 97 then [7] else if c = 98 then [8] else if c = 116 then [9]
      else if c = 9 then [9] else if c = 110 then [10] else if c = 118 then [11] else if c = 102 then [12]
      else if c = 114 then [13] else if c = 101 then [27] else if c = 32 then [32] else if c = 34 then [34]
      else if c = 47 then [47] else if c = 92 then [92] else if c = 78 then [0x85] else if c = 95 then [0xA0]
      else if c = 76 then [0x2028] else if c = 80 then [0x2029] else [])"

definition simpleEscapeCheck :: "int \<Rightarrow> bool" where
  "simpleEscapeCheck c = (simpleEscapeSequence c \<noteq> [])"

definition charFromCodepoint :: "int \<Rightarrow> jsstr" where
  "charFromCodepoint c =
     (if c \<le> 65535 then [fromCharCode c]
      else [fromCharCode (js_shr (c - 65536) 10 + 55296), fromCharCode (js_and (c - 65536) 1023 + 56320)])"

text \<open>\<^verbatim>\<open>PATTERN_NON_PRINTABLE.test(s)\<close>: a control character, or a surrogate without its other half.\<close>

definition control_char :: "16 word \<Rightarrow> bool" where
  "control_char c \<longleftrightarrow> c \<le> 8 \<or> c = 11 \<or> c = 12 \<or> 14 \<le> c \<and> c \<le> 31 \<or> 127 \<le> c \<and> c \<le> 132 \<or> 134 \<le> c \<and> c \<le> 159
     \<or> c = 0xFFFE \<or> c = 0xFFFF"

fun non_printable :: "bool \<Rightarrow> jsstr \<Rightarrow> bool" where
  "non_printable after_lead [] = False"
| "non_printable after_lead (c # s) =
     (control_char c
      \<or> is_lead c \<and> \<not> (s \<noteq> [] \<and> is_trail (hd s))
      \<or> is_trail c \<and> \<not> after_lead
      \<or> non_printable (is_lead c) s)"

definition letter_dash :: "16 word \<Rightarrow> bool" where
  "letter_dash c \<longleftrightarrow> 97 \<le> c \<and> c \<le> 122 \<or> 65 \<le> c \<and> c \<le> 90 \<or> c = 45"

definition PATTERN_TAG_HANDLE :: regex where
  "PATTERN_TAG_HANDLE = re_alt [re_char 33, re_word [33, 33], re_seq [re_char 33, re_plus (RClass letter_dash), re_char 33]]"

definition uri_char :: "16 word \<Rightarrow> bool" where
  "uri_char c \<longleftrightarrow> 48 \<le> c \<and> c \<le> 57 \<or> letter_dash c \<or> c \<in> set (js ''#;/?:@&=+$,_.!~*()[]'' @ [39])"

definition PATTERN_TAG_URI :: regex where
  "PATTERN_TAG_URI = RSeq (RAlt (re_char 33) (RClass (\<lambda>c. c \<notin> set (js '',[]{}''))))
     (RStar (RAlt (re_seq [re_char 37, RClass isHexCode, RClass isHexCode]) (RClass uri_char)))"

section \<open>The state\<close>

record lstate =
  l_input :: jsstr
  l_filename :: "jsstr option"
  l_legacy :: bool
  l_json :: bool
  l_implicitTypes :: "ytype list"
  l_typeMap :: type_table
  l_length :: nat
  l_position :: nat
  l_line :: nat
  l_lineStart :: nat
  l_lineIndent :: nat
  l_documents :: "jsval list"
  l_version :: "jsstr option"
  l_checkLineBreaks :: bool
  l_tagMap :: "(jsstr \<times> jsstr) list"
  l_anchorMap :: props
  l_tag :: "jsstr option"
  l_anchor :: "jsstr option"
  l_kind :: "jsstr option"
  l_result :: jsval
  l_store :: store
  l_warnings :: "yerror list"

type_synonym 'a scan = "yerror + ('a \<times> lstate)"

text \<open>The character \<open>k\<close> places after the position, \<open>-1\<close> beyond the input.\<close>

definition ch :: "lstate \<Rightarrow> int" where
  "ch s = charCodeAt (l_input s) (int (l_position s))"

definition ch_at :: "lstate \<Rightarrow> int \<Rightarrow> int" where
  "ch_at s k = charCodeAt (l_input s) (int (l_position s) + k)"

definition move :: "nat \<Rightarrow> lstate \<Rightarrow> lstate" where
  "move k s = s\<lparr> l_position := l_position s + k \<rparr>"

definition generateError :: "lstate \<Rightarrow> jsstr \<Rightarrow> yerror" where
  "generateError s reason = YAMLException reason (Some \<lparr> m_name = l_filename s, m_buffer = l_input s,
     m_position = l_position s, m_line = l_line s, m_column = int (l_position s) - int (l_lineStart s) \<rparr>)"

definition throwError :: "lstate \<Rightarrow> string \<Rightarrow> yerror + 'a" where
  "throwError s reason = Inl (generateError s (js reason))"

text \<open>\<^verbatim>\<open>onWarning\<close> is called with the exception; the list collects the calls.\<close>

definition throwWarning :: "lstate \<Rightarrow> jsstr \<Rightarrow> lstate" where
  "throwWarning s reason = s\<lparr> l_warnings := l_warnings s @ [generateError s reason] \<rparr>"

definition append_result :: "lstate \<Rightarrow> jsstr \<Rightarrow> lstate" where
  "append_result s t = s\<lparr> l_result := VStr ((case l_result s of VStr r \<Rightarrow> r | _ \<Rightarrow> []) @ t) \<rparr>"

section \<open>White space\<close>

text \<open>
  \<^verbatim>\<open>while (p(ch)) ch = input.charCodeAt(++position)\<close>. Beyond the input every character is \<^verbatim>\<open>NaN\<close>: if the
  condition holds there, the loop does not end.
\<close>

function skip_while :: "(int \<Rightarrow> bool) \<Rightarrow> jsstr \<Rightarrow> nat \<Rightarrow> nat option" where
  "skip_while p input pos =
     (if p (charCodeAt input (int pos)) then
        if pos < length input then skip_while p input (Suc pos) else None
      else Some pos)"
  by auto
termination
  by (relation "measure (\<lambda>(p, input, pos). length input - pos)") auto

declare skip_while.simps [simp del]

definition scan_while :: "(int \<Rightarrow> bool) \<Rightarrow> lstate \<Rightarrow> unit scan" where
  "scan_while p s =
     (case skip_while p (l_input s) (l_position s) of
        None \<Rightarrow> Inl Diverges
      | Some pos \<Rightarrow> Inr ((), s\<lparr> l_position := pos \<rparr>))"

definition captureSegment :: "lstate \<Rightarrow> nat \<Rightarrow> nat \<Rightarrow> bool \<Rightarrow> unit scan" where
  "captureSegment s start stop checkJson =
     (if start < stop then
        let result = str_slice (l_input s) start stop
        in if checkJson \<and> \<not> list_all (\<lambda>c. c = 9 \<or> 32 \<le> c) result then
             throwError s ''expected valid JSON character''
           else if \<not> checkJson \<and> non_printable False result then
             throwError s ''the stream contains non-printable characters''
           else Inr ((), append_result s result)
      else Inr ((), s))"

definition readLineBreak :: "lstate \<Rightarrow> unit scan" where
  "readLineBreak s =
     rbind (if ch s = 10 then Inr (move 1 s)
            else if ch s = 13 then Inr (if ch (move 1 s) = 10 then move 2 s else move 1 s)
            else throwError s ''a line break is expected'') (\<lambda>s.
       Inr ((), s\<lparr> l_line := l_line s + 1, l_lineStart := l_position s \<rparr>))"

text \<open>One run of the loop reads the rest of a line; \<open>n\<close> bounds the number of lines.\<close>

definition skip_comment :: "bool \<Rightarrow> lstate \<Rightarrow> unit scan" where
  "skip_comment allowComments s =
     (if allowComments \<and> ch s = 35 then scan_while (\<lambda>c. c \<noteq> 10 \<and> c \<noteq> 13 \<and> c \<noteq> 0) (move 1 s) else Inr ((), s))"

definition skip_indent :: "lstate \<Rightarrow> unit scan" where
  "skip_indent s =
     rbind (scan_while (\<lambda>c. c = 32) s) (\<lambda>(_, s').
       Inr ((), s'\<lparr> l_lineIndent := l_lineIndent s' + (l_position s' - l_position s) \<rparr>))"

primrec separation_loop :: "nat \<Rightarrow> bool \<Rightarrow> nat \<Rightarrow> lstate \<Rightarrow> nat scan" where
  "separation_loop 0 allowComments lineBreaks s = Inl Diverges"
| "separation_loop (Suc n) allowComments lineBreaks s =
     (if ch s = 0 then Inr (lineBreaks, s)
      else
        rbind (scan_while is_WHITE_SPACE s) (\<lambda>(_, s).
        rbind (skip_comment allowComments s) (\<lambda>(_, s).
          if is_EOL (ch s) then
            rbind (readLineBreak s) (\<lambda>(_, s).
            rbind (skip_indent (s\<lparr> l_lineIndent := 0 \<rparr>)) (\<lambda>(_, s).
              separation_loop n allowComments (Suc lineBreaks) s))
          else Inr (lineBreaks, s))))"

definition skipSeparationSpace :: "lstate \<Rightarrow> bool \<Rightarrow> int \<Rightarrow> nat scan" where
  "skipSeparationSpace s allowComments checkIndent =
     rbind (separation_loop (length (l_input s) + 1) allowComments 0 s) (\<lambda>(lineBreaks, s).
       Inr (lineBreaks,
            if checkIndent \<noteq> -1 \<and> lineBreaks \<noteq> 0 \<and> int (l_lineIndent s) < checkIndent
            then throwWarning s (js ''deficient indentation'') else s))"

definition testDocumentSeparator :: "lstate \<Rightarrow> bool" where
  "testDocumentSeparator s \<longleftrightarrow>
     (ch s = 45 \<or> ch s = 46) \<and> ch s = ch_at s 1 \<and> ch s = ch_at s 2 \<and> (ch_at s 3 = 0 \<or> is_WS_OR_EOL (ch_at s 3))"

definition writeFoldedLines :: "lstate \<Rightarrow> nat \<Rightarrow> lstate" where
  "writeFoldedLines s count =
     (if count = 1 then append_result s (js '' '')
      else if count > 1 then append_result s (repeat [10] (int count - 1))
      else s)"

section \<open>Plain and quoted scalars\<close>

text \<open>
  The loop of \<^verbatim>\<open>readPlainScalar\<close>: the first character after the capture, its end, whether a folded line is
  pending and the line where it began. It ends with the bounds of the last segment.
\<close>

definition plain_stops :: "bool \<Rightarrow> int \<Rightarrow> bool" where
  "plain_stops withinFlow following = (is_WS_OR_EOL following \<or> withinFlow \<and> is_FLOW_INDICATOR following)"

definition plain_capture :: "lstate \<Rightarrow> nat \<Rightarrow> nat \<Rightarrow> bool \<Rightarrow> nat \<Rightarrow> (nat \<times> nat) scan" where
  "plain_capture s captureStart captureEnd pending line =
     (if pending then
        rbind (captureSegment s captureStart captureEnd False) (\<lambda>(_, s).
          let s = writeFoldedLines s (l_line s - line) in Inr ((l_position s, l_position s), s))
      else Inr ((captureStart, captureEnd), s))"

primrec plain_loop :: "nat \<Rightarrow> int \<Rightarrow> bool \<Rightarrow> nat \<Rightarrow> nat \<Rightarrow> bool \<Rightarrow> nat \<Rightarrow> lstate \<Rightarrow> (nat \<times> nat) scan" where
  "plain_loop 0 nodeIndent withinFlow captureStart captureEnd pending line s = Inl Diverges"
| "plain_loop (Suc n) nodeIndent withinFlow captureStart captureEnd pending line s =
     (let c = ch s;
          step = (\<lambda>s. rbind (plain_capture s captureStart captureEnd pending line) (\<lambda>((captureStart, captureEnd), s).
            plain_loop n nodeIndent withinFlow captureStart
              (if is_WHITE_SPACE c then captureEnd else l_position s + 1) False line (move 1 s)))
      in if c = 0 then Inr ((captureStart, captureEnd), s)
         else if c = 58 then
           (if plain_stops withinFlow (ch_at s 1) then Inr ((captureStart, captureEnd), s) else step s)
         else if c = 35 then
           (if is_WS_OR_EOL (ch_at s (-1)) then Inr ((captureStart, captureEnd), s) else step s)
         else if l_position s = l_lineStart s \<and> testDocumentSeparator s \<or> withinFlow \<and> is_FLOW_INDICATOR c then
           Inr ((captureStart, captureEnd), s)
         else if is_EOL c then
           rbind (skipSeparationSpace s False (-1)) (\<lambda>(_, s').
             if int (l_lineIndent s') \<ge> nodeIndent then
               plain_loop n nodeIndent withinFlow captureStart captureEnd True (l_line s) s'
             else Inr ((captureStart, captureEnd),
                    s'\<lparr> l_position := captureEnd, l_line := l_line s, l_lineStart := l_lineStart s,
                        l_lineIndent := l_lineIndent s \<rparr>))
         else step s)"

definition plain_indicator :: "int \<Rightarrow> bool" where
  "plain_indicator c \<longleftrightarrow> is_WS_OR_EOL c \<or> is_FLOW_INDICATOR c \<or> c = 35 \<or> c = 38 \<or> c = 42 \<or> c = 33 \<or> c = 124
     \<or> c = 62 \<or> c = 39 \<or> c = 34 \<or> c = 37 \<or> c = 64 \<or> c = 96"

definition readPlainScalar :: "lstate \<Rightarrow> int \<Rightarrow> bool \<Rightarrow> bool scan" where
  "readPlainScalar s nodeIndent withinFlow =
     (if plain_indicator (ch s) then Inr (False, s)
      else if (ch s = 63 \<or> ch s = 45) \<and> plain_stops withinFlow (ch_at s 1) then Inr (False, s)
      else
        rbind (plain_loop (length (l_input s) + 1) nodeIndent withinFlow (l_position s) (l_position s) False 0
                 (s\<lparr> l_kind := Some (js ''scalar''), l_result := VStr [] \<rparr>)) (\<lambda>((captureStart, captureEnd), s').
        rbind (captureSegment s' captureStart captureEnd False) (\<lambda>(_, s').
          if l_result s' \<noteq> VStr [] then Inr (True, s')
          else Inr (False, s'\<lparr> l_kind := l_kind s, l_result := l_result s \<rparr>))))"

definition fold_line :: "lstate \<Rightarrow> nat \<Rightarrow> nat \<Rightarrow> int \<Rightarrow> unit scan" where
  "fold_line s captureStart captureEnd nodeIndent =
     rbind (captureSegment s captureStart captureEnd True) (\<lambda>(_, s).
     rbind (skipSeparationSpace s False nodeIndent) (\<lambda>(count, s). Inr ((), writeFoldedLines s count)))"

primrec single_loop :: "nat \<Rightarrow> int \<Rightarrow> nat \<Rightarrow> nat \<Rightarrow> lstate \<Rightarrow> bool scan" where
  "single_loop 0 nodeIndent captureStart captureEnd s = Inl Diverges"
| "single_loop (Suc n) nodeIndent captureStart captureEnd s =
     (if ch s = 0 then throwError s ''unexpected end of the stream within a single quoted scalar''
      else if ch s = 39 then
        rbind (captureSegment s captureStart (l_position s) True) (\<lambda>(_, s).
          let s = move 1 s
          in if ch s = 39 then single_loop n nodeIndent (l_position s) (l_position s + 1) (move 1 s)
             else Inr (True, s))
      else if is_EOL (ch s) then
        rbind (fold_line s captureStart captureEnd nodeIndent) (\<lambda>(_, s).
          single_loop n nodeIndent (l_position s) (l_position s) s)
      else if l_position s = l_lineStart s \<and> testDocumentSeparator s then
        throwError s ''unexpected end of the document within a single quoted scalar''
      else single_loop n nodeIndent captureStart (l_position s + 1) (move 1 s))"

definition start_scalar :: "lstate \<Rightarrow> lstate" where
  "start_scalar s = s\<lparr> l_kind := Some (js ''scalar''), l_result := VStr [] \<rparr>"

definition readSingleQuotedScalar :: "lstate \<Rightarrow> int \<Rightarrow> bool scan" where
  "readSingleQuotedScalar s nodeIndent =
     (if ch s \<noteq> 39 then Inr (False, s)
      else
        let s = move 1 (start_scalar s)
        in single_loop (length (l_input s) + 1) nodeIndent (l_position s) (l_position s) s)"

text \<open>The digits of an escape: the number is built with 32-bit shifts.\<close>

primrec hex_loop :: "nat \<Rightarrow> int \<Rightarrow> lstate \<Rightarrow> int scan" where
  "hex_loop 0 hexResult s = Inr (hexResult, s)"
| "hex_loop (Suc n) hexResult s =
     (let s = move 1 s
      in if fromHexCode (ch s) \<ge> 0 then hex_loop n (js_shl hexResult 4 + fromHexCode (ch s)) s
         else throwError s ''expected hexadecimal character'')"

definition read_escape :: "lstate \<Rightarrow> int \<Rightarrow> unit scan" where
  "read_escape s nodeIndent =
     (let c = ch s
      in if is_EOL c then rbind (skipSeparationSpace s False nodeIndent) (\<lambda>(_, s). Inr ((), s))
         else if c < 256 \<and> simpleEscapeCheck c then Inr ((), move 1 (append_result s (simpleEscapeSequence c)))
         else if escapedHexLen c > 0 then
           rbind (hex_loop (escapedHexLen c) 0 s) (\<lambda>(hexResult, s).
             Inr ((), move 1 (append_result s (charFromCodepoint hexResult))))
         else throwError s ''unknown escape sequence'')"

primrec double_loop :: "nat \<Rightarrow> int \<Rightarrow> nat \<Rightarrow> nat \<Rightarrow> lstate \<Rightarrow> bool scan" where
  "double_loop 0 nodeIndent captureStart captureEnd s = Inl Diverges"
| "double_loop (Suc n) nodeIndent captureStart captureEnd s =
     (if ch s = 0 then throwError s ''unexpected end of the stream within a double quoted scalar''
      else if ch s = 34 then
        rbind (captureSegment s captureStart (l_position s) True) (\<lambda>(_, s). Inr (True, move 1 s))
      else if ch s = 92 then
        rbind (captureSegment s captureStart (l_position s) True) (\<lambda>(_, s).
        rbind (read_escape (move 1 s) nodeIndent) (\<lambda>(_, s).
          double_loop n nodeIndent (l_position s) (l_position s) s))
      else if is_EOL (ch s) then
        rbind (fold_line s captureStart captureEnd nodeIndent) (\<lambda>(_, s).
          double_loop n nodeIndent (l_position s) (l_position s) s)
      else if l_position s = l_lineStart s \<and> testDocumentSeparator s then
        throwError s ''unexpected end of the document within a double quoted scalar''
      else double_loop n nodeIndent captureStart (l_position s + 1) (move 1 s))"

definition readDoubleQuotedScalar :: "lstate \<Rightarrow> int \<Rightarrow> bool scan" where
  "readDoubleQuotedScalar s nodeIndent =
     (if ch s \<noteq> 34 then Inr (False, s)
      else
        let s = move 1 (start_scalar s)
        in double_loop (length (l_input s) + 1) nodeIndent (l_position s) (l_position s) s)"

section \<open>Block scalars\<close>

datatype chomping = CHOMPING_CLIP | CHOMPING_STRIP | CHOMPING_KEEP

text \<open>The header: the chomping mode, the indentation and whether it was given.\<close>

primrec header_loop :: "nat \<Rightarrow> int \<Rightarrow> chomping \<Rightarrow> int \<Rightarrow> bool \<Rightarrow> lstate \<Rightarrow> (chomping \<times> int \<times> bool) scan" where
  "header_loop 0 nodeIndent chomping textIndent detectedIndent s = Inl Diverges"
| "header_loop (Suc n) nodeIndent chomping textIndent detectedIndent s =
     (if ch s = 0 then Inr ((chomping, textIndent, detectedIndent), s)
      else
        let s = move 1 s; c = ch s; tmp = fromDecimalCode c
        in if c = 43 \<or> c = 45 then
             (if chomping = CHOMPING_CLIP then
                header_loop n nodeIndent (if c = 43 then CHOMPING_KEEP else CHOMPING_STRIP) textIndent detectedIndent s
              else throwError s ''repeat of a chomping mode identifier'')
           else if tmp \<ge> 0 then
             (if tmp = 0 then
                throwError s ''bad explicit indentation width of a block scalar; it cannot be less than one''
              else if \<not> detectedIndent then header_loop n nodeIndent chomping (nodeIndent + tmp - 1) True s
              else throwError s ''repeat of an indentation width identifier'')
           else Inr ((chomping, textIndent, detectedIndent), s))"

definition header_rest :: "lstate \<Rightarrow> unit scan" where
  "header_rest s =
     (if is_WHITE_SPACE (ch s) then
        rbind (scan_while is_WHITE_SPACE (move 1 s)) (\<lambda>(_, s).
          if ch s = 35 then scan_while (\<lambda>c. \<not> is_EOL c \<and> c \<noteq> 0) (move 1 s) else Inr ((), s))
      else Inr ((), s))"

text \<open>The indentation of a line: spaces up to \<open>textIndent\<close>, or all of them while it is not known.\<close>

primrec indent_loop :: "nat \<Rightarrow> bool \<Rightarrow> int \<Rightarrow> lstate \<Rightarrow> unit scan" where
  "indent_loop 0 detectedIndent textIndent s = Inl Diverges"
| "indent_loop (Suc n) detectedIndent textIndent s =
     (if (\<not> detectedIndent \<or> int (l_lineIndent s) < textIndent) \<and> ch s = 32 then
        indent_loop n detectedIndent textIndent (move 1 (s\<lparr> l_lineIndent := l_lineIndent s + 1 \<rparr>))
      else Inr ((), s))"

definition block_end :: "chomping \<Rightarrow> bool \<Rightarrow> nat \<Rightarrow> lstate \<Rightarrow> lstate" where
  "block_end chomping didReadContent emptyLines s =
     (case chomping of
        CHOMPING_KEEP \<Rightarrow> append_result s (repeat [10] (if didReadContent then 1 + int emptyLines else int emptyLines))
      | CHOMPING_CLIP \<Rightarrow> if didReadContent then append_result s [10] else s
      | CHOMPING_STRIP \<Rightarrow> s)"

text \<open>What separates a line from the one before it, and whether it counts as more indented.\<close>

definition block_breaks :: "bool \<Rightarrow> int \<Rightarrow> bool \<Rightarrow> bool \<Rightarrow> nat \<Rightarrow> bool \<times> jsstr" where
  "block_breaks folded c atMoreIndented didReadContent emptyLines =
     (if folded then
        if is_WHITE_SPACE c then
          (True, repeat [10] (if didReadContent then 1 + int emptyLines else int emptyLines))
        else if atMoreIndented then (False, repeat [10] (int emptyLines + 1))
        else if emptyLines = 0 then (False, if didReadContent then js '' '' else [])
        else (False, repeat [10] (int emptyLines))
      else (atMoreIndented, repeat [10] (if didReadContent then 1 + int emptyLines else int emptyLines)))"

primrec block_loop :: "nat \<Rightarrow> bool \<Rightarrow> chomping \<Rightarrow> int \<Rightarrow> bool \<Rightarrow> bool \<Rightarrow> nat \<Rightarrow> bool \<Rightarrow> lstate \<Rightarrow> bool scan" where
  "block_loop 0 folded chomping textIndent detectedIndent didReadContent emptyLines atMoreIndented s = Inl Diverges"
| "block_loop (Suc n) folded chomping textIndent detectedIndent didReadContent emptyLines atMoreIndented s =
     (if ch s = 0 then Inr (True, s)
      else
        rbind (readLineBreak s) (\<lambda>(_, s).
        rbind (indent_loop (length (l_input s) + 1) detectedIndent textIndent (s\<lparr> l_lineIndent := 0 \<rparr>)) (\<lambda>(_, s).
          let textIndent = (if \<not> detectedIndent \<and> int (l_lineIndent s) > textIndent then int (l_lineIndent s) else textIndent)
          in if is_EOL (ch s) then
               block_loop n folded chomping textIndent detectedIndent didReadContent (emptyLines + 1) atMoreIndented s
             else if int (l_lineIndent s) < textIndent then
               Inr (True, block_end chomping didReadContent emptyLines s)
             else
               let (atMoreIndented, breaks) = block_breaks folded (ch s) atMoreIndented didReadContent emptyLines;
                   s = append_result s breaks;
                   captureStart = l_position s
               in rbind (scan_while (\<lambda>c. \<not> is_EOL c \<and> c \<noteq> 0) s) (\<lambda>(_, s).
                  rbind (captureSegment s captureStart (l_position s) False) (\<lambda>(_, s).
                    block_loop n folded chomping textIndent True True 0 atMoreIndented s)))))"

definition readBlockScalar :: "lstate \<Rightarrow> int \<Rightarrow> bool scan" where
  "readBlockScalar s nodeIndent =
     (if ch s \<noteq> 124 \<and> ch s \<noteq> 62 then Inr (False, s)
      else
        let folded = (ch s = 62)
        in rbind (header_loop (length (l_input s) + 1) nodeIndent CHOMPING_CLIP nodeIndent False (start_scalar s))
             (\<lambda>((chomping, textIndent, detectedIndent), s).
           rbind (header_rest s) (\<lambda>(_, s).
             block_loop (length (l_input s) + 1) folded chomping textIndent detectedIndent False 0 False s)))"

section \<open>Properties of a node\<close>

text \<open>The loop over the characters of a tag: the handle, whether it was named, and where the suffix begins.\<close>

primrec tag_loop :: "nat \<Rightarrow> bool \<Rightarrow> jsstr \<Rightarrow> nat \<Rightarrow> lstate \<Rightarrow> (jsstr \<times> nat) scan" where
  "tag_loop 0 isNamed tagHandle start s = Inl Diverges"
| "tag_loop (Suc n) isNamed tagHandle start s =
     (if ch s \<noteq> 0 \<and> \<not> is_WS_OR_EOL (ch s) then
        if ch s = 33 then
          (if \<not> isNamed then
             let handle = str_slice (l_input s) (start - 1) (l_position s + 1)
             in if \<not> re_test PATTERN_TAG_HANDLE handle then
                  throwError s ''named tag handle cannot contain such characters''
                else tag_loop n True handle (l_position s + 1) (move 1 s)
           else throwError s ''tag suffix cannot contain exclamation marks'')
        else tag_loop n isNamed tagHandle start (move 1 s)
      else Inr ((tagHandle, start), s))"

definition throwWith :: "lstate \<Rightarrow> jsstr \<Rightarrow> yerror + 'a" where
  "throwWith s reason = Inl (generateError s reason)"

definition resolve_tag :: "lstate \<Rightarrow> jsstr \<Rightarrow> jsstr \<Rightarrow> yerror + jsstr" where
  "resolve_tag s tagHandle tagName =
     (case map_of (l_tagMap s) tagHandle of
        Some prefix \<Rightarrow> Inr (prefix @ tagName)
      | None \<Rightarrow>
          (if tagHandle = js ''!'' then Inr (js ''!'' @ tagName)
           else if tagHandle = js ''!!'' then Inr (js ''tag:yaml.org,2002:'' @ tagName)
           else throwWith s (js ''undeclared tag handle \"'' @ tagHandle @ js ''\"'')))"

definition check_tag_uri :: "lstate \<Rightarrow> jsstr \<Rightarrow> yerror + unit" where
  "check_tag_uri s tagName =
     (if tagName \<noteq> [] \<and> \<not> re_test PATTERN_TAG_URI tagName then
        throwWith s (js ''tag name cannot contain such characters: '' @ tagName)
      else Inr ())"

definition readTagProperty :: "lstate \<Rightarrow> bool scan" where
  "readTagProperty s =
     (if ch s \<noteq> 33 then Inr (False, s)
      else if l_tag s \<noteq> None then throwError s ''duplication of a tag property''
      else
        let s = move 1 s
        in if ch s = 60 then
             let s = move 1 s; start = l_position s
             in rbind (scan_while (\<lambda>c. c \<noteq> 0 \<and> c \<noteq> 62) (move 1 s)) (\<lambda>(_, s).
                  if l_position s < l_length s then
                    let tagName = str_slice (l_input s) start (l_position s); s = move 1 s
                    in rbind (check_tag_uri s tagName) (\<lambda>_. Inr (True, s\<lparr> l_tag := Some tagName \<rparr>))
                  else throwError s ''unexpected end of the stream within a verbatim tag'')
           else
             let named = (ch s = 33); s = (if named then move 1 s else s)
             in rbind (tag_loop (length (l_input s) + 1) named (if named then js ''!!'' else js ''!'') (l_position s) s)
                  (\<lambda>((tagHandle, start), s).
                    let tagName = str_slice (l_input s) start (l_position s)
                    in if list_ex (\<lambda>c. c \<in> set (js '',[]{}'')) tagName then
                         throwError s ''tag suffix cannot contain flow indicator characters''
                       else
                         rbind (check_tag_uri s tagName) (\<lambda>_.
                         rbind (resolve_tag s tagHandle tagName) (\<lambda>tag. Inr (True, s\<lparr> l_tag := Some tag \<rparr>)))))"

definition name_char :: "int \<Rightarrow> bool" where
  "name_char c = (c \<noteq> 0 \<and> \<not> is_WS_OR_EOL c \<and> \<not> is_FLOW_INDICATOR c)"

definition readAnchorProperty :: "lstate \<Rightarrow> bool scan" where
  "readAnchorProperty s =
     (if ch s \<noteq> 38 then Inr (False, s)
      else if l_anchor s \<noteq> None then throwError s ''duplication of an anchor property''
      else
        let s = move 1 s; start = l_position s
        in rbind (scan_while name_char s) (\<lambda>(_, s).
             if l_position s = start then throwError s ''name of an anchor node must contain at least one character''
             else Inr (True, s\<lparr> l_anchor := Some (str_slice (l_input s) start (l_position s)) \<rparr>)))"

text \<open>
  An alias. The table of the anchors is a plain object, asked through its own \<^verbatim>\<open>hasOwnProperty\<close>: an anchor of
  that name hides the method, and calling the value in its place fails.
\<close>

definition readAlias :: "lstate \<Rightarrow> bool scan" where
  "readAlias s =
     (if ch s \<noteq> 42 then Inr (False, s)
      else
        let s = move 1 s; start = l_position s
        in rbind (scan_while name_char s) (\<lambda>(_, s).
             if l_position s = start then throwError s ''name of an alias node must contain at least one character''
             else
               let alias = str_slice (l_input s) start (l_position s)
               in if hasOwn (l_anchorMap s) (js ''hasOwnProperty'') then Inl (JsError not_a_function)
                  else if \<not> hasOwn (l_anchorMap s) alias then
                    throwWith s (js ''unidentified alias \"'' @ alias @ js ''\"'')
                  else
                    rbind (skipSeparationSpace (s\<lparr> l_result := prop_get (l_anchorMap s) alias \<rparr>) True (-1))
                      (\<lambda>(_, s). Inr (True, s))))"

section \<open>No scan runs past the input\<close>

text \<open>
  A state of a loader: the input ends with the NUL that was appended, after a line break unless it is empty,
  the position is on a character of it, and a position at the start of a line means that no indentation was
  counted.
\<close>

definition ready :: "lstate \<Rightarrow> bool" where
  "ready s \<longleftrightarrow> l_input s \<noteq> [] \<and> last (l_input s) = 0 \<and> l_position s < length (l_input s)
     \<and> l_length s = length (l_input s) - 1 \<and> l_lineStart s \<le> l_position s
     \<and> (l_position s = l_lineStart s \<longrightarrow> l_lineIndent s = 0)
     \<and> (1 < length (l_input s) \<longrightarrow> is_EOL (uint (l_input s ! (length (l_input s) - 2))))"

definition adv :: "lstate \<Rightarrow> lstate \<Rightarrow> bool" where
  "adv s s' \<longleftrightarrow> ready s' \<and> l_input s' = l_input s \<and> l_position s \<le> l_position s'
     \<and> (l_position s' = l_position s \<longrightarrow> l_lineStart s' = l_lineStart s)"

text \<open>The step from \<open>s\<close> ends, and when it does not throw it advances to a state with the property \<open>Q\<close>.\<close>

definition gives :: "lstate \<Rightarrow> 'a scan \<Rightarrow> ('a \<Rightarrow> lstate \<Rightarrow> bool) \<Rightarrow> bool" where
  "gives s m Q \<longleftrightarrow> m \<noteq> Inl Diverges \<and> (\<forall>a s'. m = Inr (a, s') \<longrightarrow> adv s s' \<and> Q a s')"

declare One_nat_def [simp del]

named_theorems scan_ok \<open>steps that end and advance\<close>

lemma adv_refl [simp]: "adv s s \<longleftrightarrow> ready s"
  by (simp add: adv_def)

lemma adv_trans: "adv s t \<Longrightarrow> adv t u \<Longrightarrow> adv s u"
  by (simp add: adv_def)

lemma adv_ready: "adv s s' \<Longrightarrow> ready s'"
  by (simp add: adv_def)

lemma adv_pos: "adv s s' \<Longrightarrow> l_position s \<le> l_position s'"
  by (simp add: adv_def)

text \<open>The loops are bounded by the rest of the input.\<close>

lemma adv_rest:
  "adv s t \<Longrightarrow> l_position s < l_position t \<Longrightarrow> length (l_input s) - l_position s < Suc n \<Longrightarrow>
   length (l_input t) - l_position t < n"
  unfolding adv_def ready_def by (elim conjE) simp

lemma gives_Inr [simp]: "gives s (Inr (a, s')) Q \<longleftrightarrow> adv s s' \<and> Q a s'"
  by (simp add: gives_def)

lemma throwError_ends [simp]: "throwError s r \<noteq> Inl Diverges" "throwError s r \<noteq> Inr x"
  "throwWith s t \<noteq> Inl Diverges" "throwWith s t \<noteq> Inr x"
  by (simp_all add: throwError_def throwWith_def generateError_def)

lemma gives_throw [simp]: "gives s (throwError t r) Q" "gives s (throwWith t w) Q"
  by (simp_all add: gives_def)

lemma gives_bind:
  assumes "gives s m Q" and "\<And>a s'. adv s s' \<Longrightarrow> Q a s' \<Longrightarrow> gives s (f a s') R"
  shows "gives s (rbind m (case_prod f)) R"
proof (cases m)
  case (Inl e)
  then show ?thesis using assms(1) by (simp add: gives_def)
next
  case (Inr x)
  obtain a s' where x: "x = (a, s')" by (cases x)
  then have "adv s s'" "Q a s'" using assms(1) Inr by (auto simp: gives_def)
  then show ?thesis using assms(2) Inr x by simp
qed

lemma gives_trans: "adv s t \<Longrightarrow> gives t m Q \<Longrightarrow> gives s m Q"
  by (auto simp: gives_def intro: adv_trans)

lemma gives_mono: "gives s m Q \<Longrightarrow> (\<And>a s'. adv s s' \<Longrightarrow> Q a s' \<Longrightarrow> R a s') \<Longrightarrow> gives s m R"
  by (auto simp: gives_def)

text \<open>A step from a later state, in the middle of a computation from \<open>s\<close>.\<close>

lemma gives_bind_at:
  assumes "adv s t" and "gives t m Q" and "\<And>a s'. adv s s' \<Longrightarrow> adv t s' \<Longrightarrow> Q a s' \<Longrightarrow> gives s (f a s') R"
  shows "gives s (rbind m (case_prod f)) R"
proof (cases m)
  case (Inl e)
  then show ?thesis using assms(2) by (simp add: gives_def)
next
  case (Inr x)
  obtain a s' where x: "x = (a, s')" by (cases x)
  then have "adv t s'" "Q a s'" using assms(2) Inr by (auto simp: gives_def)
  then show ?thesis using assms(1,3) Inr x by (simp add: adv_trans)
qed

subsection \<open>Characters\<close>

lemma ch_nth: "ready s \<Longrightarrow> ch s = uint (l_input s ! l_position s)"
  by (simp add: ch_def charCodeAt_def ready_def)

lemma ready_next:
  assumes "ready s" and "ch s \<noteq> 0"
  shows "Suc (l_position s) < length (l_input s)"
proof (rule ccontr)
  assume "\<not> Suc (l_position s) < length (l_input s)"
  then have "l_position s = length (l_input s) - 1" using assms(1) by (auto simp: ready_def)
  moreover have "l_input s ! (length (l_input s) - 1) = 0"
    using assms(1) last_conv_nth [of "l_input s"] by (simp add: ready_def)
  ultimately have "l_input s ! l_position s = 0" by simp
  then show False using assms by (simp add: ch_nth)
qed

lemma adv_move1: "ready s \<Longrightarrow> ch s \<noteq> 0 \<Longrightarrow> adv s (move 1 s)"
  using ready_next [of s] by (auto simp: adv_def ready_def move_def)

lemma move_fields [simp]:
  "l_input (move k s) = l_input s" "l_position (move k s) = l_position s + k" "l_line (move k s) = l_line s"
  "l_lineStart (move k s) = l_lineStart s" "l_lineIndent (move k s) = l_lineIndent s" "l_length (move k s) = l_length s"
  "l_tag (move k s) = l_tag s" "l_anchor (move k s) = l_anchor s" "l_result (move k s) = l_result s"
  "l_kind (move k s) = l_kind s" "l_store (move k s) = l_store s"
  by (simp_all add: move_def)

lemma move_move [simp]: "move j (move k s) = move (k + j) s"
  by (simp add: move_def)

lemma ch_move: "ch (move k s) = ch_at s (int k)"
  by (simp add: ch_def ch_at_def)

text \<open>Fields that the invariant does not look at.\<close>

lemma ready_upd [simp]:
  "ready (s\<lparr> l_kind := k \<rparr>) = ready s" "ready (s\<lparr> l_result := v \<rparr>) = ready s" "ready (s\<lparr> l_tag := t \<rparr>) = ready s"
  "ready (s\<lparr> l_anchor := a \<rparr>) = ready s" "ready (s\<lparr> l_store := h \<rparr>) = ready s" "ready (s\<lparr> l_warnings := w \<rparr>) = ready s"
  "ready (s\<lparr> l_anchorMap := am \<rparr>) = ready s" "ready (s\<lparr> l_tagMap := tm \<rparr>) = ready s" "ready (s\<lparr> l_version := v' \<rparr>) = ready s"
  "ready (s\<lparr> l_checkLineBreaks := b \<rparr>) = ready s" "ready (s\<lparr> l_documents := d \<rparr>) = ready s"
  "ready (s\<lparr> l_line := n \<rparr>) = ready s"
  by (simp_all add: ready_def)

text \<open>Two states that differ only in such fields.\<close>

definition still :: "lstate \<Rightarrow> lstate \<Rightarrow> bool" where
  "still s s' \<longleftrightarrow> l_input s' = l_input s \<and> l_position s' = l_position s \<and> l_line s' = l_line s \<and> l_length s' = l_length s
     \<and> l_lineStart s' = l_lineStart s \<and> l_lineIndent s' = l_lineIndent s"

lemma still_refl [simp]: "still s s"
  by (simp add: still_def)

lemma still_upd [simp]:
  "still s (s'\<lparr> l_kind := k \<rparr>) = still s s'" "still s (s'\<lparr> l_result := v \<rparr>) = still s s'" "still s (s'\<lparr> l_tag := t \<rparr>) = still s s'"
  "still s (s'\<lparr> l_anchor := a \<rparr>) = still s s'" "still s (s'\<lparr> l_store := h \<rparr>) = still s s'" "still s (s'\<lparr> l_warnings := w \<rparr>) = still s s'"
  "still s (s'\<lparr> l_anchorMap := am \<rparr>) = still s s'" "still s (s'\<lparr> l_tagMap := tm \<rparr>) = still s s'"
  "still s (s'\<lparr> l_version := v' \<rparr>) = still s s'" "still s (s'\<lparr> l_checkLineBreaks := b \<rparr>) = still s s'"
  "still s (s'\<lparr> l_documents := d \<rparr>) = still s s'"
  by (simp_all add: still_def)

lemma still_ready: "still s s' \<Longrightarrow> ready s' = ready s"
  by (simp add: still_def ready_def)

lemma still_adv: "still s s' \<Longrightarrow> ready s \<Longrightarrow> adv s s'"
  by (simp add: adv_def still_ready) (simp add: still_def)

lemma still_ch: "still s s' \<Longrightarrow> ch s' = ch s" "still s s' \<Longrightarrow> ch_at s' k = ch_at s k"
  by (simp_all add: still_def ch_def ch_at_def)

lemma still_trans: "still s t \<Longrightarrow> still t u \<Longrightarrow> still s u"
  by (simp add: still_def)

lemma still_pieces [simp]:
  "still s (append_result s' t) = still s s'" "still s (writeFoldedLines s' n) = still s s'"
  "still s (throwWarning s' w) = still s s'" "still s (start_scalar s') = still s s'"
  by (simp_all add: append_result_def writeFoldedLines_def throwWarning_def start_scalar_def)

subsection \<open>Loops over characters\<close>

lemma skip_while_stops:
  assumes "input \<noteq> []" and "last input = 0" and "\<not> p 0" and "pos < length input"
  shows "\<exists>k. skip_while p input pos = Some k \<and> pos \<le> k \<and> k < length input \<and> \<not> p (uint (input ! k))
    \<and> (\<forall>i. pos \<le> i \<longrightarrow> i < k \<longrightarrow> p (uint (input ! i)))"
  using assms
proof (induction p input pos rule: skip_while.induct)
  case (1 p input pos)
  have c: "charCodeAt input (int pos) = uint (input ! pos)" using 1 by (simp add: charCodeAt_def)
  show ?case
  proof (cases "p (uint (input ! pos))")
    case True
    have "Suc pos < length input"
    proof (rule ccontr)
      assume "\<not> Suc pos < length input"
      then have "pos = length input - 1" using 1 by auto
      then have "input ! pos = 0" using 1 last_conv_nth [of input] by simp
      then show False using True 1 by simp
    qed
    then obtain k where k: "skip_while p input (Suc pos) = Some k" "Suc pos \<le> k" "k < length input" "\<not> p (uint (input ! k))"
      "\<forall>i. Suc pos \<le> i \<longrightarrow> i < k \<longrightarrow> p (uint (input ! i))"
      using 1 True c by auto
    moreover have "skip_while p input pos = Some k"
      using True c k 1 by (subst skip_while.simps) simp
    moreover have "\<forall>i. pos \<le> i \<longrightarrow> i < k \<longrightarrow> p (uint (input ! i))"
      using k(5) True by (metis Suc_leI le_neq_implies_less)
    ultimately show ?thesis by auto
  next
    case False
    then have "skip_while p input pos = Some pos" using c by (subst skip_while.simps) simp
    then show ?thesis using False 1 by auto
  qed
qed

lemma scan_while_ok [scan_ok]:
  assumes "ready s" and "\<not> p 0"
  shows "gives s (scan_while p s) (\<lambda>_ s'. \<not> p (ch s') \<and> s' = s\<lparr> l_position := l_position s' \<rparr> \<and> (p (ch s) \<longrightarrow> l_position s < l_position s'))"
proof -
  obtain k where k: "skip_while p (l_input s) (l_position s) = Some k" "l_position s \<le> k" "k < length (l_input s)"
    "\<not> p (uint (l_input s ! k))" "\<forall>i. l_position s \<le> i \<longrightarrow> i < k \<longrightarrow> p (uint (l_input s ! i))"
    using skip_while_stops [of "l_input s" p "l_position s"] assms by (auto simp: ready_def)
  have r: "ready (s\<lparr> l_position := k \<rparr>)" using k assms(1) by (auto simp: ready_def)
  then have "ch (s\<lparr> l_position := k \<rparr>) = uint (l_input s ! k)" by (simp add: ch_nth)
  moreover have "l_position s < k" if "p (ch s)"
    using that k(2,4) assms(1) by (metis ch_nth le_neq_implies_less)
  ultimately show ?thesis using k r by (simp add: scan_while_def adv_def)
qed

subsection \<open>White space\<close>

lemma captureSegment_ok [scan_ok]:
  assumes "ready s"
  shows "gives s (captureSegment s a b j) (\<lambda>_ s'. still s s')"
  using assms by (auto simp: captureSegment_def Let_def intro: still_adv)

text \<open>After a line break the indentation of the new line is not yet counted.\<close>

lemma readLineBreak_ok:
  assumes "ready s"
  shows "readLineBreak s \<noteq> Inl Diverges"
    and "readLineBreak s = Inr (a, s') \<Longrightarrow> is_EOL (ch s) \<and> adv s (s'\<lparr> l_lineIndent := 0 \<rparr>) \<and> l_position s < l_position s'
      \<and> l_lineIndent s' = l_lineIndent s \<and> l_lineStart s' = l_position s'"
proof -
  show "readLineBreak s \<noteq> Inl Diverges"
    by (auto simp: readLineBreak_def rbind_Inl_iff)
  assume r: "readLineBreak s = Inr (a, s')"
  have two: "Suc (Suc (l_position s)) < length (l_input s)" if "ch s = 13" "ch (move 1 s) = 10"
  proof -
    have "ready (move 1 s)" using adv_move1 [OF assms] that by (auto dest: adv_ready)
    then show ?thesis using ready_next [of "move 1 s"] that by simp
  qed
  have one: "Suc (l_position s) < length (l_input s)" if "ch s = 13 \<or> ch s = 10"
    using ready_next [OF assms] that by auto
  show "is_EOL (ch s) \<and> adv s (s'\<lparr> l_lineIndent := 0 \<rparr>) \<and> l_position s < l_position s'
      \<and> l_lineIndent s' = l_lineIndent s \<and> l_lineStart s' = l_position s'"
    using r assms one two
    by (auto simp: readLineBreak_def adv_def ready_def is_EOL_def split: if_splits)
qed

lemma skip_comment_ok [scan_ok]:
  assumes "ready s"
  shows "gives s (skip_comment b s) (\<lambda>_ s'. s' = s\<lparr> l_position := l_position s' \<rparr>)"
proof (cases "b \<and> ch s = 35")
  case True
  then have a: "adv s (move 1 s)" using assms by (intro adv_move1) auto
  have "gives (move 1 s) (scan_while (\<lambda>c. c \<noteq> 10 \<and> c \<noteq> 13 \<and> c \<noteq> 0) (move 1 s)) (\<lambda>_ s'. s' = s\<lparr> l_position := l_position s' \<rparr>)"
    by (rule gives_mono [OF scan_while_ok]) (use a in \<open>auto dest: adv_ready simp: move_def\<close>)
  then show ?thesis using True a by (simp add: skip_comment_def gives_trans)
next
  case False
  then show ?thesis using assms by (auto simp: skip_comment_def)
qed

lemma skip_indent_ok [scan_ok]:
  assumes "ready s"
  shows "gives s (skip_indent s) (\<lambda>_ s'. l_line s' = l_line s)"
  unfolding skip_indent_def
proof (rule gives_bind [OF scan_while_ok [OF assms]])
  fix a s'
  assume "adv s s'" and "\<not> ch s' = 32 \<and> s' = s\<lparr> l_position := l_position s' \<rparr> \<and> (ch s = 32 \<longrightarrow> l_position s < l_position s')"
  then have st: "s' = s\<lparr> l_position := l_position s' \<rparr>" and a: "adv s s'" by auto
  have "l_lineStart s' = l_lineStart s" "l_line s' = l_line s" "l_lineIndent s' = l_lineIndent s"
    by (subst st, simp)+
  then show "gives s (Inr ((), s'\<lparr> l_lineIndent := l_lineIndent s' + (l_position s' - l_position s) \<rparr>))
      (\<lambda>_ s'. l_line s' = l_line s)"
    using a assms by (auto simp: adv_def ready_def)
qed simp

text \<open>A line break, and the spaces of the next line.\<close>

definition next_line :: "lstate \<Rightarrow> unit scan" where
  "next_line s = rbind (readLineBreak s) (\<lambda>(_, s). skip_indent (s\<lparr> l_lineIndent := 0 \<rparr>))"

lemma next_line_ok:
  assumes "ready s"
  shows "gives s (next_line s) (\<lambda>_ s'. l_position s < l_position s')"
proof -
  have "gives s (skip_indent (t\<lparr> l_lineIndent := 0 \<rparr>)) (\<lambda>_ s'. l_position s < l_position s')"
    if r: "readLineBreak s = Inr (a, t)" for a t
  proof -
    note l = readLineBreak_ok(2) [OF assms r]
    have "gives (t\<lparr> l_lineIndent := 0 \<rparr>) (skip_indent (t\<lparr> l_lineIndent := 0 \<rparr>)) (\<lambda>_ s'. l_position s < l_position s')"
      by (rule gives_mono [OF skip_indent_ok]) (use l in \<open>auto simp: adv_def\<close>)
    then show ?thesis using l by (auto intro: gives_trans)
  qed
  then show ?thesis
    unfolding next_line_def
    by (cases "readLineBreak s") (use readLineBreak_ok(1) [OF assms] in \<open>auto simp: gives_def\<close>)
qed

lemma separation_loop_Suc:
  "separation_loop (Suc n) allowComments lineBreaks s =
     (if ch s = 0 then Inr (lineBreaks, s)
      else
        rbind (scan_while is_WHITE_SPACE s) (\<lambda>(_, s).
        rbind (skip_comment allowComments s) (\<lambda>(_, s).
          if is_EOL (ch s) then rbind (next_line s) (\<lambda>(_, s). separation_loop n allowComments (Suc lineBreaks) s)
          else Inr (lineBreaks, s))))"
  by (simp add: next_line_def rbind_assoc case_prod_beta' cong: if_cong)

lemma white_0 [simp]: "\<not> is_WHITE_SPACE 0" "\<not> is_EOL 0" "\<not> is_WS_OR_EOL 0"
  by (simp_all add: is_WHITE_SPACE_def is_EOL_def is_WS_OR_EOL_def)

lemma separation_loop_ok:
  assumes "ready s" and "length (l_input s) - l_position s < n"
  shows "gives s (separation_loop n c k s)
    (\<lambda>k' s'. \<not> is_EOL (ch s') \<and> (is_EOL (ch s) \<longrightarrow> l_position s < l_position s'))"
  using assms
proof (induction n arbitrary: s k)
  case (Suc n)
  show ?case
  proof (cases "ch s = 0")
    case True
    then show ?thesis using Suc by (simp add: separation_loop_Suc del: separation_loop.simps)
  next
    case False
    show ?thesis unfolding separation_loop_Suc if_not_P [OF False]
    proof (rule gives_bind [OF scan_while_ok [OF Suc(2)]])
      fix s1
      assume a1: "adv s s1"
      show "gives s (rbind (skip_comment c s1) (\<lambda>(_, s). if is_EOL (ch s)
            then rbind (next_line s) (\<lambda>(_, s). separation_loop n c (Suc k) s) else Inr (k, s)))
          (\<lambda>k' s'. \<not> is_EOL (ch s') \<and> (is_EOL (ch s) \<longrightarrow> l_position s < l_position s'))"
      proof (rule gives_bind_at [OF a1 skip_comment_ok [OF adv_ready [OF a1]]])
        fix s2
        assume a2: "adv s s2" "adv s1 s2"
        show "gives s (if is_EOL (ch s2) then rbind (next_line s2) (\<lambda>(_, s). separation_loop n c (Suc k) s) else Inr (k, s2))
          (\<lambda>k' s'. \<not> is_EOL (ch s') \<and> (is_EOL (ch s) \<longrightarrow> l_position s < l_position s'))"
        proof (cases "is_EOL (ch s2)")
          case True
          show ?thesis unfolding if_P [OF True]
          proof (rule gives_bind_at [OF a2(1) next_line_ok [OF adv_ready [OF a2(1)]]])
            fix s3
            assume a3: "adv s s3" "adv s2 s3" and p3: "l_position s2 < l_position s3"
            have "length (l_input s3) - l_position s3 < n"
              using adv_rest [OF a3(1) _ Suc(3)] adv_pos [OF a2(1)] p3 by simp
            then have "gives s3 (separation_loop n c (Suc k) s3) (\<lambda>k' s'. \<not> is_EOL (ch s') \<and> (is_EOL (ch s) \<longrightarrow> l_position s < l_position s'))"
              using Suc(1) [of s3 "Suc k"] a2 a3 p3 by (auto simp: adv_def elim!: gives_mono)
            then show "gives s (separation_loop n c (Suc k) s3)
                (\<lambda>k' s'. \<not> is_EOL (ch s') \<and> (is_EOL (ch s) \<longrightarrow> l_position s < l_position s'))"
              using a3 by (auto intro: gives_trans)
          qed
        next
          case False
          have "l_position s < l_position s2" if e: "is_EOL (ch s)"
          proof (rule ccontr)
            assume "\<not> l_position s < l_position s2"
            then have "l_position s2 = l_position s" using a2 by (simp add: adv_def)
            then have "ch s2 = ch s" using a2 by (simp add: ch_def adv_def)
            then show False using e False by simp
          qed
          then show ?thesis using False a2 by simp
        qed
      qed
    qed simp
  qed
qed simp

lemma skipSeparationSpace_ok [scan_ok]:
  assumes "ready s"
  shows "gives s (skipSeparationSpace s c k)
    (\<lambda>_ s'. \<not> is_EOL (ch s') \<and> (is_EOL (ch s) \<longrightarrow> l_position s < l_position s'))"
  unfolding skipSeparationSpace_def
proof (rule gives_bind [OF separation_loop_ok [OF assms]])
  fix a s'
  assume "adv s s'" "\<not> is_EOL (ch s') \<and> (is_EOL (ch s) \<longrightarrow> l_position s < l_position s')"
  moreover have "ch (throwWarning s' w) = ch s'" "l_position (throwWarning s' w) = l_position s'" for w
    using still_ch(1) [of s' "throwWarning s' w"] by (simp_all add: throwWarning_def)
  moreover have "adv s' (throwWarning s' w)" for w
    using calculation by (intro still_adv) (auto dest: adv_ready)
  ultimately show "gives s (Inr (a,
      if k \<noteq> -1 \<and> a \<noteq> 0 \<and> int (l_lineIndent s') < k then throwWarning s' (js ''deficient indentation'') else s'))
      (\<lambda>_ s'. \<not> is_EOL (ch s') \<and> (is_EOL (ch s) \<longrightarrow> l_position s < l_position s'))"
    by (auto intro: adv_trans)
qed (use assms in \<open>simp add: ready_def\<close>)

subsection \<open>Scalars\<close>

lemma plain_capture_ok:
  assumes "ready s" and "l_position s0 \<le> e" and "adv s0 s" and "e \<le> l_position s"
    and "\<not> pending \<Longrightarrow> l_lineStart s \<le> e \<and> (e = l_lineStart s \<longrightarrow> l_lineIndent s = 0)"
  shows "gives s0 (plain_capture s a e pending line) (\<lambda>(a', e') s'. still s s' \<and> e \<le> e' \<and> e' \<le> l_position s
    \<and> l_lineStart s \<le> e' \<and> (e' = l_lineStart s \<longrightarrow> l_lineIndent s = 0))"
proof (cases pending)
  case True
  have r: "l_lineStart s \<le> l_position s" "l_position s = l_lineStart s \<longrightarrow> l_lineIndent s = 0" "l_position s0 \<le> l_position s"
    using assms by (auto simp: ready_def adv_def)
  show ?thesis unfolding plain_capture_def if_P [OF True]
  proof (rule gives_bind_at [OF assms(3) captureSegment_ok [OF assms(1)]])
    fix t
    assume "still s t"
    define u where "u = writeFoldedLines t (l_line t - line)"
    have u: "still s u" using \<open>still s t\<close> by (simp add: u_def)
    have "adv s0 u" using adv_trans [OF assms(3) still_adv [OF u assms(1)]] .
    moreover have "l_position u = l_position s" using u by (simp add: still_def)
    ultimately show "gives s0 (let s = writeFoldedLines t (l_line t - line) in Inr ((l_position s, l_position s), s))
        (\<lambda>(a', e') s'. still s s' \<and> e \<le> e' \<and> e' \<le> l_position s
           \<and> l_lineStart s \<le> e' \<and> (e' = l_lineStart s \<longrightarrow> l_lineIndent s = 0))"
      using r u assms(4) by (simp add: u_def [symmetric])
  qed
next
  case False
  then show ?thesis using assms by (auto simp: plain_capture_def)
qed

lemma plain_loop_ok:
  assumes "adv s0 s" and "l_position s0 \<le> e" and "e \<le> l_position s" and "pending \<Longrightarrow> \<not> is_EOL (ch s)"
    and "\<not> pending \<Longrightarrow> l_lineStart s \<le> e \<and> (e = l_lineStart s \<longrightarrow> l_lineIndent s = 0)"
    and "length (l_input s) - l_position s < n"
    and "l_position s0 < e \<or> l_position s = l_position s0 \<and> \<not> is_WHITE_SPACE (ch s) \<and> \<not> is_EOL (ch s)"
  shows "gives s0 (plain_loop n i w a e pending line s) (\<lambda>_ _. True)"
  using assms
proof (induction n arbitrary: s a e pending line)
  case (Suc n)
  have r: "ready s" using Suc(2) by (rule adv_ready)
  let ?step = "rbind (plain_capture s a e pending line) (\<lambda>((a, e), s').
      plain_loop n i w a (if is_WHITE_SPACE (ch s) then e else l_position s' + 1) False line (move 1 s'))"
  have step: "gives s0 ?step (\<lambda>_ _. True)" if nz: "ch s \<noteq> 0"
  proof (rule gives_bind [OF plain_capture_ok [OF r Suc(3,2,4) Suc(6)]], goal_cases)
    case (2 x s')
    then obtain a' e' where x: "x = (a', e')" and st: "still s s'" and e': "e \<le> e'" "e' \<le> l_position s"
      "l_lineStart s \<le> e'" "e' = l_lineStart s \<longrightarrow> l_lineIndent s = 0" by (cases x) auto
    have m: "adv s' (move 1 s')" using st nz r by (intro adv_move1) (simp_all add: still_ready still_ch)
    have s': "adv s0 s'" using adv_trans [OF Suc(2) still_adv [OF st r]] .
    have pos: "l_position s' = l_position s" "l_input s' = l_input s" "l_lineStart s' = l_lineStart s" "l_lineIndent s' = l_lineIndent s"
      using st by (simp_all add: still_def)
    have "l_position s0 \<le> l_position s" "l_lineStart s \<le> l_position s" "Suc (l_position s) < length (l_input s)"
      using Suc(2) r ready_next [OF r nz] by (auto simp: adv_def ready_def)
    then show ?case
      unfolding x prod.case using m s' e' Suc(3,7,8) pos by (intro Suc(1)) (auto intro: adv_trans)
  qed (use r in simp_all)
  show ?case
  proof (cases "is_EOL (ch s)")
    case True
    then have nz: "ch s \<noteq> 0" "ch s \<noteq> 58" "ch s \<noteq> 35" and np: "\<not> pending"
      using Suc(5) by (auto simp: is_EOL_def)
    have "gives s0 (rbind (skipSeparationSpace s False (- 1)) (\<lambda>(_, s').
             if int (l_lineIndent s') \<ge> i then plain_loop n i w a e True (l_line s) s'
             else Inr ((a, e), s'\<lparr> l_position := e, l_line := l_line s, l_lineStart := l_lineStart s,
                        l_lineIndent := l_lineIndent s \<rparr>))) (\<lambda>_ _. True)"
    proof (rule gives_bind_at [OF Suc(2) skipSeparationSpace_ok [OF r]])
      fix s'
      assume s': "adv s0 s'" "adv s s'" and p: "\<not> is_EOL (ch s') \<and> (is_EOL (ch s) \<longrightarrow> l_position s < l_position s')"
      have restored: "adv s0 (s'\<lparr> l_position := e, l_line := l_line s, l_lineStart := l_lineStart s, l_lineIndent := l_lineIndent s \<rparr>)"
        using s' Suc(4) Suc(6) [OF np] Suc(8) True r unfolding adv_def ready_def by simp
      have more: "gives s0 (plain_loop n i w a e True (l_line s) s') (\<lambda>_ _. True)"
        using s' p True Suc(3,4,8) adv_rest [OF s'(2) _ Suc(7)] by (intro Suc(1)) auto
      show "gives s0 (if int (l_lineIndent s') \<ge> i then plain_loop n i w a e True (l_line s) s'
             else Inr ((a, e), s'\<lparr> l_position := e, l_line := l_line s, l_lineStart := l_lineStart s,
                        l_lineIndent := l_lineIndent s \<rparr>)) (\<lambda>_ _. True)"
        using restored more by simp
    qed
    then show ?thesis using nz True Suc(2) by (simp add: Let_def)
  next
    case False
    then show ?thesis using Suc(2) step by (auto simp: Let_def)
  qed
qed simp

lemma readPlainScalar_ok [scan_ok]:
  assumes "ready s"
  shows "gives s (readPlainScalar s i w) (\<lambda>_ _. True)"
proof -
  let ?s = "s\<lparr> l_kind := Some (js ''scalar''), l_result := VStr [] \<rparr>"
  have a: "adv s ?s" using assms by (simp add: adv_def)
  have loop: "gives s (plain_loop (length (l_input s) + 1) i w (l_position s) (l_position s) False 0 ?s) (\<lambda>_ _. True)"
    if "\<not> plain_indicator (ch s)"
    using assms a that still_ch(1) [of s ?s]
    by (intro plain_loop_ok) (auto simp: ready_def plain_indicator_def is_WS_OR_EOL_def is_WHITE_SPACE_def is_EOL_def)
  have "gives s (rbind (captureSegment s' x y False) (\<lambda>(_, s').
          if l_result s' \<noteq> VStr [] then Inr (True, s')
          else Inr (False, s'\<lparr> l_kind := l_kind s, l_result := l_result s \<rparr>))) (\<lambda>_ _. True)"
    if s': "adv s s'" for x y s'
    by (rule gives_bind_at [OF s' captureSegment_ok [OF adv_ready [OF s']]]) (auto simp: adv_def)
  then have "gives s (rbind (plain_loop (length (l_input s) + 1) i w (l_position s) (l_position s) False 0 ?s)
      (\<lambda>((x, y), s'). rbind (captureSegment s' x y False) (\<lambda>(_, s').
          if l_result s' \<noteq> VStr [] then Inr (True, s')
          else Inr (False, s'\<lparr> l_kind := l_kind s, l_result := l_result s \<rparr>)))) (\<lambda>_ _. True)"
    if "\<not> plain_indicator (ch s)"
    by (intro gives_bind [OF loop [OF that]]) (auto simp: case_prod_beta')
  then show ?thesis using assms by (simp add: readPlainScalar_def)
qed

lemma fold_line_ok:
  assumes "ready s"
  shows "gives s (fold_line s a e i) (\<lambda>_ s'. is_EOL (ch s) \<longrightarrow> l_position s < l_position s')"
  unfolding fold_line_def
proof (rule gives_bind [OF captureSegment_ok [OF assms]])
  fix t
  assume t: "adv s t" "still s t"
  have ch: "ch t = ch s" "l_position t = l_position s" using still_ch(1) [OF t(2)] t(2) unfolding still_def by simp_all
  show "gives s (rbind (skipSeparationSpace t False i) (\<lambda>(count, s). Inr ((), writeFoldedLines s count)))
      (\<lambda>_ s'. is_EOL (ch s) \<longrightarrow> l_position s < l_position s')"
  proof (rule gives_bind_at [OF t(1) skipSeparationSpace_ok [OF adv_ready [OF t(1)]]])
    fix k u
    assume u: "adv s u" "adv t u" "\<not> is_EOL (ch u) \<and> (is_EOL (ch t) \<longrightarrow> l_position t < l_position u)"
    have w: "still u (writeFoldedLines u k)" by simp
    have "adv s (writeFoldedLines u k)" using adv_trans [OF u(1) still_adv [OF w adv_ready [OF u(1)]]] .
    moreover have "l_position (writeFoldedLines u k) = l_position u" using w unfolding still_def by blast
    ultimately show "gives s (Inr ((), writeFoldedLines u k)) (\<lambda>_ s'. is_EOL (ch s) \<longrightarrow> l_position s < l_position s')"
      using u ch by simp
  qed
qed

lemma single_loop_ok:
  assumes "adv s0 s" and "length (l_input s) - l_position s < n"
  shows "gives s0 (single_loop n i a e s) (\<lambda>_ _. True)"
  using assms
proof (induction n arbitrary: s a e)
  case (Suc n)
  have r: "ready s" using Suc(2) by (rule adv_ready)
  consider "ch s = 0" | "ch s = 39" | "is_EOL (ch s)" "ch s \<noteq> 0" "ch s \<noteq> 39" | "ch s \<noteq> 0" "ch s \<noteq> 39" "\<not> is_EOL (ch s)"
    by blast
  then show ?case
  proof cases
    case 2
    have "gives s0 (let s = move 1 t in if ch s = 39 then single_loop n i (l_position s) (l_position s + 1) (move 1 s)
             else Inr (True, s)) (\<lambda>_ _. True)" if t: "adv s0 t" "still s t" for t
    proof -
      have m: "adv t (move 1 t)" using t 2 still_ch(1) [OF t(2)] by (intro adv_move1) (auto dest: adv_ready)
      have m2: "adv (move 1 t) (move 2 t)" if "ch (move 1 t) = 39"
        using adv_move1 [of "move 1 t"] m that by (auto dest: adv_ready)
      have pos: "l_position t = l_position s" "l_input t = l_input s" using t by (auto simp: still_def)
      have "gives s0 (single_loop n i (l_position (move 1 t)) (l_position (move 1 t) + 1) (move 2 t)) (\<lambda>_ _. True)"
        if c: "ch (move 1 t) = 39"
        using adv_trans [OF t(1) adv_trans [OF m m2 [OF c]]] Suc(3) pos m2 [OF c]
        by (intro Suc(1)) (auto simp: adv_def ready_def)
      then show ?thesis using adv_trans [OF t(1) m] by (simp add: Let_def)
    qed
    then have "gives s0 (rbind (captureSegment s a (l_position s) True) (\<lambda>(_, s).
          let s = move 1 s
          in if ch s = 39 then single_loop n i (l_position s) (l_position s + 1) (move 1 s)
             else Inr (True, s))) (\<lambda>_ _. True)"
      by (intro gives_bind_at [OF Suc(2) captureSegment_ok [OF r]]) auto
    then show ?thesis using 2 by simp
  next
    case 3
    have "gives s0 (rbind (fold_line s a e i) (\<lambda>(_, s). single_loop n i (l_position s) (l_position s) s)) (\<lambda>_ _. True)"
    proof (rule gives_bind_at [OF Suc(2) fold_line_ok [OF r]])
      fix t
      assume "adv s0 t" "adv s t" "is_EOL (ch s) \<longrightarrow> l_position s < l_position t"
      then show "gives s0 (single_loop n i (l_position t) (l_position t) t) (\<lambda>_ _. True)"
        using 3 Suc(3) by (intro Suc(1)) (auto simp: adv_def ready_def)
    qed
    then show ?thesis using 3 by simp
  next
    case 4
    have m: "adv s (move 1 s)" using r 4 by (intro adv_move1)
    then have "gives s0 (single_loop n i a (l_position s + 1) (move 1 s)) (\<lambda>_ _. True)"
      using Suc(2,3) by (intro Suc(1)) (auto simp: adv_def ready_def)
    then show ?thesis using 4 by simp
  qed simp
qed simp

lemma start_scalar_move:
  "ready s \<Longrightarrow> ch s \<noteq> 0 \<Longrightarrow> adv s (move 1 (start_scalar s))"
  using adv_move1 [of "start_scalar s"] still_adv [of s "start_scalar s"] still_ch(1) [of s "start_scalar s"]
  by (auto dest: adv_ready intro: adv_trans)

lemma readSingleQuotedScalar_ok [scan_ok]:
  assumes "ready s"
  shows "gives s (readSingleQuotedScalar s i) (\<lambda>_ _. True)"
proof (cases "ch s = 39")
  case True
  have "gives s (single_loop (length (l_input s) + 1) i (l_position s + 1) (l_position s + 1) (move 1 (start_scalar s))) (\<lambda>_ _. True)"
    using start_scalar_move [OF assms] True by (intro single_loop_ok) (auto simp: start_scalar_def adv_def ready_def)
  then show ?thesis using True by (simp add: readSingleQuotedScalar_def start_scalar_def)
qed (use assms in \<open>simp add: readSingleQuotedScalar_def\<close>)

lemma hex_loop_ok:
  assumes "adv s0 s" and "ch s \<noteq> 0"
  shows "gives s0 (hex_loop n x s) (\<lambda>_ s'. ch s' \<noteq> 0)"
  using assms
proof (induction n arbitrary: x s)
  case (Suc n)
  have m: "adv s0 (move 1 s)" using Suc(2,3) adv_move1 [of s] by (auto dest: adv_ready intro: adv_trans)
  have "fromHexCode 0 = -1" by (simp add: fromHexCode_def js_or_def toInt32_small)
  then show ?case using Suc(1) [OF m] by (cases "ch (move 1 s) = 0") (simp_all add: Let_def)
qed simp

lemma append_result_move:
  "adv s0 s \<Longrightarrow> ch s \<noteq> 0 \<Longrightarrow> adv s0 (move 1 (append_result s t))"
  using adv_move1 [of "append_result s t"] still_adv [of s "append_result s t"] still_ch(1) [of s "append_result s t"]
  by (auto dest: adv_ready intro: adv_trans)

lemma read_escape_ok:
  assumes "ready s"
  shows "gives s (read_escape s i) (\<lambda>_ _. True)"
proof -
  have simple: "simpleEscapeCheck (ch s) \<Longrightarrow> ch s \<noteq> 0" by (auto simp: simpleEscapeCheck_def simpleEscapeSequence_def)
  have hex: "escapedHexLen (ch s) > 0 \<Longrightarrow> ch s \<noteq> 0" by (auto simp: escapedHexLen_def)
  have 1: "gives s (rbind (skipSeparationSpace s False i) (\<lambda>(_, s). Inr ((), s))) (\<lambda>_ _. True)"
    by (rule gives_bind [OF skipSeparationSpace_ok [OF assms]]) simp
  have 2: "gives s (rbind (hex_loop (escapedHexLen (ch s)) 0 s) (\<lambda>(hexResult, s).
      Inr ((), move 1 (append_result s (charFromCodepoint hexResult))))) (\<lambda>_ _. True)" if "escapedHexLen (ch s) > 0"
    by (rule gives_bind [OF hex_loop_ok]) (use assms hex [OF that] append_result_move in auto)
  show ?thesis
    using 1 2 simple assms by (auto simp: read_escape_def Let_def append_result_move)
qed

lemma double_loop_ok:
  assumes "adv s0 s" and "length (l_input s) - l_position s < n"
  shows "gives s0 (double_loop n i a e s) (\<lambda>_ _. True)"
  using assms
proof (induction n arbitrary: s a e)
  case (Suc n)
  have r: "ready s" using Suc(2) by (rule adv_ready)
  have cap: "adv t (move 1 t) \<and> ready t \<and> l_position t = l_position s \<and> l_input t = l_input s" if "adv s0 t" "still s t" "ch s \<noteq> 0" for t
    using that still_ch(1) [OF that(2)] adv_move1 [of t] by (auto dest: adv_ready simp: still_def)
  consider "ch s = 0" | "ch s = 34" | "ch s = 92" | "is_EOL (ch s)" "ch s \<noteq> 0" "ch s \<noteq> 34" "ch s \<noteq> 92"
    | "ch s \<noteq> 0" "ch s \<noteq> 34" "ch s \<noteq> 92" "\<not> is_EOL (ch s)" by blast
  then show ?case
  proof cases
    case 2
    have "gives s0 (rbind (captureSegment s a (l_position s) True) (\<lambda>(_, s). Inr (True, move 1 s))) (\<lambda>_ _. True)"
      by (rule gives_bind_at [OF Suc(2) captureSegment_ok [OF r]]) (use cap 2 in \<open>auto intro: adv_trans\<close>)
    then show ?thesis using 2 by simp
  next
    case 3
    have "gives s0 (rbind (captureSegment s a (l_position s) True) (\<lambda>(_, s).
        rbind (read_escape (move 1 s) i) (\<lambda>(_, s). double_loop n i (l_position s) (l_position s) s))) (\<lambda>_ _. True)"
    proof (rule gives_bind_at [OF Suc(2) captureSegment_ok [OF r]])
      fix t
      assume t: "adv s0 t" "adv s t" "still s t"
      have c: "adv t (move 1 t)" "l_position t = l_position s" "l_input t = l_input s" using cap [OF t(1,3)] 3 by auto
      show "gives s0 (rbind (read_escape (move 1 t) i) (\<lambda>(_, s). double_loop n i (l_position s) (l_position s) s)) (\<lambda>_ _. True)"
      proof (rule gives_bind_at [OF adv_trans [OF t(1) c(1)] read_escape_ok [OF adv_ready [OF c(1)]]])
        fix u
        assume "adv s0 u" "adv (move 1 t) u"
        then show "gives s0 (double_loop n i (l_position u) (l_position u) u) (\<lambda>_ _. True)"
          using adv_rest [OF adv_trans [OF t(2) adv_trans [OF c(1)]] _ Suc(3), of u] c(2) adv_pos [of "move 1 t" u]
          by (intro Suc(1)) auto
      qed
    qed
    then show ?thesis using 3 by simp
  next
    case 4
    have "gives s0 (rbind (fold_line s a e i) (\<lambda>(_, s). double_loop n i (l_position s) (l_position s) s)) (\<lambda>_ _. True)"
    proof (rule gives_bind_at [OF Suc(2) fold_line_ok [OF r]])
      fix t
      assume "adv s0 t" "adv s t" "is_EOL (ch s) \<longrightarrow> l_position s < l_position t"
      then show "gives s0 (double_loop n i (l_position t) (l_position t) t) (\<lambda>_ _. True)"
        using 4 Suc(3) by (intro Suc(1)) (auto simp: adv_def ready_def)
    qed
    then show ?thesis using 4 by simp
  next
    case 5
    have m: "adv s (move 1 s)" using r 5 by (intro adv_move1)
    then have "gives s0 (double_loop n i a (l_position s + 1) (move 1 s)) (\<lambda>_ _. True)"
      using Suc(2,3) by (intro Suc(1)) (auto simp: adv_def ready_def)
    then show ?thesis using 5 by simp
  qed simp
qed simp

lemma readDoubleQuotedScalar_ok [scan_ok]:
  assumes "ready s"
  shows "gives s (readDoubleQuotedScalar s i) (\<lambda>_ _. True)"
proof (cases "ch s = 34")
  case True
  have "gives s (double_loop (length (l_input s) + 1) i (l_position s + 1) (l_position s + 1) (move 1 (start_scalar s))) (\<lambda>_ _. True)"
    using start_scalar_move [OF assms] True by (intro double_loop_ok) (auto simp: start_scalar_def adv_def ready_def)
  then show ?thesis using True by (simp add: readDoubleQuotedScalar_def start_scalar_def)
qed (use assms in \<open>simp add: readDoubleQuotedScalar_def\<close>)

lemma header_loop_ok:
  assumes "adv s0 s" and "length (l_input s) - l_position s < n"
  shows "gives s0 (header_loop n i c t d s) (\<lambda>_ _. True)"
  using assms
proof (induction n arbitrary: s c t d)
  case (Suc n)
  show ?case
  proof (cases "ch s = 0")
    case False
    then have m: "adv s (move 1 s)" using Suc(2) by (intro adv_move1) (auto dest: adv_ready)
    then have a: "adv s0 (move 1 s)" using Suc(2) by (blast intro: adv_trans)
    have n: "length (l_input s) - (l_position s + 1) < n"
      using m Suc(3) by (auto simp: adv_def ready_def)
    have l: "gives s0 (header_loop n i c' t' d' (move 1 s)) (\<lambda>_ _. True)" for c' t' d'
      using a n by (intro Suc(1)) simp_all
    then show ?thesis using False a by (simp add: Let_def)
  qed (use Suc(2) in simp)
qed simp

lemma header_rest_ok:
  assumes "ready s"
  shows "gives s (header_rest s) (\<lambda>_ _. True)"
proof (cases "is_WHITE_SPACE (ch s)")
  case True
  then have m: "adv s (move 1 s)" using assms by (intro adv_move1) auto
  have "gives s (rbind (scan_while is_WHITE_SPACE (move 1 s)) (\<lambda>(_, s).
          if ch s = 35 then scan_while (\<lambda>c. \<not> is_EOL c \<and> c \<noteq> 0) (move 1 s) else Inr ((), s))) (\<lambda>_ _. True)"
  proof (rule gives_bind_at [OF m scan_while_ok [OF adv_ready [OF m]]])
    fix t
    assume t: "adv s t"
    have "gives s (scan_while (\<lambda>c. \<not> is_EOL c \<and> c \<noteq> 0) (move 1 t)) (\<lambda>_ _. True)" if "ch t = 35"
    proof -
      have m: "adv t (move 1 t)" using t that by (intro adv_move1) (auto dest: adv_ready)
      show ?thesis
        by (rule gives_mono [OF gives_trans [OF adv_trans [OF t m] scan_while_ok [OF adv_ready [OF m]]]]) simp_all
    qed
    then show "gives s (if ch t = 35 then scan_while (\<lambda>c. \<not> is_EOL c \<and> c \<noteq> 0) (move 1 t) else Inr ((), t)) (\<lambda>_ _. True)"
      using t by simp
  qed simp
  then show ?thesis using True by (simp add: header_rest_def)
qed (use assms in \<open>simp add: header_rest_def\<close>)

lemma indent_loop_ok:
  assumes "adv s0 s" and "length (l_input s) - l_position s < n"
  shows "gives s0 (indent_loop n d t s) (\<lambda>_ _. True)"
  using assms
proof (induction n arbitrary: s)
  case (Suc n)
  let ?s = "s\<lparr> l_lineIndent := l_lineIndent s + 1, l_position := l_position s + 1 \<rparr>"
  have "gives s0 (indent_loop n d t ?s) (\<lambda>_ _. True)" if "ch s = 32"
  proof (rule Suc(1))
    have m: "Suc (l_position s) < length (l_input s)" using Suc(2) that ready_next [of s] by (auto dest: adv_ready)
    then show "adv s0 ?s" using Suc(2) by (auto simp: adv_def ready_def)
    show "length (l_input ?s) - l_position ?s < n" using m Suc(3) by simp
  qed
  then show ?case using Suc(2) by (simp add: move_def)
qed simp

lemma block_end_still [simp]: "still s (block_end c d e s') = still s s'"
  by (simp add: block_end_def split: chomping.split)

lemma block_loop_ok:
  assumes "adv s0 s" and "length (l_input s) - l_position s < n"
  shows "gives s0 (block_loop n f c t d r k m s) (\<lambda>_ _. True)"
  using assms
proof (induction n arbitrary: s t d r k m)
  case (Suc n)
  have rd: "ready s" using Suc(2) by (rule adv_ready)
  let ?rest = "\<lambda>s. let textIndent = (if \<not> d \<and> int (l_lineIndent s) > t then int (l_lineIndent s) else t)
          in if is_EOL (ch s) then block_loop n f c textIndent d r (k + 1) m s
             else if int (l_lineIndent s) < textIndent then Inr (True, block_end c r k s)
             else
               let (atMoreIndented, breaks) = block_breaks f (ch s) m r k;
                   s = append_result s breaks;
                   captureStart = l_position s
               in rbind (scan_while (\<lambda>c. \<not> is_EOL c \<and> c \<noteq> 0) s) (\<lambda>(_, s).
                  rbind (captureSegment s captureStart (l_position s) False) (\<lambda>(_, s).
                    block_loop n f c textIndent True True 0 atMoreIndented s))"
  have rest: "gives s0 (?rest u) (\<lambda>_ _. True)" if u: "adv s0 u" "adv s u" "l_position s < l_position u" for u
  proof -
    have again: "gives s0 (block_loop n f c t' d' r' k' m' v) (\<lambda>_ _. True)" if "adv s0 v" "adv u v" for v t' d' r' k' m'
      using that adv_rest [OF adv_trans [OF u(2)] _ Suc(3)] u(3) adv_pos [of u v] by (intro Suc(1)) auto
    have line: "gives s0 (rbind (scan_while (\<lambda>c. \<not> is_EOL c \<and> c \<noteq> 0) (append_result u b)) (\<lambda>(_, s).
                  rbind (captureSegment s p (l_position s) False) (\<lambda>(_, s).
                    block_loop n f c t' True True 0 m' s))) (\<lambda>_ _. True)" for b p t' m'
    proof -
      have a: "adv u (append_result u b)" using u(1) by (intro still_adv) (auto dest: adv_ready)
      show ?thesis
      proof (rule gives_bind_at [OF adv_trans [OF u(1) a] scan_while_ok [OF adv_ready [OF a]]])
        fix v
        assume v: "adv s0 v" "adv (append_result u b) v"
        show "gives s0 (rbind (captureSegment v p (l_position v) False) (\<lambda>(_, s).
                    block_loop n f c t' True True 0 m' s)) (\<lambda>_ _. True)"
          by (rule gives_bind_at [OF v(1) captureSegment_ok [OF adv_ready [OF v(1)]]])
            (use v a in \<open>auto intro!: again intro: adv_trans\<close>)
      qed simp
    qed
    have e: "adv s0 (block_end c r k u)" using adv_trans [OF u(1) still_adv [of u]] u(1) by (auto dest: adv_ready)
    have "adv u u" using u(1) by (auto dest: adv_ready)
    then show ?thesis
      using again [OF u(1)] line e by (simp add: Let_def case_prod_beta')
  qed
  have "gives s0 (rbind (indent_loop (length (l_input v) + 1) d t (v\<lparr> l_lineIndent := 0 \<rparr>)) (\<lambda>(_, s). ?rest s)) (\<lambda>_ _. True)"
    if v: "readLineBreak s = Inr (a, v)" for a v
  proof -
    note l = readLineBreak_ok(2) [OF rd v]
    have i: "gives (v\<lparr> l_lineIndent := 0 \<rparr>) (indent_loop (length (l_input v) + 1) d t (v\<lparr> l_lineIndent := 0 \<rparr>)) (\<lambda>_ _. True)"
      using l by (intro indent_loop_ok) (auto simp: adv_def)
    have a0: "adv s0 (v\<lparr> l_lineIndent := 0 \<rparr>)" using l Suc(2) by (blast intro: adv_trans)
    show ?thesis
    proof (rule gives_bind_at [OF a0 i])
      fix u
      assume "adv s0 u" "adv (v\<lparr> l_lineIndent := 0 \<rparr>) u"
      then show "gives s0 (?rest u) (\<lambda>_ _. True)"
        using l adv_trans [of s "v\<lparr> l_lineIndent := 0 \<rparr>" u] adv_pos [of "v\<lparr> l_lineIndent := 0 \<rparr>" u] by (intro rest) auto
    qed
  qed
  then have "gives s0 (rbind (readLineBreak s) (\<lambda>(_, s).
        rbind (indent_loop (length (l_input s) + 1) d t (s\<lparr> l_lineIndent := 0 \<rparr>)) (\<lambda>(_, s). ?rest s))) (\<lambda>_ _. True)"
    by (cases "readLineBreak s") (use readLineBreak_ok(1) [OF rd] in \<open>auto simp: gives_def\<close>)
  then show ?case using Suc(2) by simp
qed simp

lemma readBlockScalar_ok [scan_ok]:
  assumes "ready s"
  shows "gives s (readBlockScalar s i) (\<lambda>_ _. True)"
proof -
  have a: "adv s (start_scalar s)" using assms by (intro still_adv) simp_all
  have h: "gives (start_scalar s) (header_loop (length (l_input s) + 1) i CHOMPING_CLIP i False (start_scalar s)) (\<lambda>_ _. True)"
    using a by (intro header_loop_ok) (auto simp: adv_def)
  have "gives s (rbind (header_rest t) (\<lambda>(_, s). block_loop (length (l_input s) + 1) f c k d False 0 False s)) (\<lambda>_ _. True)"
    if t: "adv s t" for t f c k d
    by (rule gives_bind_at [OF t header_rest_ok [OF adv_ready [OF t]]]) (auto intro!: block_loop_ok)
  then have "gives s (rbind (header_loop (length (l_input s) + 1) i CHOMPING_CLIP i False (start_scalar s))
             (\<lambda>((chomping, textIndent, detectedIndent), s').
           rbind (header_rest s') (\<lambda>(_, s').
             block_loop (length (l_input s') + 1) (ch s = 62) chomping textIndent detectedIndent False 0 False s'))) (\<lambda>_ _. True)"
    by (intro gives_bind_at [OF a h]) (auto simp: case_prod_beta')
  then show ?thesis using assms by (simp add: readBlockScalar_def)
qed

subsection \<open>Properties of a node\<close>

lemma ready_next2:
  assumes "ready s" and "ch s \<noteq> 0" and "\<not> is_EOL (ch s)"
  shows "l_position s + 2 < length (l_input s)"
proof (rule ccontr)
  assume n: "\<not> l_position s + 2 < length (l_input s)"
  have "Suc (l_position s) < length (l_input s)" using ready_next assms by blast
  then have "l_position s = length (l_input s) - 2" "1 < length (l_input s)" using n by linarith+
  then show False using assms by (simp add: ready_def ch_nth)
qed

lemma tag_loop_ok:
  assumes "adv s0 s" and "length (l_input s) - l_position s < n"
  shows "gives s0 (tag_loop n d h a s) (\<lambda>_ _. True)"
  using assms
proof (induction n arbitrary: s d h a)
  case (Suc n)
  show ?case
  proof (cases "ch s = 0")
    case False
    then have m: "adv s (move 1 s)" using Suc(2) by (intro adv_move1) (auto dest: adv_ready)
    then have a: "adv s0 (move 1 s)" using Suc(2) by (blast intro: adv_trans)
    have n: "length (l_input s) - (l_position s + 1) < n" using m Suc(3) by (auto simp: adv_def ready_def)
    have "gives s0 (tag_loop n d' h' a' (move 1 s)) (\<lambda>_ _. True)" for d' h' a'
      using a n by (intro Suc(1)) simp_all
    then show ?thesis using Suc(2) by (simp add: Let_def)
  qed (use Suc(2) in simp)
qed simp

lemma tag_checks_end [simp]: "check_tag_uri s t \<noteq> Inl Diverges" "resolve_tag s t u \<noteq> Inl Diverges"
  by (simp_all add: check_tag_uri_def resolve_tag_def split: option.split)

lemma gives_check:
  assumes "m \<noteq> Inl Diverges" and "\<And>x. m = Inr x \<Longrightarrow> gives s (f x) Q"
  shows "gives s (rbind m f) Q"
  using assms by (cases m) (auto simp: gives_def)

lemma adv_tag [simp]: "adv s (s'\<lparr> l_tag := t \<rparr>) = adv s s'" "adv s (s'\<lparr> l_anchor := t \<rparr>) = adv s s'"
  "adv s (s'\<lparr> l_result := v \<rparr>) = adv s s'" "adv s (s'\<lparr> l_kind := k \<rparr>) = adv s s'"
  "adv s (s'\<lparr> l_store := h \<rparr>) = adv s s'" "adv s (s'\<lparr> l_anchorMap := m \<rparr>) = adv s s'"
  "adv s (s'\<lparr> l_tagMap := tm \<rparr>) = adv s s'" "adv s (s'\<lparr> l_version := y \<rparr>) = adv s s'"
  "adv s (s'\<lparr> l_checkLineBreaks := b \<rparr>) = adv s s'" "adv s (s'\<lparr> l_documents := d \<rparr>) = adv s s'"
  "adv s (s'\<lparr> l_warnings := w \<rparr>) = adv s s'"
  by (simp_all add: adv_def)

lemma verbatim_tag_ok:
  assumes "ready s" and "ch s = 60"
  shows "gives s (rbind (scan_while (\<lambda>c. c \<noteq> 0 \<and> c \<noteq> 62) (move 2 s)) (\<lambda>(_, s).
      if l_position s < l_length s then
        let tagName = str_slice (l_input s) k (l_position s); s = move 1 s
        in rbind (check_tag_uri s tagName) (\<lambda>_. Inr (True, s\<lparr> l_tag := Some tagName \<rparr>))
      else throwError s ''unexpected end of the stream within a verbatim tag'')) (\<lambda>_ s'. l_position s < l_position s')"
proof -
  have m: "adv s (move 2 s)" using ready_next2 [OF assms(1)] assms by (auto simp: adv_def ready_def is_EOL_def)
  show ?thesis
  proof (rule gives_bind_at [OF m scan_while_ok [OF adv_ready [OF m]]])
    fix t
    assume t: "adv s t" "adv (move 2 s) t"
    have "adv s (move 1 t)" if "l_position t < l_length t"
      using that t by (auto simp: adv_def ready_def)
    moreover have "l_position s < l_position (move 1 t)" using t by (simp add: adv_def)
    ultimately show "gives s (if l_position t < l_length t then
        let tagName = str_slice (l_input t) k (l_position t); s = move 1 t
        in rbind (check_tag_uri s tagName) (\<lambda>_. Inr (True, s\<lparr> l_tag := Some tagName \<rparr>))
      else throwError t ''unexpected end of the stream within a verbatim tag'') (\<lambda>_ s'. l_position s < l_position s')"
      by (auto simp: Let_def intro!: gives_check)
  qed simp
qed

lemma suffix_tag_ok:
  assumes "adv s u"
  shows "gives s (rbind (tag_loop (length (l_input u) + 1) d h a u) (\<lambda>((tagHandle, start), s).
      let tagName = str_slice (l_input s) start (l_position s)
      in if list_ex (\<lambda>c. c \<in> set (js '',[]{}'')) tagName then
           throwError s ''tag suffix cannot contain flow indicator characters''
         else
           rbind (check_tag_uri s tagName) (\<lambda>_.
           rbind (resolve_tag s tagHandle tagName) (\<lambda>tag. Inr (True, s\<lparr> l_tag := Some tag \<rparr>))))) (\<lambda>_ s'. l_position u \<le> l_position s')"
proof -
  have l: "gives u (tag_loop (length (l_input u) + 1) d h a u) (\<lambda>_ _. True)"
    using adv_ready [OF assms] by (intro tag_loop_ok) (auto simp: ready_def)
  show ?thesis
  proof (rule gives_bind_at [OF assms l], goal_cases)
    case (1 x t)
    then show ?case by (cases x) (auto simp: Let_def adv_def intro!: gives_check)
  qed
qed

lemma readTagProperty_ok [scan_ok]:
  assumes "ready s"
  shows "gives s (readTagProperty s) (\<lambda>b s'. b \<longrightarrow> l_position s < l_position s')"
proof -
  consider "ch s \<noteq> 33" | "l_tag s \<noteq> None" "ch s = 33" | "ch s = 33" "l_tag s = None" by blast
  then show ?thesis
  proof cases
    case 3
    have m: "adv s (move 1 s)" using 3 assms by (intro adv_move1) auto
    have m2: "adv s (move 2 s)" if "ch (move 1 s) \<noteq> 0"
      using adv_trans [OF m adv_move1 [OF adv_ready [OF m] that]] by simp
    have r: "ready (move 1 s)" using m by (rule adv_ready)
    show ?thesis
    proof (cases "ch (move 1 s) = 60")
      case True
      have v: "gives s (rbind (scan_while (\<lambda>c. c \<noteq> 0 \<and> c \<noteq> 62) (move 3 s)) (\<lambda>(_, s).
          if l_position s < l_length s then
            let tagName = str_slice (l_input s) k (l_position s); s = move 1 s
            in rbind (check_tag_uri s tagName) (\<lambda>_. Inr (True, s\<lparr> l_tag := Some tagName \<rparr>))
          else throwError s ''unexpected end of the stream within a verbatim tag'')) (\<lambda>b s'. b \<longrightarrow> l_position s < l_position s')" for k
        by (rule gives_mono [OF gives_trans [OF m verbatim_tag_ok [OF r True, unfolded move_move, simplified]]]) simp
      show ?thesis using v [of "l_position (move 2 s)"] 3 True by (simp add: readTagProperty_def Let_def)
    next
      case False
      let ?u = "if ch (move 1 s) = 33 then move 2 s else move 1 s"
      have u: "adv s ?u" "l_position s < l_position ?u" using m m2 by auto
      show ?thesis
        using gives_mono [OF suffix_tag_ok [OF u(1)], where R = "\<lambda>b s'. b \<longrightarrow> l_position s < l_position s'"] u(2) 3 False
        by (cases "ch (move 1 s) = 33") (simp_all add: readTagProperty_def Let_def)
    qed
  qed (use assms in \<open>simp_all add: readTagProperty_def\<close>)
qed

lemma readAnchorProperty_ok [scan_ok]:
  assumes "ready s"
  shows "gives s (readAnchorProperty s) (\<lambda>b s'. b \<longrightarrow> l_position s < l_position s')"
proof (cases "ch s = 38")
  case True
  have m: "adv s (move 1 s)" using True assms by (intro adv_move1) auto
  have "gives s (rbind (scan_while name_char (move 1 s)) (\<lambda>(_, t).
          if l_position t = l_position (move 1 s) then throwError t ''name of an anchor node must contain at least one character''
          else Inr (True, t\<lparr> l_anchor := Some (str_slice (l_input t) (l_position (move 1 s)) (l_position t)) \<rparr>)))
      (\<lambda>b s'. b \<longrightarrow> l_position s < l_position s')"
    by (rule gives_bind_at [OF m scan_while_ok [OF adv_ready [OF m]]]) (auto simp: name_char_def adv_def)
  then show ?thesis using True by (simp add: readAnchorProperty_def Let_def)
qed (use assms in \<open>simp add: readAnchorProperty_def\<close>)

lemma readAlias_ok [scan_ok]:
  assumes "ready s"
  shows "gives s (readAlias s) (\<lambda>_ _. True)"
proof (cases "ch s = 42")
  case True
  have m: "adv s (move 1 s)" using True assms by (intro adv_move1) auto
  have "gives s (rbind (scan_while name_char (move 1 s)) (\<lambda>(_, t).
          if l_position t = l_position (move 1 s) then throwError t ''name of an alias node must contain at least one character''
          else
            let alias = str_slice (l_input t) (l_position (move 1 s)) (l_position t)
            in if hasOwn (l_anchorMap t) (js ''hasOwnProperty'') then Inl (JsError not_a_function)
               else if \<not> hasOwn (l_anchorMap t) alias then
                 throwWith t (js ''unidentified alias \"'' @ alias @ js ''\"'')
               else
                 rbind (skipSeparationSpace (t\<lparr> l_result := prop_get (l_anchorMap t) alias \<rparr>) True (-1))
                   (\<lambda>(_, s). Inr (True, s)))) (\<lambda>_ _. True)"
  proof (rule gives_bind_at [OF m scan_while_ok [OF adv_ready [OF m]]])
    fix t
    assume t: "adv s t"
    have "gives s (rbind (skipSeparationSpace (t\<lparr> l_result := v \<rparr>) True (-1)) (\<lambda>(_, s). Inr (True, s))) (\<lambda>_ _. True)" for v
      using t by (intro gives_bind_at [OF _ skipSeparationSpace_ok]) (auto dest: adv_ready)
    then show "gives s (if l_position t = l_position (move 1 s) then throwError t ''name of an alias node must contain at least one character''
          else
            let alias = str_slice (l_input t) (l_position (move 1 s)) (l_position t)
            in if hasOwn (l_anchorMap t) (js ''hasOwnProperty'') then Inl (JsError not_a_function)
               else if \<not> hasOwn (l_anchorMap t) alias then
                 throwWith t (js ''unidentified alias \"'' @ alias @ js ''\"'')
               else
                 rbind (skipSeparationSpace (t\<lparr> l_result := prop_get (l_anchorMap t) alias \<rparr>) True (-1))
                   (\<lambda>(_, s). Inr (True, s))) (\<lambda>_ _. True)"
      by (simp add: Let_def) (simp add: gives_def)
  qed (simp add: name_char_def)
  then show ?thesis using True by (simp add: readAlias_def Let_def)
qed (use assms in \<open>simp add: readAlias_def\<close>)

end
