(* ===== verification/YamlLoader.thy ===== *)
theory YamlLoader
  imports YamlScanner
begin

text \<open>
  The second half of the loader of \<^verbatim>\<open>js-yaml\<close> (module 503 of \<^verbatim>\<open>swagger-ui.js\<close>): flow and block collections,
  nodes, documents with their directives, and the entry points. The readers of collections call
  \<^verbatim>\<open>composeNode\<close> back; each is defined over the composer it calls, and \<open>composeNode\<close> ties the knot with a
  bound on the depth of the nesting. \<open>datestr\<close> is how the host spells a date, which a date in the place of
  a key is converted to.
\<close>

datatype ctx = CONTEXT_FLOW_IN | CONTEXT_FLOW_OUT | CONTEXT_BLOCK_IN | CONTEXT_BLOCK_OUT

type_synonym composer = "lstate \<Rightarrow> int \<Rightarrow> ctx \<Rightarrow> bool \<Rightarrow> bool \<Rightarrow> bool scan"

section \<open>Mappings\<close>

text \<open>The own properties of any object; those of an array and of a buffer are its elements.\<close>

definition own_props :: "store \<Rightarrow> jsval \<Rightarrow> props" where
  "own_props h v =
     (case v of
        VRef r \<Rightarrow>
          (case lookup h r of
             Some (OObj ps) \<Rightarrow> ps
           | Some (OArr xs) \<Rightarrow> zip (map (\<lambda>i. int_toString 10 (int i)) [0..<length xs]) xs
           | Some (OBuf bs) \<Rightarrow> zip (map (\<lambda>i. int_toString 10 (int i)) [0..<length bs]) (map (\<lambda>b. VNum (IntN (uint b))) bs)
           | _ \<Rightarrow> [])
      | _ \<Rightarrow> [])"

definition dest_props :: "lstate \<Rightarrow> nat \<Rightarrow> props" where
  "dest_props s r = own_props (l_store s) (VRef r)"

definition set_props :: "nat \<Rightarrow> props \<Rightarrow> lstate \<Rightarrow> lstate" where
  "set_props r ps s = s\<lparr> l_store := (l_store s)[r := OObj ps] \<rparr>"

primrec merge_keys :: "jsstr list \<Rightarrow> props \<Rightarrow> props \<Rightarrow> props \<Rightarrow> props \<times> props" where
  "merge_keys [] source dest overridable = (dest, overridable)"
| "merge_keys (k # ks) source dest overridable =
     (if hasOwn dest k then merge_keys ks source dest overridable
      else merge_keys ks source (assign dest k (prop_get source k)) (assign overridable k (VBool True)))"

definition mergeMappings :: "lstate \<Rightarrow> nat \<Rightarrow> jsval \<Rightarrow> props \<Rightarrow> props scan" where
  "mergeMappings s dest source overridable =
     (if \<not> isObject source then
        throwError s ''cannot merge mappings; the provided source object is unacceptable''
      else
        let src = own_props (l_store s) source;
            (ps, overridable) = merge_keys (objectKeys src) src (dest_props s dest) overridable
        in Inr (overridable, set_props dest ps s))"

primrec merge_list :: "nat \<Rightarrow> jsval list \<Rightarrow> props \<Rightarrow> lstate \<Rightarrow> props scan" where
  "merge_list dest [] overridable s = Inr (overridable, s)"
| "merge_list dest (v # vs) overridable s =
     rbind (mergeMappings s dest v overridable) (\<lambda>(overridable, s). merge_list dest vs overridable s)"

definition new_obj :: "jsobj \<Rightarrow> lstate \<Rightarrow> nat \<times> lstate" where
  "new_obj ob s = (length (l_store s), s\<lparr> l_store := l_store s @ [ob] \<rparr>)"

text \<open>\<^verbatim>\<open>startLine || state.line\<close>: an absent or zero line or position leaves the one of the state.\<close>

definition or_else :: "nat option \<Rightarrow> nat \<Rightarrow> nat" where
  "or_else x d = (case x of None \<Rightarrow> d | Some n \<Rightarrow> if n = 0 then d else n)"

definition storeMappingPair :: "(int option \<Rightarrow> jsstr) \<Rightarrow> lstate \<Rightarrow> nat \<Rightarrow> props \<Rightarrow> jsstr option \<Rightarrow> jsval \<Rightarrow> jsval \<Rightarrow> nat option \<Rightarrow> nat option \<Rightarrow> props scan" where
  "storeMappingPair datestr s r overridable keyTag keyNode valueNode startLine startPos =
     (let key = toStr datestr (l_store s) keyNode
      in if keyTag = Some (js ''tag:yaml.org,2002:merge'') then
           (case arr_items (l_store s) valueNode of
              Some vs \<Rightarrow> merge_list r vs overridable s
            | None \<Rightarrow> mergeMappings s r valueNode overridable)
         else if \<not> l_json s \<and> \<not> hasOwn overridable key \<and> hasOwn (dest_props s r) key then
           throwError (s\<lparr> l_line := or_else startLine (l_line s), l_position := or_else startPos (l_position s) \<rparr>)
             ''duplicated mapping key''
         else Inr (prop_delete overridable key, set_props r (assign (dest_props s r) key valueNode) s))"

definition push :: "nat \<Rightarrow> jsval \<Rightarrow> lstate \<Rightarrow> lstate" where
  "push r v s =
     (case lookup (l_store s) r of
        Some (OArr xs) \<Rightarrow> s\<lparr> l_store := (l_store s)[r := OArr (xs @ [v])] \<rparr>
      | _ \<Rightarrow> s)"

definition bind_anchor :: "jsval \<Rightarrow> lstate \<Rightarrow> lstate" where
  "bind_anchor v s = (case l_anchor s of None \<Rightarrow> s | Some a \<Rightarrow> s\<lparr> l_anchorMap := assign (l_anchorMap s) a v \<rparr>)"

text \<open>The end of a collection: the tag and the anchor that were read before it are those of the node.\<close>

definition finish :: "lstate \<Rightarrow> string \<Rightarrow> nat \<Rightarrow> lstate \<Rightarrow> lstate" where
  "finish s0 kind r s = s\<lparr> l_tag := l_tag s0, l_anchor := l_anchor s0, l_kind := Some (js kind), l_result := VRef r \<rparr>"

section \<open>Flow collections\<close>

text \<open>A value after a colon, if there is one.\<close>

definition flow_value :: "composer \<Rightarrow> int \<Rightarrow> bool \<Rightarrow> nat \<Rightarrow> lstate \<Rightarrow> (bool \<times> jsval) scan" where
  "flow_value cn nodeIndent isExplicitPair line s =
     (if (isExplicitPair \<or> l_line s = line) \<and> ch s = 58 then
        rbind (skipSeparationSpace (move 1 s) True nodeIndent) (\<lambda>(_, s).
        rbind (cn s nodeIndent CONTEXT_FLOW_IN False True) (\<lambda>(_, s). Inr ((True, l_result s), s)))
      else Inr ((isExplicitPair, VNull), s))"

definition flow_store :: "(int option \<Rightarrow> jsstr) \<Rightarrow> bool \<Rightarrow> nat \<Rightarrow> props \<Rightarrow> jsstr option \<Rightarrow> jsval \<Rightarrow> bool \<times> jsval \<Rightarrow> lstate \<Rightarrow> props scan" where
  "flow_store datestr isMapping r overridable keyTag keyNode pair s =
     (if isMapping then storeMappingPair datestr s r overridable keyTag keyNode (snd pair) None None
      else if fst pair then
        (case new_obj (OObj []) s of (r', s) \<Rightarrow>
           rbind (storeMappingPair datestr s r' overridable keyTag keyNode (snd pair) None None) (\<lambda>(overridable, s).
             Inr (overridable, push r (VRef r') s)))
      else Inr (overridable, push r keyNode s))"

definition flow_entry :: "(int option \<Rightarrow> jsstr) \<Rightarrow> composer \<Rightarrow> int \<Rightarrow> bool \<Rightarrow> nat \<Rightarrow> props \<Rightarrow> lstate \<Rightarrow> props scan" where
  "flow_entry datestr cn nodeIndent isMapping r overridable s =
     (let explicit = (ch s = 63 \<and> is_WS_OR_EOL (ch_at s 1))
      in rbind (if explicit then skipSeparationSpace (move 1 s) True nodeIndent else Inr (0, s)) (\<lambda>(_, s).
           let line = l_line s
           in rbind (cn s nodeIndent CONTEXT_FLOW_IN False True) (\<lambda>(_, s).
                let keyTag = l_tag s; keyNode = l_result s
                in rbind (skipSeparationSpace s True nodeIndent) (\<lambda>(_, s).
                   rbind (flow_value cn nodeIndent explicit line s) (\<lambda>(pair, s).
                   rbind (flow_store datestr isMapping r overridable keyTag keyNode pair s) (\<lambda>(overridable, s).
                   rbind (skipSeparationSpace s True nodeIndent) (\<lambda>(_, s). Inr (overridable, s))))))))"

primrec flow_loop :: "(int option \<Rightarrow> jsstr) \<Rightarrow> composer \<Rightarrow> nat \<Rightarrow> int \<Rightarrow> int \<Rightarrow> bool \<Rightarrow> nat \<Rightarrow> bool \<Rightarrow> props \<Rightarrow> lstate \<Rightarrow> lstate \<Rightarrow> bool scan" where
  "flow_loop datestr cn 0 nodeIndent terminator isMapping r readNext overridable s0 s = Inl Diverges"
| "flow_loop datestr cn (Suc n) nodeIndent terminator isMapping r readNext overridable s0 s =
     (if ch s = 0 then throwError s ''unexpected end of the stream within a flow collection''
      else
        rbind (skipSeparationSpace s True nodeIndent) (\<lambda>(_, s).
          if ch s = terminator then
            Inr (True, finish s0 (if isMapping then ''mapping'' else ''sequence'') r (move 1 s))
          else if \<not> readNext then throwError s ''missed comma between flow collection entries''
          else
            rbind (flow_entry datestr cn nodeIndent isMapping r overridable s) (\<lambda>(overridable, s).
              if ch s = 44 then flow_loop datestr cn n nodeIndent terminator isMapping r True overridable s0 (move 1 s)
              else flow_loop datestr cn n nodeIndent terminator isMapping r False overridable s0 s)))"

definition readFlowCollection :: "(int option \<Rightarrow> jsstr) \<Rightarrow> composer \<Rightarrow> lstate \<Rightarrow> int \<Rightarrow> bool scan" where
  "readFlowCollection datestr cn s nodeIndent =
     (if ch s \<noteq> 91 \<and> ch s \<noteq> 123 then Inr (False, s)
      else
        let isMapping = (ch s = 123);
            (r, s') = new_obj (if isMapping then OObj [] else OArr []) s;
            s' = move 1 (bind_anchor (VRef r) s')
        in flow_loop datestr cn (length (l_input s) + 2) nodeIndent (if isMapping then 125 else 93) isMapping r True [] s s')"

section \<open>Block sequences\<close>

text \<open>The loop returns whether an entry was found.\<close>

primrec sequence_loop :: "composer \<Rightarrow> nat \<Rightarrow> int \<Rightarrow> nat \<Rightarrow> bool \<Rightarrow> lstate \<Rightarrow> bool scan" where
  "sequence_loop cn 0 nodeIndent r detected s = Inl Diverges"
| "sequence_loop cn (Suc n) nodeIndent r detected s =
     (if ch s = 0 \<or> ch s \<noteq> 45 \<or> \<not> is_WS_OR_EOL (ch_at s 1) then Inr (detected, s)
      else
        rbind (skipSeparationSpace (move 1 s) True (-1)) (\<lambda>(breaks, s).
          if breaks \<noteq> 0 \<and> int (l_lineIndent s) \<le> nodeIndent then
            sequence_loop cn n nodeIndent r True (push r VNull s)
          else
            let line = l_line s
            in rbind (cn s nodeIndent CONTEXT_BLOCK_IN False True) (\<lambda>(_, s).
               rbind (skipSeparationSpace (push r (l_result s) s) True (-1)) (\<lambda>(_, s).
                 if (l_line s = line \<or> int (l_lineIndent s) > nodeIndent) \<and> ch s \<noteq> 0 then
                   throwError s ''bad indentation of a sequence entry''
                 else if int (l_lineIndent s) < nodeIndent then Inr (True, s)
                 else sequence_loop cn n nodeIndent r True s))))"

definition readBlockSequence :: "composer \<Rightarrow> lstate \<Rightarrow> int \<Rightarrow> bool scan" where
  "readBlockSequence cn s nodeIndent =
     (case new_obj (OArr []) s of (r, s') \<Rightarrow>
        rbind (sequence_loop cn (length (l_input s) + 1) nodeIndent r False (bind_anchor (VRef r) s')) (\<lambda>(detected, s').
          Inr (detected, if detected then finish s ''sequence'' r s' else s')))"

section \<open>Block mappings\<close>

text \<open>The variables of the loop, apart from the state.\<close>

record map_vars =
  v_keyTag :: "jsstr option"
  v_keyNode :: jsval
  v_valueNode :: jsval
  v_atExplicitKey :: bool
  v_allowCompact :: bool
  v_detected :: bool
  v_overridable :: props

definition no_pair :: "map_vars \<Rightarrow> map_vars" where
  "no_pair v = v\<lparr> v_keyTag := None, v_keyNode := VNull, v_valueNode := VNull \<rparr>"

text \<open>A pending explicit key without a value.\<close>

definition store_pending :: "(int option \<Rightarrow> jsstr) \<Rightarrow> nat \<Rightarrow> map_vars \<Rightarrow> lstate \<Rightarrow> map_vars scan" where
  "store_pending datestr r v s =
     (if v_atExplicitKey v then
        rbind (storeMappingPair datestr s r (v_overridable v) (v_keyTag v) (v_keyNode v) VNull None None) (\<lambda>(ov, s).
          Inr (no_pair (v\<lparr> v_overridable := ov \<rparr>), s))
      else Inr (v, s))"

text \<open>
  The first half of an iteration reads a key: it goes on with new variables, leaves the loop, or returns from
  the function with what was read as the node.
\<close>

datatype key_step = Go map_vars | Break map_vars | Return

definition explicit_mark :: "(int option \<Rightarrow> jsstr) \<Rightarrow> nat \<Rightarrow> map_vars \<Rightarrow> lstate \<Rightarrow> key_step scan" where
  "explicit_mark datestr r v s =
     (if ch s = 63 then
        rbind (store_pending datestr r v s) (\<lambda>(v, s).
          Inr (Go (v\<lparr> v_detected := True, v_atExplicitKey := True, v_allowCompact := True \<rparr>), move 1 s))
      else if v_atExplicitKey v then
        Inr (Go (v\<lparr> v_atExplicitKey := False, v_allowCompact := True \<rparr>), move 1 s)
      else
        throwError s ''incomplete explicit mapping pair; a key node is missed; or followed by a non-tabulated empty line'')"

definition implicit_key :: "(int option \<Rightarrow> jsstr) \<Rightarrow> composer \<Rightarrow> int \<Rightarrow> nat \<Rightarrow> map_vars \<Rightarrow> lstate \<Rightarrow> key_step scan" where
  "implicit_key datestr cn flowIndent r v s =
     rbind (cn s flowIndent CONTEXT_FLOW_OUT False True) (\<lambda>(found, s').
       if \<not> found then Inr (Break v, s')
       else if l_line s' = l_line s then
         rbind (scan_while is_WHITE_SPACE s') (\<lambda>(_, s').
           if ch s' = 58 then
             let s' = move 1 s'
             in if \<not> is_WS_OR_EOL (ch s') then
                  throwError s' ''a whitespace character is expected after the key-value separator within a block mapping''
                else
                  rbind (store_pending datestr r v s') (\<lambda>(v, s').
                    Inr (Go (v\<lparr> v_detected := True, v_atExplicitKey := False, v_allowCompact := False,
                                v_keyTag := l_tag s', v_keyNode := l_result s' \<rparr>), s'))
           else if v_detected v then throwError s' ''can not read an implicit mapping pair; a colon is missed''
           else Inr (Return, s'))
       else if v_detected v then
         throwError s' ''can not read a block mapping entry; a multiline key may not be an implicit key''
       else Inr (Return, s'))"

definition read_key :: "(int option \<Rightarrow> jsstr) \<Rightarrow> composer \<Rightarrow> int \<Rightarrow> nat \<Rightarrow> map_vars \<Rightarrow> lstate \<Rightarrow> key_step scan" where
  "read_key datestr cn flowIndent r v s =
     (if (ch s = 63 \<or> ch s = 58) \<and> is_WS_OR_EOL (ch_at s 1) then explicit_mark datestr r v s
      else implicit_key datestr cn flowIndent r v s)"

text \<open>The second half reads the value, or the node of an explicit key.\<close>

definition read_value :: "(int option \<Rightarrow> jsstr) \<Rightarrow> composer \<Rightarrow> int \<Rightarrow> nat \<Rightarrow> nat \<Rightarrow> nat \<Rightarrow> map_vars \<Rightarrow> lstate \<Rightarrow> map_vars scan" where
  "read_value datestr cn nodeIndent r line pos v s =
     (if l_line s = line \<or> int (l_lineIndent s) > nodeIndent then
        rbind (cn s nodeIndent CONTEXT_BLOCK_OUT True (v_allowCompact v)) (\<lambda>(found, s).
          let v = (if \<not> found then v
                   else if v_atExplicitKey v then v\<lparr> v_keyNode := l_result s \<rparr>
                   else v\<lparr> v_valueNode := l_result s \<rparr>)
          in rbind (if v_atExplicitKey v then Inr (v, s)
                    else
                      rbind (storeMappingPair datestr s r (v_overridable v) (v_keyTag v) (v_keyNode v) (v_valueNode v)
                               (Some line) (Some pos)) (\<lambda>(ov, s).
                        Inr (no_pair (v\<lparr> v_overridable := ov \<rparr>), s))) (\<lambda>(v, s).
             rbind (skipSeparationSpace s True (-1)) (\<lambda>(_, s). Inr (v, s))))
      else Inr (v, s))"

primrec mapping_loop :: "(int option \<Rightarrow> jsstr) \<Rightarrow> composer \<Rightarrow> nat \<Rightarrow> int \<Rightarrow> int \<Rightarrow> nat \<Rightarrow> map_vars \<Rightarrow> lstate \<Rightarrow> key_step scan" where
  "mapping_loop datestr cn 0 nodeIndent flowIndent r v s = Inl Diverges"
| "mapping_loop datestr cn (Suc n) nodeIndent flowIndent r v s =
     (if ch s = 0 then Inr (Break v, s)
      else
        rbind (read_key datestr cn flowIndent r v s) (\<lambda>(step, s').
          case step of
            Go v \<Rightarrow>
              rbind (read_value datestr cn nodeIndent r (l_line s) (l_position s) v s') (\<lambda>(v, s').
                if int (l_lineIndent s') > nodeIndent \<and> ch s' \<noteq> 0 then
                  throwError s' ''bad indentation of a mapping entry''
                else if int (l_lineIndent s') < nodeIndent then Inr (Break v, s')
                else mapping_loop datestr cn n nodeIndent flowIndent r v s')
          | Break v \<Rightarrow> Inr (Break v, s')
          | Return \<Rightarrow> Inr (Return, s')))"

definition readBlockMapping :: "(int option \<Rightarrow> jsstr) \<Rightarrow> composer \<Rightarrow> lstate \<Rightarrow> int \<Rightarrow> int \<Rightarrow> bool scan" where
  "readBlockMapping datestr cn s nodeIndent flowIndent =
     (case new_obj (OObj []) s of (r, s') \<Rightarrow>
        rbind (mapping_loop datestr cn (length (l_input s) + 1) nodeIndent flowIndent r
                 \<lparr> v_keyTag = None, v_keyNode = VNull, v_valueNode = VNull, v_atExplicitKey = False,
                   v_allowCompact = False, v_detected = False, v_overridable = [] \<rparr> (bind_anchor (VRef r) s'))
          (\<lambda>(step, s').
             case step of
               Return \<Rightarrow> Inr (True, s'\<lparr> l_tag := l_tag s, l_anchor := l_anchor s \<rparr>)
             | Go v \<Rightarrow> Inr (v_detected v, s')
             | Break v \<Rightarrow>
                 rbind (store_pending datestr r v s') (\<lambda>(_, s').
                   Inr (v_detected v, if v_detected v then finish s ''mapping'' r s' else s'))))"

section \<open>Nodes\<close>

definition indent_status :: "lstate \<Rightarrow> int \<Rightarrow> int" where
  "indent_status s parentIndent =
     (if int (l_lineIndent s) > parentIndent then 1 else if int (l_lineIndent s) = parentIndent then 0 else -1)"

text \<open>Tags and anchors in front of a node: whether a line break followed, and whether block collections are allowed.\<close>

definition read_property :: "lstate \<Rightarrow> bool scan" where
  "read_property s =
     rbind (readTagProperty s) (\<lambda>(found, s). if found then Inr (True, s) else readAnchorProperty s)"

primrec property_loop :: "nat \<Rightarrow> int \<Rightarrow> bool \<Rightarrow> bool \<Rightarrow> bool \<Rightarrow> int \<Rightarrow> lstate \<Rightarrow> (bool \<times> bool \<times> int) scan" where
  "property_loop 0 parentIndent allowBlockStyles atNewLine allowBlockCollections status s = Inl Diverges"
| "property_loop (Suc n) parentIndent allowBlockStyles atNewLine allowBlockCollections status s =
     rbind (read_property s) (\<lambda>(found, s).
       if \<not> found then Inr ((atNewLine, allowBlockCollections, status), s)
       else
         rbind (skipSeparationSpace s True (-1)) (\<lambda>(breaks, s).
           if breaks \<noteq> 0 then
             property_loop n parentIndent allowBlockStyles True allowBlockStyles (indent_status s parentIndent) s
           else property_loop n parentIndent allowBlockStyles atNewLine False status s))"

text \<open>The alternatives of a node are tried one after the other.\<close>

definition or_try :: "bool scan \<Rightarrow> (lstate \<Rightarrow> bool scan) \<Rightarrow> bool scan" where
  "or_try m f = rbind m (\<lambda>(found, s). if found then Inr (True, s) else f s)"

definition read_scalar :: "bool \<Rightarrow> int \<Rightarrow> lstate \<Rightarrow> bool scan" where
  "read_scalar allowBlockScalars flowIndent s =
     or_try (or_try (if allowBlockScalars then readBlockScalar s flowIndent else Inr (False, s))
               (\<lambda>s. readSingleQuotedScalar s flowIndent))
            (\<lambda>s. readDoubleQuotedScalar s flowIndent)"

definition read_leaf :: "bool \<Rightarrow> int \<Rightarrow> ctx \<Rightarrow> lstate \<Rightarrow> bool scan" where
  "read_leaf allowBlockScalars flowIndent context s =
     rbind (read_scalar allowBlockScalars flowIndent s) (\<lambda>(found, s).
     rbind (if found then Inr (True, s)
            else
              rbind (readAlias s) (\<lambda>(found, s).
                if found then
                  (if l_tag s \<noteq> None \<or> l_anchor s \<noteq> None then
                     throwError s ''alias node should not have any properties''
                   else Inr (True, s))
                else
                  rbind (readPlainScalar s flowIndent (context = CONTEXT_FLOW_IN)) (\<lambda>(found, s).
                    if found then Inr (True, if l_tag s = None then s\<lparr> l_tag := Some (js ''?'') \<rparr> else s)
                    else Inr (False, s)))) (\<lambda>(found, s).
       Inr (found, bind_anchor (l_result s) s)))"

definition read_collection :: "(int option \<Rightarrow> jsstr) \<Rightarrow> composer \<Rightarrow> bool \<Rightarrow> int \<Rightarrow> int \<Rightarrow> lstate \<Rightarrow> bool scan" where
  "read_collection datestr cn allowBlockCollections blockIndent flowIndent s =
     or_try (if allowBlockCollections then
               or_try (readBlockSequence cn s blockIndent) (\<lambda>s. readBlockMapping datestr cn s blockIndent flowIndent)
             else Inr (False, s))
            (\<lambda>s. readFlowCollection datestr cn s flowIndent)"

definition read_content :: "(int option \<Rightarrow> jsstr) \<Rightarrow> composer \<Rightarrow> int \<Rightarrow> ctx \<Rightarrow> bool \<Rightarrow> bool \<Rightarrow> int \<Rightarrow> lstate \<Rightarrow> bool scan" where
  "read_content datestr cn parentIndent context allowBlockScalars allowBlockCollections status s =
     (if status = 1 \<or> context = CONTEXT_BLOCK_OUT then
        let flowIndent = (if context = CONTEXT_FLOW_IN \<or> context = CONTEXT_FLOW_OUT then parentIndent else parentIndent + 1);
            blockIndent = int (l_position s) - int (l_lineStart s)
        in if status = 1 then
             or_try (read_collection datestr cn allowBlockCollections blockIndent flowIndent s)
               (\<lambda>s. read_leaf allowBlockScalars flowIndent context s)
           else if status = 0 then
             (if allowBlockCollections then readBlockSequence cn s blockIndent else Inr (False, s))
           else Inr (False, s)
      else Inr (False, s))"

section \<open>Types of nodes\<close>

definition construct_node :: "(int option \<Rightarrow> jsstr) \<Rightarrow> ytype \<Rightarrow> lstate \<Rightarrow> yerror + lstate" where
  "construct_node datestr t s =
     rbind (lift_js (y_construct t (toStr datestr (l_store s)) (l_store s) (l_result s))) (\<lambda>(h, v).
       Inr (bind_anchor v (s\<lparr> l_store := h, l_result := v \<rparr>)))"

definition resolve_implicit :: "(int option \<Rightarrow> jsstr) \<Rightarrow> lstate \<Rightarrow> yerror + lstate" where
  "resolve_implicit datestr s =
     (case find (\<lambda>t. y_resolve t (toStr datestr (l_store s)) (l_store s) (l_result s)) (l_implicitTypes s) of
        None \<Rightarrow> Inr s
      | Some t \<Rightarrow> rbind (construct_node datestr t s) (\<lambda>s. Inr (s\<lparr> l_tag := Some (y_tag t) \<rparr>)))"

definition kind_name :: "lstate \<Rightarrow> jsstr" where
  "kind_name s = (case l_kind s of None \<Rightarrow> js ''fallback'' | Some k \<Rightarrow> k)"

definition resolve_explicit :: "(int option \<Rightarrow> jsstr) \<Rightarrow> jsstr \<Rightarrow> lstate \<Rightarrow> yerror + lstate" where
  "resolve_explicit datestr tag s =
     (case map_of (l_typeMap s) (kind_name s, tag) of
        None \<Rightarrow> throwWith s (js ''unknown tag !<'' @ tag @ js ''>'')
      | Some t \<Rightarrow>
          (if l_result s \<noteq> VNull \<and> Some (y_kind t) \<noteq> l_kind s then
             throwWith s (js ''unacceptable node kind for !<'' @ tag @ js ''> tag; it should be \"'' @ y_kind t
               @ js ''\", not \"'' @ (case l_kind s of None \<Rightarrow> js ''null'' | Some k \<Rightarrow> k) @ js ''\"'')
           else if \<not> y_resolve t (toStr datestr (l_store s)) (l_store s) (l_result s) then
             throwWith s (js ''cannot resolve a node with !<'' @ tag @ js ''> explicit tag'')
           else construct_node datestr t s))"

definition resolve_node :: "(int option \<Rightarrow> jsstr) \<Rightarrow> lstate \<Rightarrow> yerror + lstate" where
  "resolve_node datestr s =
     (case l_tag s of
        None \<Rightarrow> Inr s
      | Some tag \<Rightarrow>
          (if tag = js ''!'' then Inr s
           else if tag = js ''?'' then resolve_implicit datestr s
           else resolve_explicit datestr tag s))"

definition composeNode_body :: "(int option \<Rightarrow> jsstr) \<Rightarrow> composer \<Rightarrow> composer" where
  "composeNode_body datestr cn s parentIndent context allowToSeek allowCompact =
     (let s = s\<lparr> l_tag := None, l_anchor := None, l_kind := None, l_result := VNull \<rparr>;
          allowBlockStyles = (context = CONTEXT_BLOCK_OUT \<or> context = CONTEXT_BLOCK_IN)
      in rbind (if allowToSeek then
                  rbind (skipSeparationSpace s True (-1)) (\<lambda>(breaks, s).
                    Inr (if breaks \<noteq> 0 then (True, indent_status s parentIndent) else (False, 1), s))
                else Inr ((False, 1), s)) (\<lambda>((atNewLine, status), s).
         rbind (if status = 1 then
                  property_loop (length (l_input s) + 1) parentIndent allowBlockStyles atNewLine allowBlockStyles status s
                else Inr ((atNewLine, allowBlockStyles, status), s)) (\<lambda>((atNewLine, allowBlockCollections, status), s).
         rbind (read_content datestr cn parentIndent context allowBlockStyles
                  (allowBlockCollections \<and> (atNewLine \<or> allowCompact)) status s) (\<lambda>(hasContent, s).
         rbind (resolve_node datestr s) (\<lambda>s.
           Inr (l_tag s \<noteq> None \<or> l_anchor s \<noteq> None \<or> hasContent, s))))))"

primrec composeNode :: "(int option \<Rightarrow> jsstr) \<Rightarrow> nat \<Rightarrow> composer" where
  "composeNode datestr 0 s parentIndent context allowToSeek allowCompact = Inl Diverges"
| "composeNode datestr (Suc n) s parentIndent context allowToSeek allowCompact =
     composeNode_body datestr (composeNode datestr n) s parentIndent context allowToSeek allowCompact"

section \<open>Documents\<close>

text \<open>The digits of \<^verbatim>\<open>/^([0-9]+)\.([0-9]+)$/\<close>.\<close>

definition yaml_version :: "jsstr \<Rightarrow> (int \<times> int) option" where
  "yaml_version arg =
     (let major = takeWhile isDecCode arg; rest = dropWhile isDecCode arg
      in if major = [] \<or> rest = [] \<or> hd rest \<noteq> 46 \<or> tl rest = [] \<or> \<not> list_all isDecCode (tl rest) then None
         else Some (digits_value 10 major, digits_value 10 (tl rest)))"

definition handleYamlDirective :: "lstate \<Rightarrow> jsstr list \<Rightarrow> yerror + lstate" where
  "handleYamlDirective s args =
     (if l_version s \<noteq> None then throwError s ''duplication of %YAML directive''
      else if length args \<noteq> 1 then throwError s ''YAML directive accepts exactly one argument''
      else
        case yaml_version (hd args) of
          None \<Rightarrow> throwError s ''ill-formed argument of the YAML directive''
        | Some (major, minor) \<Rightarrow>
            (if major \<noteq> 1 then throwError s ''unacceptable YAML version of the document''
             else
               let s = s\<lparr> l_version := Some (hd args), l_checkLineBreaks := minor < 2 \<rparr>
               in Inr (if minor \<noteq> 1 \<and> minor \<noteq> 2 then throwWarning s (js ''unsupported YAML version of the document'') else s)))"

definition handleTagDirective :: "lstate \<Rightarrow> jsstr list \<Rightarrow> yerror + lstate" where
  "handleTagDirective s args =
     (if length args \<noteq> 2 then throwError s ''TAG directive accepts exactly two arguments''
      else
        let handle = args ! 0; prefix = args ! 1
        in if \<not> re_test PATTERN_TAG_HANDLE handle then
             throwError s ''ill-formed tag handle (first argument) of the TAG directive''
           else if map_of (l_tagMap s) handle \<noteq> None then
             throwWith s (js ''there is a previously declared suffix for \"'' @ handle @ js ''\" tag handle'')
           else if \<not> re_test PATTERN_TAG_URI prefix then
             throwError s ''ill-formed tag prefix (second argument) of the TAG directive''
           else Inr (s\<lparr> l_tagMap := (handle, prefix) # l_tagMap s \<rparr>))"

definition word_char :: "int \<Rightarrow> bool" where
  "word_char c = (c \<noteq> 0 \<and> \<not> is_WS_OR_EOL c)"

text \<open>The arguments of a directive, up to the end of the line or a comment.\<close>

primrec args_loop :: "nat \<Rightarrow> jsstr list \<Rightarrow> lstate \<Rightarrow> jsstr list scan" where
  "args_loop 0 args s = Inl Diverges"
| "args_loop (Suc n) args s =
     (if ch s = 0 then Inr (args, s)
      else
        rbind (scan_while is_WHITE_SPACE s) (\<lambda>(_, s).
          if ch s = 35 then
            rbind (scan_while (\<lambda>c. c \<noteq> 0 \<and> \<not> is_EOL c) (move 1 s)) (\<lambda>(_, s). Inr (args, s))
          else if is_EOL (ch s) then Inr (args, s)
          else
            rbind (scan_while word_char s) (\<lambda>(_, s').
              args_loop n (args @ [str_slice (l_input s) (l_position s) (l_position s')]) s')))"

definition read_directive :: "lstate \<Rightarrow> unit scan" where
  "read_directive s =
     (let s0 = move 1 s
      in rbind (scan_while word_char s0) (\<lambda>(_, s).
           let name = str_slice (l_input s) (l_position s0) (l_position s)
           in if length name < 1 then throwError s ''directive name must not be less than one character in length''
              else
                rbind (args_loop (length (l_input s) + 1) [] s) (\<lambda>(args, s).
                rbind (if ch s \<noteq> 0 then readLineBreak s else Inr ((), s)) (\<lambda>(_, s).
                rbind (if name = js ''YAML'' then handleYamlDirective s args
                       else if name = js ''TAG'' then handleTagDirective s args
                       else Inr (throwWarning s (js ''unknown document directive \"'' @ name @ js ''\"''))) (\<lambda>s.
                  Inr ((), s))))))"

primrec directives_loop :: "nat \<Rightarrow> bool \<Rightarrow> lstate \<Rightarrow> bool scan" where
  "directives_loop 0 hasDirectives s = Inl Diverges"
| "directives_loop (Suc n) hasDirectives s =
     (if ch s = 0 then Inr (hasDirectives, s)
      else
        rbind (skipSeparationSpace s True (-1)) (\<lambda>(_, s).
          if l_lineIndent s > 0 \<or> ch s \<noteq> 37 then Inr (hasDirectives, s)
          else rbind (read_directive s) (\<lambda>(_, s). directives_loop n True s)))"

definition read_document_start :: "bool \<Rightarrow> lstate \<Rightarrow> unit scan" where
  "read_document_start hasDirectives s =
     rbind (skipSeparationSpace s True (-1)) (\<lambda>(_, s).
       if l_lineIndent s = 0 \<and> ch s = 45 \<and> ch_at s 1 = 45 \<and> ch_at s 2 = 45 then
         rbind (skipSeparationSpace (move 3 s) True (-1)) (\<lambda>(_, s). Inr ((), s))
       else if hasDirectives then throwError s ''directives end mark is expected''
       else Inr ((), s))"

definition non_ascii_break :: "16 word \<Rightarrow> bool" where
  "non_ascii_break c \<longleftrightarrow> c = 0x85 \<or> c = 0x2028 \<or> c = 0x2029"

definition end_document :: "nat \<Rightarrow> lstate \<Rightarrow> unit scan" where
  "end_document documentStart s =
     (let s = (if l_checkLineBreaks s \<and> list_ex non_ascii_break (str_slice (l_input s) documentStart (l_position s))
               then throwWarning s (js ''non-ASCII line breaks are interpreted as content'') else s);
          s = s\<lparr> l_documents := l_documents s @ [l_result s] \<rparr>
      in if l_position s = l_lineStart s \<and> testDocumentSeparator s then
           (if ch s = 46 then rbind (skipSeparationSpace (move 3 s) True (-1)) (\<lambda>(_, s). Inr ((), s)) else Inr ((), s))
         else if int (l_position s) < int (l_length s) - 1 then
           throwError s ''end of the stream or a document separator is expected''
         else Inr ((), s))"

definition readDocument :: "(int option \<Rightarrow> jsstr) \<Rightarrow> lstate \<Rightarrow> unit scan" where
  "readDocument datestr s =
     (let documentStart = l_position s;
          s = s\<lparr> l_version := None, l_checkLineBreaks := l_legacy s, l_tagMap := [], l_anchorMap := [] \<rparr>
      in rbind (directives_loop (length (l_input s) + 1) False s) (\<lambda>(hasDirectives, s).
         rbind (read_document_start hasDirectives s) (\<lambda>(_, s).
         rbind (composeNode datestr (2 * length (l_input s) + 2) s (int (l_lineIndent s) - 1) CONTEXT_BLOCK_OUT False True)
           (\<lambda>(_, s).
         rbind (skipSeparationSpace s True (-1)) (\<lambda>(_, s). end_document documentStart s)))))"

section \<open>Entry points\<close>

record load_options =
  lo_filename :: "jsstr option"
  lo_schema :: "yschema option"
  lo_legacy :: bool
  lo_json :: bool

definition load_State :: "yschema \<Rightarrow> jsstr \<Rightarrow> load_options \<Rightarrow> store \<Rightarrow> lstate" where
  "load_State full input options h =
     (let schema = (case lo_schema options of None \<Rightarrow> full | Some s \<Rightarrow> s)
      in \<lparr> l_input = input, l_filename = lo_filename options, l_legacy = lo_legacy options, l_json = lo_json options,
           l_implicitTypes = compiledImplicit schema, l_typeMap = compiledTypeMap schema,
           l_length = length input, l_position = 0, l_line = 0, l_lineStart = 0, l_lineIndent = 0, l_documents = [],
           l_version = None, l_checkLineBreaks = False, l_tagMap = [], l_anchorMap = [],
           l_tag = None, l_anchor = None, l_kind = None, l_result = VUndef, l_store = h, l_warnings = [] \<rparr>)"

text \<open>A line feed is added at the end if there is none, and a byte order mark removed.\<close>

definition prepare_input :: "jsstr \<Rightarrow> jsstr" where
  "prepare_input input =
     (if input = [] then []
      else
        let input = (if last input \<noteq> 10 \<and> last input \<noteq> 13 then input @ [10] else input)
        in if hd input = 0xFEFF then tl input else input)"

primrec documents_loop :: "(int option \<Rightarrow> jsstr) \<Rightarrow> nat \<Rightarrow> lstate \<Rightarrow> yerror + lstate" where
  "documents_loop datestr 0 s = Inl Diverges"
| "documents_loop datestr (Suc n) s =
     (if int (l_position s) < int (l_length s) - 1 then
        rbind (readDocument datestr s) (\<lambda>(_, s). documents_loop datestr n s)
      else Inr s)"

definition loadDocuments :: "(int option \<Rightarrow> jsstr) \<Rightarrow> yschema \<Rightarrow> store \<Rightarrow> jsstr \<Rightarrow> load_options \<Rightarrow> yerror + (jsval list \<times> lstate)" where
  "loadDocuments datestr full h input options =
     (let s = load_State full (prepare_input input) options h;
          s = s\<lparr> l_input := l_input s @ [0] \<rparr>
      in rbind (skip_indent s) (\<lambda>(_, s).
         rbind (documents_loop datestr (length (l_input s) + 1) s) (\<lambda>s. Inr (l_documents s, s))))"

definition load :: "(int option \<Rightarrow> jsstr) \<Rightarrow> yschema \<Rightarrow> store \<Rightarrow> jsstr \<Rightarrow> load_options \<Rightarrow> yerror + (jsval \<times> store)" where
  "load datestr full h input options =
     rbind (loadDocuments datestr full h input options) (\<lambda>(docs, s).
       case docs of
         [] \<Rightarrow> Inr (VUndef, l_store s)
       | [d] \<Rightarrow> Inr (d, l_store s)
       | _ \<Rightarrow> Inl (YAMLException (js ''expected a single document in the stream, but found more'') None))"

text \<open>\<^verbatim>\<open>loadAll\<close> without an iterator returns the documents; with one it calls it on each of them in turn.\<close>

definition loadAll :: "(int option \<Rightarrow> jsstr) \<Rightarrow> yschema \<Rightarrow> store \<Rightarrow> jsstr \<Rightarrow> load_options \<Rightarrow> yerror + (jsval list \<times> store)" where
  "loadAll datestr full h input options =
     rbind (loadDocuments datestr full h input options) (\<lambda>(docs, s). Inr (docs, l_store s))"

definition safe_options :: "load_options \<Rightarrow> load_options" where
  "safe_options options =
     options\<lparr> lo_schema := (case lo_schema options of None \<Rightarrow> Some DEFAULT_SAFE_SCHEMA | s \<Rightarrow> s) \<rparr>"

definition safeLoad :: "(int option \<Rightarrow> jsstr) \<Rightarrow> store \<Rightarrow> jsstr \<Rightarrow> load_options \<Rightarrow> yerror + (jsval \<times> store)" where
  "safeLoad datestr h input options = load datestr DEFAULT_SAFE_SCHEMA h input (safe_options options)"

definition no_load_options :: load_options where
  "no_load_options = \<lparr> lo_filename = None, lo_schema = None, lo_legacy = False, lo_json = False \<rparr>"

text \<open>
  Without an iterator the options, and the safe schema with them, are handed to \<^verbatim>\<open>loadAll\<close> in the place of the
  iterator, so that they have no effect.
\<close>

definition safeLoadAll :: "(int option \<Rightarrow> jsstr) \<Rightarrow> yschema \<Rightarrow> store \<Rightarrow> jsstr \<Rightarrow> bool \<Rightarrow> load_options \<Rightarrow> yerror + (jsval list \<times> store)" where
  "safeLoadAll datestr full h input isFunction options =
     (if isFunction then loadAll datestr full h input (safe_options options)
      else loadAll datestr full h input no_load_options)"

section \<open>Loading ends\<close>

text \<open>Steps that do not move the position.\<close>

lemma still_store [simp]:
  "still s (push r v s') = still s s'" "still s (bind_anchor v s') = still s s'" "still s (set_props r ps s') = still s s'"
  "still s (finish s0 k r s') = still s s'" "still s (snd (new_obj ob s')) = still s s'"
  by (auto simp: push_def bind_anchor_def set_props_def finish_def new_obj_def split: option.splits jsobj.splits)

lemma adv_store [simp]:
  "adv s (push r v s') = adv s s'" "adv s (bind_anchor v s') = adv s s'" "adv s (set_props r ps s') = adv s s'"
  "adv s (finish s0 k r s') = adv s s'" "adv s (snd (new_obj ob s')) = adv s s'"
  by (auto simp: push_def bind_anchor_def set_props_def finish_def new_obj_def split: option.splits jsobj.splits)

lemma ready_store [simp]:
  "ready (push r v s) = ready s" "ready (bind_anchor v s) = ready s" "ready (set_props r ps s) = ready s"
  "ready (finish s0 k r s) = ready s" "ready (snd (new_obj ob s)) = ready s"
  by (rule still_ready, simp)+

lemma mergeMappings_ok:
  "ready s \<Longrightarrow> gives s (mergeMappings s d v ov) (\<lambda>_ s'. still s s')"
  by (auto simp: mergeMappings_def Let_def case_prod_beta')

lemma merge_list_ok:
  "adv s0 s \<Longrightarrow> still s0 s \<Longrightarrow> gives s0 (merge_list d vs ov s) (\<lambda>_ s'. still s0 s')"
proof (induction vs arbitrary: ov s)
  case (Cons v vs)
  show ?case unfolding merge_list.simps
    by (rule gives_bind_at [OF Cons(2) mergeMappings_ok [OF adv_ready [OF Cons(2)]]])
      (use Cons still_trans in blast)
qed simp

lemma storeMappingPair_ok:
  assumes "ready s"
  shows "gives s (storeMappingPair datestr s r ov kt kn vn sl sp) (\<lambda>_ s'. still s s')"
  using assms merge_list_ok [of s s r _ ov] mergeMappings_ok [OF assms, of r vn ov]
  by (auto simp: storeMappingPair_def Let_def split: option.split)

lemma still_pos: "still s s' \<Longrightarrow> l_position s' = l_position s"
  by (simp add: still_def)

text \<open>
  What a reader of a collection may expect of the composer that it calls: from every state close enough to the
  end of the input it ends and advances. A block context counts for one more than a flow context, because a
  block mapping begins by composing its first key where it stands, in a flow context.
\<close>

definition room :: "lstate \<Rightarrow> nat" where
  "room s = 2 * (length (l_input s) - l_position s)"

definition block_context :: "ctx \<Rightarrow> bool" where
  "block_context c \<longleftrightarrow> c = CONTEXT_BLOCK_IN \<or> c = CONTEXT_BLOCK_OUT"

lemma room_adv: "adv s t \<Longrightarrow> room t \<le> room s"
  by (auto simp: adv_def room_def)

lemma room_less: "adv s t \<Longrightarrow> l_position s < l_position t \<Longrightarrow> room t + 2 \<le> room s"
  by (auto simp: adv_def room_def ready_def)

locale composing =
  fixes cn :: composer and k :: nat
  assumes cn_ok: "ready s \<Longrightarrow> room s + (if block_context c then 1 else 0) < k \<Longrightarrow> gives s (cn s i c b b') (\<lambda>_ _. True)"
begin

lemma cn_at: "ready s \<Longrightarrow> room s + 1 < k \<Longrightarrow> gives s (cn s i c b b') (\<lambda>_ _. True)"
  by (rule cn_ok) auto

lemma flow_value_ok:
  assumes "ready s" and "room s + 1 < k"
  shows "gives s (flow_value cn i e l s) (\<lambda>_ _. True)"
proof -
  have "gives s (rbind (skipSeparationSpace (move 1 s) True i) (\<lambda>(_, s).
        rbind (cn s i CONTEXT_FLOW_IN False True) (\<lambda>(_, s). Inr ((True, l_result s), s)))) (\<lambda>_ _. True)" if "ch s = 58"
  proof -
    have m: "adv s (move 1 s)" using that assms by (intro adv_move1) auto
    show ?thesis
    proof (rule gives_bind_at [OF m skipSeparationSpace_ok [OF adv_ready [OF m]]])
      fix a t
      assume t: "adv s t"
      show "gives s (rbind (cn t i CONTEXT_FLOW_IN False True) (\<lambda>(_, s). Inr ((True, l_result s), s))) (\<lambda>_ _. True)"
        by (rule gives_bind_at [OF t cn_at]) (use t room_adv [OF t] assms in \<open>auto dest: adv_ready\<close>)
    qed
  qed
  then show ?thesis using assms by (simp add: flow_value_def)
qed

lemma flow_store_ok:
  assumes "ready s"
  shows "gives s (flow_store datestr m r ov kt kn p s) (\<lambda>_ _. True)"
proof -
  have n: "adv s (snd (new_obj ob s))" for ob using assms by simp
  have "gives s (rbind (storeMappingPair datestr (snd (new_obj ob s)) q ov kt kn v None None) (\<lambda>(overridable, s).
             Inr (overridable, push r (VRef q) s))) (\<lambda>_ _. True)" for ob q v
    by (rule gives_bind_at [OF n storeMappingPair_ok [OF adv_ready [OF n]]]) simp
  then have "gives s (case new_obj ob s of (q, s) \<Rightarrow> rbind (storeMappingPair datestr s q ov kt kn v None None) (\<lambda>(overridable, s).
             Inr (overridable, push r (VRef q) s))) (\<lambda>_ _. True)" for ob v
    by (simp add: case_prod_beta')
  then show ?thesis using assms gives_mono [OF storeMappingPair_ok [OF assms]] by (simp add: flow_store_def)
qed

lemma flow_entry_ok:
  assumes "ready s" and "room s + 1 < k"
  shows "gives s (flow_entry datestr cn i m r ov s) (\<lambda>_ _. True)"
proof -
  have last: "gives s (rbind (flow_store datestr m r ov kt kn p t) (\<lambda>(overridable, s).
       rbind (skipSeparationSpace s True i) (\<lambda>(_, s). Inr (overridable, s)))) (\<lambda>_ _. True)" if t: "adv s t" for t kt kn p
  proof (rule gives_bind_at [OF t flow_store_ok [OF adv_ready [OF t]]])
    fix ov' u
    assume u: "adv s u"
    show "gives s (rbind (skipSeparationSpace u True i) (\<lambda>(_, s). Inr (ov', s))) (\<lambda>_ _. True)"
      by (rule gives_bind_at [OF u skipSeparationSpace_ok [OF adv_ready [OF u]]]) simp
  qed
  have val: "gives s (rbind (skipSeparationSpace t True i) (\<lambda>(_, s).
       rbind (flow_value cn i e l s) (\<lambda>(pair, s).
       rbind (flow_store datestr m r ov kt kn pair s) (\<lambda>(overridable, s).
       rbind (skipSeparationSpace s True i) (\<lambda>(_, s). Inr (overridable, s)))))) (\<lambda>_ _. True)" if t: "adv s t" for t e l kt kn
  proof (rule gives_bind_at [OF t skipSeparationSpace_ok [OF adv_ready [OF t]]])
    fix a u
    assume u: "adv s u"
    show "gives s (rbind (flow_value cn i e l u) (\<lambda>(pair, s).
       rbind (flow_store datestr m r ov kt kn pair s) (\<lambda>(overridable, s).
       rbind (skipSeparationSpace s True i) (\<lambda>(_, s). Inr (overridable, s))))) (\<lambda>_ _. True)"
      by (rule gives_bind_at [OF u flow_value_ok]) (use u room_adv [OF u] assms in \<open>auto dest: adv_ready intro: last\<close>)
  qed
  have key: "gives s (let line = l_line t
           in rbind (cn t i CONTEXT_FLOW_IN False True) (\<lambda>(_, s).
                let keyTag = l_tag s; keyNode = l_result s
                in rbind (skipSeparationSpace s True i) (\<lambda>(_, s).
                   rbind (flow_value cn i e line s) (\<lambda>(pair, s).
                   rbind (flow_store datestr m r ov keyTag keyNode pair s) (\<lambda>(overridable, s).
                   rbind (skipSeparationSpace s True i) (\<lambda>(_, s). Inr (overridable, s))))))) (\<lambda>_ _. True)" if t: "adv s t" for t e
    unfolding Let_def
    by (rule gives_bind_at [OF t cn_at]) (use t room_adv [OF t] assms in \<open>auto dest: adv_ready intro: val\<close>)
  have m: "adv s (move 1 s)" if "ch s = 63" using that assms by (intro adv_move1) auto
  have start: "gives s (if e then skipSeparationSpace (move 1 s) True i else Inr (0, s)) (\<lambda>_ _. True)"
    if "e \<Longrightarrow> ch s = 63" for e
    using gives_mono [OF gives_trans [OF m skipSeparationSpace_ok [OF adv_ready [OF m]]]] that assms by auto
  show ?thesis
    unfolding flow_entry_def Let_def
    by (rule gives_bind [OF start]) (use key in \<open>simp_all add: Let_def\<close>)
qed

end

context composing
begin

lemma flow_loop_ok:
  assumes "adv s0 s" and "room s + 1 < k" and "0 < n" and "nx \<Longrightarrow> length (l_input s) - l_position s + 1 < n" and "t \<noteq> 0"
  shows "gives s0 (flow_loop datestr cn n i t m r nx ov f s) (\<lambda>_ _. True)"
  using assms
proof (induction n arbitrary: s nx ov)
  case (Suc n)
  let ?rest = "\<lambda>u. if ch u = t then Inr (True, finish f (if m then ''mapping'' else ''sequence'') r (move 1 u))
          else if \<not> nx then throwError u ''missed comma between flow collection entries''
          else
            rbind (flow_entry datestr cn i m r ov u) (\<lambda>(overridable, s).
              if ch s = 44 then flow_loop datestr cn n i t m r True overridable f (move 1 s)
              else flow_loop datestr cn n i t m r False overridable f s)"
  have rest: "gives s0 (?rest u) (\<lambda>_ _. True)" if u: "adv s0 u" "adv s u" for u
  proof -
    have e: "adv s0 (move 1 u)" if "ch u = t"
      using that u assms(5) adv_trans [OF u(1) adv_move1 [OF adv_ready [OF u(1)]]] by simp
    have "gives s0 (rbind (flow_entry datestr cn i m r ov u) (\<lambda>(overridable, s).
              if ch s = 44 then flow_loop datestr cn n i t m r True overridable f (move 1 s)
              else flow_loop datestr cn n i t m r False overridable f s)) (\<lambda>_ _. True)" if nx
    proof (rule gives_bind_at [OF u(1) flow_entry_ok [OF adv_ready [OF u(1)]]])
      show "room u + 1 < k" using room_adv [OF u(2)] Suc(3) by simp
      fix ov' v
      assume v: "adv s0 v" "adv u v"
      have sv: "adv s v" using adv_trans [OF u(2) v(2)] .
      have n: "0 < n" "length (l_input s) - l_position s \<le> n - 1" using Suc(5) that by auto
      have "gives s0 (flow_loop datestr cn n i t m r True ov' f (move 1 v)) (\<lambda>_ _. True)" if c: "ch v = 44"
      proof -
        have mv: "adv v (move 1 v)" using v c by (intro adv_move1) (auto dest: adv_ready)
        have "length (l_input (move 1 v)) - l_position (move 1 v) + 1 < n"
          using n mv sv by (auto simp: adv_def ready_def)
        then show ?thesis
          using n room_adv [OF adv_trans [OF sv mv]] Suc(3) assms(5) by (intro Suc(1) adv_trans [OF v(1) mv]) auto
      qed
      moreover have "gives s0 (flow_loop datestr cn n i t m r False ov' f v) (\<lambda>_ _. True)"
        using n room_adv [OF sv] Suc(3) assms(5) by (intro Suc(1) v(1)) auto
      ultimately show "gives s0 (if ch v = 44 then flow_loop datestr cn n i t m r True ov' f (move 1 v)
              else flow_loop datestr cn n i t m r False ov' f v) (\<lambda>_ _. True)" by simp
    qed
    then show ?thesis using e by simp
  qed
  have "gives s0 (rbind (skipSeparationSpace s True i) (\<lambda>(_, s). ?rest s)) (\<lambda>_ _. True)"
    by (rule gives_bind_at [OF Suc(2) skipSeparationSpace_ok [OF adv_ready [OF Suc(2)]]]) (use rest in blast)
  then show ?case by simp
qed simp

lemma readFlowCollection_ok:
  assumes "ready s" and "room s \<le> k"
  shows "gives s (readFlowCollection datestr cn s i) (\<lambda>_ _. True)"
proof (cases "ch s = 91 \<or> ch s = 123")
  case True
  have *: "gives s (flow_loop datestr cn (length (l_input s) + 2) i t m r True [] s (move 1 (bind_anchor v (snd (new_obj ob s))))) (\<lambda>_ _. True)"
    if "t \<noteq> 0" for t m r v ob
  proof -
    let ?u = "bind_anchor v (snd (new_obj ob s))"
    have u: "still s ?u" "adv s ?u" using assms by simp_all
    have mv: "adv ?u (move 1 ?u)" using u True assms still_ch(1) [OF u(1)] by (intro adv_move1) (auto dest: adv_ready)
    have a: "adv s (move 1 ?u)" using u(2) mv by (rule adv_trans)
    have "l_position s < l_position (move 1 ?u)" using u(1) by (simp add: still_def)
    then have "room (move 1 ?u) + 1 < k" using room_less [OF a] assms(2) by simp
    moreover have "length (l_input (move 1 ?u)) - l_position (move 1 ?u) + 1 < length (l_input s) + 2"
      using a by (auto simp: adv_def)
    ultimately show ?thesis by (intro flow_loop_ok a that) simp_all
  qed
  show ?thesis using True * by (auto simp: readFlowCollection_def Let_def case_prod_beta')
qed (use assms in \<open>simp add: readFlowCollection_def\<close>)

lemma sequence_loop_ok:
  assumes "adv s0 s" and "room s \<le> k" and "length (l_input s) - l_position s < n"
  shows "gives s0 (sequence_loop cn n i r d s) (\<lambda>_ _. True)"
  using assms
proof (induction n arbitrary: s d)
  case (Suc n)
  let ?next = "\<lambda>line s. if (l_line s = line \<or> int (l_lineIndent s) > i) \<and> ch s \<noteq> 0 then
                   throwError s ''bad indentation of a sequence entry''
                 else if int (l_lineIndent s) < i then Inr (True, s)
                 else sequence_loop cn n i r True s"
  have "gives s0 (rbind (skipSeparationSpace (move 1 s) True (-1)) (\<lambda>(breaks, s).
          if breaks \<noteq> 0 \<and> int (l_lineIndent s) \<le> i then sequence_loop cn n i r True (push r VNull s)
          else
            let line = l_line s
            in rbind (cn s i CONTEXT_BLOCK_IN False True) (\<lambda>(_, s).
               rbind (skipSeparationSpace (push r (l_result s) s) True (-1)) (\<lambda>(_, s). ?next line s)))) (\<lambda>_ _. True)"
    if c: "ch s = 45"
  proof -
    have m: "adv s (move 1 s)" using c Suc(2) by (intro adv_move1) (auto dest: adv_ready)
    have again: "gives s0 (sequence_loop cn n i r True t) (\<lambda>_ _. True)" if t: "adv (move 1 s) t" for t
    proof (rule Suc(1))
      show "adv s0 t" using adv_trans [OF Suc(2) adv_trans [OF m t]] .
      show "room t \<le> k" using room_adv [OF adv_trans [OF m t]] Suc(3) by simp
      show "length (l_input t) - l_position t < n" using t m Suc(4) by (auto simp: adv_def ready_def)
    qed
    have item: "gives s0 (rbind (skipSeparationSpace (push r v t) True (-1)) (\<lambda>(_, s). ?next line s)) (\<lambda>_ _. True)"
      if t: "adv s0 t" "adv (move 1 s) t" for t v line
    proof (rule gives_bind_at [OF _ skipSeparationSpace_ok])
      show "adv s0 (push r v t)" "ready (push r v t)" using t by (auto simp: still_ready dest: adv_ready)
      fix a u
      assume "adv s0 u" "adv (push r v t) u"
      moreover have "adv (move 1 s) (push r v t)" using t by simp
      ultimately have "gives s0 (sequence_loop cn n i r True u) (\<lambda>_ _. True)" "adv s0 u" using again adv_trans by blast+
      then show "gives s0 (?next line u) (\<lambda>_ _. True)" by (auto split: if_split)
    qed
    show ?thesis
    proof (rule gives_bind_at [OF adv_trans [OF Suc(2) m] skipSeparationSpace_ok [OF adv_ready [OF m]]])
      fix a t
      assume t: "adv s0 t" "adv (move 1 s) t"
      have "room t + 1 < k" using room_less [OF adv_trans [OF m t(2)]] t Suc(3) by (simp add: adv_def)
      then have "gives s0 (rbind (cn t i CONTEXT_BLOCK_IN False True) (\<lambda>(_, s).
               rbind (skipSeparationSpace (push r (l_result s) s) True (-1)) (\<lambda>(_, s). ?next line s))) (\<lambda>_ _. True)" for line
        by (intro gives_bind_at [OF t(1) cn_at [OF adv_ready [OF t(1)]]]) (use t item adv_trans in blast)+
      then show "gives s0 (if a \<noteq> 0 \<and> int (l_lineIndent t) \<le> i then sequence_loop cn n i r True (push r VNull t)
          else
            let line = l_line t
            in rbind (cn t i CONTEXT_BLOCK_IN False True) (\<lambda>(_, s).
               rbind (skipSeparationSpace (push r (l_result s) s) True (-1)) (\<lambda>(_, s). ?next line s))) (\<lambda>_ _. True)"
        using again t by (simp add: Let_def)
    qed
  qed
  then show ?case using Suc(2) by simp
qed simp

lemma readBlockSequence_ok:
  assumes "ready s" and "room s \<le> k"
  shows "gives s (readBlockSequence cn s i) (\<lambda>_ _. True)"
proof -
  let ?u = "\<lambda>r. bind_anchor (VRef r) (snd (new_obj (OArr []) s))"
  have a: "adv s (?u r)" for r using assms by simp
  have "room (?u r) \<le> k" "length (l_input (?u r)) - l_position (?u r) < length (l_input s) + 1" for r
    using room_adv [OF a, of r] a [of r] assms(2) by (auto simp: adv_def)
  then have "gives s (rbind (sequence_loop cn (length (l_input s) + 1) i r False (?u r)) (\<lambda>(detected, s').
          Inr (detected, if detected then finish s ''sequence'' r s' else s'))) (\<lambda>_ _. True)" for r
    by (intro gives_bind [OF sequence_loop_ok [OF a]]) auto
  then show ?thesis by (simp add: readBlockSequence_def case_prod_beta')
qed

end

lemma store_pending_ok:
  assumes "ready s"
  shows "gives s (store_pending datestr r v s) (\<lambda>_ s'. still s s')"
proof -
  have "gives s (rbind (storeMappingPair datestr s r ov kt kn VNull None None) (\<lambda>(ov, s).
          Inr (no_pair (v\<lparr> v_overridable := ov \<rparr>), s))) (\<lambda>_ s'. still s s')" for ov kt kn
    by (rule gives_bind [OF storeMappingPair_ok [OF assms]]) simp
  then show ?thesis using assms by (simp add: store_pending_def)
qed

text \<open>A step that goes on with the pair has moved past the mark or the colon.\<close>

definition moved :: "lstate \<Rightarrow> key_step \<Rightarrow> lstate \<Rightarrow> bool" where
  "moved s x s' \<longleftrightarrow> (\<forall>v. x = Go v \<longrightarrow> l_position s < l_position s')"

lemma explicit_mark_ok:
  assumes "ready s" and "ch s \<noteq> 0"
  shows "gives s (explicit_mark datestr r v s) (moved s)"
proof -
  have "gives s (rbind (store_pending datestr r v s) (\<lambda>(v, s).
          Inr (Go (v\<lparr> v_detected := True, v_atExplicitKey := True, v_allowCompact := True \<rparr>), move 1 s))) (moved s)"
  proof (rule gives_bind [OF store_pending_ok [OF assms(1)]])
    fix w t
    assume t: "adv s t" "still s t"
    have "adv t (move 1 t)" using t assms still_ch(1) [OF t(2)] by (intro adv_move1) (auto dest: adv_ready)
    then have "adv s (move 1 t)" using t(1) adv_trans by blast
    then show "gives s (Inr (Go (w\<lparr> v_detected := True, v_atExplicitKey := True, v_allowCompact := True \<rparr>), move 1 t)) (moved s)"
      using still_pos [OF t(2)] by (simp add: moved_def)
  qed
  moreover have "adv s (move 1 s)" using assms by (intro adv_move1)
  ultimately show ?thesis by (simp add: explicit_mark_def) (simp add: moved_def)
qed

context composing
begin

lemma implicit_key_ok:
  assumes "ready s" and "room s < k"
  shows "gives s (implicit_key datestr cn i r v s) (moved s)"
  unfolding implicit_key_def
proof (rule gives_bind [OF cn_ok [OF assms(1)]])
  show "room s + (if block_context CONTEXT_FLOW_OUT then 1 else 0) < k" using assms(2) by (simp add: block_context_def)
  fix found t
  assume t: "adv s t"
  have go: "gives s (rbind (store_pending datestr r v (move 1 u)) (\<lambda>(v, s').
                    Inr (Go (v\<lparr> v_detected := True, v_atExplicitKey := False, v_allowCompact := False,
                                v_keyTag := l_tag s', v_keyNode := l_result s' \<rparr>), s'))) (moved s)"
    if u: "adv s u" "ch u = 58" for u
  proof -
    have m: "adv u (move 1 u)" using u by (intro adv_move1) (auto dest: adv_ready)
    show ?thesis
    proof (rule gives_bind_at [OF adv_trans [OF u(1) m] store_pending_ok [OF adv_ready [OF m]]])
      fix v' w
      assume w: "adv s w" "still (move 1 u) w"
      have "l_position s < l_position w" using still_pos [OF w(2)] u(1) by (simp add: adv_def)
      then show "gives s (Inr (Go (v'\<lparr> v_detected := True, v_atExplicitKey := False, v_allowCompact := False,
                                v_keyTag := l_tag w, v_keyNode := l_result w \<rparr>), w)) (moved s)"
        using w(1) by (simp add: moved_def)
    qed
  qed
  have "gives s (rbind (scan_while is_WHITE_SPACE t) (\<lambda>(_, s').
           if ch s' = 58 then
             let s' = move 1 s'
             in if \<not> is_WS_OR_EOL (ch s') then
                  throwError s' ''a whitespace character is expected after the key-value separator within a block mapping''
                else
                  rbind (store_pending datestr r v s') (\<lambda>(v, s').
                    Inr (Go (v\<lparr> v_detected := True, v_atExplicitKey := False, v_allowCompact := False,
                                v_keyTag := l_tag s', v_keyNode := l_result s' \<rparr>), s'))
           else if v_detected v then throwError s' ''can not read an implicit mapping pair; a colon is missed''
           else Inr (Return, s'))) (moved s)"
    by (rule gives_bind_at [OF t scan_while_ok [OF adv_ready [OF t]]])
      (use go in \<open>auto simp: Let_def moved_def\<close>)
  then show "gives s (if \<not> found then Inr (Break v, t)
       else if l_line t = l_line s then
         rbind (scan_while is_WHITE_SPACE t) (\<lambda>(_, s').
           if ch s' = 58 then
             let s' = move 1 s'
             in if \<not> is_WS_OR_EOL (ch s') then
                  throwError s' ''a whitespace character is expected after the key-value separator within a block mapping''
                else
                  rbind (store_pending datestr r v s') (\<lambda>(v, s').
                    Inr (Go (v\<lparr> v_detected := True, v_atExplicitKey := False, v_allowCompact := False,
                                v_keyTag := l_tag s', v_keyNode := l_result s' \<rparr>), s'))
           else if v_detected v then throwError s' ''can not read an implicit mapping pair; a colon is missed''
           else Inr (Return, s'))
       else if v_detected v then
         throwError t ''can not read a block mapping entry; a multiline key may not be an implicit key''
       else Inr (Return, t)) (moved s)"
    using t by (simp add: moved_def)
qed

lemma read_key_ok:
  "ready s \<Longrightarrow> ch s \<noteq> 0 \<Longrightarrow> room s < k \<Longrightarrow> gives s (read_key datestr cn i r v s) (moved s)"
  using explicit_mark_ok [of s datestr r v] implicit_key_ok [of s datestr i r v] by (simp add: read_key_def)

lemma read_value_ok:
  assumes "ready s" and "room s + 1 < k"
  shows "gives s (read_value datestr cn i r l p v s) (\<lambda>_ _. True)"
proof -
  have tail: "gives s (rbind (skipSeparationSpace u True (-1)) (\<lambda>(_, s). Inr (w, s))) (\<lambda>_ _. True)" if u: "adv s u" for u and w :: map_vars
    by (rule gives_bind_at [OF u skipSeparationSpace_ok [OF adv_ready [OF u]]]) simp
  have store: "gives s (rbind (storeMappingPair datestr t r (v_overridable w) (v_keyTag w) (v_keyNode w) (v_valueNode w)
                               (Some l) (Some p)) (\<lambda>(ov, s). Inr (no_pair (w\<lparr> v_overridable := ov \<rparr>), s))) (\<lambda>_ _. True)"
    if t: "adv s t" for t w
    by (rule gives_bind_at [OF t storeMappingPair_ok [OF adv_ready [OF t]]]) simp
  have "gives s (if v_atExplicitKey w then Inr (w, t)
                    else
                      rbind (storeMappingPair datestr t r (v_overridable w) (v_keyTag w) (v_keyNode w) (v_valueNode w)
                               (Some l) (Some p)) (\<lambda>(ov, s).
                        Inr (no_pair (w\<lparr> v_overridable := ov \<rparr>), s))) (\<lambda>_ _. True)" if t: "adv s t" for t w
    using store [OF t] t by simp
  then have "gives s (rbind (if v_atExplicitKey w then Inr (w, t)
                    else
                      rbind (storeMappingPair datestr t r (v_overridable w) (v_keyTag w) (v_keyNode w) (v_valueNode w)
                               (Some l) (Some p)) (\<lambda>(ov, s).
                        Inr (no_pair (w\<lparr> v_overridable := ov \<rparr>), s))) (\<lambda>(v, s).
             rbind (skipSeparationSpace s True (-1)) (\<lambda>(_, s). Inr (v, s)))) (\<lambda>_ _. True)" if t: "adv s t" for t w
    by (rule gives_bind [OF _ tail]) (use t in simp_all)
  then have "gives s (rbind (cn s i CONTEXT_BLOCK_OUT True (v_allowCompact v)) (\<lambda>(found, s).
          let v = (if \<not> found then v
                   else if v_atExplicitKey v then v\<lparr> v_keyNode := l_result s \<rparr>
                   else v\<lparr> v_valueNode := l_result s \<rparr>)
          in rbind (if v_atExplicitKey v then Inr (v, s)
                    else
                      rbind (storeMappingPair datestr s r (v_overridable v) (v_keyTag v) (v_keyNode v) (v_valueNode v)
                               (Some l) (Some p)) (\<lambda>(ov, s).
                        Inr (no_pair (v\<lparr> v_overridable := ov \<rparr>), s))) (\<lambda>(v, s).
             rbind (skipSeparationSpace s True (-1)) (\<lambda>(_, s). Inr (v, s))))) (\<lambda>_ _. True)"
    unfolding Let_def by (intro gives_bind [OF cn_at [OF assms]]) blast
  then show ?thesis using assms(1) by (simp add: read_value_def)
qed

lemma mapping_loop_ok:
  assumes "adv s0 s" and "room s < k" and "length (l_input s) - l_position s < n"
  shows "gives s0 (mapping_loop datestr cn n i j r v s) (\<lambda>_ _. True)"
  using assms
proof (induction n arbitrary: s v)
  case (Suc n)
  let ?next = "\<lambda>v s'. if int (l_lineIndent s') > i \<and> ch s' \<noteq> 0 then
                  throwError s' ''bad indentation of a mapping entry''
                else if int (l_lineIndent s') < i then Inr (Break v, s')
                else mapping_loop datestr cn n i j r v s'"
  let ?step = "\<lambda>step s'. case step of
            Go v \<Rightarrow> rbind (read_value datestr cn i r (l_line s) (l_position s) v s') (\<lambda>(v, s'). ?next v s')
          | Break v \<Rightarrow> Inr (Break v, s')
          | Return \<Rightarrow> Inr (Return, s')"
  have go: "gives s0 (rbind (read_value datestr cn i r (l_line s) (l_position s) w t) (\<lambda>(v, s'). ?next v s')) (\<lambda>_ _. True)"
    if t: "adv s0 t" "adv s t" "l_position s < l_position t" for w t
  proof (rule gives_bind_at [OF t(1) read_value_ok [OF adv_ready [OF t(1)]]])
    show "room t + 1 < k" using room_less [OF t(2,3)] Suc(3) by simp
    fix w' u
    assume u: "adv s0 u" "adv t u"
    have "room u < k" using room_adv [OF adv_trans [OF t(2) u(2)]] Suc(3) by simp
    moreover have "length (l_input u) - l_position u < n"
      using adv_rest [OF adv_trans [OF t(2) u(2)] _ Suc(4)] t(3) adv_pos [OF u(2)] by simp
    ultimately have "gives s0 (mapping_loop datestr cn n i j r w' u) (\<lambda>_ _. True)" using u(1) by (intro Suc(1))
    then show "gives s0 (?next w' u) (\<lambda>_ _. True)" using u(1) by (auto split: if_split)
  qed
  have "gives s0 (rbind (read_key datestr cn j r v s) (\<lambda>(step, s'). ?step step s')) (\<lambda>_ _. True)" if "ch s \<noteq> 0"
    by (rule gives_bind_at [OF Suc(2) read_key_ok [OF adv_ready [OF Suc(2)] that Suc(3)]])
      (use go in \<open>auto simp: moved_def split: key_step.split\<close>)
  then show ?case using Suc(2) by simp
qed simp

lemma readBlockMapping_ok:
  assumes "ready s" and "room s < k"
  shows "gives s (readBlockMapping datestr cn s i j) (\<lambda>_ _. True)"
proof -
  let ?u = "\<lambda>r. bind_anchor (VRef r) (snd (new_obj (OObj []) s))"
  let ?fin = "\<lambda>r step s'. case step of
               Return \<Rightarrow> Inr (True, s'\<lparr> l_tag := l_tag s, l_anchor := l_anchor s \<rparr>)
             | Go v \<Rightarrow> Inr (v_detected v, s')
             | Break v \<Rightarrow>
                 rbind (store_pending datestr r v s') (\<lambda>(_, s').
                   Inr (v_detected v, if v_detected v then finish s ''mapping'' r s' else s'))"
  have a: "adv s (?u r)" for r using assms by simp
  have "room (?u r) < k" "length (l_input (?u r)) - l_position (?u r) < length (l_input s) + 1" for r
    using room_adv [OF a, of r] a [of r] assms(2) by (auto simp: adv_def)
  note loop = mapping_loop_ok [OF a this]
  have brk: "gives s (rbind (store_pending datestr r v t) (\<lambda>(_, s').
                   Inr (v_detected v, if v_detected v then finish s ''mapping'' r s' else s'))) (\<lambda>_ _. True)"
    if t: "adv s t" for t r v
    by (rule gives_bind_at [OF t store_pending_ok [OF adv_ready [OF t]]]) simp
  have "gives s (rbind (mapping_loop datestr cn (length (l_input s) + 1) i j r v (?u r)) (\<lambda>(step, s'). ?fin r step s')) (\<lambda>_ _. True)" for r v
    by (rule gives_bind [OF loop]) (use brk in \<open>auto split: key_step.split\<close>)
  then show ?thesis by (simp add: readBlockMapping_def case_prod_beta')
qed

end

lemma read_property_ok:
  assumes "ready s"
  shows "gives s (read_property s) (\<lambda>b s'. b \<longrightarrow> l_position s < l_position s')"
  unfolding read_property_def
proof (rule gives_bind [OF readTagProperty_ok [OF assms]])
  fix found t
  assume t: "adv s t" "found \<longrightarrow> l_position s < l_position t"
  have "gives s (readAnchorProperty t) (\<lambda>b s'. b \<longrightarrow> l_position s < l_position s')"
    by (rule gives_mono [OF gives_trans [OF t(1) readAnchorProperty_ok [OF adv_ready [OF t(1)]]]])
      (use t(1) in \<open>auto simp: adv_def\<close>)
  then show "gives s (if found then Inr (True, t) else readAnchorProperty t) (\<lambda>b s'. b \<longrightarrow> l_position s < l_position s')"
    using t by simp
qed

lemma property_loop_ok:
  assumes "adv s0 s" and "length (l_input s) - l_position s < n" and "c \<Longrightarrow> b"
  shows "gives s0 (property_loop n i b a c st s) (\<lambda>(_, c', _) _. c' \<longrightarrow> b)"
  using assms
proof (induction n arbitrary: s a c st)
  case (Suc n)
  let ?more = "\<lambda>breaks s. if breaks \<noteq> 0 then property_loop n i b True b (indent_status s i) s
           else property_loop n i b a False st s"
  have more: "gives s0 (rbind (skipSeparationSpace t True (-1)) (\<lambda>(breaks, s). ?more breaks s)) (\<lambda>(_, c', _) _. c' \<longrightarrow> b)"
    if t: "adv s0 t" "adv s t" "l_position s < l_position t" for t
  proof (rule gives_bind_at [OF t(1) skipSeparationSpace_ok [OF adv_ready [OF t(1)]]])
    fix breaks u
    assume u: "adv s0 u" "adv t u"
    then have "length (l_input u) - l_position u < n" using t Suc(3) by (auto simp: adv_def ready_def)
    then have "gives s0 (property_loop n i b a' c' st' u) (\<lambda>(_, c', _) _. c' \<longrightarrow> b)" if "c' \<Longrightarrow> b" for a' c' st'
      using u(1) that by (intro Suc(1))
    then show "gives s0 (?more breaks u) (\<lambda>(_, c', _) _. c' \<longrightarrow> b)" by simp
  qed
  show ?case unfolding property_loop.simps
    by (rule gives_bind_at [OF Suc(2) read_property_ok [OF adv_ready [OF Suc(2)]]]) (use more Suc(4) in auto)
qed simp

lemma or_try_ok:
  assumes "gives s m (\<lambda>_ _. True)" and "\<And>t. adv s t \<Longrightarrow> gives s (f t) (\<lambda>_ _. True)"
  shows "gives s (or_try m f) (\<lambda>_ _. True)"
  unfolding or_try_def by (rule gives_bind [OF assms(1)]) (use assms(2) in auto)

lemma gives_at: "(\<And>t. ready t \<Longrightarrow> gives t (f t) Q) \<Longrightarrow> adv s t \<Longrightarrow> gives s (f t) Q"
  using gives_trans adv_ready by blast

lemma read_scalar_ok: "ready s \<Longrightarrow> gives s (read_scalar b i s) (\<lambda>_ _. True)"
  unfolding read_scalar_def
  by (intro or_try_ok) (auto intro: readBlockScalar_ok gives_at readSingleQuotedScalar_ok readDoubleQuotedScalar_ok)

lemma read_leaf_ok:
  assumes "ready s"
  shows "gives s (read_leaf b i c s) (\<lambda>_ _. True)"
proof -
  let ?plain = "\<lambda>s. rbind (readPlainScalar s i (c = CONTEXT_FLOW_IN)) (\<lambda>(found, s).
                    if found then Inr (True, if l_tag s = None then s\<lparr> l_tag := Some (js ''?'') \<rparr> else s)
                    else Inr (False, s))"
  let ?ali = "\<lambda>found s. if found then
                  (if l_tag s \<noteq> None \<or> l_anchor s \<noteq> None then
                     throwError s ''alias node should not have any properties''
                   else Inr (True, s))
                else ?plain s"
  have plain: "gives s (?plain t) (\<lambda>_ _. True)" if t: "adv s t" for t
    by (rule gives_bind_at [OF t readPlainScalar_ok [OF adv_ready [OF t]]]) simp
  have ali: "gives s (rbind (readAlias t) (\<lambda>(found, s). ?ali found s)) (\<lambda>_ _. True)" if t: "adv s t" for t
    by (rule gives_bind_at [OF t readAlias_ok [OF adv_ready [OF t]]]) (use plain in auto)
  have "gives s (rbind (if found then Inr (True, t) else rbind (readAlias t) (\<lambda>(found, s). ?ali found s)) (\<lambda>(found, s).
       Inr (found, bind_anchor (l_result s) s))) (\<lambda>_ _. True)" if t: "adv s t" for found t
    by (rule gives_bind [where Q = "\<lambda>_ _. True"]) (use t ali [OF t] in auto)
  then show ?thesis
    unfolding read_leaf_def by (intro gives_bind [OF read_scalar_ok [OF assms]])
qed

lemma construct_node_ok:
  "ready s \<Longrightarrow> construct_node datestr t s \<noteq> Inl Diverges"
  "ready s \<Longrightarrow> construct_node datestr t s = Inr s' \<Longrightarrow> still s s'"
  by (auto simp: construct_node_def lift_js_def rbind_Inl_iff rbind_Inr_iff case_prod_beta' split: sum.splits)

lemma resolve_node_ok:
  assumes "ready s"
  shows "resolve_node datestr s \<noteq> Inl Diverges" and "resolve_node datestr s = Inr s' \<Longrightarrow> still s s'"
proof -
  note c = construct_node_ok [OF assms]
  have "resolve_implicit datestr s \<noteq> Inl Diverges \<and> (\<forall>s'. resolve_implicit datestr s = Inr s' \<longrightarrow> still s s')"
    using c by (auto simp: resolve_implicit_def rbind_Inl_iff rbind_Inr_iff split: option.splits)
  moreover have "resolve_explicit datestr tag s \<noteq> Inl Diverges \<and> (\<forall>s'. resolve_explicit datestr tag s = Inr s' \<longrightarrow> still s s')" for tag
    using c by (auto simp: resolve_explicit_def split: option.splits if_splits)
  ultimately show "resolve_node datestr s \<noteq> Inl Diverges" "resolve_node datestr s = Inr s' \<Longrightarrow> still s s'"
    by (auto simp: resolve_node_def split: option.splits if_splits)
qed

context composing
begin

lemma read_collection_ok:
  assumes "ready s" and "room s \<le> k" and "b \<Longrightarrow> room s < k"
  shows "gives s (read_collection datestr cn b i j s) (\<lambda>_ _. True)"
proof -
  have "gives s (readBlockMapping datestr cn t i j) (\<lambda>_ _. True)" if "b" "adv s t" for t
    using that room_adv [OF that(2)] assms(3) by (intro gives_trans [OF that(2)] readBlockMapping_ok) (auto dest: adv_ready)
  then have "gives s (or_try (readBlockSequence cn s i) (\<lambda>s. readBlockMapping datestr cn s i j)) (\<lambda>_ _. True)" if b
    using that assms by (intro or_try_ok readBlockSequence_ok) auto
  moreover have "gives s (readFlowCollection datestr cn t j) (\<lambda>_ _. True)" if "adv s t" for t
    using that room_adv [OF that] assms(2) by (intro gives_trans [OF that] readFlowCollection_ok) (auto dest: adv_ready)
  ultimately show ?thesis unfolding read_collection_def by (intro or_try_ok) (use assms(1) in auto)
qed

lemma read_content_ok:
  assumes "ready s" and "room s \<le> k" and "bc \<Longrightarrow> room s < k"
  shows "gives s (read_content datestr cn i c b bc st s) (\<lambda>_ _. True)"
proof -
  have "gives s (or_try (read_collection datestr cn bc x y s) (\<lambda>s. read_leaf b y c s)) (\<lambda>_ _. True)" for x y
    using assms by (intro or_try_ok read_collection_ok) (auto intro: gives_at read_leaf_ok)
  then show ?thesis
    using assms(1) readBlockSequence_ok [OF assms(1,2)] by (auto simp: read_content_def Let_def)
qed

text \<open>The node after its properties: the content, and the type of the node.\<close>

lemma node_rest_ok:
  assumes "adv s t" and "room t \<le> k" and "bc \<Longrightarrow> room t < k"
  shows "gives s (rbind (read_content datestr cn i c b bc st t) (\<lambda>(hasContent, s).
         rbind (resolve_node datestr s) (\<lambda>s.
           Inr (l_tag s \<noteq> None \<or> l_anchor s \<noteq> None \<or> hasContent, s)))) (\<lambda>_ _. True)"
proof (rule gives_bind_at [OF assms(1) read_content_ok [OF adv_ready [OF assms(1)] assms(2,3)]])
  fix h u
  assume u: "adv s u"
  note r = resolve_node_ok [OF adv_ready [OF u]]
  show "gives s (rbind (resolve_node datestr u) (\<lambda>s.
           Inr (l_tag s \<noteq> None \<or> l_anchor s \<noteq> None \<or> h, s))) (\<lambda>_ _. True)"
    by (rule gives_check) (use r still_adv adv_ready [OF u] adv_trans [OF u] in auto)
qed simp

lemma composeNode_body_ok:
  assumes "ready s" and "room s + (if block_context c then 1 else 0) \<le> k"
  shows "gives s (composeNode_body datestr cn s i c b b') (\<lambda>_ _. True)"
proof -
  let ?s = "s\<lparr> l_tag := None, l_anchor := None, l_kind := None, l_result := VNull \<rparr>"
  let ?b = "c = CONTEXT_BLOCK_OUT \<or> c = CONTEXT_BLOCK_IN"
  have a: "adv s ?s" using assms(1) by simp
  have sep: "gives s (rbind (skipSeparationSpace ?s True (-1)) (\<lambda>(breaks, s).
      Inr (if breaks \<noteq> 0 then (True, indent_status s i) else (False, 1), s))) (\<lambda>_ _. True)"
    by (rule gives_bind_at [OF a skipSeparationSpace_ok [OF adv_ready [OF a]]]) simp
  then have seek: "gives s (if b then
                  rbind (skipSeparationSpace ?s True (-1)) (\<lambda>(breaks, s).
                    Inr (if breaks \<noteq> 0 then (True, indent_status s i) else (False, 1), s))
                else Inr ((False, 1), ?s)) (\<lambda>_ _. True)"
    using a by simp
  have rest: "gives s (rbind (read_content datestr cn i c ?b (bc \<and> (nl \<or> b')) st t) (\<lambda>(hasContent, s).
         rbind (resolve_node datestr s) (\<lambda>s.
           Inr (l_tag s \<noteq> None \<or> l_anchor s \<noteq> None \<or> hasContent, s)))) (\<lambda>_ _. True)"
    if t: "adv s t" and "bc \<longrightarrow> ?b" for bc nl st t
    using node_rest_ok [OF t, of "bc \<and> (nl \<or> b')"] room_adv [OF t] assms(2) that(2)
    by (auto simp: block_context_def split: if_splits)
  have props: "gives s (rbind (if st = 1 then property_loop (length (l_input t) + 1) i ?b nl ?b st t
                else Inr ((nl, ?b, st), t)) (\<lambda>((atNewLine, allowBlockCollections, status), s).
         rbind (read_content datestr cn i c ?b (allowBlockCollections \<and> (atNewLine \<or> b')) status s) (\<lambda>(hasContent, s).
         rbind (resolve_node datestr s) (\<lambda>s.
           Inr (l_tag s \<noteq> None \<or> l_anchor s \<noteq> None \<or> hasContent, s))))) (\<lambda>_ _. True)" if t: "adv s t" for nl st t
  proof (rule gives_bind [where Q = "\<lambda>(_, c', _) _. c' \<longrightarrow> ?b"], goal_cases)
    case 1
    show ?case using property_loop_ok [OF t, of "length (l_input t) + 1" ?b ?b i nl st] t by (auto simp: adv_def ready_def)
  next
    case (2 x u)
    then show ?case using rest by (cases x) auto
  qed
  show ?thesis
    unfolding composeNode_body_def Let_def
    by (rule gives_bind [OF seek]) (use props in auto)
qed

end

lemma composeNode_composing: "composing (composeNode datestr n) n"
proof (induction n)
  case (Suc n)
  then show ?case by (intro composing.intro) (use composing.composeNode_body_ok [OF Suc] in auto)
qed (simp add: composing_def)

interpretation node: composing "composeNode datestr n" n for datestr n
  by (rule composeNode_composing)

end
