(* ===== verification/YamlTermination.thy ===== *)
theory YamlTermination
  imports YamlLoader
begin

text \<open>
  Loading ends: on every input and with every schema, \<^verbatim>\<open>loadDocuments\<close> returns its documents or throws. The scanner
  and the readers of collections are treated beside their definitions; here are the directives, the documents
  and the loop over them. A document that does not advance leaves the position at the end of the input.
\<close>

lemma scan_while_here: "\<not> p (ch s) \<Longrightarrow> scan_while p s = Inr ((), s)"
  by (simp add: scan_while_def ch_def skip_while.simps)

text \<open>Such a scan changes nothing but the position.\<close>

lemma scan_while_indent:
  assumes "ready s" and "\<not> p 0"
  shows "gives s (scan_while p s) (\<lambda>_ s'. \<not> p (ch s') \<and> l_lineIndent s' = l_lineIndent s \<and> (p (ch s) \<longrightarrow> l_position s < l_position s'))"
proof (rule gives_mono [OF scan_while_ok [of s p, OF assms]])
  fix a s'
  assume r: "\<not> p (ch s') \<and> s' = s\<lparr> l_position := l_position s' \<rparr> \<and> (p (ch s) \<longrightarrow> l_position s < l_position s')"
  have "l_lineIndent s' = l_lineIndent (s\<lparr> l_position := l_position s' \<rparr>)"
    by (rule arg_cong [of s' _ l_lineIndent]) (use r in blast)
  then have "l_lineIndent s' = l_lineIndent s" by simp
  then show "\<not> p (ch s') \<and> l_lineIndent s' = l_lineIndent s \<and> (p (ch s) \<longrightarrow> l_position s < l_position s')" using r by blast
qed

section \<open>Directives\<close>

lemma args_loop_ok:
  assumes "adv s0 s" and "ch s = 0 \<or> length (l_input s) - l_position s < n" and "0 < n" and "l_lineIndent s = l_lineIndent s0"
  shows "gives s0 (args_loop n a s) (\<lambda>_ s'. l_lineIndent s' = l_lineIndent s0)"
  using assms
proof (induction n arbitrary: s a)
  case (Suc n)
  let ?loop = "\<lambda>s. if ch s = 35 then
            rbind (scan_while (\<lambda>c. c \<noteq> 0 \<and> \<not> is_EOL c) (move 1 s)) (\<lambda>(_, s). Inr (a, s))
          else if is_EOL (ch s) then Inr (a, s)
          else
            rbind (scan_while word_char s) (\<lambda>(_, s').
              args_loop n (a @ [str_slice (l_input s) (l_position s) (l_position s')]) s')"
  have loop: "gives s0 (?loop t) (\<lambda>_ s'. l_lineIndent s' = l_lineIndent s0)"
    if t: "adv s0 t" "adv s t" "l_lineIndent t = l_lineIndent s0" and nz: "ch s \<noteq> 0" and nw: "\<not> is_WHITE_SPACE (ch t)" for t
  proof -
    have 1: "gives s0 (rbind (scan_while (\<lambda>c. c \<noteq> 0 \<and> \<not> is_EOL c) (move 1 t)) (\<lambda>(_, s). Inr (a, s))) (\<lambda>_ s'. l_lineIndent s' = l_lineIndent s0)"
      if "ch t = 35"
    proof -
      have m: "adv t (move 1 t)" using t that by (intro adv_move1) (auto dest: adv_ready)
      show ?thesis
        by (rule gives_bind_at [OF adv_trans [OF t(1) m] scan_while_indent [OF adv_ready [OF m]]])
          (use t(3) in auto)
    qed
    have 2: "gives s0 (rbind (scan_while word_char t) (\<lambda>(_, s').
              args_loop n (a @ [str_slice (l_input t) (l_position t) (l_position s')]) s')) (\<lambda>_ s'. l_lineIndent s' = l_lineIndent s0)"
      if c: "\<not> is_EOL (ch t)"
    proof (cases "word_char (ch t)")
      case True
      show ?thesis
      proof (rule gives_bind_at [OF t(1) scan_while_indent [OF adv_ready [OF t(1)]]])
        fix x u
        assume u: "adv s0 u" "adv t u"
          and w: "\<not> word_char (ch u) \<and> l_lineIndent u = l_lineIndent t \<and> (word_char (ch t) \<longrightarrow> l_position t < l_position u)"
        have "l_position s < l_position u" using w True adv_pos [OF t(2)] by simp
        then have "length (l_input u) - l_position u < n" using adv_rest [OF adv_trans [OF t(2) u(2)] _] Suc(3) nz by blast
        moreover have "l_lineIndent u = l_lineIndent s0" using w t(3) by simp
        ultimately show "gives s0 (args_loop n (a @ [str_slice (l_input t) (l_position t) (l_position u)]) u)
            (\<lambda>_ s'. l_lineIndent s' = l_lineIndent s0)"
          using u(1) by (intro Suc(1)) auto
      qed (simp add: word_char_def)
    next
      case False
      then have "ch t = 0" using c nw by (auto simp: word_char_def is_WS_OR_EOL_def is_WHITE_SPACE_def is_EOL_def)
      moreover have "0 < n" using Suc(3) nz t(2) by (auto simp: adv_def ready_def)
      ultimately show ?thesis using Suc(1) [OF t(1)] t(3) by (simp add: scan_while_here [of word_char, OF False])
    qed
    show ?thesis using 1 2 t by simp
  qed
  have "gives s0 (rbind (scan_while is_WHITE_SPACE s) (\<lambda>(_, s). ?loop s)) (\<lambda>_ s'. l_lineIndent s' = l_lineIndent s0)" if "ch s \<noteq> 0"
    by (rule gives_bind_at [OF Suc(2) scan_while_indent [OF adv_ready [OF Suc(2)]]])
      (use loop that Suc(5) in auto)
  then show ?case using Suc(2,5) by simp
qed simp

lemma handle_directives:
  "handleYamlDirective s args \<noteq> Inl Diverges" "handleYamlDirective s args = Inr s' \<Longrightarrow> still s s'"
  "handleTagDirective s args \<noteq> Inl Diverges" "handleTagDirective s args = Inr s' \<Longrightarrow> still s s'"
  by (auto simp: handleYamlDirective_def handleTagDirective_def Let_def split: option.splits if_splits)

lemma read_directive_ok:
  assumes "ready s" and "ch s = 37" and "l_lineIndent s = 0"
  shows "gives s (read_directive s) (\<lambda>_ s'. l_position s < l_position s')"
proof -
  have m: "adv s (move 1 s)" using assms by (intro adv_move1) auto
  let ?handle = "\<lambda>name args s. if name = js ''YAML'' then handleYamlDirective s args
                       else if name = js ''TAG'' then handleTagDirective s args
                       else Inr (throwWarning s (js ''unknown document directive \"'' @ name @ js ''\"''))"
  let ?line = "\<lambda>s. if ch s \<noteq> 0 then readLineBreak s else Inr ((), s)"
  have handle: "gives s (rbind (?handle name args t) (\<lambda>s. Inr ((), s))) (\<lambda>_ s'. l_position s < l_position s')"
    if t: "adv s t" "l_position s < l_position t" for name args t
  proof (rule gives_check)
    show "?handle name args t \<noteq> Inl Diverges" by (simp add: handle_directives)
    fix u
    assume "?handle name args t = Inr u"
    then have st: "still t u" by (auto simp: handle_directives split: if_splits)
    have "adv s u" using t st still_adv adv_ready adv_trans by blast
    then show "gives s (Inr ((), u)) (\<lambda>_ s'. l_position s < l_position s')" using t(2) still_pos [OF st] by simp
  qed
  have line: "gives s (?line t) (\<lambda>_ s'. l_position s < l_position s')"
    if t: "adv s t" "l_position s < l_position t" "l_lineIndent t = 0" for t
  proof (cases "ch t = 0")
    case False
    have "adv s u \<and> l_position s < l_position u" if "readLineBreak t = Inr (a, u)" for a u
    proof -
      note l = readLineBreak_ok(2) [OF adv_ready [OF t(1)] that]
      then have "u\<lparr> l_lineIndent := 0 \<rparr> = u" using t(3) by simp
      then have "adv t u" using l by metis
      then show ?thesis using t(1,2) l adv_trans by (metis less_trans)
    qed
    then show ?thesis
      using readLineBreak_ok(1) [OF adv_ready [OF t(1)]] False by (auto simp: gives_def)
  qed (use t in simp)
  have rest: "gives s (rbind (args_loop (length (l_input t) + 1) [] t) (\<lambda>(args, s).
                rbind (?line s) (\<lambda>(_, s). rbind (?handle name args s) (\<lambda>s. Inr ((), s))))) (\<lambda>_ s'. l_position s < l_position s')"
    if t: "adv s t" "l_position s < l_position t" "l_lineIndent t = 0" for name t
  proof (rule gives_bind_at [OF t(1) args_loop_ok])
    show "adv t t" using t(1) by (auto dest: adv_ready)
    show "ch t = 0 \<or> length (l_input t) - l_position t < length (l_input t) + 1" by linarith
    fix args u
    assume u: "adv s u" "adv t u" "l_lineIndent u = l_lineIndent t"
    then have "gives s (?line u) (\<lambda>_ s'. l_position s < l_position s')" using t adv_pos [OF u(2)] by (intro line) auto
    then show "gives s (rbind (?line u) (\<lambda>(_, s). rbind (?handle name args s) (\<lambda>s. Inr ((), s)))) (\<lambda>_ s'. l_position s < l_position s')"
      by (rule gives_bind) (rule handle)
  qed simp_all
  have "gives s (rbind (scan_while word_char (move 1 s)) (\<lambda>(_, t).
           let name = str_slice (l_input t) (l_position (move 1 s)) (l_position t)
           in if length name < 1 then throwError t ''directive name must not be less than one character in length''
              else rbind (args_loop (length (l_input t) + 1) [] t) (\<lambda>(args, s).
                rbind (?line s) (\<lambda>(_, s). rbind (?handle name args s) (\<lambda>s. Inr ((), s)))))) (\<lambda>_ s'. l_position s < l_position s')"
  proof (rule gives_bind_at [OF m scan_while_indent [OF adv_ready [OF m]]])
    fix t
    assume t: "adv s t" "adv (move 1 s) t"
      "\<not> word_char (ch t) \<and> l_lineIndent t = l_lineIndent (move 1 s) \<and> (word_char (ch (move 1 s)) \<longrightarrow> l_position (move 1 s) < l_position t)"
    have "l_position s < l_position t" "l_lineIndent t = 0" using adv_pos [OF t(2)] t(3) assms(3) by auto
    note r = rest [OF t(1) this]
    show "gives s (let name = str_slice (l_input t) (l_position (move 1 s)) (l_position t)
           in if length name < 1 then throwError t ''directive name must not be less than one character in length''
              else rbind (args_loop (length (l_input t) + 1) [] t) (\<lambda>(args, s).
                rbind (?line s) (\<lambda>(_, s). rbind (?handle name args s) (\<lambda>s. Inr ((), s))))) (\<lambda>_ s'. l_position s < l_position s')"
      unfolding Let_def using r by (cases "length (str_slice (l_input t) (l_position (move 1 s)) (l_position t)) < 1") (simp_all only: if_True if_False gives_throw)
  qed (simp add: word_char_def)
  then show ?thesis unfolding read_directive_def Let_def .
qed

lemma directives_loop_ok:
  assumes "adv s0 s" and "length (l_input s) - l_position s < n"
  shows "gives s0 (directives_loop n h s) (\<lambda>_ _. True)"
  using assms
proof (induction n arbitrary: s h)
  case (Suc n)
  let ?more = "\<lambda>s. if l_lineIndent s > 0 \<or> ch s \<noteq> 37 then Inr (h, s)
          else rbind (read_directive s) (\<lambda>(_, s). directives_loop n True s)"
  have more: "gives s0 (rbind (read_directive t) (\<lambda>(_, s). directives_loop n True s)) (\<lambda>_ _. True)"
    if t: "adv s0 t" "adv s t" "ch t = 37" "l_lineIndent t = 0" for t
  proof (rule gives_bind_at [OF t(1) read_directive_ok [OF adv_ready [OF t(1)] t(3,4)]])
    fix u
    assume u: "adv s0 u" "adv t u" "l_position t < l_position u"
    have "length (l_input u) - l_position u < n"
      using adv_rest [OF adv_trans [OF t(2) u(2)] _ Suc(3)] u(3) adv_pos [OF t(2)] by simp
    then show "gives s0 (directives_loop n True u) (\<lambda>_ _. True)" using u(1) by (intro Suc(1))
  qed
  have "gives s0 (rbind (skipSeparationSpace s True (-1)) (\<lambda>(_, s). ?more s)) (\<lambda>_ _. True)"
    by (rule gives_bind_at [OF Suc(2) skipSeparationSpace_ok [OF adv_ready [OF Suc(2)]]]) (use more in auto)
  then show ?case using Suc(2) by simp
qed simp

section \<open>Documents\<close>

lemma adv_move3:
  assumes "ready s" and "ch s \<noteq> 0" and "ch_at s 1 \<noteq> 0" and "ch_at s 2 \<noteq> 0"
  shows "adv s (move 3 s)"
proof -
  have 1: "adv s (move 1 s)" using assms by (intro adv_move1)
  have 2: "adv (move 1 s) (move 2 s)" using adv_move1 [OF adv_ready [OF 1]] assms(3) by (simp add: ch_move)
  have "adv (move 2 s) (move 3 s)" using adv_move1 [OF adv_ready [OF 2]] assms(4) by (simp add: ch_move)
  then show ?thesis using 1 2 adv_trans by blast
qed

text \<open>The state stands on the mark of a new document at the start of a line.\<close>

definition at_mark :: "lstate \<Rightarrow> bool" where
  "at_mark s \<longleftrightarrow> l_position s = l_lineStart s \<and> ch s = 45 \<and> ch_at s 1 = 45 \<and> ch_at s 2 = 45"

lemma at_mark_adv: "adv s s' \<Longrightarrow> l_position s' = l_position s \<Longrightarrow> at_mark s' = at_mark s"
  by (simp add: adv_def at_mark_def ch_def ch_at_def)

lemma skip_after_move3:
  assumes "adv s t" and "ch t \<noteq> 0" and "ch_at t 1 \<noteq> 0" and "ch_at t 2 \<noteq> 0"
  shows "gives s (rbind (skipSeparationSpace (move 3 t) True (-1)) (\<lambda>(_, s). Inr ((), s))) (\<lambda>_ s'. l_position t < l_position s')"
proof -
  have m: "adv t (move 3 t)" using assms adv_ready by (intro adv_move3) auto
  show ?thesis
  proof (rule gives_bind_at [OF adv_trans [OF assms(1) m] skipSeparationSpace_ok [OF adv_ready [OF m]]])
    fix u
    assume "adv s u" "adv (move 3 t) u"
    then show "gives s (Inr ((), u)) (\<lambda>_ s'. l_position t < l_position s')" using adv_pos [of "move 3 t" u] by simp
  qed
qed

lemma read_document_start_ok:
  assumes "ready s"
  shows "gives s (read_document_start h s) (\<lambda>_ s'. l_position s' = l_position s \<longrightarrow> \<not> at_mark s')"
  unfolding read_document_start_def
proof (rule gives_bind [OF skipSeparationSpace_ok [OF assms]])
  fix t
  assume t: "adv s t"
  have mark: "gives s (rbind (skipSeparationSpace (move 3 t) True (-1)) (\<lambda>(_, s). Inr ((), s)))
      (\<lambda>_ s'. l_position s' = l_position s \<longrightarrow> \<not> at_mark s')" if "ch t = 45" "ch_at t 1 = 45" "ch_at t 2 = 45"
    by (rule gives_mono [OF skip_after_move3 [OF t]]) (use that adv_pos [OF t] in auto)
  have "\<not> at_mark t" if "\<not> (l_lineIndent t = 0 \<and> ch t = 45 \<and> ch_at t 1 = 45 \<and> ch_at t 2 = 45)"
    using that adv_ready [OF t] by (auto simp: at_mark_def ready_def)
  then show "gives s (if l_lineIndent t = 0 \<and> ch t = 45 \<and> ch_at t 1 = 45 \<and> ch_at t 2 = 45 then
         rbind (skipSeparationSpace (move 3 t) True (-1)) (\<lambda>(_, s). Inr ((), s))
       else if h then throwError t ''directives end mark is expected''
       else Inr ((), t)) (\<lambda>_ s'. l_position s' = l_position s \<longrightarrow> \<not> at_mark s')"
    using mark t by simp
qed

text \<open>What is left of the input after the last character does not count.\<close>

definition at_end :: "lstate \<Rightarrow> bool" where
  "at_end s \<longleftrightarrow> \<not> int (l_position s) < int (l_length s) - 1"

lemma end_document_ok:
  assumes "adv s t"
  shows "gives s (end_document d t) (\<lambda>_ s'. l_position t < l_position s' \<or> l_position s' = l_position t \<and> at_mark t \<or> at_end s')"
proof -
  let ?w = "if l_checkLineBreaks t \<and> list_ex non_ascii_break (str_slice (l_input t) d (l_position t))
               then throwWarning t (js ''non-ASCII line breaks are interpreted as content'') else t"
  define u where "u = ?w\<lparr> l_documents := l_documents ?w @ [l_result ?w] \<rparr>"
  have st: "still t u" by (simp add: u_def)
  have u: "adv t u" "l_position u = l_position t"
    using still_adv [OF st adv_ready [OF assms]] still_pos [OF st] by auto
  have a: "adv s u" using adv_trans [OF assms u(1)] .
  have "end_document d t = (if l_position u = l_lineStart u \<and> testDocumentSeparator u then
           (if ch u = 46 then rbind (skipSeparationSpace (move 3 u) True (-1)) (\<lambda>(_, s). Inr ((), s)) else Inr ((), u))
         else if int (l_position u) < int (l_length u) - 1 then
           throwError u ''end of the stream or a document separator is expected''
         else Inr ((), u))" (is "_ = ?e")
    unfolding end_document_def Let_def u_def ..
  moreover have "gives s ?e (\<lambda>_ s'. l_position t < l_position s' \<or> l_position s' = l_position t \<and> at_mark t \<or> at_end s')"
  proof (cases "l_position u = l_lineStart u \<and> testDocumentSeparator u")
    case True
    show ?thesis
    proof (cases "ch u = 46")
      case True
      have "gives s (rbind (skipSeparationSpace (move 3 u) True (-1)) (\<lambda>(_, s). Inr ((), s)))
          (\<lambda>_ s'. l_position t < l_position s' \<or> l_position s' = l_position t \<and> at_mark t \<or> at_end s')"
        by (rule gives_mono [OF skip_after_move3 [OF a]])
          (use True u(2) \<open>l_position u = l_lineStart u \<and> testDocumentSeparator u\<close> in \<open>auto simp: testDocumentSeparator_def\<close>)
      then show ?thesis using True \<open>l_position u = l_lineStart u \<and> testDocumentSeparator u\<close> by simp
    next
      case False
      then have "at_mark u" using True by (auto simp: testDocumentSeparator_def at_mark_def)
      then have "at_mark t" using at_mark_adv [OF u] by blast
      then show ?thesis using True False a u(2) by simp
    qed
  next
    case False
    then show ?thesis using a by (auto simp: at_end_def)
  qed
  ultimately show ?thesis by simp
qed

lemma readDocument_ok:
  assumes "ready s"
  shows "gives s (readDocument datestr s) (\<lambda>_ s'. l_position s < l_position s' \<or> at_end s')"
proof -
  let ?s = "s\<lparr> l_version := None, l_checkLineBreaks := l_legacy s, l_tagMap := [], l_anchorMap := [] \<rparr>"
  let ?Q = "\<lambda>_ s'. l_position s < l_position s' \<or> at_end s'"
  have a: "adv s ?s" using assms by simp
  have fin: "gives s (rbind (skipSeparationSpace u True (-1)) (\<lambda>(_, s). end_document d s)) ?Q"
    if u: "adv s u" and nm: "l_position u = l_position s \<longrightarrow> \<not> at_mark u" for u d
  proof (rule gives_bind_at [OF u skipSeparationSpace_ok [OF adv_ready [OF u]]])
    fix v
    assume v: "adv s v" "adv u v"
    show "gives s (end_document d v) ?Q"
    proof (rule gives_mono [OF end_document_ok [OF v(1)]])
      fix w
      assume "l_position v < l_position w \<or> l_position w = l_position v \<and> at_mark v \<or> at_end w"
      moreover have "l_position s < l_position v" if "at_mark v"
        using that nm at_mark_adv [OF v(2)] adv_pos [OF u] adv_pos [OF v(2)] by (cases "l_position v = l_position u") auto
      ultimately show "l_position s < l_position w \<or> at_end w" using adv_pos [OF v(1)] by auto
    qed
  qed
  have node: "gives s (rbind (composeNode datestr (2 * length (l_input t) + 2) t (int (l_lineIndent t) - 1) CONTEXT_BLOCK_OUT False True)
           (\<lambda>(_, s). rbind (skipSeparationSpace s True (-1)) (\<lambda>(_, s). end_document d s))) ?Q"
    if t: "adv s t" and nm: "l_position t = l_position s \<longrightarrow> \<not> at_mark t" for t d
  proof (rule gives_bind_at [OF t node.cn_at [OF adv_ready [OF t]]])
    show "room t + 1 < 2 * length (l_input t) + 2" by (simp add: room_def)
    fix u
    assume u: "adv s u" "adv t u"
    have "l_position u = l_position s \<longrightarrow> \<not> at_mark u"
      using nm at_mark_adv [OF u(2)] adv_pos [OF t] adv_pos [OF u(2)] by auto
    then show "gives s (rbind (skipSeparationSpace u True (-1)) (\<lambda>(_, s). end_document d s)) ?Q" by (rule fin [OF u(1)])
  qed
  have start: "gives s (rbind (read_document_start h t) (\<lambda>(_, s).
         rbind (composeNode datestr (2 * length (l_input s) + 2) s (int (l_lineIndent s) - 1) CONTEXT_BLOCK_OUT False True)
           (\<lambda>(_, s). rbind (skipSeparationSpace s True (-1)) (\<lambda>(_, s). end_document d s)))) ?Q" if t: "adv s t" for t h d
  proof (rule gives_bind_at [OF t read_document_start_ok [OF adv_ready [OF t]]])
    fix u
    assume u: "adv s u" "adv t u" "l_position u = l_position t \<longrightarrow> \<not> at_mark u"
    then have "l_position u = l_position s \<longrightarrow> \<not> at_mark u" using adv_pos [OF t] adv_pos [OF u(2)] by auto
    then show "gives s (rbind (composeNode datestr (2 * length (l_input u) + 2) u (int (l_lineIndent u) - 1) CONTEXT_BLOCK_OUT False True)
           (\<lambda>(_, s). rbind (skipSeparationSpace s True (-1)) (\<lambda>(_, s). end_document d s))) ?Q" by (rule node [OF u(1)])
  qed
  have "gives s (rbind (directives_loop (length (l_input ?s) + 1) False ?s) (\<lambda>(hasDirectives, s).
         rbind (read_document_start hasDirectives s) (\<lambda>(_, s).
         rbind (composeNode datestr (2 * length (l_input s) + 2) s (int (l_lineIndent s) - 1) CONTEXT_BLOCK_OUT False True)
           (\<lambda>(_, s). rbind (skipSeparationSpace s True (-1)) (\<lambda>(_, s). end_document d s))))) ?Q" for d
    by (rule gives_bind [OF directives_loop_ok [OF a]]) (simp, rule start)
  then show ?thesis unfolding readDocument_def Let_def .
qed

section \<open>Loading\<close>

lemma documents_loop_ok:
  assumes "ready s" and "length (l_input s) - l_position s < n"
  shows "documents_loop datestr n s \<noteq> Inl Diverges"
    and "documents_loop datestr n s = Inr s' \<Longrightarrow> adv s s' \<and> at_end s'"
proof -
  have "documents_loop datestr n s \<noteq> Inl Diverges \<and> (\<forall>s'. documents_loop datestr n s = Inr s' \<longrightarrow> adv s s' \<and> at_end s')"
    using assms
  proof (induction n arbitrary: s)
    case (Suc n)
    have "documents_loop datestr n t \<noteq> Inl Diverges \<and> (\<forall>s'. documents_loop datestr n t = Inr s' \<longrightarrow> adv s s' \<and> at_end s')"
      if r: "readDocument datestr s = Inr (a, t)" for a t
    proof -
      have t: "adv s t" "l_position s < l_position t \<or> at_end t" using readDocument_ok [OF Suc(2), of datestr] r by (auto simp: gives_def)
      show ?thesis
      proof (cases "at_end t")
        case True
        moreover have "0 < n" using Suc(2,3) by (auto simp: ready_def)
        ultimately show ?thesis using t(1) by (cases n) (auto simp: at_end_def)
      next
        case False
        then have "length (l_input t) - l_position t < n" using adv_rest [OF t(1) _ Suc(3)] t(2) by simp
        then show ?thesis using Suc(1) [OF adv_ready [OF t(1)]] adv_trans [OF t(1)] by blast
      qed
    qed
    moreover have "readDocument datestr s \<noteq> Inl Diverges" using readDocument_ok [OF Suc(2), of datestr] by (simp add: gives_def)
    ultimately show ?case using Suc(2) by (cases "readDocument datestr s") (auto simp: at_end_def)
  qed simp
  then show "documents_loop datestr n s \<noteq> Inl Diverges" "documents_loop datestr n s = Inr s' \<Longrightarrow> adv s s' \<and> at_end s'" by blast+
qed

lemma prepare_input_ends: "prepare_input input = [] \<or> is_EOL (uint (last (prepare_input input)))"
proof (cases "input = []")
  case False
  define t where "t = (if last input \<noteq> 10 \<and> last input \<noteq> 13 then input @ [10] else input)"
  have t: "t \<noteq> []" "last t = 10 \<or> last t = 13" using False by (auto simp: t_def)
  have "prepare_input input = (if hd t = 0xFEFF then tl t else t)"
    using False by (simp add: prepare_input_def Let_def t_def)
  moreover have "last (tl t) = last t" if "tl t \<noteq> []" using that by (simp add: last_tl)
  ultimately show ?thesis using t by (auto simp: is_EOL_def)
qed (simp add: prepare_input_def)

lemma load_State_ready:
  "ready ((load_State full (prepare_input input) options h)\<lparr> l_input := prepare_input input @ [0] \<rparr>)"
  using prepare_input_ends [of input]
  by (auto simp: load_State_def ready_def Let_def nth_append last_conv_nth)

lemma loadDocuments_ok:
  "loadDocuments datestr full h input options \<noteq> Inl Diverges"
  "loadDocuments datestr full h input options = Inr (docs, s) \<Longrightarrow> ready s \<and> at_end s \<and> l_input s = prepare_input input @ [0]"
proof -
  let ?s = "(load_State full (prepare_input input) options h)\<lparr> l_input := prepare_input input @ [0] \<rparr>"
  note i = skip_indent_ok [OF load_State_ready [where full = full and options = options and h = h and input = input]]
  have d: "documents_loop datestr (length (l_input t) + 1) t \<noteq> Inl Diverges
      \<and> (\<forall>s'. documents_loop datestr (length (l_input t) + 1) t = Inr s' \<longrightarrow> adv t s' \<and> at_end s')" if "ready t" for t
    using documents_loop_ok [OF that, of "length (l_input t) + 1" datestr] by auto
  have e: "loadDocuments datestr full h input options = rbind (skip_indent ?s) (\<lambda>(_, s).
         rbind (documents_loop datestr (length (l_input s) + 1) s) (\<lambda>s. Inr (l_documents s, s)))"
    by (simp add: loadDocuments_def Let_def load_State_def)
  show "loadDocuments datestr full h input options \<noteq> Inl Diverges"
    using i d unfolding e by (cases "skip_indent ?s") (auto simp: gives_def rbind_Inl_iff dest!: adv_ready)
  show "ready s \<and> at_end s \<and> l_input s = prepare_input input @ [0]"
    if l: "loadDocuments datestr full h input options = Inr (docs, s)"
  proof -
    obtain t where t: "skip_indent ?s = Inr ((), t)" and s: "documents_loop datestr (length (l_input t) + 1) t = Inr s"
      using l unfolding e by (cases "skip_indent ?s") auto
    have "adv ?s t" using i t by (simp add: gives_def)
    moreover have "adv t s" "at_end s" using d [OF adv_ready [OF \<open>adv ?s t\<close>]] s by auto
    ultimately have "adv ?s s" "at_end s" using adv_trans by blast+
    then show ?thesis unfolding adv_def by simp
  qed
qed

text \<open>C39: The loader ends on every input, with every schema and every option: it returns a document or throws, and none
  of its loops runs past the end of the input.
\<close>

theorem load_ends:
  "load datestr full h input options \<noteq> Inl Diverges \<and> loadAll datestr full h input options \<noteq> Inl Diverges"
  by (auto simp: load_def loadAll_def rbind_Inl_iff loadDocuments_ok(1) split: list.splits)

text \<open>C40: When the documents were read, the position is within the input, at most one character (the final line
  break) and the NUL are left of it, and the start of the current line is not after it.
\<close>

theorem loadDocuments_bounds:
  "case loadDocuments datestr full h input options of
     Inl e \<Rightarrow> e \<noteq> Diverges
   | Inr (docs, s) \<Rightarrow> l_input s = prepare_input input @ [0] \<and> l_length s = length (prepare_input input)
       \<and> l_length s \<le> l_position s + 1 \<and> l_position s \<le> l_length s
       \<and> l_lineStart s \<le> l_position s"
proof (cases "loadDocuments datestr full h input options")
  case (Inl e)
  then show ?thesis using loadDocuments_ok(1) [of datestr full h input options] by auto
next
  case (Inr x)
  obtain docs s where x: "x = (docs, s)" by (cases x)
  then have r: "ready s" "at_end s" "l_input s = prepare_input input @ [0]"
    using loadDocuments_ok(2) [of datestr full h input options docs s] Inr by auto
  then show ?thesis using Inr x by (simp add: ready_def at_end_def)
qed

end
