(* ===== verification/YamlDumper.thy ===== *)
theory YamlDumper
  imports YamlCommon "HOL-Library.List_Lexorder"
begin

text \<open>
  The dumper of \<^verbatim>\<open>js-yaml\<close> (module 522 of \<^verbatim>\<open>swagger-ui.js\<close>): the choice of a style for a string, the five
  styles, flow and block collections, references to objects that occur more than once, and the entry points
  \<^verbatim>\<open>dump\<close> and \<^verbatim>\<open>safeDump\<close>. The functions that write nodes call each other through \<^verbatim>\<open>writeNode\<close>; each is
  defined over the function it calls back, and \<open>writeNode\<close> ties the knot with a bound on the depth, beyond
  which the call does not return (\<open>Diverges\<close>).
\<close>

section \<open>Options\<close>

text \<open>\<^verbatim>\<open>sortKeys\<close> is false, true, a comparison function, given by what sorting with it does, or anything else.\<close>

datatype sort_keys = NoSort | SortDefault | SortBy "jsstr list \<Rightarrow> jsstr list" | SortInvalid

record dump_options =
  do_schema :: "yschema option"
  do_indent :: "int option"
  do_skipInvalid :: bool
  do_flowLevel :: "int option"
  do_styles :: "(jsstr \<times> jsstr) list option"
  do_sortKeys :: sort_keys
  do_lineWidth :: "int option"
  do_noRefs :: bool
  do_noCompatMode :: bool
  do_condenseFlow :: bool

text \<open>The state: what the options fix, and the tag, the text and the used references that the writers change.\<close>

record dstate =
  d_indent :: int
  d_skipInvalid :: bool
  d_flowLevel :: int
  d_styleMap :: "(jsstr \<times> jsstr) list"
  d_sortKeys :: sort_keys
  d_lineWidth :: int
  d_noRefs :: bool
  d_noCompatMode :: bool
  d_condenseFlow :: bool
  d_implicitTypes :: "ytype list"
  d_explicitTypes :: "ytype list"
  d_tag :: "jsstr option"
  d_dump :: jsval
  d_duplicates :: "nat list"
  d_usedDuplicates :: "bool list"

definition type_of :: "type_table \<Rightarrow> jsstr \<Rightarrow> jsstr \<Rightarrow> ytype option" where
  "type_of table kind tag = map_of table (kind, tag)"

text \<open>The style for every tag: \<^verbatim>\<open>!!\<close> is expanded, and an alias of the type replaced by its style.\<close>

definition style_entry :: "type_table \<Rightarrow> jsstr \<times> jsstr \<Rightarrow> jsstr \<times> jsstr" where
  "style_entry table e =
     (let tag = (if take 2 (fst e) = js ''!!'' then js ''tag:yaml.org,2002:'' @ drop 2 (fst e) else fst e);
          style = (case type_of table (js ''fallback'') tag of
                     None \<Rightarrow> snd e
                   | Some t \<Rightarrow> (case map_of (y_styleAliases t) (snd e) of None \<Rightarrow> snd e | Some s \<Rightarrow> s))
      in (tag, style))"

definition compileStyleMap :: "yschema \<Rightarrow> (jsstr \<times> jsstr) list option \<Rightarrow> (jsstr \<times> jsstr) list" where
  "compileStyleMap schema m =
     (case m of None \<Rightarrow> [] | Some entries \<Rightarrow> rev (map (style_entry (compiledTypeMap schema)) entries))"

definition or_default :: "int option \<Rightarrow> int \<Rightarrow> int" where
  "or_default x d = (case x of None \<Rightarrow> d | Some n \<Rightarrow> if n = 0 then d else n)"

definition dump_State :: "yschema \<Rightarrow> dump_options \<Rightarrow> dstate" where
  "dump_State full options =
     (let schema = (case do_schema options of None \<Rightarrow> full | Some s \<Rightarrow> s)
      in \<lparr> d_indent = max 1 (or_default (do_indent options) 2),
           d_skipInvalid = do_skipInvalid options,
           d_flowLevel = (case do_flowLevel options of None \<Rightarrow> -1 | Some l \<Rightarrow> l),
           d_styleMap = compileStyleMap schema (do_styles options),
           d_sortKeys = do_sortKeys options,
           d_lineWidth = or_default (do_lineWidth options) 80,
           d_noRefs = do_noRefs options,
           d_noCompatMode = do_noCompatMode options,
           d_condenseFlow = do_condenseFlow options,
           d_implicitTypes = compiledImplicit schema,
           d_explicitTypes = compiledExplicit schema,
           d_tag = None, d_dump = VUndef, d_duplicates = [], d_usedDuplicates = [] \<rparr>)"

section \<open>Strings\<close>

definition DEPRECATED_BOOLEANS_SYNTAX :: "jsstr list" where
  "DEPRECATED_BOOLEANS_SYNTAX = map js [''y'', ''Y'', ''yes'', ''Yes'', ''YES'', ''on'', ''On'', ''ON'',
     ''n'', ''N'', ''no'', ''No'', ''NO'', ''off'', ''Off'', ''OFF'']"

definition ESCAPE_SEQUENCES :: "int \<Rightarrow> jsstr option" where
  "ESCAPE_SEQUENCES c = map_option (\<lambda>s. 92 # s) (map_of
     [(0, js ''0''), (7, js ''a''), (8, js ''b''), (9, js ''t''), (10, js ''n''), (11, js ''v''), (12, js ''f''),
      (13, js ''r''), (27, js ''e''), (34, [34]), (92, [92]), (133, js ''N''), (160, js ''_''),
      (8232, js ''L''), (8233, js ''P'')] c)"

definition encodeHex :: "int \<Rightarrow> yerror + jsstr" where
  "encodeHex character =
     (let string = toUpperCase (int_toString 16 character)
      in if character \<le> 255 then Inr (js [CHR 0x5C] @ js ''x'' @ repeat (js ''0'') (2 - int (length string)) @ string)
         else if character \<le> 65535 then
           Inr (js [CHR 0x5C] @ js ''u'' @ repeat (js ''0'') (4 - int (length string)) @ string)
         else if character \<le> 4294967295 then
           Inr (js [CHR 0x5C] @ js ''U'' @ repeat (js ''0'') (8 - int (length string)) @ string)
         else Inl (YAMLException (js ''code point within a string may not be greater than 0xFFFFFFFF'') None))"

text \<open>One line at a time; a line that is only a line feed gets no indentation.\<close>

function indentString_loop :: "jsstr \<Rightarrow> jsstr \<Rightarrow> jsstr \<Rightarrow> jsstr" where
  "indentString_loop ind s result =
     (if s = [] then result
      else
        let rest = dropWhile (\<lambda>c. c \<noteq> 10) s;
            line = takeWhile (\<lambda>c. c \<noteq> 10) s @ take 1 rest
        in indentString_loop ind (drop 1 rest) (result @ (if line \<noteq> [] \<and> line \<noteq> [10] then ind else []) @ line))"
  by auto
termination
proof (relation "measure (\<lambda>(ind, s, result). length s)")
  fix ind s result :: jsstr and rest line
  assume "s \<noteq> []" and rest: "rest = dropWhile (\<lambda>c. c \<noteq> 10) s"
  have "length rest \<le> length s" unfolding rest by (rule length_dropWhile_le)
  then have "length (drop 1 rest) < length s" using \<open>s \<noteq> []\<close> by (cases s) auto
  then show "((ind, drop 1 rest, result @ (if line \<noteq> [] \<and> line \<noteq> [10] then ind else []) @ line), (ind, s, result))
      \<in> measure (\<lambda>(ind, s, result). length s)" by simp
qed simp

declare indentString_loop.simps [simp del]

definition indentString :: "jsstr \<Rightarrow> int \<Rightarrow> jsstr" where
  "indentString string spaces = indentString_loop (repeat (js '' '') spaces) string []"

definition generateNextLine :: "dstate \<Rightarrow> int \<Rightarrow> jsstr" where
  "generateNextLine s level = 10 # repeat (js '' '') (d_indent s * level)"

definition testImplicitResolving :: "(jsval \<Rightarrow> jsstr) \<Rightarrow> store \<Rightarrow> dstate \<Rightarrow> jsstr \<Rightarrow> bool" where
  "testImplicitResolving str h s x = list_ex (\<lambda>t. y_resolve t str h (VStr x)) (d_implicitTypes s)"

definition isWhitespace :: "int \<Rightarrow> bool" where
  "isWhitespace c \<longleftrightarrow> c = 32 \<or> c = 9"

definition isPrintable :: "int \<Rightarrow> bool" where
  "isPrintable c \<longleftrightarrow> 32 \<le> c \<and> c \<le> 126 \<or> 161 \<le> c \<and> c \<le> 55295 \<and> c \<noteq> 8232 \<and> c \<noteq> 8233
     \<or> 57344 \<le> c \<and> c \<le> 65533 \<and> c \<noteq> 65279 \<or> 65536 \<le> c \<and> c \<le> 1114111"

definition isPlainSafe :: "int \<Rightarrow> bool" where
  "isPlainSafe c \<longleftrightarrow> isPrintable c \<and> c \<noteq> 65279 \<and> c \<noteq> 44 \<and> c \<noteq> 91 \<and> c \<noteq> 93 \<and> c \<noteq> 123 \<and> c \<noteq> 125
     \<and> c \<noteq> 58 \<and> c \<noteq> 35"

definition isPlainSafeFirst :: "int \<Rightarrow> bool" where
  "isPlainSafeFirst c \<longleftrightarrow> isPrintable c \<and> c \<noteq> 65279 \<and> \<not> isWhitespace c \<and> c \<noteq> 45 \<and> c \<noteq> 63 \<and> c \<noteq> 58
     \<and> c \<noteq> 44 \<and> c \<noteq> 91 \<and> c \<noteq> 93 \<and> c \<noteq> 123 \<and> c \<noteq> 125 \<and> c \<noteq> 35 \<and> c \<noteq> 38 \<and> c \<noteq> 42 \<and> c \<noteq> 33
     \<and> c \<noteq> 124 \<and> c \<noteq> 62 \<and> c \<noteq> 39 \<and> c \<noteq> 34 \<and> c \<noteq> 37 \<and> c \<noteq> 64 \<and> c \<noteq> 96"

definition needIndentIndicator :: "jsstr \<Rightarrow> bool" where
  "needIndentIndicator string = (let t = dropWhile (\<lambda>c. c = 10) string in t \<noteq> [] \<and> hd t = 32)"

subsection \<open>The style of a string\<close>

datatype style = STYLE_PLAIN | STYLE_SINGLE | STYLE_LITERAL | STYLE_FOLDED | STYLE_DOUBLE

text \<open>The loop for a single line: \<open>None\<close> is the return of \<^verbatim>\<open>STYLE_DOUBLE\<close>.\<close>

primrec single_line_loop :: "jsstr \<Rightarrow> bool \<Rightarrow> bool option" where
  "single_line_loop [] plain = Some plain"
| "single_line_loop (c # s) plain =
     (if \<not> isPrintable (uint c) then None else single_line_loop s (plain \<and> isPlainSafe (uint c)))"

text \<open>The loop over several lines, from the position \<open>i\<close> on, with the position of the last line break.\<close>

definition foldable :: "jsstr \<Rightarrow> int \<Rightarrow> int \<Rightarrow> int \<Rightarrow> bool" where
  "foldable string lineWidth i prev \<longleftrightarrow> i - prev - 1 > lineWidth \<and> charCodeAt string (prev + 1) \<noteq> 32"

primrec multi_line_loop :: "jsstr \<Rightarrow> int \<Rightarrow> jsstr \<Rightarrow> int \<Rightarrow> bool \<Rightarrow> bool \<Rightarrow> int \<Rightarrow> bool \<Rightarrow> (bool \<times> bool \<times> int \<times> int \<times> bool) option" where
  "multi_line_loop string lineWidth [] i hasLineBreak hasFoldableLine prev plain =
     Some (hasLineBreak, hasFoldableLine, prev, i, plain)"
| "multi_line_loop string lineWidth (c # s) i hasLineBreak hasFoldableLine prev plain =
     (if c = 10 then
        (if lineWidth \<noteq> -1 then
           multi_line_loop string lineWidth s (i + 1) True
             (hasFoldableLine \<or> foldable string lineWidth i prev) i (plain \<and> isPlainSafe (uint c))
         else multi_line_loop string lineWidth s (i + 1) True hasFoldableLine prev (plain \<and> isPlainSafe (uint c)))
      else if \<not> isPrintable (uint c) then None
      else multi_line_loop string lineWidth s (i + 1) hasLineBreak hasFoldableLine prev (plain \<and> isPlainSafe (uint c)))"

definition chooseScalarStyle :: "jsstr \<Rightarrow> bool \<Rightarrow> int \<Rightarrow> int \<Rightarrow> (jsstr \<Rightarrow> bool) \<Rightarrow> style" where
  "chooseScalarStyle string singleLineOnly indentPerLevel lineWidth testAmbiguousType =
     (let plain0 = (isPlainSafeFirst (charCodeAt string 0)
                    \<and> \<not> isWhitespace (charCodeAt string (int (length string) - 1)));
          scan = (if singleLineOnly then map_option (\<lambda>p. (False, False, p)) (single_line_loop string plain0)
                  else map_option
                    (\<lambda>(hasLineBreak, hasFoldableLine, prev, i, plain).
                       (hasLineBreak,
                        hasFoldableLine \<or> lineWidth \<noteq> -1 \<and> foldable string lineWidth i prev, plain))
                    (multi_line_loop string lineWidth string 0 False False (-1) plain0))
      in case scan of
           None \<Rightarrow> STYLE_DOUBLE
         | Some (hasLineBreak, hasFoldableLine, plain) \<Rightarrow>
             (if \<not> hasLineBreak \<and> \<not> hasFoldableLine then
                if plain \<and> \<not> testAmbiguousType string then STYLE_PLAIN else STYLE_SINGLE
              else if indentPerLevel > 9 \<and> needIndentIndicator string then STYLE_DOUBLE
              else if hasFoldableLine then STYLE_FOLDED
              else STYLE_LITERAL))"

subsection \<open>The styles\<close>

definition blockHeader :: "jsstr \<Rightarrow> int \<Rightarrow> jsstr" where
  "blockHeader string indentPerLevel =
     (let indentIndicator = (if needIndentIndicator string then int_toString 10 indentPerLevel else []);
          clip = (string \<noteq> [] \<and> last string = 10);
          keep = (clip \<and> (length string > 1 \<and> string ! (length string - 2) = 10 \<or> string = [10]));
          chomp = (if keep then js ''+'' else if clip then [] else js ''-'')
      in indentIndicator @ chomp @ [10])"

definition dropEndingNewline :: "jsstr \<Rightarrow> jsstr" where
  "dropEndingNewline string = (if string \<noteq> [] \<and> last string = 10 then butlast string else string)"

text \<open>The matches of \<^verbatim>\<open>/ [^ ]/g\<close>: the spaces that a character other than a space follows.\<close>

definition break_points :: "jsstr \<Rightarrow> nat list" where
  "break_points line = filter (\<lambda>i. line ! i = 32 \<and> line ! Suc i \<noteq> 32) [0..<length line - 1]"

primrec fold_breaks :: "jsstr \<Rightarrow> int \<Rightarrow> nat list \<Rightarrow> nat \<Rightarrow> nat \<Rightarrow> jsstr \<Rightarrow> nat \<times> nat \<times> jsstr" where
  "fold_breaks line width [] start cur result = (start, cur, result)"
| "fold_breaks line width (nxt # ms) start cur result =
     (if int nxt - int start > width then
        let stop = (if cur > start then cur else nxt)
        in fold_breaks line width ms (stop + 1) nxt (result @ [10] @ str_slice line start stop)
      else fold_breaks line width ms start nxt result)"

definition foldLine :: "jsstr \<Rightarrow> int \<Rightarrow> jsstr" where
  "foldLine line width =
     (if line = [] \<or> hd line = 32 then line
      else
        let (start, cur, result) = fold_breaks line width (break_points line) 0 0 [];
            result = result @ [10]
        in drop 1
             (if int (length line) - int start > width \<and> cur > start then
                result @ str_slice line start cur @ [10] @ drop (cur + 1) line
              else result @ drop start line))"

text \<open>The matches of \<^verbatim>\<open>/(\n+)([^\n]*)/g\<close> from the first line feed on.\<close>

function foldString_loop :: "jsstr \<Rightarrow> int \<Rightarrow> bool \<Rightarrow> jsstr \<Rightarrow> jsstr" where
  "foldString_loop s width prevMoreIndented result =
     (if s = [] then result
      else
        let prefix = takeWhile (\<lambda>c. c = 10) s;
            line = takeWhile (\<lambda>c. c \<noteq> 10) (dropWhile (\<lambda>c. c = 10) s);
            rest = dropWhile (\<lambda>c. c \<noteq> 10) (dropWhile (\<lambda>c. c = 10) s);
            moreIndented = (line \<noteq> [] \<and> hd line = 32)
        in foldString_loop rest width moreIndented
             (result @ prefix @ (if \<not> prevMoreIndented \<and> \<not> moreIndented \<and> line \<noteq> [] then [10] else [])
              @ foldLine line width))"
  by auto
termination
proof (relation "measure (\<lambda>(s, width, p, result). length s)")
  fix s :: jsstr and width :: int and p result prefix line rest moreIndented
  assume "s \<noteq> []" and rest: "rest = dropWhile (\<lambda>c. c \<noteq> 10) (dropWhile (\<lambda>c. c = 10) s)"
  have "length (dropWhile (\<lambda>c. c = 10) (tl s)) \<le> length (tl s)"
    "length (dropWhile (\<lambda>c. c \<noteq> 10) (dropWhile (\<lambda>c. c = 10) (tl s))) \<le> length (dropWhile (\<lambda>c. c = 10) (tl s))"
    "length (dropWhile (\<lambda>c. c \<noteq> 10) (tl s)) \<le> length (tl s)"
    by (rule length_dropWhile_le)+
  then have "length rest < length s"
    using \<open>s \<noteq> []\<close> unfolding rest by (cases s) auto
  then show "((rest, width, moreIndented, result @ prefix
      @ (if \<not> p \<and> \<not> moreIndented \<and> line \<noteq> [] then [10] else []) @ foldLine line width), (s, width, p, result))
      \<in> measure (\<lambda>(s, width, p, result). length s)" by simp
qed simp

declare foldString_loop.simps [simp del]

definition foldString :: "jsstr \<Rightarrow> int \<Rightarrow> jsstr" where
  "foldString string width =
     foldString_loop (dropWhile (\<lambda>c. c \<noteq> 10) string) width (string \<noteq> [] \<and> (hd string = 10 \<or> hd string = 32))
       (foldLine (takeWhile (\<lambda>c. c \<noteq> 10) string) width)"

fun escapeString :: "jsstr \<Rightarrow> yerror + jsstr" where
  "escapeString [] = Inr []"
| "escapeString (c # s) =
     (case s of
        d # t \<Rightarrow>
          (if 55296 \<le> uint c \<and> uint c \<le> 56319 \<and> 56320 \<le> uint d \<and> uint d \<le> 57343 then
             rbind (encodeHex ((uint c - 55296) * 1024 + uint d - 56320 + 65536)) (\<lambda>e.
             rbind (escapeString t) (\<lambda>r. Inr (e @ r)))
           else
             rbind (case ESCAPE_SEQUENCES (uint c) of
                      Some e \<Rightarrow> Inr e
                    | None \<Rightarrow> if isPrintable (uint c) then Inr [c] else encodeHex (uint c)) (\<lambda>e.
             rbind (escapeString s) (\<lambda>r. Inr (e @ r))))
      | [] \<Rightarrow>
          (case ESCAPE_SEQUENCES (uint c) of
             Some e \<Rightarrow> Inr e
           | None \<Rightarrow> if isPrintable (uint c) then Inr [c] else encodeHex (uint c)))"

definition double_quotes :: "jsstr \<Rightarrow> jsstr" where
  "double_quotes string = concat (map (\<lambda>c. if c = 39 then [39, 39] else [c]) string)"

definition scalar_text :: "(jsval \<Rightarrow> jsstr) \<Rightarrow> store \<Rightarrow> dstate \<Rightarrow> jsstr \<Rightarrow> int \<Rightarrow> bool \<Rightarrow> yerror + jsstr" where
  "scalar_text str h s string level iskey =
     (if string = [] then Inr [39, 39]
      else if \<not> d_noCompatMode s \<and> string \<in> set DEPRECATED_BOOLEANS_SYNTAX then Inr ([39] @ string @ [39])
      else
        let indent = d_indent s * max 1 level;
            lineWidth = (if d_lineWidth s = -1 then -1 else max (min (d_lineWidth s) 40) (d_lineWidth s - indent));
            singleLineOnly = (iskey \<or> d_flowLevel s > -1 \<and> level \<ge> d_flowLevel s)
        in case chooseScalarStyle string singleLineOnly (d_indent s) lineWidth (testImplicitResolving str h s) of
             STYLE_PLAIN \<Rightarrow> Inr string
           | STYLE_SINGLE \<Rightarrow> Inr ([39] @ double_quotes string @ [39])
           | STYLE_LITERAL \<Rightarrow>
               Inr (js ''|'' @ blockHeader string (d_indent s) @ dropEndingNewline (indentString string indent))
           | STYLE_FOLDED \<Rightarrow>
               Inr (js ''>'' @ blockHeader string (d_indent s)
                    @ dropEndingNewline (indentString (foldString string lineWidth) indent))
           | STYLE_DOUBLE \<Rightarrow> rbind (escapeString string) (\<lambda>e. Inr ([34] @ e @ [34])))"

definition writeScalar :: "(jsval \<Rightarrow> jsstr) \<Rightarrow> store \<Rightarrow> dstate \<Rightarrow> jsstr \<Rightarrow> int \<Rightarrow> bool \<Rightarrow> yerror + dstate" where
  "writeScalar str h s string level iskey =
     rbind (scalar_text str h s string level iskey) (\<lambda>t. Inr (s\<lparr> d_dump := VStr t \<rparr>))"

section \<open>Nodes\<close>

text \<open>
  A writer of nodes: the state, the level, the object, whether block style and compact form are allowed and
  whether the node is a key. It returns whether it wrote the node.
\<close>

type_synonym writer = "dstate \<Rightarrow> int \<Rightarrow> jsval \<Rightarrow> bool \<Rightarrow> bool \<Rightarrow> bool \<Rightarrow> yerror + (bool \<times> dstate)"

text \<open>\<^verbatim>\<open>state.dump\<close> as a string, which it is after every node that was written.\<close>

fun dump_string :: "jsval \<Rightarrow> jsstr" where
  "dump_string (VStr t) = t"
| "dump_string v = []"

definition starts_line :: "dstate \<Rightarrow> bool" where
  "starts_line s = (let d = dump_string (d_dump s) in d \<noteq> [] \<and> hd d = 10)"

primrec flow_sequence_loop :: "writer \<Rightarrow> int \<Rightarrow> jsval list \<Rightarrow> nat \<Rightarrow> jsstr \<Rightarrow> dstate \<Rightarrow> yerror + (jsstr \<times> dstate)" where
  "flow_sequence_loop wr level [] index result s = Inr (result, s)"
| "flow_sequence_loop wr level (x # xs) index result s =
     rbind (wr s level x False False False) (\<lambda>(ok, s).
       if ok then
         flow_sequence_loop wr level xs (Suc index)
           (result @ (if index \<noteq> 0 then js '','' @ (if d_condenseFlow s then [] else js '' '') else [])
            @ dump_string (d_dump s)) s
       else flow_sequence_loop wr level xs (Suc index) result s)"

definition writeFlowSequence :: "writer \<Rightarrow> dstate \<Rightarrow> int \<Rightarrow> jsval list \<Rightarrow> yerror + dstate" where
  "writeFlowSequence wr s level object =
     rbind (flow_sequence_loop wr level object 0 [] s) (\<lambda>(result, s').
       Inr (s'\<lparr> d_tag := d_tag s, d_dump := VStr (js ''['' @ result @ js '']'') \<rparr>))"

primrec block_sequence_loop :: "writer \<Rightarrow> int \<Rightarrow> bool \<Rightarrow> jsval list \<Rightarrow> nat \<Rightarrow> jsstr \<Rightarrow> dstate \<Rightarrow> yerror + (jsstr \<times> dstate)" where
  "block_sequence_loop wr level compact [] index result s = Inr (result, s)"
| "block_sequence_loop wr level compact (x # xs) index result s =
     rbind (wr s (level + 1) x True True False) (\<lambda>(ok, s).
       if ok then
         block_sequence_loop wr level compact xs (Suc index)
           (result @ (if \<not> compact \<or> index \<noteq> 0 then generateNextLine s level else [])
            @ (if starts_line s then js ''-'' else js ''- '') @ dump_string (d_dump s)) s
       else block_sequence_loop wr level compact xs (Suc index) result s)"

definition writeBlockSequence :: "writer \<Rightarrow> dstate \<Rightarrow> int \<Rightarrow> jsval list \<Rightarrow> bool \<Rightarrow> yerror + dstate" where
  "writeBlockSequence wr s level object compact =
     rbind (block_sequence_loop wr level compact object 0 [] s) (\<lambda>(result, s').
       Inr (s'\<lparr> d_tag := d_tag s, d_dump := VStr (if result = [] then js ''[]'' else result) \<rparr>))"

primrec flow_mapping_loop :: "writer \<Rightarrow> int \<Rightarrow> props \<Rightarrow> jsstr list \<Rightarrow> nat \<Rightarrow> jsstr \<Rightarrow> dstate \<Rightarrow> yerror + (jsstr \<times> dstate)" where
  "flow_mapping_loop wr level object [] index result s = Inr (result, s)"
| "flow_mapping_loop wr level object (k # ks) index result s =
     (let pairBuffer = (if d_condenseFlow s then [34] else []) @ (if index \<noteq> 0 then js '', '' else [])
      in rbind (wr s level (VStr k) False False False) (\<lambda>(ok, s).
           if \<not> ok then flow_mapping_loop wr level object ks (Suc index) result s
           else
             let keytext = dump_string (d_dump s);
                 pairBuffer = pairBuffer @ (if length keytext > 1024 then js ''? '' else []) @ keytext
                   @ (if d_condenseFlow s then [34] else []) @ js '':'' @ (if d_condenseFlow s then [] else js '' '')
             in rbind (wr s level (prop_get object k) False False False) (\<lambda>(ok, s).
                  if \<not> ok then flow_mapping_loop wr level object ks (Suc index) result s
                  else flow_mapping_loop wr level object ks (Suc index)
                         (result @ pairBuffer @ dump_string (d_dump s)) s)))"

definition writeFlowMapping :: "writer \<Rightarrow> dstate \<Rightarrow> int \<Rightarrow> props \<Rightarrow> yerror + dstate" where
  "writeFlowMapping wr s level object =
     rbind (flow_mapping_loop wr level object (objectKeys object) 0 [] s) (\<lambda>(result, s').
       Inr (s'\<lparr> d_tag := d_tag s, d_dump := VStr (js ''{'' @ result @ js ''}'') \<rparr>))"

definition has_explicit_tag :: "dstate \<Rightarrow> bool" where
  "has_explicit_tag s = (d_tag s \<noteq> None \<and> d_tag s \<noteq> Some (js ''?''))"

primrec block_mapping_loop :: "writer \<Rightarrow> int \<Rightarrow> bool \<Rightarrow> props \<Rightarrow> jsstr list \<Rightarrow> nat \<Rightarrow> jsstr \<Rightarrow> dstate \<Rightarrow> yerror + (jsstr \<times> dstate)" where
  "block_mapping_loop wr level compact object [] index result s = Inr (result, s)"
| "block_mapping_loop wr level compact object (k # ks) index result s =
     (let pairBuffer = (if \<not> compact \<or> index \<noteq> 0 then generateNextLine s level else [])
      in rbind (wr s (level + 1) (VStr k) True True True) (\<lambda>(ok, s).
           if \<not> ok then block_mapping_loop wr level compact object ks (Suc index) result s
           else
             let explicitPair = (has_explicit_tag s \<or> length (dump_string (d_dump s)) > 1024);
                 pairBuffer = pairBuffer
                   @ (if explicitPair then if starts_line s then js ''?'' else js ''? '' else [])
                   @ dump_string (d_dump s)
                   @ (if explicitPair then generateNextLine s level else [])
             in rbind (wr s (level + 1) (prop_get object k) True explicitPair False) (\<lambda>(ok, s).
                  if \<not> ok then block_mapping_loop wr level compact object ks (Suc index) result s
                  else block_mapping_loop wr level compact object ks (Suc index)
                         (result @ pairBuffer @ (if starts_line s then js '':'' else js '': '')
                          @ dump_string (d_dump s)) s)))"

definition sorted_keys :: "sort_keys \<Rightarrow> jsstr list \<Rightarrow> yerror + jsstr list" where
  "sorted_keys mode ks =
     (case mode of
        NoSort \<Rightarrow> Inr ks
      | SortDefault \<Rightarrow> Inr (sort ks)
      | SortBy f \<Rightarrow> Inr (f ks)
      | SortInvalid \<Rightarrow> Inl (YAMLException (js ''sortKeys must be a boolean or a function'') None))"

definition writeBlockMapping :: "writer \<Rightarrow> dstate \<Rightarrow> int \<Rightarrow> props \<Rightarrow> bool \<Rightarrow> yerror + dstate" where
  "writeBlockMapping wr s level object compact =
     rbind (sorted_keys (d_sortKeys s) (objectKeys object)) (\<lambda>ks.
     rbind (block_mapping_loop wr level compact object ks 0 [] s) (\<lambda>(result, s').
       Inr (s'\<lparr> d_tag := d_tag s, d_dump := VStr (if result = [] then js ''{}'' else result) \<rparr>)))"

text \<open>The first type of a list that knows the object, and the text it gives.\<close>

definition knows :: "store \<Rightarrow> jsval \<Rightarrow> ytype \<Rightarrow> bool" where
  "knows h v t =
     ((y_instanceOf t \<noteq> None \<or> y_predicate t \<noteq> None)
      \<and> (case y_instanceOf t of None \<Rightarrow> True | Some f \<Rightarrow> f h v)
      \<and> (case y_predicate t of None \<Rightarrow> True | Some f \<Rightarrow> f h v))"

definition style_for :: "dstate \<Rightarrow> ytype \<Rightarrow> jsstr" where
  "style_for s t =
     (case map_of (d_styleMap s) (y_tag t) of
        Some (c # style) \<Rightarrow> c # style
      | _ \<Rightarrow> (case y_defaultStyle t of None \<Rightarrow> js ''null'' | Some style \<Rightarrow> style))"

fun represent_with :: "dstate \<Rightarrow> store \<Rightarrow> jsval \<Rightarrow> ytype \<Rightarrow> represent \<Rightarrow> yerror + jsval" where
  "represent_with s h v t NoRep = Inr (d_dump s)"
| "represent_with s h v t (RepFun f) = rbind (lift_js (f h v (style_for s t))) (\<lambda>r. Inr (VStr r))"
| "represent_with s h v t (RepTable f) =
     (case f h v (style_for s t) of
        Some r \<Rightarrow> Inr (VStr r)
      | None \<Rightarrow> Inl (YAMLException (js ''!<'' @ y_tag t @ js ''> tag resolver accepts not \"'' @ style_for s t
          @ js ''\" style'') None))"

definition detectType :: "store \<Rightarrow> dstate \<Rightarrow> jsval \<Rightarrow> bool \<Rightarrow> yerror + (bool \<times> dstate)" where
  "detectType h s object explicit =
     (case find (knows h object) (if explicit then d_explicitTypes s else d_implicitTypes s) of
        None \<Rightarrow> Inr (False, s)
      | Some t \<Rightarrow>
          rbind (represent_with s h object t (y_represent t)) (\<lambda>d.
            Inr (True, s\<lparr> d_tag := Some (if explicit then y_tag t else js ''?''), d_dump := d \<rparr>)))"

definition ref_name :: "nat \<Rightarrow> jsstr" where
  "ref_name i = js ''ref_'' @ int_toString 10 (int i)"

definition prefix_dump :: "jsstr \<Rightarrow> dstate \<Rightarrow> dstate" where
  "prefix_dump p s = s\<lparr> d_dump := VStr (p @ dump_string (d_dump s)) \<rparr>"

text \<open>The body of \<^verbatim>\<open>writeNode\<close> after the type was detected; \<open>dup\<close> is the index among the duplicates.\<close>

definition write_detected :: "(jsval \<Rightarrow> jsstr) \<Rightarrow> store \<Rightarrow> writer \<Rightarrow> dstate \<Rightarrow> int \<Rightarrow> nat option \<Rightarrow> bool \<Rightarrow> bool \<Rightarrow> bool \<Rightarrow> yerror + (bool \<times> dstate)" where
  "write_detected str h wr s level dup block compact iskey =
     (let d = d_dump s;
          anchor = (case dup of None \<Rightarrow> [] | Some i \<Rightarrow> js ''&'' @ ref_name i);
          gap = (case dup of None \<Rightarrow> [] | Some i \<Rightarrow> js '' '');
          written =
            (case (obj_props h d, arr_items h d, d) of
               (Some ps, _, _) \<Rightarrow>
                 (if block \<and> objectKeys ps \<noteq> [] then
                    rbind (writeBlockMapping wr s level ps compact) (\<lambda>s. Inr (True, prefix_dump anchor s))
                  else rbind (writeFlowMapping wr s level ps) (\<lambda>s. Inr (True, prefix_dump (anchor @ gap) s)))
             | (None, Some xs, _) \<Rightarrow>
                 (if block \<and> xs \<noteq> [] then
                    rbind (writeBlockSequence wr s level xs compact) (\<lambda>s. Inr (True, prefix_dump anchor s))
                  else rbind (writeFlowSequence wr s level xs) (\<lambda>s. Inr (True, prefix_dump (anchor @ gap) s)))
             | (None, None, VStr t) \<Rightarrow>
                 (if d_tag s \<noteq> Some (js ''?'') then
                    rbind (writeScalar str h s t level iskey) (\<lambda>s. Inr (True, s))
                  else Inr (True, s))
             | _ \<Rightarrow>
                 (if d_skipInvalid s then Inr (False, s)
                  else Inl (YAMLException (js ''unacceptable kind of an object to dump '' @ object_tag h d) None)))
      in rbind written (\<lambda>(ok, s).
           if ok \<and> has_explicit_tag s then
             Inr (True, prefix_dump (js ''!<'' @ (case d_tag s of None \<Rightarrow> [] | Some t \<Rightarrow> t) @ js ''> '') s)
           else Inr (ok, s)))"

definition dup_index :: "store \<Rightarrow> dstate \<Rightarrow> jsval \<Rightarrow> nat option" where
  "dup_index h s object =
     (if obj_props h (d_dump s) = None \<and> arr_items h (d_dump s) = None then None
      else
        case object of
          VRef r \<Rightarrow> if r \<in> set (d_duplicates s) then Some (index_of r (d_duplicates s)) else None
        | _ \<Rightarrow> None)"

definition writeNode_body :: "(jsval \<Rightarrow> jsstr) \<Rightarrow> store \<Rightarrow> writer \<Rightarrow> writer" where
  "writeNode_body str h wr s level object block compact iskey =
     (let s = s\<lparr> d_tag := None, d_dump := object \<rparr>
      in rbind (detectType h s object False) (\<lambda>(found, s).
         rbind (if found then Inr (True, s) else detectType h s object True) (\<lambda>(_, s).
           let block = (block \<and> (d_flowLevel s < 0 \<or> d_flowLevel s > level));
               dup = dup_index h s object;
               compact = (if has_explicit_tag s \<or> dup \<noteq> None \<or> d_indent s \<noteq> 2 \<and> level > 0 then False else compact)
           in case dup of
                None \<Rightarrow> write_detected str h wr s level None block compact iskey
              | Some i \<Rightarrow>
                  (if d_usedDuplicates s ! i then
                     Inr (True, s\<lparr> d_dump := VStr (js ''*'' @ ref_name i) \<rparr>)
                   else write_detected str h wr (s\<lparr> d_usedDuplicates := (d_usedDuplicates s)[i := True] \<rparr>)
                          level dup block compact iskey))))"

primrec writeNode :: "(jsval \<Rightarrow> jsstr) \<Rightarrow> store \<Rightarrow> nat \<Rightarrow> writer" where
  "writeNode str h 0 s level object block compact iskey = Inl Diverges"
| "writeNode str h (Suc n) s level object block compact iskey =
     writeNode_body str h (writeNode str h n) s level object block compact iskey"

section \<open>References\<close>

text \<open>The objects that an object refers to; dates and buffers refer to none.\<close>

definition children :: "store \<Rightarrow> nat \<Rightarrow> jsval list" where
  "children h r =
     (case lookup h r of
        Some (OArr xs) \<Rightarrow> xs
      | Some (OObj ps) \<Rightarrow> map (prop_get ps) (objectKeys ps)
      | _ \<Rightarrow> [])"

text \<open>The objects seen so far and the indices of those that were seen again.\<close>

type_synonym seen = "nat list \<times> nat list"

primrec inspectNode :: "store \<Rightarrow> nat \<Rightarrow> jsval \<Rightarrow> seen \<Rightarrow> seen option" where
  "inspectNode h 0 object acc = None"
| "inspectNode h (Suc n) object acc =
     (case object of
        VRef r \<Rightarrow>
          (case acc of (objects, dups) \<Rightarrow>
             (if r \<in> set objects then
                let index = index_of r objects
                in Some (objects, if index \<in> set dups then dups else dups @ [index])
              else fold (\<lambda>v a. Option.bind a (inspectNode h n v)) (children h r) (Some (objects @ [r], dups))))
      | _ \<Rightarrow> Some acc)"

definition getDuplicateReferences :: "store \<Rightarrow> jsval \<Rightarrow> dstate \<Rightarrow> yerror + dstate" where
  "getDuplicateReferences h object s =
     (case inspectNode h (length h + 2) object ([], []) of
        None \<Rightarrow> Inl Diverges
      | Some (objects, dups) \<Rightarrow>
          Inr (s\<lparr> d_duplicates := d_duplicates s @ map ((!) objects) dups,
                  d_usedDuplicates := replicate (length dups) False \<rparr>))"

section \<open>Entry points\<close>

definition dump :: "(jsval \<Rightarrow> jsstr) \<Rightarrow> yschema \<Rightarrow> nat \<Rightarrow> store \<Rightarrow> jsval \<Rightarrow> dump_options \<Rightarrow> yerror + jsstr" where
  "dump str full n h input options =
     (let s = dump_State full options
      in rbind (if d_noRefs s then Inr s else getDuplicateReferences h input s) (\<lambda>s.
         rbind (writeNode str h n s 0 input True True False) (\<lambda>(ok, s).
           Inr (if ok then dump_string (d_dump s) @ [10] else []))))"

definition safeDump :: "(jsval \<Rightarrow> jsstr) \<Rightarrow> nat \<Rightarrow> store \<Rightarrow> jsval \<Rightarrow> dump_options \<Rightarrow> yerror + jsstr" where
  "safeDump str n h input options =
     dump str DEFAULT_SAFE_SCHEMA n h input
       (options\<lparr> do_schema := (case do_schema options of None \<Rightarrow> Some DEFAULT_SAFE_SCHEMA | s \<Rightarrow> s) \<rparr>)"

end
