(* ===== verification/YamlRoundTrip.thy ===== *)
theory YamlRoundTrip
  imports YamlDumper YamlLoader
begin

text \<open>
  The dumper against the loader on quoted strings: the text that \<^verbatim>\<open>writeScalar\<close> of the dumper writes for a
  string in single or in double quotes is read back by \<^verbatim>\<open>readSingleQuotedScalar\<close> and
  \<^verbatim>\<open>readDoubleQuotedScalar\<close> of the loader as the same string, and the position is then after the quote.
\<close>

section \<open>Reading forwards\<close>

text \<open>What is left of the input.\<close>

definition ahead :: "lstate \<Rightarrow> jsstr" where
  "ahead s = drop (l_position s) (l_input s)"

definition reads :: "lstate \<Rightarrow> nat \<Rightarrow> jsstr \<Rightarrow> lstate" where
  "reads s k r = s\<lparr> l_position := l_position s + k, l_result := VStr r \<rparr>"

lemma ahead_Cons:
  assumes "ahead s = c # w"
  shows "ch s = uint c" and "ahead (move 1 s) = w"
proof -
  have l: "l_position s < length (l_input s)" using assms by (auto simp: ahead_def intro: ccontr)
  then show "ch s = uint c" using assms by (simp add: ahead_def ch_def charCodeAt_def hd_drop_conv_nth [symmetric])
  show "ahead (move 1 s) = w" using assms by (simp add: ahead_def move_def drop_Suc tl_drop [symmetric])
qed

lemma ahead_Nil: "ahead s = [] \<Longrightarrow> ch s = -1"
  by (simp add: ahead_def ch_def charCodeAt_def)

lemma ahead_reads: "ahead s = v @ w \<Longrightarrow> ahead (reads s (length v) r) = w"
  by (simp add: ahead_def reads_def add.commute flip: drop_drop)

lemma reads_fields [simp]:
  "l_input (reads s k r) = l_input s" "l_position (reads s k r) = l_position s + k"
  "l_result (reads s k r) = VStr r" "l_lineStart (reads s k r) = l_lineStart s"
  by (simp_all add: reads_def)

lemma reads_reads [simp]: "reads (reads s k r) k' r' = reads s (k + k') r'"
  by (simp add: reads_def add.assoc)

lemma reads_move [simp]: "reads (move k s) k' r = reads s (k + k') r"
  by (simp add: reads_def move_def add.assoc)

lemma move_reads [simp]: "move k (reads s k' r) = reads s (k' + k) r"
  by (simp add: reads_def move_def add.assoc)

lemma append_result_reads: "l_result s = VStr r \<Longrightarrow> append_result s t = reads s 0 (r @ t)"
  by (simp add: append_result_def reads_def)

section \<open>Hexadecimal escapes\<close>

definition upper_hex :: "16 word \<Rightarrow> bool" where
  "upper_hex c \<longleftrightarrow> (\<exists>d. 0 \<le> d \<and> d < 16 \<and> c = upper_char (digit_char d))"

lemma upper_hex_table:
  "list_all (\<lambda>d. fromHexCode (uint (upper_char (digit_char d))) = d) [0..15]"
  by code_simp

lemma upper_hex_value:
  assumes "upper_hex c"
  shows "fromHexCode (uint c) = digit_value c" and "0 \<le> digit_value c" and "digit_value c < 16"
proof -
  obtain d where d: "0 \<le> d" "d < 16" "c = upper_char (digit_char d)" using assms by (auto simp: upper_hex_def)
  then have "d \<in> set [0..15]" by simp
  with upper_hex_table have "fromHexCode (uint (upper_char (digit_char d))) = d" by (simp only: list_all_iff)
  with d show "fromHexCode (uint c) = digit_value c" and "0 \<le> digit_value c" and "digit_value c < 16"
    by (simp_all add: digit_char_facts)
qed

lemma digits_value_Cons: "digits_value r (c # s) = digit_value c * r ^ length s + digits_value r s"
  using digits_value_append [of r "[c]" s] by (simp add: digits_value_def [of r "[c]"])

lemma digits_value_nonneg: "list_all upper_hex ds \<Longrightarrow> 0 \<le> digits_value 16 ds"
  by (induction ds) (auto simp: digits_value_Cons upper_hex_value digits_value_def [of _ "[]"])

lemma hex_loop_reads:
  assumes "list_all upper_hex ds" and "ahead (move 1 s) = ds @ w" and "0 \<le> v"
    and "v * 16 ^ length ds + digits_value 16 ds < 2 ^ 31"
  shows "hex_loop (length ds) v s = Inr (v * 16 ^ length ds + digits_value 16 ds, move (length ds) s)"
  using assms
proof (induction ds arbitrary: s v)
  case Nil
  then show ?case by (simp add: digits_value_def move_def)
next
  case (Cons c ds)
  let ?v = "v * 16 + digit_value c"
  have c: "upper_hex c" and ds: "list_all upper_hex ds" using Cons.prems(1) by simp_all
  have eq: "v * 16 ^ length (c # ds) + digits_value 16 (c # ds) = ?v * 16 ^ length ds + digits_value 16 ds"
    by (simp add: digits_value_Cons algebra_simps)
  have "v * 16 * 1 \<le> v * 16 * 16 ^ length ds" using Cons.prems(3) by (intro mult_left_mono) auto
  moreover have "v * 16 * 16 ^ length ds \<le> v * 16 ^ length (c # ds) + digits_value 16 (c # ds)"
    using digits_value_nonneg [OF Cons.prems(1)] by (simp add: mult.assoc)
  ultimately have "js_shl v 4 = v * 16" using Cons.prems(3,4) js_shl_small [of v 4] by simp
  moreover have "ch (move 1 s) = uint c" "ahead (move 1 (move 1 s)) = ds @ w"
    using ahead_Cons [of "move 1 s" c "ds @ w"] Cons.prems(2) by simp_all
  moreover have "hex_loop (length ds) ?v (move 1 s) = Inr (?v * 16 ^ length ds + digits_value 16 ds, move (length ds) (move 1 s))"
    using Cons.prems(3,4) ds upper_hex_value [OF c] \<open>ahead (move 1 (move 1 s)) = ds @ w\<close>
    by (intro Cons.IH) (simp_all add: eq [simplified])
  ultimately show ?case using upper_hex_value [OF c] by (simp add: Let_def eq [simplified] move_def)
qed

lemma div_lt_bound: "n < m * r \<Longrightarrow> 0 < r \<Longrightarrow> n div r < (m::int)"
proof (rule ccontr)
  assume "n < m * r" and "0 < r" and "\<not> n div r < m"
  then have "m * r \<le> n div r * r" by (intro mult_right_mono) auto
  then show False using div_mult_mod_eq [of n r] pos_mod_sign [OF \<open>0 < r\<close>, of n] \<open>n < m * r\<close> by linarith
qed

lemma nat_digits_length:
  assumes "2 \<le> r" and "0 \<le> n" and "n < r ^ k" and "0 < k"
  shows "length (nat_digits r n) \<le> k"
  using assms
proof (induction r n arbitrary: k rule: nat_digits.induct)
  case (1 r n)
  show ?case
  proof (cases "n < r")
    case True
    then show ?thesis using 1(5) by (subst nat_digits.simps) simp
  next
    case False
    with 1(4) have "k \<noteq> 1" by auto
    with 1(5) obtain j where j: "k = Suc j" "0 < j" using gr0_implies_Suc by fastforce
    with 1(2,4) have "n div r < r ^ j" by (intro div_lt_bound) (simp_all add: mult.commute)
    with 1 False j have "length (nat_digits r (n div r)) \<le> j" by (simp add: pos_imp_zdiv_nonneg_iff)
    then show ?thesis using False 1(2) j by (subst nat_digits.simps) simp
  qed
qed

text \<open>The padded upper-case numeral of an escape.\<close>

definition hex_pad :: "nat \<Rightarrow> int \<Rightarrow> jsstr" where
  "hex_pad k n = replicate (k - length (nat_digits 16 n)) 48 @ map upper_char (nat_digits 16 n)"

lemma digits_value_zeros: "digits_value 16 (replicate k 48 @ ds) = digits_value 16 ds"
  by (induction k) (simp_all add: digits_value_Cons digit_value_def)

lemma hex_pad_ok:
  assumes "0 \<le> n" and "n < 16 ^ k" and "0 < k"
  shows "length (hex_pad k n) = k" and "list_all upper_hex (hex_pad k n)" and "digits_value 16 (hex_pad k n) = n"
proof -
  have set: "\<forall>c \<in> set (nat_digits 16 n). \<exists>d. 0 \<le> d \<and> d < 16 \<and> c = digit_char d"
    using nat_digits_set [of 16 n] assms(1) by simp
  then have weak: "\<forall>c \<in> set (nat_digits 16 n). \<exists>d. 0 \<le> d \<and> d < 36 \<and> c = digit_char d" by force
  have "upper_hex 48" unfolding upper_hex_def by (rule exI [of _ 0]) (simp add: digit_char_def upper_char_def)
  with set show "list_all upper_hex (hex_pad k n)"
    by (auto simp: hex_pad_def list_all_iff upper_hex_def)
  show "length (hex_pad k n) = k"
    using nat_digits_length [of 16 n k] assms by (simp add: hex_pad_def)
  show "digits_value 16 (hex_pad k n) = n"
    using nat_digits_value [of 16 n] assms(1)
    by (simp add: hex_pad_def digits_value_zeros digits_value_map_upper [OF weak])
qed

text \<open>The letter after the backslash fixes how many digits there are.\<close>

definition hex_form :: "int \<Rightarrow> 16 word \<times> nat" where
  "hex_form n = (if n \<le> 255 then (120, 2) else if n \<le> 65535 then (117, 4) else (85, 8))"

lemma encodeHex_form:
  assumes "0 \<le> n" and "n < 2 ^ 31" and "hex_form n = (x, k)"
  shows "encodeHex n = Inr (92 # x # hex_pad k n)" and "n < 16 ^ k" and "0 < k" and "escapedHexLen (uint x) = k"
  using assms
  by (auto simp: encodeHex_def hex_form_def hex_pad_def js_def toUpperCase_def int_toString_def Let_def
      escapedHexLen_def nat_diff_distrib split: if_splits)

lemma read_escape_hex:
  assumes n: "0 \<le> n" "n < 2 ^ 31" and e: "encodeHex n = Inr (92 # e)" and a: "ahead s = e @ w" and r: "l_result s = VStr r"
  shows "read_escape s i = Inr ((), reads s (length e) (r @ charFromCodepoint n))"
proof -
  obtain x k where xk: "hex_form n = (x, k)" by force
  note f = encodeHex_form [OF n xk] and p = hex_pad_ok [OF n(1) encodeHex_form(2,3) [OF n xk]]
  have e': "e = x # hex_pad k n" using e f(1) by simp
  have c: "ch s = uint x" "ahead (move 1 s) = hex_pad k n @ w" using ahead_Cons a e' by simp_all
  have x: "x \<in> {120, 117, 85}" using xk by (auto simp: hex_form_def split: if_splits)
  then have "\<not> is_EOL (ch s)" "\<not> simpleEscapeCheck (ch s)"
    by (auto simp: c is_EOL_def simpleEscapeCheck_def simpleEscapeSequence_def)
  moreover have "hex_loop k 0 s = Inr (n, move k s)"
    using hex_loop_reads [OF p(2) c(2), of 0] n by (simp add: p)
  moreover have "move 1 (append_result (move k s) t) = reads s (length e) (r @ t)" for t
    using r p(1) by (simp add: append_result_reads e' move_def reads_def append_result_def)
  ultimately show ?thesis using f(3,4) by (simp add: read_escape_def c(1) Let_def)
qed

section \<open>Simple escapes\<close>

lemma escape_table:
  "list_all (\<lambda>c. case ESCAPE_SEQUENCES c of
       Some [b, x] \<Rightarrow> b = 92 \<and> \<not> is_EOL (uint x) \<and> uint x < 256 \<and> simpleEscapeSequence (uint x) = [word_of_int c]
     | _ \<Rightarrow> False)
     [0, 7, 8, 9, 10, 11, 12, 13, 27, 34, 92, 133, 160, 8232, 8233]"
  by code_simp

lemma ESCAPE_SEQUENCES_inverse:
  assumes "ESCAPE_SEQUENCES (uint c) = Some e"
  shows "\<exists>x. e = [92, x] \<and> \<not> is_EOL (uint x) \<and> uint x < 256 \<and> simpleEscapeSequence (uint x) = [c]"
proof -
  have "uint c \<in> set [0, 7, 8, 9, 10, 11, 12, 13, 27, 34, 92, 133, 160, 8232, 8233]"
    using assms by (auto simp: ESCAPE_SEQUENCES_def split: if_splits)
  from escape_table [unfolded list_all_iff, rule_format, OF this] assms
  show ?thesis by (auto split: list.splits)
qed

lemma read_escape_simple:
  assumes "ESCAPE_SEQUENCES (uint c) = Some (92 # e)" and "ahead s = e @ w" and "l_result s = VStr r"
  shows "read_escape s i = Inr ((), reads s (length e) (r @ [c]))"
proof -
  obtain x where x: "e = [x]" "\<not> is_EOL (uint x)" "uint x < 256" "simpleEscapeSequence (uint x) = [c]"
    using ESCAPE_SEQUENCES_inverse [OF assms(1)] by auto
  then have "ch s = uint x" using assms(2) ahead_Cons by simp
  with x assms(3) show ?thesis by (simp add: read_escape_def Let_def simpleEscapeCheck_def append_result_reads)
qed

text \<open>A pair of surrogates is the code point that the escape names.\<close>

lemma charFromCodepoint_pair:
  assumes "55296 \<le> uint c" "uint c \<le> 56319" "56320 \<le> uint d" "uint d \<le> 57343"
  shows "charFromCodepoint ((uint c - 55296) * 1024 + uint d - 56320 + 65536) = [c, d :: 16 word]"
proof -
  let ?m = "(uint c - 55296) * 1024 + (uint d - 56320)"
  have "?m div 1024 = uint c - 55296" "?m mod 1024 = uint d - 56320"
    using int_join_div_mod [of "uint d - 56320" 1024 "uint c - 55296"] assms by simp_all
  moreover have "0 \<le> ?m" "?m < 2 ^ 31" using assms by simp_all
  ultimately have "js_shr ?m 10 = uint c - 55296" "js_and ?m 1023 = uint d - 56320"
    by (simp_all add: js_shr_small js_and_1023)
  moreover have "charFromCodepoint (?m + 65536) = [fromCharCode (js_shr ?m 10 + 55296), fromCharCode (js_and ?m 1023 + 56320)]"
    using assms by (simp add: charFromCodepoint_def)
  ultimately show ?thesis by (simp add: fromCharCode_def algebra_simps)
qed

lemma charFromCodepoint_unit: "charFromCodepoint (uint c) = [c :: 16 word]"
  proof -
  have "uint c \<le> 65535" using uint16_range(2) [of c] by linarith
  then show ?thesis by (simp add: charFromCodepoint_def fromCharCode_def)
qed

section \<open>Double quotes\<close>

text \<open>
  What \<^verbatim>\<open>escapeString\<close> writes for one character or one pair: the character itself, or a backslash and something
  from which \<^verbatim>\<open>readDoubleQuotedScalar\<close> gets it back.
\<close>

definition escapes :: "jsstr \<Rightarrow> jsstr \<Rightarrow> bool" where
  "escapes e y \<longleftrightarrow>
     (\<exists>c. e = [c] \<and> y = [c] \<and> 32 \<le> c \<and> c \<noteq> 34 \<and> c \<noteq> 92)
     \<or> (\<exists>f. e = 92 # f \<and> (\<forall>s w r i. ahead s = f @ w \<longrightarrow> l_result s = VStr r \<longrightarrow>
            read_escape s i = Inr ((), reads s (length f) (r @ y))))"

lemma escapes_hex:
  assumes "0 \<le> n" "n < 2 ^ 31"
  shows "\<exists>e. encodeHex n = Inr e \<and> escapes e (charFromCodepoint n)"
proof -
  obtain x k where xk: "hex_form n = (x, k)" by force
  have e: "encodeHex n = Inr (92 # x # hex_pad k n)" by (rule encodeHex_form [OF assms xk])
  then show ?thesis unfolding escapes_def using read_escape_hex [OF assms e] by blast
qed

lemma escapes_char:
  "\<exists>e. (case ESCAPE_SEQUENCES (uint c) of Some e \<Rightarrow> Inr e
        | None \<Rightarrow> if isPrintable (uint c) then Inr [c] else encodeHex (uint c)) = Inr e \<and> escapes e [c]"
proof (cases "ESCAPE_SEQUENCES (uint c)")
  case None
  have "\<exists>e. encodeHex (uint c) = Inr e \<and> escapes e [c]"
    using escapes_hex [of "uint c"] uint16_range [of c] by (simp add: charFromCodepoint_unit)
  moreover have "32 \<le> c \<and> c \<noteq> 34 \<and> c \<noteq> 92" if "isPrintable (uint c)"
    using that None by (auto simp: isPrintable_def ESCAPE_SEQUENCES_def word_le_def)
  then have "escapes [c] [c]" if "isPrintable (uint c)" using that by (simp add: escapes_def)
  ultimately show ?thesis using None by simp
next
  case (Some e)
  then obtain x where x: "e = [92, x]" using ESCAPE_SEQUENCES_inverse by blast
  then have "escapes e [c]" unfolding escapes_def using read_escape_simple [of c "[x]"] Some by blast
  then show ?thesis using Some by simp
qed

text \<open>The whole text, piece by piece.\<close>

inductive escaped :: "jsstr \<Rightarrow> jsstr \<Rightarrow> bool" where
  Nil: "escaped [] []"
| Step: "escapes e y \<Longrightarrow> escaped es ys \<Longrightarrow> escaped (e @ es) (y @ ys)"

lemma escapeString_escaped: "\<exists>e. escapeString x = Inr e \<and> escaped e x"
proof (induction x rule: length_induct)
  case (1 x)
  show ?case
  proof (cases x)
    case (Cons c s)
    have one: "\<exists>e. escapeString (c # s) = Inr e \<and> escaped e (c # s)"
      if "\<not> (\<exists>d t. s = d # t \<and> 55296 \<le> uint c \<and> uint c \<le> 56319 \<and> 56320 \<le> uint d \<and> uint d \<le> 57343)"
    proof -
      obtain e where e: "(case ESCAPE_SEQUENCES (uint c) of Some e \<Rightarrow> Inr e
        | None \<Rightarrow> if isPrintable (uint c) then Inr [c] else encodeHex (uint c)) = Inr e" "escapes e [c]"
        using escapes_char by blast
      moreover obtain es where "escapeString s = Inr es" "escaped es s" using 1 [rule_format, of s] Cons by auto
      moreover from e(2) this(2) have "escaped (e @ es) (c # s)" using escaped.Step [of e "[c]" es s] by simp
      ultimately show ?thesis using that by (cases s) auto
    qed
    show ?thesis
    proof (cases "\<exists>d t. s = d # t \<and> 55296 \<le> uint c \<and> uint c \<le> 56319 \<and> 56320 \<le> uint d \<and> uint d \<le> 57343")
      case True
      then obtain d t where d: "s = d # t" "55296 \<le> uint c" "uint c \<le> 56319" "56320 \<le> uint d" "uint d \<le> 57343" by blast
      obtain e where e: "encodeHex ((uint c - 55296) * 1024 + uint d - 56320 + 65536) = Inr e" "escapes e [c, d]"
        using escapes_hex [of "(uint c - 55296) * 1024 + uint d - 56320 + 65536"] d charFromCodepoint_pair by auto
      obtain es where es: "escapeString t = Inr es" "escaped es t" using 1 [rule_format, of t] Cons d(1) by auto
      have "escaped (e @ es) (c # d # t)" using escaped.Step [OF e(2) es(2)] by simp
      with d e es Cons show ?thesis by simp
    qed (use one Cons in simp)
  qed (auto intro: escaped.Nil)
qed


text \<open>The segment between the start of the capture and the position.\<close>

definition seg :: "nat \<Rightarrow> lstate \<Rightarrow> jsstr" where
  "seg a s = str_slice (l_input s) a (l_position s)"

definition json_text :: "jsstr \<Rightarrow> bool" where
  "json_text t = list_all (\<lambda>c. c = 9 \<or> 32 \<le> c) t"

lemma seg_start [simp]: "l_position s \<le> a \<Longrightarrow> seg a s = []"
  by (simp add: seg_def str_slice_def)

lemma seg_move:
  assumes "ahead s = c # w" and "a \<le> l_position s"
  shows "seg a (move 1 s) = seg a s @ [c]"
proof -
  have "drop (l_position s - a) (drop a (l_input s)) = c # w" using assms by (simp add: ahead_def)
  then have "take (Suc (l_position s - a)) (drop a (l_input s)) = take (l_position s - a) (drop a (l_input s)) @ [c]"
    by (metis append_take_drop_id take_Suc_conv_app_nth nth_via_drop drop_eq_Nil leI list.distinct(1))
  then show ?thesis using assms(2) by (simp add: seg_def str_slice_def move_def Suc_diff_le)
qed

lemma captureSegment_reads:
  assumes "a \<le> l_position s" and "json_text (seg a s)" and "l_result s = VStr r"
  shows "captureSegment s a (l_position s) True = Inr ((), reads s 0 (r @ seg a s))"
proof (cases "a < l_position s")
  case False
  then have "seg a s = []" using assms(1) by simp
  moreover have "reads s 0 r = s" using assms(3) by (simp add: reads_def)
  ultimately show ?thesis using False by (simp add: captureSegment_def)
next
  case True
  then show ?thesis using assms(2,3)
    by (simp add: captureSegment_def Let_def append_result_reads flip: seg_def json_text_def)
qed

lemma double_loop_char:
  assumes "ahead s = c # w" and "32 \<le> c" "c \<noteq> 34" "c \<noteq> 92" and "l_lineStart s < l_position s"
  shows "double_loop (Suc n) i a b s = double_loop n i a (l_position s + 1) (move 1 s)"
proof -
  have "32 \<le> uint c" "uint c \<noteq> 34" "uint c \<noteq> 92"
    using assms(2-4) word_uint_eq_iff [of c 34] word_uint_eq_iff [of c 92] by (auto simp: word_le_def)
  then show ?thesis using assms(5) ahead_Cons(1) [OF assms(1)] by (simp add: is_EOL_def)
qed

lemma double_loop_escape:
  assumes "ahead s = 92 # f @ w" and "a \<le> l_position s" "json_text (seg a s)" "l_result s = VStr r"
    and "\<And>s r. ahead s = f @ w \<Longrightarrow> l_result s = VStr r \<Longrightarrow> read_escape s i = Inr ((), reads s (length f) (r @ y))"
  shows "double_loop (Suc n) i a b s
    = (let s' = reads s (length (92 # f)) (r @ seg a s @ y) in double_loop n i (l_position s') (l_position s') s')"
proof -
  let ?s = "reads s 1 (r @ seg a s)"
  have "ahead ?s = f @ w" using ahead_reads [of s "[92]"] assms(1) by simp
  then have "read_escape ?s i = Inr ((), reads ?s (length f) ((r @ seg a s) @ y))" by (rule assms(5)) simp
  then show ?thesis
    using captureSegment_reads [OF assms(2-4)] ahead_Cons(1) [OF assms(1)] by (simp add: Let_def)
qed

lemma double_loop_reads:
  assumes "escaped e x" and "ahead s = e @ 34 # w" and "l_result s = VStr r" and "a \<le> l_position s"
    and "json_text (seg a s)" and "l_lineStart s < l_position s" and "length e < n"
  shows "double_loop n i a b s = Inr (True, reads s (length e + 1) (r @ seg a s @ x))"
  using assms
proof (induction arbitrary: s r a b n rule: escaped.induct)
  case Nil
  then obtain m where "n = Suc m" by (cases n) auto
  then show ?case using Nil captureSegment_reads [of a s r] ahead_Cons(1) [of s 34 w] by simp
next
  case (Step e y es ys)
  then obtain m where m: "n = Suc m" by (cases n) auto
  from Step.hyps(1) consider
      (char) c where "e = [c]" "y = [c]" "32 \<le> c" "c \<noteq> 34" "c \<noteq> 92"
    | (escape) f where "e = 92 # f" "\<And>s w r i. ahead s = f @ w \<Longrightarrow> l_result s = VStr r \<Longrightarrow>
            read_escape s i = Inr ((), reads s (length f) (r @ y))"
    unfolding escapes_def by blast
  then show ?case
  proof cases
    case char
    then have a: "ahead s = c # es @ 34 # w" using Step.prems(1) by simp
    note mv = seg_move [OF a Step.prems(3)] ahead_Cons(2) [OF a]
    have "double_loop m i a (l_position s + 1) (move 1 s) = Inr (True, reads (move 1 s) (length es + 1) (r @ seg a (move 1 s) @ ys))"
      using Step.prems char m mv by (intro Step.IH) (auto simp: json_text_def)
    then show ?thesis using char mv m double_loop_char [OF a char(3-5) Step.prems(5)] by simp
  next
    case escape
    let ?s = "reads s (length e) (r @ seg a s @ y)"
    have a: "ahead s = 92 # f @ es @ 34 # w" using Step.prems(1) escape by simp
    have "ahead ?s = es @ 34 # w" using ahead_reads [of s e] Step.prems(1) by simp
    then have "double_loop m i (l_position ?s) (l_position ?s) ?s = Inr (True, reads ?s (length es + 1) ((r @ seg a s @ y) @ seg (l_position ?s) ?s @ ys))"
      using Step.prems m escape(1) by (intro Step.IH) (simp_all add: json_text_def)
    then show ?thesis
      using double_loop_escape [OF a Step.prems(3,4,2) escape(2)] escape(1) m by (simp add: Let_def add.assoc)
  qed
qed

text \<open>
  \<^verbatim>\<open>readDoubleQuotedScalar\<close> reads back what \<^verbatim>\<open>escapeString\<close> writes between the quotes.
\<close>

lemma readDoubleQuotedScalar_reads:
  assumes "escaped e x" and "ahead s = [34] @ e @ [34] @ w" and "l_lineStart s \<le> l_position s"
  shows "readDoubleQuotedScalar s i = Inr (True, reads (start_scalar s) (length e + 2) x)"
proof -
  let ?s = "move 1 (start_scalar s)"
  have st: "ahead (start_scalar s) = ahead s" "ch (start_scalar s) = ch s" by (simp_all add: ahead_def ch_def start_scalar_def)
  have a: "ch s = 34" "ahead ?s = e @ 34 # w" using ahead_Cons assms(2) st by simp_all
  then have "length e < length (l_input ?s) + 1" by (simp add: ahead_def) (metis length_append length_drop le_add1 less_Suc_eq_le diff_le_self order_trans)
  then have "double_loop (length (l_input ?s) + 1) i (l_position ?s) (l_position ?s) ?s
      = Inr (True, reads ?s (length e + 1) ([] @ seg (l_position ?s) ?s @ x))"
    using a assms by (intro double_loop_reads) (auto simp: move_def start_scalar_def json_text_def seg_def str_slice_def)
  then show ?thesis using a(1) by (simp add: readDoubleQuotedScalar_def Let_def del: double_loop.simps)
qed

section \<open>Single quotes\<close>

lemma single_loop_char:
  assumes "ahead s = c # w" and "32 \<le> c" "c \<noteq> 39" and "l_lineStart s < l_position s"
  shows "single_loop (Suc n) i a b s = single_loop n i a (l_position s + 1) (move 1 s)"
proof -
  have "32 \<le> uint c" "uint c \<noteq> 39"
    using assms(2,3) word_uint_eq_iff [of c 39] by (auto simp: word_le_def)
  then show ?thesis using assms(4) ahead_Cons(1) [OF assms(1)] by (simp add: is_EOL_def)
qed

lemma single_loop_quote:
  assumes "ahead s = 39 # w" and "a \<le> l_position s" "json_text (seg a s)" "l_result s = VStr r"
  shows "single_loop (Suc n) i a b s =
    (if w \<noteq> [] \<and> hd w = 39 then single_loop n i (l_position s + 1) (l_position s + 2) (reads s (Suc 1) (r @ seg a s))
     else Inr (True, reads s 1 (r @ seg a s)))"
proof -
  have w: "ahead (reads s 1 (r @ seg a s)) = w" using ahead_reads [of s "[39]"] assms(1) by simp
  have "ch (reads s 1 (r @ seg a s)) = 39 \<longleftrightarrow> w \<noteq> [] \<and> hd w = 39"
    using ahead_Cons(1) [OF w [THEN trans]] ahead_Nil [OF w [THEN trans]] word_uint_eq_iff [of "hd w" 39] by (cases w) auto
  then show ?thesis
    using captureSegment_reads [OF assms(2-4)] ahead_Cons(1) [OF assms(1)] by (simp add: Let_def)
qed

lemma single_loop_reads:
  assumes "list_all (\<lambda>c. 32 \<le> c) x" and "ahead s = double_quotes x @ 39 # w" and "w = [] \<or> hd w \<noteq> 39"
    and "l_result s = VStr r" and "a \<le> l_position s" and "json_text (seg a s)" and "l_lineStart s < l_position s"
    and "length x < n"
  shows "single_loop n i a b s = Inr (True, reads s (length (double_quotes x) + 1) (r @ seg a s @ x))"
  using assms
proof (induction x arbitrary: s r a b n)
  case Nil
  then obtain m where "n = Suc m" by (cases n) auto
  then show ?case using Nil single_loop_quote [of s w a r m i b] by (auto simp: double_quotes_def)
next
  case (Cons c x)
  then obtain m where m: "n = Suc m" by (cases n) auto
  show ?case
  proof (cases "c = 39")
    case True
    let ?s = "reads s (Suc 1) (r @ seg a s)"
    have a: "ahead s = 39 # 39 # double_quotes x @ 39 # w" using Cons.prems(2) True by (simp add: double_quotes_def)
    have s: "ahead ?s = double_quotes x @ 39 # w" using ahead_reads [of s "[39, 39]"] a by simp
    have "seg (l_position s + 1) (move 1 (reads s 1 (r @ seg a s))) = [39]"
      using seg_move [of "reads s 1 (r @ seg a s)" 39 "double_quotes x @ 39 # w" "l_position s + 1"]
        ahead_reads [of s "[39]" _ "r @ seg a s"] a by simp
    then have g: "seg (l_position s + 1) ?s = [39]" by simp
    have "single_loop m i (l_position s + 1) (l_position s + 2) ?s
        = Inr (True, reads ?s (length (double_quotes x) + 1) ((r @ seg a s) @ seg (l_position s + 1) ?s @ x))"
      using Cons.prems m s g by (intro Cons.IH) (simp_all add: json_text_def)
    then show ?thesis
      using single_loop_quote [OF a Cons.prems(5,6,4)] True m g by (simp add: double_quotes_def)
  next
    case False
    then have a: "ahead s = c # double_quotes x @ 39 # w" using Cons.prems(2) by (simp add: double_quotes_def)
    note mv = seg_move [OF a Cons.prems(5)] ahead_Cons(2) [OF a]
    have "single_loop m i a (l_position s + 1) (move 1 s)
        = Inr (True, reads (move 1 s) (length (double_quotes x) + 1) (r @ seg a (move 1 s) @ x))"
      using Cons.prems m mv by (intro Cons.IH) (auto simp: json_text_def)
    then show ?thesis
      using mv m single_loop_char [OF a _ False Cons.prems(7)] Cons.prems(1) False by (simp add: double_quotes_def)
  qed
qed

lemma length_double_quotes: "length x \<le> length (double_quotes x)"
  by (induction x) (auto simp: double_quotes_def)

lemma ahead_length: "ahead s = v @ w \<Longrightarrow> length v \<le> length (l_input s)"
  by (metis ahead_def diff_le_self le_add1 length_append length_drop order_trans)

lemma readSingleQuotedScalar_reads:
  assumes "list_all (\<lambda>c. 32 \<le> c) x" and "ahead s = [39] @ double_quotes x @ [39] @ w" and "w = [] \<or> hd w \<noteq> 39"
    and "l_lineStart s \<le> l_position s"
  shows "readSingleQuotedScalar s i = Inr (True, reads (start_scalar s) (length (double_quotes x) + 2) x)"
proof -
  let ?s = "move 1 (start_scalar s)"
  have st: "ahead (start_scalar s) = ahead s" "ch (start_scalar s) = ch s" by (simp_all add: ahead_def ch_def start_scalar_def)
  have a: "ch s = 39" "ahead ?s = double_quotes x @ 39 # w" using ahead_Cons assms(2) st by simp_all
  have "length x < length (l_input ?s) + 1" using ahead_length [OF a(2)] length_double_quotes [of x] by simp
  then have "single_loop (length (l_input ?s) + 1) i (l_position ?s) (l_position ?s) ?s
      = Inr (True, reads ?s (length (double_quotes x) + 1) ([] @ seg (l_position ?s) ?s @ x))"
    using a assms by (intro single_loop_reads) (auto simp: move_def start_scalar_def json_text_def)
  then show ?thesis using a(1) by (simp add: readSingleQuotedScalar_def Let_def del: single_loop.simps)
qed

section \<open>The style that the dumper chooses\<close>

lemma single_line_loop_printable:
  "single_line_loop s p = Some q \<Longrightarrow> list_all (\<lambda>c. isPrintable (uint c)) s \<and> (q \<longrightarrow> p)"
  by (induction s arbitrary: p) (auto split: if_splits)

lemma multi_line_loop_printable:
  "multi_line_loop t lw s i h f p q = Some (h', f', p', i', q') \<Longrightarrow>
     (h \<longrightarrow> h') \<and> (\<not> h' \<longrightarrow> list_all (\<lambda>c. isPrintable (uint c)) s) \<and> (q' \<longrightarrow> q)"
proof (induction s arbitrary: i h f p q)
  case (Cons c s)
  then show ?case by (fastforce split: if_splits)
qed simp

lemma printable_text: "isPrintable (uint c) \<Longrightarrow> 32 \<le> (c :: 16 word)"
  by (auto simp: isPrintable_def word_le_def)

lemma chooseScalarStyle_single:
  assumes "chooseScalarStyle x sl ind lw amb = STYLE_SINGLE"
  shows "list_all (\<lambda>c. 32 \<le> c) x"
proof -
  have "list_all (\<lambda>c. isPrintable (uint c)) x"
    using assms by (auto simp: chooseScalarStyle_def Let_def split: option.splits prod.splits if_splits
        dest!: single_line_loop_printable multi_line_loop_printable)
  then show ?thesis by (auto simp: list_all_iff intro: printable_text)
qed

lemma chooseScalarStyle_plain:
  assumes "chooseScalarStyle x sl ind lw amb = STYLE_PLAIN"
  shows "isPlainSafeFirst (charCodeAt x 0)"
  using assms by (auto simp: chooseScalarStyle_def Let_def split: option.splits prod.splits if_splits
      dest!: single_line_loop_printable multi_line_loop_printable)


text \<open>A text in quotes was written by one of the two quoted styles.\<close>

lemma deprecated_text:
  "list_all (\<lambda>x. x \<noteq> [] \<and> list_all (\<lambda>c. 32 \<le> c) x \<and> double_quotes x = x) DEPRECATED_BOOLEANS_SYNTAX"
  by code_simp

lemma scalar_text_cases:
  "\<exists>t. scalar_text str h d x level iskey = Inr t \<and>
     ((\<exists>e. t = [34] @ e @ [34] \<and> escapeString x = Inr e)
      \<or> t = [39] @ double_quotes x @ [39] \<and> list_all (\<lambda>c. 32 \<le> c) x
      \<or> t \<noteq> [] \<and> hd t \<noteq> 34 \<and> hd t \<noteq> 39)"
proof (cases "x = [] \<or> \<not> d_noCompatMode d \<and> x \<in> set DEPRECATED_BOOLEANS_SYNTAX")
  case True
  with deprecated_text have "list_all (\<lambda>c. 32 \<le> c) x \<and> double_quotes x = x"
    by (auto simp: list_all_iff double_quotes_def)
  with True show ?thesis by (auto simp: scalar_text_def)
next
  case False
  define sty where "sty = chooseScalarStyle x (iskey \<or> d_flowLevel d > -1 \<and> level \<ge> d_flowLevel d) (d_indent d)
        (if d_lineWidth d = -1 then -1 else max (min (d_lineWidth d) 40) (d_lineWidth d - d_indent d * max 1 level))
        (testImplicitResolving str h d)"
  have plain: "hd x \<noteq> 34 \<and> hd x \<noteq> 39" if "isPlainSafeFirst (charCodeAt x 0)"
    using that False by (auto simp: isPlainSafeFirst_def charCodeAt_def hd_conv_nth)
  obtain e where e: "escapeString x = Inr e" using escapeString_escaped by blast
  have sp: "x \<noteq> []" "\<not> (\<not> d_noCompatMode d \<and> x \<in> set DEPRECATED_BOOLEANS_SYNTAX)" using False by auto
  have f: "scalar_text str h d x level iskey = (case sty of
             STYLE_PLAIN \<Rightarrow> Inr x
           | STYLE_SINGLE \<Rightarrow> Inr ([39] @ double_quotes x @ [39])
           | STYLE_LITERAL \<Rightarrow> Inr (js ''|'' @ blockHeader x (d_indent d) @ dropEndingNewline (indentString x (d_indent d * max 1 level)))
           | STYLE_FOLDED \<Rightarrow> Inr (js ''>'' @ blockHeader x (d_indent d) @ dropEndingNewline (indentString (foldString x
               (if d_lineWidth d = -1 then -1 else max (min (d_lineWidth d) 40) (d_lineWidth d - d_indent d * max 1 level)))
               (d_indent d * max 1 level)))
           | STYLE_DOUBLE \<Rightarrow> rbind (escapeString x) (\<lambda>e. Inr ([34] @ e @ [34])))"
    unfolding scalar_text_def sty_def Let_def if_not_P [OF sp(1)] if_not_P [OF sp(2)] ..
  show ?thesis
  proof (cases sty)
    case STYLE_PLAIN
    then have "isPlainSafeFirst (charCodeAt x 0)" unfolding sty_def by (rule chooseScalarStyle_plain)
    then show ?thesis using plain False f STYLE_PLAIN by simp
  next
    case STYLE_SINGLE
    then have "list_all (\<lambda>c. 32 \<le> c) x" unfolding sty_def by (rule chooseScalarStyle_single)
    then show ?thesis using f STYLE_SINGLE by simp
  qed (use f e in \<open>simp_all add: js_def\<close>)
qed

text \<open>
  Whatever the string, the options and the place, the dumper finds a text for it; and a text that starts with a
  quote is read back by one of the two readers as the same string, up to right after the closing quote.
\<close>

lemma quoted_scalar_round_trip:
  "\<exists>t. scalar_text str h d x level iskey = Inr t
     \<and> (hd t = 34 \<or> hd t = 39 \<longrightarrow> (\<forall>s w i. drop (l_position s) (l_input s) = t @ w \<longrightarrow> (w = [] \<or> hd w \<noteq> 39)
          \<longrightarrow> l_lineStart s \<le> l_position s
          \<longrightarrow> (if hd t = 34 then readDoubleQuotedScalar s i else readSingleQuotedScalar s i)
              = Inr (True, s\<lparr> l_position := l_position s + length t, l_kind := Some (js ''scalar''), l_result := VStr x \<rparr>)))"
proof -
  obtain t where t: "scalar_text str h d x level iskey = Inr t" and "(\<exists>e. t = [34] @ e @ [34] \<and> escapeString x = Inr e)
      \<or> t = [39] @ double_quotes x @ [39] \<and> list_all (\<lambda>c. 32 \<le> c) x \<or> t \<noteq> [] \<and> hd t \<noteq> 34 \<and> hd t \<noteq> 39"
    using scalar_text_cases [of str h d x level iskey] by (elim exE conjE)
  then consider (double) e where "t = [34] @ e @ [34]" "escapeString x = Inr e"
    | (single) "t = [39] @ double_quotes x @ [39]" "list_all (\<lambda>c. 32 \<le> c) x"
    | (other) "hd t \<noteq> 34" "hd t \<noteq> 39"
    by (elim disjE exE conjE)
  then show ?thesis
  proof cases
    case double
    then have "escaped e x" using escapeString_escaped [of x] by simp
    then have "readDoubleQuotedScalar s i = Inr (True, reads (start_scalar s) (length t) x)"
      if "ahead s = t @ w" "l_lineStart s \<le> l_position s" for s w i
      using readDoubleQuotedScalar_reads that double(1) by simp
    then show ?thesis using t double(1) by (simp add: ahead_def reads_def start_scalar_def)
  next
    case single
    then have "readSingleQuotedScalar s i = Inr (True, reads (start_scalar s) (length t) x)"
      if "ahead s = t @ w" "w = [] \<or> hd w \<noteq> 39" "l_lineStart s \<le> l_position s" for s w i
      using readSingleQuotedScalar_reads [OF single(2)] that by simp
    then show ?thesis using t single(1) by (simp add: ahead_def reads_def start_scalar_def)
  qed (use t in simp)
qed

section \<open>A document that is one quoted string\<close>

text \<open>At a quote neither blanks, nor comments, tags, anchors or collections are read.\<close>

lemma scan_while_stays: "\<not> p (ch s) \<Longrightarrow> scan_while p s = Inr ((), s)"
  by (simp add: scan_while_def ch_def skip_while.simps)

lemma skipSeparationSpace_stays:
  assumes "ch s \<noteq> 0" "\<not> is_WS_OR_EOL (ch s)" "ch s \<noteq> 35"
  shows "skipSeparationSpace s a i = Inr (0, s)"
proof -
  have "\<not> is_WHITE_SPACE (ch s)" "\<not> is_EOL (ch s)" using assms(2) by (simp_all add: is_WS_OR_EOL_def is_WHITE_SPACE_def is_EOL_def)
  then show ?thesis using assms by (simp add: skipSeparationSpace_def scan_while_stays skip_comment_def)
qed

definition at_quote :: "lstate \<Rightarrow> bool" where
  "at_quote s \<longleftrightarrow> ch s = 34 \<or> ch s = 39"

lemma at_quote_stays:
  assumes "at_quote s"
  shows "ch s \<noteq> 0" "skipSeparationSpace s a i = Inr (0, s)" "read_property s = Inr (False, s)"
    "readBlockScalar s i = Inr (False, s)" "readFlowCollection datestr cn s i = Inr (False, s)"
proof -
  show "skipSeparationSpace s a i = Inr (0, s)"
    using assms by (intro skipSeparationSpace_stays) (auto simp: at_quote_def is_WS_OR_EOL_def)
  have c: "ch s \<noteq> 0" "ch s \<noteq> 33" "ch s \<noteq> 38" "ch s \<noteq> 124" "ch s \<noteq> 62" "ch s \<noteq> 91" "ch s \<noteq> 123"
    using assms unfolding at_quote_def by (elim disjE; simp)+
  then show "ch s \<noteq> 0" "read_property s = Inr (False, s)" "readBlockScalar s i = Inr (False, s)"
    "readFlowCollection datestr cn s i = Inr (False, s)"
    by (simp_all add: read_property_def readTagProperty_def readAnchorProperty_def readBlockScalar_def readFlowCollection_def)
qed

lemma ch_upd [simp]:
  "ch (s\<lparr> l_tag := a \<rparr>) = ch s" "ch (s\<lparr> l_anchor := a \<rparr>) = ch s" "ch (s\<lparr> l_kind := a \<rparr>) = ch s"
  "ch (s\<lparr> l_result := v \<rparr>) = ch s" "ch (s\<lparr> l_store := h \<rparr>) = ch s"
  by (simp_all add: ch_def)

text \<open>The readers of quoted scalars on a text that the dumper wrote.\<close>

definition quoted :: "jsstr \<Rightarrow> jsstr \<Rightarrow> bool" where
  "quoted x t \<longleftrightarrow> t \<noteq> [] \<and> (hd t = 34 \<or> hd t = 39) \<and> (\<forall>s w i. ahead s = t @ w \<longrightarrow> (w = [] \<or> hd w \<noteq> 39)
          \<longrightarrow> l_lineStart s \<le> l_position s
          \<longrightarrow> (if hd t = 34 then readDoubleQuotedScalar s i else readSingleQuotedScalar s i)
              = Inr (True, s\<lparr> l_position := l_position s + length t, l_kind := Some (js ''scalar''), l_result := VStr x \<rparr>))"

lemma quotedD:
  "quoted x t \<Longrightarrow> ahead s = t @ w \<Longrightarrow> w = [] \<or> hd w \<noteq> 39 \<Longrightarrow> l_lineStart s \<le> l_position s \<Longrightarrow>
     (if hd t = 34 then readDoubleQuotedScalar s i else readSingleQuotedScalar s i)
       = Inr (True, s\<lparr> l_position := l_position s + length t, l_kind := Some (js ''scalar''), l_result := VStr x \<rparr>)"
  unfolding quoted_def by blast

lemma quoted_leaf:
  assumes "quoted x t" and "ahead s = t @ w" "w = [] \<or> hd w \<noteq> 39" "l_lineStart s \<le> l_position s" "l_anchor s = None"
  shows "at_quote s" and "read_leaf bs i c s
    = Inr (True, s\<lparr> l_position := l_position s + length t, l_kind := Some (js ''scalar''), l_result := VStr x \<rparr>)"
proof -
  obtain q t' where t: "t = q # t'" "q = 34 \<or> q = 39" using assms(1) by (cases t) (auto simp: quoted_def)
  have c: "ch s = uint q" using ahead_Cons(1) [of s q "t' @ w"] assms(2) t(1) by simp
  then show q: "at_quote s" using t(2) by (auto simp: at_quote_def)
  have r: "(if q = 34 then readDoubleQuotedScalar s i else readSingleQuotedScalar s i)
      = Inr (True, s\<lparr> l_position := l_position s + length t, l_kind := Some (js ''scalar''), l_result := VStr x \<rparr>)"
    using quotedD [OF assms(1-4), of i] t(1) by simp
  have b: "(if bs then readBlockScalar s i else Inr (False, s)) = Inr (False, s)" using at_quote_stays(4) [OF q] by simp
  have sq: "readSingleQuotedScalar s i = Inr (False, s)" if "q = 34" using c that by (simp add: readSingleQuotedScalar_def)
  have "read_scalar bs i s = Inr (True, s\<lparr> l_position := l_position s + length t, l_kind := Some (js ''scalar''), l_result := VStr x \<rparr>)"
  proof (cases "q = 34")
    case True
    with r sq show ?thesis unfolding read_scalar_def b by (simp add: or_try_def)
  next
    case False
    with r show ?thesis unfolding read_scalar_def b by (simp add: or_try_def)
  qed
  then show "read_leaf bs i c s
    = Inr (True, s\<lparr> l_position := l_position s + length t, l_kind := Some (js ''scalar''), l_result := VStr x \<rparr>)"
    using assms(5) by (simp add: read_leaf_def bind_anchor_def)
qed

lemma compose_flow_quoted:
  assumes "quoted x t" and "ahead s = t @ w" "w = [] \<or> hd w \<noteq> 39" "l_lineStart s \<le> l_position s"
  shows "composeNode datestr (Suc n) s i CONTEXT_FLOW_OUT False True
    = Inr (True, s\<lparr> l_position := l_position s + length t, l_tag := None, l_anchor := None, l_kind := Some (js ''scalar''), l_result := VStr x \<rparr>)"
proof -
  let ?s = "s\<lparr> l_tag := None, l_anchor := None, l_kind := None, l_result := VNull \<rparr>"
  have a: "ahead ?s = t @ w" "l_lineStart ?s \<le> l_position ?s" "l_anchor ?s = None" using assms by (simp_all add: ahead_def)
  note q = quoted_leaf [OF assms(1) a(1) assms(3) a(2,3)]
  show ?thesis
    using at_quote_stays [OF q(1)] q(2)
    by (simp add: composeNode_body_def Let_def read_content_def read_collection_def or_try_def resolve_node_def)
qed

lemma readBlockSequence_quote:
  assumes "at_quote s" "l_anchor s = None"
  shows "\<exists>h. readBlockSequence cn s i = Inr (False, s\<lparr> l_store := h \<rparr>)"
  using assms by (auto simp: readBlockSequence_def new_obj_def bind_anchor_def at_quote_def)

lemma readBlockMapping_quoted:
  assumes "quoted x t" and "ahead s = t @ [10, 0]" "l_lineStart s \<le> l_position s" "l_anchor s = None" "l_tag s = None"
  shows "\<exists>h. readBlockMapping datestr (composeNode datestr (Suc n)) s i f
    = Inr (True, s\<lparr> l_position := l_position s + length t, l_kind := Some (js ''scalar''), l_result := VStr x, l_store := h \<rparr>)"
proof -
  let ?s = "s\<lparr> l_store := l_store s @ [OObj []] \<rparr>"
  let ?u = "?s\<lparr> l_position := l_position s + length t, l_tag := None, l_anchor := None, l_kind := Some (js ''scalar''), l_result := VStr x \<rparr>"
  have a: "ahead ?s = t @ [10, 0]" "l_lineStart ?s \<le> l_position ?s" "l_anchor ?s = None" using assms by (simp_all add: ahead_def)
  have w: "[10, 0] = [] \<or> hd [10, 0] \<noteq> (39 :: 16 word)" by simp
  have q: "at_quote ?s" by (rule quoted_leaf(1) [OF assms(1) a(1) w a(2,3)])
  have "ahead ?u = [10, 0]" using assms(2) by (simp add: ahead_def add.commute flip: drop_drop)
  then have "ch ?u = 10" using ahead_Cons(1) by force
  then have k: "implicit_key datestr (composeNode datestr (Suc n)) f r v ?s = Inr (Return, ?u)" if "\<not> v_detected v" for r v
    using compose_flow_quoted [OF assms(1) a(1) w a(2)] scan_while_stays [of is_WHITE_SPACE ?u] that
    by (simp add: implicit_key_def is_WHITE_SPACE_def del: composeNode.simps)
  have "read_key datestr (composeNode datestr (Suc n)) f r v ?s = Inr (Return, ?u)" if "\<not> v_detected v" for r v
    using k that q by (auto simp: read_key_def at_quote_def simp del: composeNode.simps)
  then show ?thesis
    using at_quote_stays(1) [OF q] assms(4,5)
    by (auto simp: readBlockMapping_def new_obj_def bind_anchor_def simp del: composeNode.simps intro!: exI [of _ "l_store s @ [OObj []]"])
qed

lemma compose_block_quoted:
  assumes "quoted x t" and "ahead s = t @ [10, 0]" "l_lineStart s \<le> l_position s"
  shows "\<exists>h. composeNode datestr (Suc (Suc n)) s i CONTEXT_BLOCK_OUT False True
    = Inr (True, s\<lparr> l_position := l_position s + length t, l_tag := None, l_anchor := None, l_kind := Some (js ''scalar''),
             l_result := VStr x, l_store := h \<rparr>)"
proof -
  let ?s = "s\<lparr> l_tag := None, l_anchor := None, l_kind := None, l_result := VNull \<rparr>"
  let ?cn = "composeNode datestr (Suc n)"
  have a: "ahead ?s = t @ [10, 0]" "l_lineStart ?s \<le> l_position ?s" "l_anchor ?s = None" "l_tag ?s = None"
    using assms by (simp_all add: ahead_def)
  have w: "[10, 0] = [] \<or> hd [10, 0] \<noteq> (39 :: 16 word)" by simp
  have q: "at_quote ?s" by (rule quoted_leaf(1) [OF assms(1) a(1) w a(2,3)])
  let ?b = "int (l_position ?s) - int (l_lineStart ?s)"
  obtain h1 where h1: "readBlockSequence ?cn ?s ?b = Inr (False, ?s\<lparr> l_store := h1 \<rparr>)"
    using readBlockSequence_quote [OF q a(3)] by blast
  have "ahead (?s\<lparr> l_store := h1 \<rparr>) = t @ [10, 0]" using a(1) by (simp add: ahead_def)
  from readBlockMapping_quoted [OF assms(1) this, of datestr n ?b "i + 1"] assms(3) obtain h where
    "readBlockMapping datestr ?cn (?s\<lparr> l_store := h1 \<rparr>) ?b (i + 1)
      = Inr (True, ?s\<lparr> l_position := l_position s + length t, l_kind := Some (js ''scalar''), l_result := VStr x, l_store := h \<rparr>)"
    by auto
  then have "read_content datestr ?cn i CONTEXT_BLOCK_OUT True True 1 ?s
      = Inr (True, ?s\<lparr> l_position := l_position s + length t, l_kind := Some (js ''scalar''), l_result := VStr x, l_store := h \<rparr>)"
    using h1 by (simp add: read_content_def read_collection_def or_try_def Let_def del: composeNode.simps)
  then have "composeNode_body datestr ?cn s i CONTEXT_BLOCK_OUT False True
      = Inr (True, ?s\<lparr> l_position := l_position s + length t, l_kind := Some (js ''scalar''), l_result := VStr x, l_store := h \<rparr>)"
    using at_quote_stays(3) [OF q] by (simp add: composeNode_body_def Let_def resolve_node_def del: composeNode.simps)
  then show ?thesis by (auto simp del: composeNode.simps simp add: composeNode.simps(2) [of datestr "Suc n"] intro!: exI [of _ h])
qed

text \<open>The rest of the document: one line feed and the end.\<close>

lemma skipSeparationSpace_end:
  assumes "ahead s = [10, 0]"
  shows "skipSeparationSpace s True (-1)
    = Inr (1, s\<lparr> l_position := l_position s + 1, l_line := l_line s + 1, l_lineStart := l_position s + 1, l_lineIndent := 0 \<rparr>)"
proof -
  let ?s = "s\<lparr> l_position := l_position s + 1, l_line := l_line s + 1, l_lineStart := l_position s + 1, l_lineIndent := 0 \<rparr>"
  have c: "ch s = 10" "ahead (move 1 s) = [0]" using ahead_Cons [OF assms] by simp_all
  have "ahead ?s = [0]" using c(2) by (simp add: ahead_def move_def)
  then have c': "ch ?s = 0" using ahead_Cons(1) by force
  have rb: "rbind (readLineBreak s) (\<lambda>(_, s). rbind (skip_indent (s\<lparr> l_lineIndent := 0 \<rparr>)) f) = f ((), ?s)" for f :: "unit \<times> lstate \<Rightarrow> nat scan"
    using c(1) scan_while_stays [of "\<lambda>c. c = 32" ?s] c' by (simp add: readLineBreak_def skip_indent_def move_def)
  have "length (l_input s) \<ge> 2" using assms by (metis ahead_def diff_le_self length_Cons length_drop list.size(3) numeral_2_eq_2)
  then obtain n where n: "length (l_input s) = Suc n" by (cases "length (l_input s)") auto
  show ?thesis
    using c(1) c' by (simp add: skipSeparationSpace_def n scan_while_stays is_WHITE_SPACE_def skip_comment_def is_EOL_def rb)
qed

lemma end_document_end:
  assumes "ch s = 0" and "l_position s = l_length s"
  shows "\<exists>s'. end_document d s = Inr ((), s') \<and> l_documents s' = l_documents s @ [l_result s]
    \<and> l_position s' = l_position s \<and> l_length s' = l_length s \<and> l_store s' = l_store s"
proof -
  have w: "ch (throwWarning s r) = ch s" for r by (simp add: throwWarning_def ch_def)
  have "\<not> testDocumentSeparator (v\<lparr> l_documents := ds \<rparr>)" if "ch v = 0" for v ds
    using that by (simp add: testDocumentSeparator_def ch_def)
  then show ?thesis using assms w by (auto simp: end_document_def Let_def throwWarning_def)
qed

lemma readDocument_quoted:
  assumes "quoted x t" and "ahead s = t @ [10, 0]" "l_lineStart s \<le> l_position s" "l_lineIndent s = 0"
    and "l_length s = l_position s + length t + 1"
  shows "\<exists>s'. readDocument datestr s = Inr ((), s') \<and> l_documents s' = l_documents s @ [VStr x]
    \<and> l_position s' = l_length s \<and> l_length s' = l_length s"
proof -
  let ?s = "s\<lparr> l_version := None, l_checkLineBreaks := l_legacy s, l_tagMap := [], l_anchorMap := [] \<rparr>"
  have a: "ahead ?s = t @ [10, 0]" "l_lineStart ?s \<le> l_position ?s" using assms by (simp_all add: ahead_def)
  have w: "[10, 0] = [] \<or> hd [10, 0] \<noteq> (39 :: 16 word)" by simp
  have "ahead (?s\<lparr> l_anchor := None \<rparr>) = t @ [10, 0]" using a by (simp add: ahead_def)
  then have q: "at_quote ?s" using quoted_leaf(1) [OF assms(1) _ w, of "?s\<lparr> l_anchor := None \<rparr>"] a(2) by (simp add: at_quote_def)
  then have c: "ch ?s \<noteq> 37" "ch ?s \<noteq> 45" by (auto simp: at_quote_def)
  obtain h where h: "composeNode datestr (2 * length (l_input ?s) + 2) ?s (int (l_lineIndent ?s) - 1) CONTEXT_BLOCK_OUT False True
      = Inr (True, ?s\<lparr> l_position := l_position s + length t, l_tag := None, l_anchor := None, l_kind := Some (js ''scalar''),
             l_result := VStr x, l_store := h \<rparr>)" (is "_ = Inr (True, ?u)")
    using compose_block_quoted [OF assms(1) a, of datestr "2 * length (l_input s)" "int (l_lineIndent ?s) - 1"] by auto
  have u: "ahead ?u = [10, 0]" using assms(2) by (simp add: ahead_def add.commute flip: drop_drop)
  let ?e = "?u\<lparr> l_position := l_position ?u + 1, l_line := l_line ?u + 1, l_lineStart := l_position ?u + 1, l_lineIndent := 0 \<rparr>"
  have d: "directives_loop (length (l_input ?s) + 1) False ?s = Inr (False, ?s)"
    and ds: "read_document_start False ?s = Inr ((), ?s)"
    using at_quote_stays(1,2) [OF q] c by (simp_all add: read_document_start_def)
  have "ahead ?e = [0]" using ahead_Cons(2) [OF u] by (simp add: ahead_def move_def)
  then have "ch ?e = 0" using ahead_Cons(1) by force
  moreover have "l_position ?e = l_length ?e" using assms(5) by simp
  ultimately obtain s' where s': "end_document (l_position s) ?e = Inr ((), s')" "l_documents s' = l_documents ?e @ [l_result ?e]"
    "l_position s' = l_position ?e" "l_length s' = l_length ?e"
    using end_document_end by blast
  have "readDocument datestr s = end_document (l_position s) ?e"
    unfolding readDocument_def Let_def d ds h rbind.simps prod.case skipSeparationSpace_end [OF u] ..
  then show ?thesis using s' assms(5) by simp
qed

lemma load_quoted:
  assumes "quoted x t"
  shows "\<exists>h'. load datestr full h (t @ [10]) options = Inr (VStr x, h')"
proof -
  let ?i = "load_State full (t @ [10]) options h"
  let ?s = "?i\<lparr> l_input := l_input ?i @ [0] \<rparr>"
  have t: "t \<noteq> []" "hd t = 34 \<or> hd t = 39" using assms by (simp_all add: quoted_def)
  then have p: "prepare_input (t @ [10]) = t @ [10]" by (auto simp: prepare_input_def Let_def)
  have s: "l_position ?s = 0" "l_lineStart ?s = 0" "l_lineIndent ?s = 0" "l_length ?s = length t + 1" "l_documents ?s = []"
    "l_input ?s = t @ [10, 0]"
    by (simp_all add: load_State_def Let_def)
  then have a: "ahead ?s = t @ [10, 0]" by (simp add: ahead_def)
  have "ch ?s = uint (hd t)" using ahead_Cons(1) [of ?s "hd t" "tl t @ [10, 0]"] a t(1) by simp
  then have "ch ?s \<noteq> 32" using t(2) by auto
  then have i: "skip_indent ?s = Inr ((), ?s)" using scan_while_stays [of "\<lambda>c. c = 32" ?s] by (simp add: skip_indent_def)
  obtain s' where s': "readDocument datestr ?s = Inr ((), s')" "l_documents s' = [VStr x]" "l_position s' = l_length s'"
    using readDocument_quoted [OF assms a, of datestr] s by auto
  have "documents_loop datestr (Suc (Suc n)) ?s = Inr s'" for n
    using s' s t(1) by simp
  moreover have "length (l_input ?s) + 1 = Suc (Suc (length t + 1))" using s(6) by simp
  ultimately have "documents_loop datestr (length (l_input ?s) + 1) ?s = Inr s'" by (simp only:)
  then have "loadDocuments datestr full h (t @ [10]) options = Inr ([VStr x], s')"
    unfolding loadDocuments_def Let_def p i rbind.simps prod.case by (simp add: s'(2))
  then show ?thesis by (simp add: load_def)
qed

section \<open>The dumper on a string\<close>

text \<open>No type of the safe schema represents a string, so that it is written as a scalar.\<close>

lemma knows_no_string:
  "\<not> knows h (VStr x) type_null" "\<not> knows h (VStr x) type_bool" "\<not> knows h (VStr x) type_int" "\<not> knows h (VStr x) type_float"
  "\<not> knows h (VStr x) type_timestamp" "\<not> knows h (VStr x) type_merge" "\<not> knows h (VStr x) type_str" "\<not> knows h (VStr x) type_seq"
  "\<not> knows h (VStr x) type_map" "\<not> knows h (VStr x) type_binary" "\<not> knows h (VStr x) type_omap"
  "\<not> knows h (VStr x) type_pairs" "\<not> knows h (VStr x) type_set"
  unfolding type_defs
  by (simp_all add: knows_def Type_simps isNull_def date_of_def bytes_of_def)

lemma safe_State:
  assumes "do_schema options = None"
  defines "d \<equiv> dump_State DEFAULT_SAFE_SCHEMA (options\<lparr> do_schema := Some DEFAULT_SAFE_SCHEMA \<rparr>)"
  shows "find (knows h (VStr x)) (d_implicitTypes d) = None" "find (knows h (VStr x)) (d_explicitTypes d) = None"
  by (simp_all add: d_def dump_State_def Let_def safe_implicit safe_explicit knows_no_string)

lemma safeDump_string:
  assumes "do_schema options = None"
  shows "\<exists>d. safeDump str (Suc n) h (VStr x) options = rbind (scalar_text str h d x 0 False) (\<lambda>t. Inr (t @ [10]))"
proof -
  let ?d = "dump_State DEFAULT_SAFE_SCHEMA (options\<lparr> do_schema := Some DEFAULT_SAFE_SCHEMA \<rparr>)"
  obtain d where d: "(if d_noRefs ?d then Inr ?d else getDuplicateReferences h (VStr x) ?d) = Inr d"
    "d_implicitTypes d = d_implicitTypes ?d" "d_explicitTypes d = d_explicitTypes ?d"
    by (cases "d_noRefs ?d") (auto simp: getDuplicateReferences_def)
  let ?s = "d\<lparr> d_tag := None, d_dump := VStr x \<rparr>"
  have w: "writeNode str h (Suc n) d 0 (VStr x) True True False
      = rbind (writeScalar str h ?s x 0 False) (\<lambda>s. Inr (True, s))"
    using safe_State [OF assms, of h x] d(2,3)
    by (cases "scalar_text str h ?s x 0 False")
      (simp_all add: writeNode_body_def detectType_def dup_index_def write_detected_def Let_def obj_props_def arr_items_def
        has_explicit_tag_def writeScalar_def)
  then have "safeDump str (Suc n) h (VStr x) options = rbind (scalar_text str h ?s x 0 False) (\<lambda>t. Inr (t @ [10]))"
    using assms d(1)
    by (cases "scalar_text str h ?s x 0 False")
      (simp_all add: safeDump_def dump_def Let_def writeScalar_def del: writeNode.simps)
  then show ?thesis by blast
qed


text \<open>C28: what the dumper writes in quotes, the loader reads back. With the safe schema \<^verbatim>\<open>safeDump\<close> succeeds on every
  string, whatever characters it holds and whatever the options; and whenever the text starts with a quote,
  \<^verbatim>\<open>safeLoad\<close> of it, with any options, returns the very string.\<close>

theorem quoted_string_round_trip:
  assumes "do_schema options = None"
  shows "\<exists>u. safeDump str (Suc n) h (VStr x) options = Inr u
    \<and> (hd u = 34 \<or> hd u = 39 \<longrightarrow> (\<exists>h''. safeLoad datestr h' u loptions = Inr (VStr x, h'')))"
proof -
  obtain d where d: "safeDump str (Suc n) h (VStr x) options = rbind (scalar_text str h d x 0 False) (\<lambda>t. Inr (t @ [10]))"
    using safeDump_string [OF assms] by blast
  obtain t where t: "scalar_text str h d x 0 False = Inr t" and "hd t = 34 \<or> hd t = 39 \<Longrightarrow> t \<noteq> [] \<Longrightarrow> quoted x t"
    using quoted_scalar_round_trip [of str h d x 0 False] unfolding quoted_def ahead_def by blast
  moreover have "t \<noteq> []" "hd (t @ [10]) = hd t" if "hd (t @ [10]) = 34 \<or> hd (t @ [10]) = 39"
    using that by (cases t; simp)+
  ultimately have "\<exists>h''. safeLoad datestr h' (t @ [10]) loptions = Inr (VStr x, h'')" if "hd (t @ [10]) = 34 \<or> hd (t @ [10]) = 39"
    unfolding safeLoad_def using load_quoted that by metis
  then show ?thesis using d t by simp
qed

text \<open>A bell between two letters, with the default options.\<close>

definition plain_options :: dump_options where
  "plain_options = \<lparr> do_schema = None, do_indent = None, do_skipInvalid = False, do_flowLevel = None, do_styles = None,
     do_sortKeys = NoSort, do_lineWidth = None, do_noRefs = False, do_noCompatMode = False, do_condenseFlow = False \<rparr>"

theorem quoted_string_round_trip_witness:
  "safeDump (\<lambda>v. []) 1 [] (VStr [97, 7, 98]) plain_options = Inr [34, 97, 92, 97, 98, 34, 10]
   \<and> (\<exists>h. safeLoad (\<lambda>v. []) [] [34, 97, 92, 97, 98, 34, 10] no_load_options = Inr (VStr [97, 7, 98], h))"
proof -
  have o: "do_schema plain_options = None" by (simp add: plain_options_def)
  have "escapeString [97, 7, 98] = Inr [97, 92, 97, 98]" by code_simp
  moreover have "chooseScalarStyle [97, 7, 98] sl ind lw amb = STYLE_DOUBLE" for sl ind lw amb
    by (simp add: chooseScalarStyle_def isPrintable_def Let_def)
  moreover have "[97, 7, 98] \<notin> set DEPRECATED_BOOLEANS_SYNTAX" by code_simp
  ultimately have "scalar_text (\<lambda>v. []) [] d [97, 7, 98] 0 False = Inr [34, 97, 92, 97, 98, 34]" for d
    by (simp add: scalar_text_def Let_def)
  then have e: "safeDump (\<lambda>v. []) 1 [] (VStr [97, 7, 98]) plain_options = Inr [34, 97, 92, 97, 98, 34, 10]"
    using safeDump_string [OF o, of "\<lambda>v. []" 0 "[]" "[97, 7, 98]"] by auto
  then show ?thesis
    using quoted_string_round_trip [OF o, of "\<lambda>v. []" 0 "[]" "[97, 7, 98]" "\<lambda>v. []" "[]" no_load_options] by auto
qed

end
