(* ===== verification/SwaggerValue.thy ===== *)
theory SwaggerValue
  imports BufferStr YamlValue "HOL-Library.Sublist"
begin

text \<open>
  The values that the Swagger UI modules of \<^verbatim>\<open>swagger-ui.js\<close> compute with: plain JavaScript values and the collections of
  Immutable.js, whose source is part of \<^verbatim>\<open>swagger-ui-bundle.js\<close>. None of the modelled functions compares two objects
  by identity, so that a value is a tree. A map lists its entries in the order in which the keys were first set, as an
  \<^verbatim>\<open>OrderedMap\<close> does; a plain \<^verbatim>\<open>Map\<close> of more than eight entries iterates in the order of hash codes instead, which
  none of the theorems depends on. \<open>setIn\<close> and \<open>getIn\<close> address nested collections by a path of keys; the locale
  \<open>path_store\<close> says what the plugins rely on.
\<close>

section \<open>Values\<close>

text \<open>\<open>SArr\<close> and \<open>SObj\<close> are plain arrays and objects, \<open>SFile\<close> is a \<^verbatim>\<open>File\<close> of the browser.\<close>

datatype sval =
    SUndef | SNull | SBool bool | SNum jsnum | SStr jsstr
  | SArr "sval list" | SObj "(jsstr \<times> sval) list"
  | SList "sval list" | SMap "(jsstr \<times> sval) list" | SSet "sval list"
  | SFile nat

type_synonym fields = "(jsstr \<times> sval) list"

fun truthy :: "sval \<Rightarrow> bool" where
  "truthy SUndef = False"
| "truthy SNull = False"
| "truthy (SBool b) = b"
| "truthy (SNum x) = (x \<noteq> NaN \<and> x \<noteq> NegZero \<and> x \<noteq> IntN 0)"
| "truthy (SStr s) = (s \<noteq> [])"
| "truthy v = True"

text \<open>\<^verbatim>\<open>a || b\<close>.\<close>

definition or_val :: "sval \<Rightarrow> sval \<Rightarrow> sval" where
  "or_val a b = (if truthy a then a else b)"

definition num_same :: "jsnum \<Rightarrow> jsnum \<Rightarrow> bool" where
  "num_same x y \<longleftrightarrow> x \<noteq> NaN \<and> (x = y \<or> x \<in> {NegZero, IntN 0} \<and> y \<in> {NegZero, IntN 0})"

text \<open>\<^verbatim>\<open>a === b\<close>; two collections that were built separately are different objects.\<close>

definition strict_eq :: "sval \<Rightarrow> sval \<Rightarrow> bool" where
  "strict_eq a b =
     (case a of
        SUndef \<Rightarrow> b = SUndef
      | SNull \<Rightarrow> b = SNull
      | SBool x \<Rightarrow> b = SBool x
      | SNum x \<Rightarrow> (case b of SNum y \<Rightarrow> num_same x y | _ \<Rightarrow> False)
      | SStr s \<Rightarrow> b = SStr s
      | SFile n \<Rightarrow> b = SFile n
      | _ \<Rightarrow> False)"

text \<open>\<^verbatim>\<open>typeof v === "object"\<close>.\<close>

fun typeof_object :: "sval \<Rightarrow> bool" where
  "typeof_object SUndef = False"
| "typeof_object (SBool b) = False"
| "typeof_object (SNum x) = False"
| "typeof_object (SStr s) = False"
| "typeof_object v = True"

text \<open>The value of a property of a plain object, \<^verbatim>\<open>undefined\<close> if it has none.\<close>

definition field :: "fields \<Rightarrow> jsstr \<Rightarrow> sval" where
  "field ps k = (case map_of ps k of None \<Rightarrow> SUndef | Some v \<Rightarrow> v)"

section \<open>Immutable collections\<close>

text \<open>The index that a key addresses in a \<^verbatim>\<open>List\<close>.\<close>

definition list_index :: "jsstr \<Rightarrow> nat option" where
  "list_index k = (if is_array_index k then Some (nat (digits_value 10 k)) else None)"

text \<open>\<^verbatim>\<open>v.get(k, NOT_SET)\<close>; \<open>None\<close> is \<^verbatim>\<open>NOT_SET\<close>.\<close>

fun iget :: "sval \<Rightarrow> jsstr \<Rightarrow> sval option" where
  "iget (SMap ps) k = map_of ps k"
| "iget (SList xs) k =
     (case list_index k of None \<Rightarrow> None | Some i \<Rightarrow> if i < length xs then Some (xs ! i) else None)"
| "iget (SSet xs) k = (if SStr k \<in> set xs then Some (SStr k) else None)"
| "iget v k = None"

text \<open>\<^verbatim>\<open>v.set(k, w)\<close> and \<^verbatim>\<open>v.remove(k)\<close> of a map or a list, the collections that have them.\<close>

fun has_set :: "sval \<Rightarrow> bool" where
  "has_set (SMap ps) = True"
| "has_set (SList xs) = True"
| "has_set v = False"

fun iset :: "sval \<Rightarrow> jsstr \<Rightarrow> sval \<Rightarrow> sval" where
  "iset (SMap ps) k w = SMap (prop_set ps k w)"
| "iset (SList xs) k w =
     (case list_index k of
        None \<Rightarrow> SList xs
      | Some i \<Rightarrow> SList (if i < length xs then xs[i := w] else xs @ replicate (i - length xs) SUndef @ [w]))"
| "iset v k w = v"

fun iremove :: "sval \<Rightarrow> jsstr \<Rightarrow> sval" where
  "iremove (SMap ps) k = SMap (prop_delete ps k)"
| "iremove (SList xs) k =
     (case list_index k of None \<Rightarrow> SList xs | Some i \<Rightarrow> SList (take i xs @ drop (Suc i) xs))"
| "iremove v k = v"

primrec getIn :: "sval \<Rightarrow> jsstr list \<Rightarrow> sval option" where
  "getIn v [] = Some v"
| "getIn v (k # ks) = Option.bind (iget v k) (\<lambda>w. getIn w ks)"

text \<open>\<^verbatim>\<open>v.getIn(path, d)\<close>.\<close>

definition getIn_or :: "sval \<Rightarrow> jsstr list \<Rightarrow> sval \<Rightarrow> sval" where
  "getIn_or v path d = (case getIn v path of None \<Rightarrow> d | Some w \<Rightarrow> w)"

text \<open>
  The recursion of \<^verbatim>\<open>updateIn\<close>: \<open>t\<close> is the value at the path so far, \<open>r\<close> what an absent value counts as, \<open>f\<close> the
  updater; \<open>None\<close> is \<^verbatim>\<open>NOT_SET\<close> in each of them. A value that the updater leaves as it is changes nothing.
\<close>

primrec updateIn :: "jsstr list \<Rightarrow> sval option \<Rightarrow> sval option \<Rightarrow> (sval option \<Rightarrow> jserr + sval option) \<Rightarrow> jserr + sval option" where
  "updateIn [] t r f =
     (let u = (case t of None \<Rightarrow> r | Some v \<Rightarrow> Some v)
      in rbind (f u) (\<lambda>s. Inr (if s = u then t else s)))"
| "updateIn (k # ks) t r f =
     (if \<not> (case t of None \<Rightarrow> True | Some v \<Rightarrow> has_set v) then Inl (PlainError ''invalid keyPath'')
      else
        let c = Option.bind t (\<lambda>v. iget v k); base = (case t of None \<Rightarrow> SMap [] | Some v \<Rightarrow> v)
        in rbind (updateIn ks c r f) (\<lambda>g.
             Inr (if g = c then t else case g of None \<Rightarrow> Some (iremove base k) | Some w \<Rightarrow> Some (iset base k w))))"

definition whole :: "jserr + sval option \<Rightarrow> jserr + sval" where
  "whole m = rbind m (\<lambda>t. Inr (case t of None \<Rightarrow> SUndef | Some v \<Rightarrow> v))"

definition setIn :: "sval \<Rightarrow> jsstr list \<Rightarrow> sval \<Rightarrow> jserr + sval" where
  "setIn v path w = whole (updateIn path (Some v) None (\<lambda>u. Inr (Some w)))"

definition deleteIn :: "sval \<Rightarrow> jsstr list \<Rightarrow> jserr + sval" where
  "deleteIn v path = whole (updateIn path (Some v) None (\<lambda>u. Inr None))"

text \<open>\<^verbatim>\<open>v.updateIn(path, d, f)\<close>.\<close>

definition updateIn_or :: "sval \<Rightarrow> jsstr list \<Rightarrow> sval \<Rightarrow> (sval \<Rightarrow> jserr + sval) \<Rightarrow> jserr + sval" where
  "updateIn_or v path d f =
     whole (updateIn path (Some v) (Some d) (\<lambda>u. rbind (f (case u of None \<Rightarrow> d | Some w \<Rightarrow> w)) (\<lambda>w. Inr (Some w))))"

section \<open>Paths\<close>

lemma map_of_prop_set [simp]: "map_of (prop_set ps k v) k' = (if k' = k then Some v else map_of ps k')"
  by (induction ps k v rule: prop_set.induct) auto

lemma map_of_prop_delete [simp]: "map_of (prop_delete ps k) k' = (if k' = k then None else map_of ps k')"
  by (induction ps) (auto simp: prop_delete_def)

text \<open>The values on the way to the end of a path are maps, as far as there are any.\<close>

primrec map_path :: "jsstr list \<Rightarrow> sval \<Rightarrow> bool" where
  "map_path [] v = True"
| "map_path (k # ks) v =
     (case v of SMap ps \<Rightarrow> (case map_of ps k of None \<Rightarrow> True | Some w \<Rightarrow> map_path ks w) | _ \<Rightarrow> False)"

text \<open>What the plugins rely on when they keep values under paths.\<close>

locale path_store =
  fixes getp :: "'s \<Rightarrow> 'k list \<Rightarrow> 'v option"
    and setp :: "'s \<Rightarrow> 'k list \<Rightarrow> 'v \<Rightarrow> 'e + 's"
    and okp :: "'k list \<Rightarrow> 's \<Rightarrow> bool"
  assumes set_ok: "okp p s \<Longrightarrow> \<exists>s'. setp s p v = Inr s'"
    and get_set: "okp p s \<Longrightarrow> setp s p v = Inr s' \<Longrightarrow> getp s' p = Some v"
    and get_other: "okp p s \<Longrightarrow> setp s p v = Inr s' \<Longrightarrow> \<not> prefix p q \<Longrightarrow> \<not> prefix q p \<Longrightarrow> getp s' q = getp s q"
    and ok_set: "okp p s \<Longrightarrow> okp q s \<Longrightarrow> setp s p v = Inr s' \<Longrightarrow> \<not> strict_prefix p q \<Longrightarrow> okp q s'"
begin

lemma write_read:
  assumes "okp p s"
  shows "\<exists>s'. setp s p v = Inr s' \<and> getp s' p = Some v
    \<and> (\<forall>q. \<not> prefix p q \<longrightarrow> \<not> prefix q p \<longrightarrow> getp s' q = getp s q)"
  using set_ok [OF assms] get_set [OF assms] get_other [OF assms] by blast

lemma two_writes:
  assumes "okp p s" "okp q s" "\<not> prefix p q" "\<not> prefix q p"
  shows "\<exists>s' s''. setp s p v = Inr s' \<and> setp s' q w = Inr s'' \<and> getp s'' p = Some v \<and> getp s'' q = Some w"
proof -
  obtain s' where s': "setp s p v = Inr s'" using set_ok [OF assms(1)] by blast
  then have q: "okp q s'" using ok_set [OF assms(1,2)] assms(3) by auto
  then obtain s'' where s'': "setp s' q w = Inr s''" using set_ok by blast
  then have "getp s'' p = getp s' p" using get_other [OF q] assms(3,4) by blast
  then show ?thesis using s' s'' get_set [OF assms(1) s'] get_set [OF q s''] by auto
qed

end

text \<open>\<^verbatim>\<open>setIn\<close> along maps: it succeeds, the value is found at the path, the rest stays.\<close>

lemma updateIn_maps:
  assumes "\<forall>v. t = Some v \<longrightarrow> map_path path v"
  shows "\<exists>w'. updateIn path t None (\<lambda>u. Inr (Some w)) = Inr (Some w') \<and> getIn w' path = Some w
    \<and> (\<forall>q. \<not> prefix path q \<longrightarrow> \<not> prefix q path \<longrightarrow> getIn w' q = Option.bind t (\<lambda>v. getIn v q))
    \<and> (\<forall>q. \<not> strict_prefix path q \<longrightarrow> (\<forall>v. t = Some v \<longrightarrow> map_path q v) \<longrightarrow> map_path q w')"
  using assms
proof (induction path arbitrary: t)
  case Nil
  have "map_path q w" if "\<not> strict_prefix [] q" for q using that by (cases q) auto
  then show ?case by (cases t) (auto simp: Let_def)
next
  case (Cons k ks)
  let ?c = "Option.bind t (\<lambda>v. iget v k)"
  obtain ps where t: "t = None \<and> ps = [] \<or> t = Some (SMap ps)"
    using Cons.prems by (cases t) (auto split: sval.splits)
  have ps: "(case t of None \<Rightarrow> SMap [] | Some v \<Rightarrow> v) = SMap ps" "?c = map_of ps k" using t by auto
  have get: "Option.bind t (\<lambda>v. getIn v q) = getIn (SMap ps) q" if "q \<noteq> []" for q using t that by (cases q) auto
  have sub: "\<forall>v. ?c = Some v \<longrightarrow> map_path ks v" using Cons.prems t by auto
  then obtain w' where w': "updateIn ks ?c None (\<lambda>u. Inr (Some w)) = Inr (Some w')" "getIn w' ks = Some w"
    "\<And>q. \<not> prefix ks q \<Longrightarrow> \<not> prefix q ks \<Longrightarrow> getIn w' q = Option.bind ?c (\<lambda>v. getIn v q)"
    "\<And>q. \<not> strict_prefix ks q \<Longrightarrow> (\<forall>v. ?c = Some v \<longrightarrow> map_path q v) \<Longrightarrow> map_path q w'"
    using Cons.IH [OF sub] by blast
  have set: "(case t of None \<Rightarrow> True | Some v \<Rightarrow> has_set v)" using t by auto
  let ?n = "SMap (prop_set ps k w')"
  have same: "prop_set ps k w' = ps" if "map_of ps k = Some w'"
    using that by (induction ps k w' rule: prop_set.induct) (auto split: if_splits)
  have u: "updateIn (k # ks) t None (\<lambda>u. Inr (Some w)) = Inr (Some ?n)"
  proof (cases "Some w' = ?c")
    case True
    then have "t = Some (SMap ps)" using t ps(2) by auto
    then show ?thesis using True w'(1) set same ps(2) by (auto simp: Let_def)
  next
    case False
    then show ?thesis using w'(1) set ps(1) by (auto simp: Let_def)
  qed
  have g: "getIn ?n q = Option.bind t (\<lambda>v. getIn v q)" if q: "\<not> prefix (k # ks) q" "\<not> prefix q (k # ks)" for q
  proof (cases q)
    case (Cons j js)
    with q w'(3) [of js] ps(2) get [of q] show ?thesis by auto
  qed (use q in simp)
  have m: "map_path q ?n" if "\<not> strict_prefix (k # ks) q" "\<forall>v. t = Some v \<longrightarrow> map_path q v" for q
  proof (cases q)
    case (Cons j js)
    with that(2) t have "\<forall>v. map_of ps j = Some v \<longrightarrow> map_path js v" by auto
    with that(1) Cons w'(4) [of js] ps(2) show ?thesis by (auto split: option.splits)
  qed simp
  from u w'(2) g m show ?case by auto
qed

interpretation immutable: path_store getIn setIn map_path
proof
  fix p s v s' q
  assume ok: "map_path p s"
  obtain w' where w': "updateIn p (Some s) None (\<lambda>u. Inr (Some v)) = Inr (Some w')" "getIn w' p = Some v"
    "\<And>q. \<not> prefix p q \<Longrightarrow> \<not> prefix q p \<Longrightarrow> getIn w' q = getIn s q"
    "\<And>q. \<not> strict_prefix p q \<Longrightarrow> map_path q s \<Longrightarrow> map_path q w'"
    using updateIn_maps [of "Some s" p v] ok by auto
  then have e: "setIn s p v = Inr w'" by (simp add: setIn_def whole_def)
  then show "\<exists>s'. setIn s p v = Inr s'" by blast
  assume "setIn s p v = Inr s'"
  with e have s': "s' = w'" by simp
  with w' show "getIn s' p = Some v" by simp
  show "\<not> prefix p q \<Longrightarrow> \<not> prefix q p \<Longrightarrow> getIn s' q = getIn s q" using w'(3) s' by simp
  show "map_path q s \<Longrightarrow> \<not> strict_prefix p q \<Longrightarrow> map_path q s'" using w'(4) s' by simp
qed

lemma of_char_16_inject: "(of_char c :: 16 word) = of_char d \<longleftrightarrow> c = d"
proof
  assume "(of_char c :: 16 word) = of_char d"
  then have "(of_nat (of_char c) :: 16 word) = of_nat (of_char d)" by (simp only: of_nat_of_char)
  moreover have "take_bit 16 (of_char c :: nat) = of_char c" for c
    by (rule take_bit_nat_eq_self) (rule less_trans [OF nat_of_char_less_256], simp)
  ultimately have "(of_char c :: nat) = of_char d" by (simp add: word_of_nat_eq_iff)
  then show "c = d" by simp
qed simp

lemma js_inject [simp]: "js s = js t \<longleftrightarrow> s = t"
  by (auto simp: js_def inj_map_eq_map inj_def of_char_16_inject)

end
