(* ===== verification/SwaggerUtils.thy ===== *)
theory SwaggerUtils
  imports SwaggerValue
begin

text \<open>
  The utilities of Swagger UI (module 8 of \<^verbatim>\<open>swagger-ui.js\<close>): conversions between plain and immutable values, the
  validation of parameters, query strings, the responses and extensions of an operation. Regular expressions of a
  description, \<^verbatim>\<open>JSON.parse\<close>, \<^verbatim>\<open>Date.parse\<close> and how an object is converted to a string are functions of the host.
\<close>

section \<open>Conversions\<close>

definition isImmutable :: "sval \<Rightarrow> bool" where
  "isImmutable v = (case v of SList xs \<Rightarrow> True | SMap ps \<Rightarrow> True | SSet xs \<Rightarrow> True | _ \<Rightarrow> False)"

definition ui_isObject :: "sval \<Rightarrow> bool" where
  "ui_isObject v = (truthy v \<and> typeof_object v)"

text \<open>The entries of a plain object in the order of its keys.\<close>

definition own_entries :: "fields \<Rightarrow> fields" where
  "own_entries ps = map (\<lambda>k. (k, field ps k)) (objectKeys ps)"

text \<open>\<^verbatim>\<open>toJS\<close> of Immutable and \<^verbatim>\<open>fromJS\<close>, which leaves what is immutable as it is.\<close>

primrec toJS :: "sval \<Rightarrow> sval" where
  "toJS SUndef = SUndef"
| "toJS SNull = SNull"
| "toJS (SBool b) = SBool b"
| "toJS (SNum x) = SNum x"
| "toJS (SStr s) = SStr s"
| "toJS (SArr xs) = SArr xs"
| "toJS (SObj ps) = SObj ps"
| "toJS (SList xs) = SArr (map toJS xs)"
| "toJS (SMap ps) = SObj (map (map_prod id toJS) ps)"
| "toJS (SSet xs) = SArr (map toJS xs)"
| "toJS (SFile n) = SFile n"

primrec fromJS :: "sval \<Rightarrow> sval" where
  "fromJS SUndef = SUndef"
| "fromJS SNull = SNull"
| "fromJS (SBool b) = SBool b"
| "fromJS (SNum x) = SNum x"
| "fromJS (SStr s) = SStr s"
| "fromJS (SArr xs) = SList (map fromJS xs)"
| "fromJS (SObj ps) = SMap (own_entries (map (map_prod id fromJS) ps))"
| "fromJS (SList xs) = SList xs"
| "fromJS (SMap ps) = SMap ps"
| "fromJS (SSet xs) = SSet xs"
| "fromJS (SFile n) = SFile n"

text \<open>\<^verbatim>\<open>fromJSOrdered\<close> makes ordered maps, and keeps immutable values and files.\<close>

primrec fromJSOrdered :: "sval \<Rightarrow> sval" where
  "fromJSOrdered SUndef = SUndef"
| "fromJSOrdered SNull = SNull"
| "fromJSOrdered (SBool b) = SBool b"
| "fromJSOrdered (SNum x) = SNum x"
| "fromJSOrdered (SStr s) = SStr s"
| "fromJSOrdered (SArr xs) = SList (map fromJSOrdered xs)"
| "fromJSOrdered (SObj ps) = SMap (own_entries (map (map_prod id fromJSOrdered) ps))"
| "fromJSOrdered (SList xs) = SList xs"
| "fromJSOrdered (SMap ps) = SMap ps"
| "fromJSOrdered (SSet xs) = SSet xs"
| "fromJSOrdered (SFile n) = SFile n"

definition objectify :: "sval \<Rightarrow> sval" where
  "objectify thing =
     (if \<not> ui_isObject thing then SObj [] else if isImmutable thing then toJS thing else thing)"

definition normalizeArray :: "sval \<Rightarrow> sval list" where
  "normalizeArray arr = (case arr of SArr xs \<Rightarrow> xs | v \<Rightarrow> [v])"

text \<open>\<^verbatim>\<open>arrayify\<close>: every immutable collection has \<^verbatim>\<open>toArray\<close>.\<close>

definition arrayify :: "sval \<Rightarrow> sval list" where
  "arrayify thing =
     (if \<not> truthy thing then []
      else case thing of SList xs \<Rightarrow> xs | SSet xs \<Rightarrow> xs | SMap ps \<Rightarrow> map snd ps | v \<Rightarrow> normalizeArray v)"

definition objMap :: "fields \<Rightarrow> (sval \<Rightarrow> jsstr \<Rightarrow> sval) \<Rightarrow> fields" where
  "objMap obj f = fold (\<lambda>key newObj. assign newObj key (f (field obj key) key)) (objectKeys obj) []"

text \<open>The properties of each plain object that the function returns are copied; other results are dropped.\<close>

definition copy_fields :: "fields \<Rightarrow> fields \<Rightarrow> fields" where
  "copy_fields target source = fold (\<lambda>k t. assign t k (field source k)) (objectKeys source) target"

definition objReduce :: "fields \<Rightarrow> (sval \<Rightarrow> jsstr \<Rightarrow> sval) \<Rightarrow> fields" where
  "objReduce obj f =
     fold (\<lambda>key newObj. case f (field obj key) key of SObj res \<Rightarrow> copy_fields newObj res | _ \<Rightarrow> newObj) (objectKeys obj) []"

definition numberToString :: "sval \<Rightarrow> sval" where
  "numberToString thing = (case thing of SNum x \<Rightarrow> SStr (num_toString x) | v \<Rightarrow> v)"

section \<open>Lists and maps\<close>

definition getList :: "sval \<Rightarrow> jsstr list \<Rightarrow> sval list" where
  "getList iterable keys =
     (if \<not> isImmutable iterable then []
      else case getIn iterable keys of Some (SList xs) \<Rightarrow> xs | _ \<Rightarrow> [])"

text \<open>\<^verbatim>\<open>map.merge(other)\<close> for maps.\<close>

definition merge_fields :: "fields \<Rightarrow> fields \<Rightarrow> fields" where
  "merge_fields ps qs = fold (\<lambda>k m. prop_set m k (field qs k)) (map fst qs) ps"

primrec mapToList :: "jsstr list \<Rightarrow> sval \<Rightarrow> fields \<Rightarrow> sval" where
  "mapToList [] m collectedKeys =
     (case m of SMap (p # ps) \<Rightarrow> SMap (merge_fields (p # ps) collectedKeys) | _ \<Rightarrow> SList [])"
| "mapToList (keyName # keyNames) m collectedKeys =
     (case m of
        SMap (p # ps) \<Rightarrow>
          SList (concat (map
            (\<lambda>(key, val).
               case mapToList keyNames val (prop_set collectedKeys keyName (SStr key)) of
                 SList xs \<Rightarrow> xs
               | v \<Rightarrow> [v]) (p # ps)))
      | _ \<Rightarrow> SList [])"

text \<open>The code of the response that is shown first; \<^verbatim>\<open>sort()\<close> compares strings.\<close>

primrec str_less :: "jsstr \<Rightarrow> jsstr \<Rightarrow> bool" where
  "str_less [] t = (t \<noteq> [])"
| "str_less (c # s) t = (case t of [] \<Rightarrow> False | d # t' \<Rightarrow> c < d \<or> c = d \<and> str_less s t')"

definition str_min :: "jsstr list \<Rightarrow> jsstr option" where
  "str_min ks = (case ks of [] \<Rightarrow> None | k # ks \<Rightarrow> Some (fold (\<lambda>k m. if str_less k m then k else m) ks k))"

definition defaultStatusCode :: "fields \<Rightarrow> jsstr option" where
  "defaultStatusCode responses =
     (let codes = map fst responses
      in if js ''default'' \<in> set codes then Some (js ''default'')
         else str_min (filter (\<lambda>key. key \<noteq> [] \<and> hd key = 50) codes))"

text \<open>
  \<^verbatim>\<open>getAcceptControllingResponse\<close>. \<^verbatim>\<open>Object.keys\<close> of an immutable collection lists its internal fields, of
  which there always are some.
\<close>

definition object_has_keys :: "sval \<Rightarrow> bool" where
  "object_has_keys v = (case v of SObj ps \<Rightarrow> ps \<noteq> [] | SArr xs \<Rightarrow> xs \<noteq> [] | SStr s \<Rightarrow> s \<noteq> [] | v \<Rightarrow> isImmutable v)"

definition mget :: "sval \<Rightarrow> jsstr \<Rightarrow> jserr + sval" where
  "mget v k =
     (if isImmutable v then Inr (case iget v k of None \<Rightarrow> SUndef | Some w \<Rightarrow> w)
      else Inl (TypeError ''get is not a function''))"

primrec suitable2xxResponse :: "fields \<Rightarrow> jserr + sval option" where
  "suitable2xxResponse [] = Inr None"
| "suitable2xxResponse (e # es) =
     (case e of (k, res) \<Rightarrow>
        if k \<noteq> [] \<and> hd k = 50 then
          rbind (mget res (js ''content'')) (\<lambda>c.
            if object_has_keys (or_val c (SObj [])) then Inr (Some res) else suitable2xxResponse es)
        else suitable2xxResponse es)"

definition getAcceptControllingResponse :: "sval \<Rightarrow> jserr + sval" where
  "getAcceptControllingResponse responses =
     (case responses of
        SMap (p # ps) \<Rightarrow>
          rbind (suitable2xxResponse (p # ps)) (\<lambda>suitable.
            let defaultResponse = or_val (field (p # ps) (js ''default'')) (SMap [])
            in rbind (mget defaultResponse (js ''content'')) (\<lambda>content.
                 case or_val content (SMap []) of
                   SMap types \<Rightarrow>
                     Inr (case suitable of
                            Some r \<Rightarrow> r
                          | None \<Rightarrow> if types \<noteq> [] then defaultResponse else SNull)
                 | _ \<Rightarrow> Inl (TypeError ''keySeq is not a function'')))
      | _ \<Rightarrow> Inr SNull)"

section \<open>Extensions and links\<close>

definition starts_with :: "'a list \<Rightarrow> 'a list \<Rightarrow> bool" where
  "starts_with p s = (take (length p) s = p)"

fun contains_text :: "'a list \<Rightarrow> 'a list \<Rightarrow> bool" where
  "contains_text p [] = (p = [])"
| "contains_text p (c # s) = (starts_with p (c # s) \<or> contains_text p s)"

definition getExtensions :: "fields \<Rightarrow> fields" where
  "getExtensions defObj = filter (\<lambda>(k, v). starts_with (js ''x-'') k) defObj"

text \<open>\<^verbatim>\<open>/^pattern|maxLength|minLength|maximum|minimum/\<close>: only the first alternative is anchored.\<close>

definition common_extension :: "jsstr \<Rightarrow> bool" where
  "common_extension k \<longleftrightarrow> starts_with (js ''pattern'') k
     \<or> list_ex (\<lambda>w. contains_text w k) [js ''maxLength'', js ''minLength'', js ''maximum'', js ''minimum'']"

definition getCommonExtensions :: "fields \<Rightarrow> fields" where
  "getCommonExtensions defObj = filter (\<lambda>(k, v). common_extension k) defObj"

definition createDeepLinkPath :: "sval \<Rightarrow> jsstr" where
  "createDeepLinkPath str = (case str of SStr s \<Rightarrow> map (\<lambda>c. if is_space c then 95 else c) (trim s) | _ \<Rightarrow> [])"

text \<open>\<^verbatim>\<open>shallowEqualKeys\<close> of the same two objects: \<^verbatim>\<open>find\<close> returns a key on which they agree.\<close>

definition shallowEqualKeys :: "fields \<Rightarrow> fields \<Rightarrow> jsstr list \<Rightarrow> bool" where
  "shallowEqualKeys a b keys =
     (case find (\<lambda>key. strict_eq (field a key) (field b key) \<or> field a key = SNum NaN \<and> field b key = SNum NaN) keys of
        None \<Rightarrow> False
      | Some key \<Rightarrow> key \<noteq> [])"

text \<open>
  \<^verbatim>\<open>deeplyStripKey\<close> of a plain value: an array is returned as it is, an object is copied without the key, at every
  depth. Copying drops an own property \<^verbatim>\<open>__proto__\<close>.
\<close>

function deeplyStripKey :: "jsstr \<Rightarrow> (sval \<Rightarrow> bool) \<Rightarrow> sval \<Rightarrow> sval" where
  "deeplyStripKey keyToStrip p input =
     (case input of
        SObj ps \<Rightarrow>
          (if keyToStrip = [] then input
           else SObj (map (\<lambda>(k, v). (k, deeplyStripKey keyToStrip p v))
             (filter (\<lambda>(k, v). k \<noteq> js ''__proto__'' \<and> \<not> (k = keyToStrip \<and> p v)) ps)))
      | v \<Rightarrow> v)"
  by auto
termination
proof (relation "measure (\<lambda>(k, p, v). size v)")
  fix keyToStrip p input ps z k v
  assume "input = SObj ps" "z \<in> set (filter (\<lambda>(k, v). k \<noteq> js ''__proto__'' \<and> \<not> (k = keyToStrip \<and> p v)) ps)" "(k, v) = z"
  then have "(k, v) \<in> set ps" by auto
  then have "size v < Suc (size_list (size_prod (\<lambda>_. 0) size) ps)"
    by (induction ps) auto
  then show "((keyToStrip, p, v), (keyToStrip, p, input)) \<in> measure (\<lambda>(k, p, v). size v)"
    using \<open>input = SObj ps\<close> by simp
qed simp

declare deeplyStripKey.simps [simp del]

section \<open>Validation of parameters\<close>

text \<open>
  What the validators use of the host: \<^verbatim>\<open>new RegExp(p).test(s)\<close>, which throws if \<open>p\<close> is not a pattern, whether
  \<^verbatim>\<open>JSON.parse\<close> and \<^verbatim>\<open>Date.parse\<close> accept a value, and the string of an object.
\<close>

record host =
  h_regexp :: "jsstr \<Rightarrow> jsstr \<Rightarrow> jserr + bool"
  h_json_ok :: "jsstr \<Rightarrow> bool"
  h_date_ok :: "sval \<Rightarrow> bool"
  h_string :: "sval \<Rightarrow> jsstr"

text \<open>A host whose functions accept everything, for examples.\<close>

definition plain_host :: host where
  "plain_host = \<lparr> h_regexp = (\<lambda>p s. Inr True), h_json_ok = (\<lambda>s. True), h_date_ok = (\<lambda>v. True), h_string = (\<lambda>v. js ''[object Object]'') \<rparr>"

definition str_of :: "host \<Rightarrow> sval \<Rightarrow> jsstr" where
  "str_of H v =
     (case v of
        SUndef \<Rightarrow> js ''undefined''
      | SNull \<Rightarrow> js ''null''
      | SBool b \<Rightarrow> if b then js ''true'' else js ''false''
      | SNum x \<Rightarrow> num_toString x
      | SStr s \<Rightarrow> s
      | v \<Rightarrow> h_string H v)"

text \<open>The number that a string spells: empty is 0, and everything but a numeral is \<^verbatim>\<open>NaN\<close>.\<close>

definition re_digits :: regex where
  "re_digits = re_plus (RClass is_digit)"

definition re_decimal :: regex where
  "re_decimal = RSeq
     (RAlt (RSeq re_digits (re_opt (RSeq (re_char 46) (RStar (RClass is_digit))))) (RSeq (re_char 46) re_digits))
     (re_opt (re_seq [re_set [101, 69], re_opt (re_set [43, 45]), re_digits]))"

definition str_number :: "jsstr \<Rightarrow> jsnum" where
  "str_number s =
     (let t = trim s;
          sign = (if t \<noteq> [] \<and> hd t = 45 then -1 else 1);
          u = (if t \<noteq> [] \<and> (hd t = 45 \<or> hd t = 43) then tl t else t);
          radix = (if length t > 2 \<and> t ! 0 = 48 then
                     if t ! 1 = 120 \<or> t ! 1 = 88 then 16 else if t ! 1 = 111 \<or> t ! 1 = 79 then 8
                     else if t ! 1 = 98 \<or> t ! 1 = 66 then 2 else 0 else 0)
      in if t = [] then IntN 0
         else if radix > 0 \<and> list_all (\<lambda>c. digit_value c < radix) (drop 2 t) then IntN (digits_value radix (drop 2 t))
         else if u = js ''Infinity'' then num_sign sign PosInf
         else if re_test re_decimal u then num_sign sign (parseFloat u)
         else NaN)"

definition num_of :: "host \<Rightarrow> sval \<Rightarrow> jsnum" where
  "num_of H v =
     (case v of
        SUndef \<Rightarrow> NaN
      | SNull \<Rightarrow> IntN 0
      | SBool b \<Rightarrow> IntN (if b then 1 else 0)
      | SNum x \<Rightarrow> x
      | v \<Rightarrow> str_number (str_of H v))"

definition jsnum_less :: "jsnum \<Rightarrow> jsnum \<Rightarrow> bool" where
  "jsnum_less x y =
     (if x = NaN \<or> y = NaN then False
      else if x = PosInf \<or> y = NegInf then False
      else if x = NegInf \<or> y = PosInf then True
      else let k = max (num_scale x) (num_scale y) in num_scaled k x < num_scaled k y)"

text \<open>\<^verbatim>\<open>a < b\<close>: strings are compared by their characters, everything else as numbers.\<close>

definition is_text :: "sval \<Rightarrow> bool" where
  "is_text v = (case v of SStr s \<Rightarrow> True | SUndef \<Rightarrow> False | SNull \<Rightarrow> False | SBool b \<Rightarrow> False | SNum x \<Rightarrow> False | v \<Rightarrow> True)"

definition js_less :: "host \<Rightarrow> sval \<Rightarrow> sval \<Rightarrow> bool" where
  "js_less H a b =
     (if is_text a \<and> is_text b then str_less (str_of H a) (str_of H b) else jsnum_less (num_of H a) (num_of H b))"

definition err_if :: "bool \<Rightarrow> string \<Rightarrow> jsstr list" where
  "err_if c message = (if c then [js message] else [])"

definition validateMaximum :: "host \<Rightarrow> sval \<Rightarrow> sval \<Rightarrow> jsstr list" where
  "validateMaximum H val maximum = err_if (js_less H maximum val) ''Value must be less than Maximum''"

definition validateMinimum :: "host \<Rightarrow> sval \<Rightarrow> sval \<Rightarrow> jsstr list" where
  "validateMinimum H val minimum = err_if (js_less H val minimum) ''Value must be greater than Minimum''"

definition re_number :: regex where
  "re_number = re_seq [re_opt (re_char 45), re_digits, re_opt (RSeq (re_opt (re_char 46)) re_digits)]"

definition re_integer :: regex where
  "re_integer = RSeq (re_opt (re_char 45)) re_digits"

definition validateNumber :: "host \<Rightarrow> sval \<Rightarrow> jsstr list" where
  "validateNumber H val = err_if (\<not> re_test re_number (str_of H val)) ''Value must be a number''"

definition validateInteger :: "host \<Rightarrow> sval \<Rightarrow> jsstr list" where
  "validateInteger H val = err_if (\<not> re_test re_integer (str_of H val)) ''Value must be an integer''"

definition is_file :: "sval \<Rightarrow> bool" where
  "is_file v = (case v of SFile n \<Rightarrow> True | _ \<Rightarrow> False)"

definition validateFile :: "sval \<Rightarrow> jsstr list" where
  "validateFile val = err_if (truthy val \<and> \<not> is_file val) ''Value must be a file''"

definition validateBoolean :: "sval \<Rightarrow> jsstr list" where
  "validateBoolean val =
     err_if (val \<notin> {SStr (js ''true''), SStr (js ''false''), SBool True, SBool False}) ''Value must be a boolean''"

definition is_string :: "sval \<Rightarrow> bool" where
  "is_string v = (case v of SStr s \<Rightarrow> True | _ \<Rightarrow> False)"

definition validateString :: "sval \<Rightarrow> jsstr list" where
  "validateString val = err_if (truthy val \<and> \<not> is_string val) ''Value must be a string''"

definition validateDateTime :: "host \<Rightarrow> sval \<Rightarrow> jsstr list" where
  "validateDateTime H val = err_if (\<not> h_date_ok H val) ''Value must be a DateTime''"

text \<open>The only letters whose lower case form is a digit of a GUID are those of ASCII.\<close>

definition re_hex :: "nat \<Rightarrow> regex" where
  "re_hex n = re_seq (replicate n (RClass (\<lambda>c. 48 \<le> c \<and> c \<le> 57 \<or> 97 \<le> c \<and> c \<le> 102)))"

definition re_guid :: regex where
  "re_guid = re_seq [re_opt (re_set [123, 40]), re_hex 8, re_char 45, re_hex 4, re_char 45, re_hex 4, re_char 45,
     re_hex 4, re_char 45, re_hex 12, re_opt (re_set [41, 125])]"

definition validateGuid :: "host \<Rightarrow> sval \<Rightarrow> jserr + jsstr list" where
  "validateGuid H val =
     (if val = SUndef \<or> val = SNull then Inl (TypeError ''toString of undefined or null'')
      else Inr (err_if (\<not> re_test re_guid (map lower_char (str_of H val))) ''Value must be a Guid''))"

text \<open>\<^verbatim>\<open>val.length\<close>.\<close>

definition length_of :: "sval \<Rightarrow> jserr + sval" where
  "length_of val =
     (case val of
        SUndef \<Rightarrow> Inl (TypeError ''length of undefined'')
      | SNull \<Rightarrow> Inl (TypeError ''length of null'')
      | SStr s \<Rightarrow> Inr (SNum (IntN (int (length s))))
      | SArr xs \<Rightarrow> Inr (SNum (IntN (int (length xs))))
      | SObj ps \<Rightarrow> Inr (field ps (js ''length''))
      | _ \<Rightarrow> Inr SUndef)"

definition validateMaxLength :: "host \<Rightarrow> sval \<Rightarrow> sval \<Rightarrow> jserr + jsstr list" where
  "validateMaxLength H val maxLength =
     rbind (length_of val) (\<lambda>l. Inr (err_if (js_less H maxLength l) ''Value must be less than MaxLength''))"

definition validateMinLength :: "host \<Rightarrow> sval \<Rightarrow> sval \<Rightarrow> jserr + jsstr list" where
  "validateMinLength H val minLength =
     rbind (length_of val) (\<lambda>l. Inr (err_if (js_less H l minLength) ''Value must be greater than MinLength''))"

definition validatePattern :: "host \<Rightarrow> sval \<Rightarrow> sval \<Rightarrow> jserr + jsstr list" where
  "validatePattern H val rxPattern =
     rbind (h_regexp H (str_of H rxPattern) (str_of H val)) (\<lambda>ok.
       Inr (if ok then [] else [js ''Value must follow pattern '' @ str_of H rxPattern]))"

text \<open>An entry of the list of errors: a message, or the message for an element of an array.\<close>

datatype param_error = Message jsstr | At nat jsstr

definition guarded :: "bool \<Rightarrow> jserr + jsstr list \<Rightarrow> jserr + jsstr list" where
  "guarded c m = (if c then m else Inr [])"

definition is_zero :: "sval \<Rightarrow> bool" where
  "is_zero v = strict_eq v (SNum (IntN 0))"

text \<open>The checks of length and range.\<close>

definition range_errors :: "host \<Rightarrow> sval \<Rightarrow> (jsstr \<Rightarrow> sval) \<Rightarrow> jserr + jsstr list" where
  "range_errors H value opt =
     rbind (guarded (truthy (opt (js ''pattern''))) (validatePattern H value (opt (js ''pattern'')))) (\<lambda>e1.
     rbind (guarded (truthy (opt (js ''maxLength'')) \<or> is_zero (opt (js ''maxLength'')))
              (validateMaxLength H value (opt (js ''maxLength'')))) (\<lambda>e2.
     rbind (guarded (truthy (opt (js ''minLength''))) (validateMinLength H value (opt (js ''minLength'')))) (\<lambda>e3.
     rbind (guarded (truthy (opt (js ''maximum'')) \<or> is_zero (opt (js ''maximum'')))
              (Inr (validateMaximum H value (opt (js ''maximum''))))) (\<lambda>e4.
     rbind (guarded (truthy (opt (js ''minimum'')) \<or> is_zero (opt (js ''minimum'')))
              (Inr (validateMinimum H value (opt (js ''minimum''))))) (\<lambda>e5.
       Inr (e1 @ e2 @ e3 @ e4 @ e5))))))"

definition item_errors :: "host \<Rightarrow> sval \<Rightarrow> sval \<Rightarrow> jsstr list" where
  "item_errors H itemType item =
     (if itemType = SStr (js ''number'') then validateNumber H item
      else if itemType = SStr (js ''integer'') then validateInteger H item
      else if itemType = SStr (js ''string'') then validateString item
      else [])"

text \<open>The checks of the type.\<close>

definition type_errors :: "host \<Rightarrow> sval \<Rightarrow> sval \<Rightarrow> sval \<Rightarrow> sval \<Rightarrow> jserr + param_error list" where
  "type_errors H type format itemType value =
     (if type = SStr (js ''string'') then
        rbind (if format = SStr (js ''date-time'') then Inr (validateDateTime H value)
               else if format = SStr (js ''uuid'') then validateGuid H value
               else Inr (validateString value)) (\<lambda>es. Inr (map Message es))
      else if type = SStr (js ''boolean'') then Inr (map Message (validateBoolean value))
      else if type = SStr (js ''number'') then Inr (map Message (validateNumber H value))
      else if type = SStr (js ''integer'') then Inr (map Message (validateInteger H value))
      else if type = SStr (js ''array'') then
        (case value of
           SList xs \<Rightarrow> Inr (concat (map (\<lambda>(i, x). map (At i) (item_errors H itemType x)) (zip [0..<length xs] xs)))
         | _ \<Rightarrow> Inr [])
      else if type = SStr (js ''file'') then Inr (map Message (validateFile value))
      else Inr [])"

text \<open>Whether there is a value of the type; \<open>None\<close> when a string in the place of an object is not JSON.\<close>

definition passed_any_check :: "host \<Rightarrow> bool \<Rightarrow> sval \<Rightarrow> sval \<Rightarrow> bool option" where
  "passed_any_check H isOAS3 type value =
     (let objectType = (isOAS3 \<and> type = SStr (js ''object''));
          basic = (type = SStr (js ''string'') \<and> truthy value
            \<or> type = SStr (js ''array'') \<and> (case value of SArr xs \<Rightarrow> xs \<noteq> [] | SList xs \<Rightarrow> xs \<noteq> [] | _ \<Rightarrow> False)
            \<or> type = SStr (js ''file'') \<and> is_file value
            \<or> type = SStr (js ''boolean'') \<and> (truthy value \<or> value = SBool False)
            \<or> type = SStr (js ''number'') \<and> (truthy value \<or> is_zero value)
            \<or> type = SStr (js ''integer'') \<and> (truthy value \<or> is_zero value))
      in if objectType \<and> typeof_object value then Some True
         else case value of
                SStr s \<Rightarrow> if objectType then (if h_json_ok H s then Some True else None) else Some basic
              | _ \<Rightarrow> Some basic)"

definition validateParam :: "host \<Rightarrow> fields \<Rightarrow> bool \<Rightarrow> bool \<Rightarrow> jserr + param_error list" where
  "validateParam H param isXml isOAS3 =
     (let value = (if isXml \<and> field param (js ''in'') = SStr (js ''body'') then field param (js ''value_xml'')
                   else field param (js ''value''));
          required = field param (js ''required'');
          paramDetails = (if isOAS3 then field param (js ''schema'') else SMap param)
      in if \<not> truthy paramDetails then Inr []
         else if \<not> isImmutable paramDetails then Inl (TypeError ''get is not a function'')
         else
           let opt = (\<lambda>k. case iget paramDetails k of None \<Rightarrow> SUndef | Some v \<Rightarrow> v); type = opt (js ''type'')
           in if truthy type \<and> (truthy required \<or> truthy value) then
                case passed_any_check H isOAS3 type value of
                  None \<Rightarrow> Inr [Message (js ''Parameter string value must be valid JSON'')]
                | Some passed \<Rightarrow>
                    (if truthy required \<and> \<not> passed then Inr [Message (js ''Required field is not provided'')]
                     else
                       rbind (range_errors H value opt) (\<lambda>es.
                       rbind (type_errors H type (opt (js ''format''))
                                (getIn_or paramDetails [js ''items'', js ''type''] SUndef) value) (\<lambda>fs.
                         Inr (map Message es @ fs))))
              else Inr [])"

section \<open>Query strings\<close>

text \<open>
  \<^verbatim>\<open>encodeURIComponent\<close> and \<^verbatim>\<open>decodeURIComponent\<close> of the language: every character but the unreserved ones is
  written as the bytes of its UTF-8 form, each as a percent sign and two digits.
\<close>

definition uri_unreserved :: "int \<Rightarrow> bool" where
  "uri_unreserved c \<longleftrightarrow> 48 \<le> c \<and> c \<le> 57 \<or> 65 \<le> c \<and> c \<le> 90 \<or> 97 \<le> c \<and> c \<le> 122
     \<or> c \<in> {45, 95, 46, 33, 126, 42, 39, 40, 41}"

definition percent :: "int \<Rightarrow> jsstr" where
  "percent b = [37, upper_char (digit_char (b div 16)), upper_char (digit_char (b mod 16))]"

definition encode_scalar :: "int \<Rightarrow> jsstr" where
  "encode_scalar cp = (if uri_unreserved cp then [fromCharCode cp] else concat (map percent (utf8_of cp)))"

definition encodeURIComponent :: "jsstr \<Rightarrow> jserr + jsstr" where
  "encodeURIComponent s =
     (if well_formed s then Inr (concat (map encode_scalar (scalars s))) else Inl (PlainError ''URI malformed''))"

definition hex_pair :: "16 word \<Rightarrow> 16 word \<Rightarrow> int option" where
  "hex_pair a b =
     (if digit_value a < 16 \<and> digit_value b < 16 then Some (digit_value a * 16 + digit_value b) else None)"

text \<open>The continuation bytes of a character of several bytes: \<open>n\<close> of them, each as \<^verbatim>\<open>%XX\<close>.\<close>

primrec continuation :: "nat \<Rightarrow> int \<Rightarrow> jsstr \<Rightarrow> (int \<times> jsstr) option" where
  "continuation 0 v s = Some (v, s)"
| "continuation (Suc n) v s =
     (case s of
        p # a # b # t \<Rightarrow>
          (case hex_pair a b of
             Some x \<Rightarrow> if p = 37 \<and> 128 \<le> x \<and> x < 192 then continuation n (v * 64 + (x - 128)) t else None
           | None \<Rightarrow> None)
      | _ \<Rightarrow> None)"

text \<open>The number of continuation bytes, the bits of the first byte and the least code point, by the first byte.\<close>

definition lead_byte :: "int \<Rightarrow> (nat \<times> int \<times> int) option" where
  "lead_byte b =
     (if b < 128 then Some (0, b, 0)
      else if 192 \<le> b \<and> b < 224 then Some (1, b - 192, 128)
      else if 224 \<le> b \<and> b < 240 then Some (2, b - 224, 2048)
      else if 240 \<le> b \<and> b < 248 then Some (3, b - 240, 65536)
      else None)"

definition decode_escape :: "jsstr \<Rightarrow> (int \<times> jsstr) option" where
  "decode_escape s =
     (case s of
        a # b # t \<Rightarrow>
          Option.bind (hex_pair a b) (\<lambda>x. Option.bind (lead_byte x) (\<lambda>(n, v, least).
            Option.bind (continuation n v t) (\<lambda>(cp, t). if least \<le> cp \<and> is_scalar cp then Some (cp, t) else None)))
      | _ \<Rightarrow> None)"

lemma continuation_shorter: "continuation n v s = Some (w, t) \<Longrightarrow> length t \<le> length s"
  by (induction n arbitrary: v s) (fastforce split: list.splits option.splits if_splits)+

lemma decode_escape_shorter: "decode_escape s = Some (cp, t) \<Longrightarrow> length t < length s"
  by (auto simp: decode_escape_def bind_eq_Some_conv split: list.splits if_splits dest!: continuation_shorter)

function decodeURIComponent :: "jsstr \<Rightarrow> jserr + jsstr" where
  "decodeURIComponent s =
     (case s of
        [] \<Rightarrow> Inr []
      | c # s \<Rightarrow>
          (if c \<noteq> 37 then rbind (decodeURIComponent s) (\<lambda>r. Inr (c # r))
           else case decode_escape s of
                  None \<Rightarrow> Inl (PlainError ''URI malformed'')
                | Some (cp, t) \<Rightarrow> rbind (decodeURIComponent t) (\<lambda>r. Inr (map fromCharCode (utf16_of cp) @ r))))"
  by auto
termination
  by (relation "measure length") (auto dest: decode_escape_shorter)

declare decodeURIComponent.simps [simp del]

fun split_at :: "16 word \<Rightarrow> jsstr \<Rightarrow> jsstr list" where
  "split_at d [] = [[]]"
| "split_at d (c # s) =
     (if c = d then [] # split_at d s
      else case split_at d s of [] \<Rightarrow> [[c]] | p # ps \<Rightarrow> (c # p) # ps)"

text \<open>\<^verbatim>\<open>parseSearch\<close>, given the search string of the window.\<close>

definition parse_pair :: "jsstr \<Rightarrow> jserr + (jsstr \<times> jsstr)" where
  "parse_pair param =
     (let i = split_at 61 param
      in rbind (decodeURIComponent (hd i)) (\<lambda>k.
         rbind (if length i > 1 \<and> i ! 1 \<noteq> [] then decodeURIComponent (i ! 1) else Inr []) (\<lambda>v. Inr (k, v))))"

primrec parse_pairs :: "jsstr list \<Rightarrow> (jsstr \<times> jsstr) list \<Rightarrow> jserr + (jsstr \<times> jsstr) list" where
  "parse_pairs [] m = Inr m"
| "parse_pairs (p # ps) m = rbind (parse_pair p) (\<lambda>(k, v). parse_pairs ps (assign m k v))"

definition parseSearch :: "jsstr \<Rightarrow> jserr + (jsstr \<times> jsstr) list" where
  "parseSearch search = (if search = [] then Inr [] else parse_pairs (split_at 38 (tl search)) [])"

primrec serialize_keys :: "(jsstr \<times> jsstr) list \<Rightarrow> jsstr list \<Rightarrow> jserr + jsstr list" where
  "serialize_keys m [] = Inr []"
| "serialize_keys m (k # ks) =
     rbind (encodeURIComponent k) (\<lambda>a.
     rbind (encodeURIComponent (case map_of m k of None \<Rightarrow> js ''undefined'' | Some v \<Rightarrow> v)) (\<lambda>b.
     rbind (serialize_keys m ks) (\<lambda>r. Inr ((a @ [61] @ b) # r))))"

definition serializeSearch :: "(jsstr \<times> jsstr) list \<Rightarrow> jserr + jsstr" where
  "serializeSearch searchMap = rbind (serialize_keys searchMap (objectKeys searchMap)) (\<lambda>ps. Inr (join_with [38] ps))"

text \<open>The fields of a form; only the values are encoded.\<close>

fun plus_spaces :: "jsstr \<Rightarrow> jsstr" where
  "plus_spaces [] = []"
| "plus_spaces (c # s) = (if take 3 (c # s) = js ''%20'' then 43 # plus_spaces (drop 2 s) else c # plus_spaces s)"

definition form_field :: "host \<Rightarrow> jsstr \<times> sval \<Rightarrow> jserr + jsstr list" where
  "form_field H e =
     (if snd e \<noteq> SUndef \<and> snd e \<noteq> SStr [] then
        rbind (encodeURIComponent (str_of H (snd e))) (\<lambda>v. Inr [fst e @ js ''='' @ plus_spaces v])
      else Inr [])"

primrec form_fields :: "host \<Rightarrow> fields \<Rightarrow> jserr + jsstr list" where
  "form_fields H [] = Inr []"
| "form_fields H (e # es) = rbind (form_field H e) (\<lambda>f. rbind (form_fields H es) (\<lambda>fs. Inr (f @ fs)))"

definition buildFormData :: "host \<Rightarrow> fields \<Rightarrow> jserr + jsstr" where
  "buildFormData H data = rbind (form_fields H (own_entries data)) (\<lambda>formArr. Inr (join_with (js ''&'') formArr))"


section \<open>Query strings are read back\<close>

lemma hex_pair_table:
  "list_all (\<lambda>b. hex_pair (upper_char (digit_char (b div 16))) (upper_char (digit_char (b mod 16))) = Some b) [0..255]"
  by code_simp

lemma hex_pair_percent:
  assumes "0 \<le> b" "b < 256"
  shows "hex_pair (upper_char (digit_char (b div 16))) (upper_char (digit_char (b mod 16))) = Some b"
proof -
  have "b \<in> set [0..255]" using assms by simp
  then show ?thesis using hex_pair_table by (simp only: list_all_iff)
qed

lemma continuation_percent:
  assumes "0 \<le> x" "x < 64"
  shows "continuation (Suc n) v (percent (128 + x) @ t) = continuation n (v * 64 + x) t"
  using hex_pair_percent [of "128 + x"] assms by (simp add: percent_def)

lemma decode_escape_lead:
  assumes "0 \<le> b" "b < 256"
  shows "decode_escape (tl (percent b) @ t) = Option.bind (lead_byte b) (\<lambda>(n, v, least).
            Option.bind (continuation n v t) (\<lambda>(cp, t). if least \<le> cp \<and> is_scalar cp then Some (cp, t) else None))"
  using hex_pair_percent [OF assms] by (simp add: decode_escape_def percent_def)

lemma decode_utf8:
  assumes "is_scalar cp"
  shows "decode_escape (tl (concat (map percent (utf8_of cp))) @ t) = Some (cp, t)"
proof -
  have r: "0 \<le> cp" "cp < 1114112" using assms by (simp_all add: is_scalar_def)
  have m: "0 \<le> x mod 64" "x mod 64 < 64" for x :: int by simp_all
  have d: "x div 64 * 64 + x mod 64 = x" for x :: int by simp
  have d2: "cp div 64 div 64 = cp div 4096" "cp div 4096 div 64 = cp div 262144" by (simp_all add: zdiv_zmult2_eq [symmetric])
  have tl: "tl (percent b @ u) @ w = tl (percent b) @ u @ w" for b u w by (simp add: percent_def)
  consider "cp < 128" | "128 \<le> cp" "cp < 2048" | "2048 \<le> cp" "cp < 65536" | "65536 \<le> cp" by linarith
  then show ?thesis
  proof cases
    case 1
    then show ?thesis using r assms decode_escape_lead [of cp t] by (simp add: utf8_of_def lead_byte_def)
  next
    case 2
    then have "0 \<le> cp div 64" "cp div 64 < 32" using r by simp_all
    then show ?thesis using 2 assms decode_escape_lead [of "192 + cp div 64"] d [of cp]
      by (simp add: utf8_of_def lead_byte_def tl continuation_percent del: continuation.simps(2))
  next
    case 3
    then have "0 \<le> cp div 4096" "cp div 4096 < 16" using r by simp_all
    then show ?thesis using 3 assms decode_escape_lead [of "224 + cp div 4096"] d [of cp] d [of "cp div 64"] d2
      by (simp add: utf8_of_def lead_byte_def tl continuation_percent numeral_2_eq_2 del: continuation.simps(2))
  next
    case 4
    then have "0 \<le> cp div 262144" "cp div 262144 < 8" using r by simp_all
    then show ?thesis using 4 assms decode_escape_lead [of "240 + cp div 262144"] d [of cp] d [of "cp div 64"] d [of "cp div 4096"] d2
      by (simp add: utf8_of_def lead_byte_def tl continuation_percent numeral_3_eq_3 del: continuation.simps(2))
  qed
qed


lemma decode_scalar:
  assumes "is_scalar cp"
  shows "decodeURIComponent (encode_scalar cp @ t) = rbind (decodeURIComponent t) (\<lambda>r. Inr (map fromCharCode (utf16_of cp) @ r))"
proof (cases "uri_unreserved cp")
  case True
  then have cp: "0 \<le> cp" "cp < 128" "cp \<noteq> 37" by (auto simp: uri_unreserved_def)
  then have "uint (fromCharCode cp) \<noteq> 37" using uint_fromCharCode [of cp] by simp
  then have "fromCharCode cp \<noteq> 37" by auto
  then show ?thesis using True cp by (subst decodeURIComponent.simps) (simp add: encode_scalar_def utf16_of_def)
next
  case False
  have "utf8_of cp \<noteq> []" by (simp add: utf8_of_def)
  then obtain b bs where b: "utf8_of cp = b # bs" by (cases "utf8_of cp") auto
  then have "encode_scalar cp = 37 # tl (concat (map percent (utf8_of cp)))" using False by (simp add: encode_scalar_def percent_def)
  then show ?thesis using decode_utf8 [OF assms] by (subst decodeURIComponent.simps) simp
qed

lemma decode_scalars:
  "\<forall>cp \<in> set cps. is_scalar cp \<Longrightarrow>
     decodeURIComponent (concat (map encode_scalar cps)) = Inr (map fromCharCode (concat (map utf16_of cps)))"
proof (induction cps)
  case Nil
  then show ?case by (simp add: decodeURIComponent.simps)
next
  case (Cons cp cps)
  then show ?case using decode_scalar [of cp] by simp
qed

lemma decode_encode:
  assumes "well_formed s"
  shows "\<exists>u. encodeURIComponent s = Inr u \<and> decodeURIComponent u = Inr s"
  using decode_scalars [OF scalars_are_scalar] scalars_well_formed [OF assms] assms by (simp add: encodeURIComponent_def)

text \<open>The delimiters do not occur in what is encoded.\<close>

lemma percent_table: "list_all (\<lambda>b. list_all (\<lambda>c. c \<noteq> 38 \<and> c \<noteq> 61) (percent b)) [0..255]"
  by code_simp

lemma utf8_of_range: "is_scalar cp \<Longrightarrow> \<forall>b \<in> set (utf8_of cp). 0 \<le> b \<and> b < 256"
  by (auto simp: utf8_of_def is_scalar_def)

lemma encode_scalar_delimiters:
  assumes "is_scalar cp" "c \<in> set (encode_scalar cp)"
  shows "c \<noteq> 38 \<and> c \<noteq> 61"
proof (cases "uri_unreserved cp")
  case True
  then have "c = fromCharCode cp" using assms(2) by (simp add: encode_scalar_def)
  moreover have "uint (fromCharCode cp) = cp" "cp \<noteq> 38" "cp \<noteq> 61" using True by (auto simp: uri_unreserved_def uint_fromCharCode)
  ultimately show ?thesis by auto
next
  case False
  then obtain b where "b \<in> set (utf8_of cp)" "c \<in> set (percent b)" using assms(2) by (auto simp: encode_scalar_def)
  moreover then have "b \<in> set [0..255]" using utf8_of_range [OF assms(1)] by auto
  ultimately show ?thesis using percent_table by (auto simp only: list_all_iff)
qed

lemma encode_delimiters: "encodeURIComponent s = Inr u \<Longrightarrow> 38 \<notin> set u \<and> 61 \<notin> set u"
  using scalars_are_scalar [of s] by (fastforce simp: encodeURIComponent_def split: if_splits dest: encode_scalar_delimiters)

lemma split_at_none: "d \<notin> set s \<Longrightarrow> split_at d s = [s]"
  by (induction s) auto

lemma split_at_append: "d \<notin> set s \<Longrightarrow> split_at d (s @ d # t) = s # split_at d t"
  by (induction s) auto

lemma split_at_join:
  "ps \<noteq> [] \<Longrightarrow> \<forall>p \<in> set ps. d \<notin> set p \<Longrightarrow> split_at d (join_with [d] ps) = ps"
  by (induction "[d]" ps rule: join_with.induct) (auto simp: split_at_none split_at_append)


lemma parse_serialized:
  assumes "encodeURIComponent k = Inr a" "encodeURIComponent v = Inr b" "well_formed k" "well_formed v"
  shows "parse_pair (a @ [61] @ b) = Inr (k, v)"
proof -
  have d: "decodeURIComponent a = Inr k" "decodeURIComponent b = Inr v"
    using decode_encode [OF assms(3)] decode_encode [OF assms(4)] assms(1,2) by auto
  have "split_at 61 (a @ [61] @ b) = [a, b]"
    using encode_delimiters [OF assms(1)] encode_delimiters [OF assms(2)] by (simp add: split_at_append split_at_none)
  moreover have "b = [] \<Longrightarrow> v = []" using d(2) by (simp add: decodeURIComponent.simps)
  ultimately show ?thesis using d by (auto simp: parse_pair_def)
qed

lemma serialize_keys_ok:
  assumes "\<forall>k \<in> set ks. well_formed k \<and> (\<exists>v. map_of m k = Some v \<and> well_formed v)"
  shows "\<exists>ps. serialize_keys m ks = Inr ps \<and> (\<forall>p \<in> set ps. 38 \<notin> set p) \<and> length ps = length ks
    \<and> (\<forall>n. parse_pairs ps n = Inr (fold (\<lambda>k n. assign n k (the (map_of m k))) ks n))"
  using assms
proof (induction ks)
  case (Cons k ks)
  then obtain v where v: "map_of m k = Some v" "well_formed v" "well_formed k" by auto
  obtain a b where ab: "encodeURIComponent k = Inr a" "encodeURIComponent v = Inr b"
    using decode_encode [OF v(2)] decode_encode [OF v(3)] by blast
  obtain ps where "serialize_keys m ks = Inr ps" "\<forall>p \<in> set ps. 38 \<notin> set p" "length ps = length ks"
    "\<forall>n. parse_pairs ps n = Inr (fold (\<lambda>k n. assign n k (the (map_of m k))) ks n)" using Cons by auto
  then show ?case
    using v ab encode_delimiters [OF ab(1)] encode_delimiters [OF ab(2)] parse_serialized [OF ab v(3,2)] by auto
qed simp

lemma map_of_fold_assign:
  "js ''__proto__'' \<notin> set ks \<Longrightarrow>
     map_of (fold (\<lambda>k n. assign n k (g k)) ks n) k = (if k \<in> set ks then Some (g k) else map_of n k)"
  by (induction ks arbitrary: n) (auto simp: assign_def)

lemma set_objectKeys [simp]: "set (objectKeys ps) = fst ` set ps"
  by (auto simp: objectKeys_def Let_def)

text \<open>C23: a query string is read back. For the pairs of an object, with any characters in keys and values but unpaired
  surrogates, \<^verbatim>\<open>serializeSearch\<close> succeeds, and \<^verbatim>\<open>parseSearch\<close> of its result behind a question mark finds the same
  value under every key, and no other key.\<close>

theorem search_round_trip:
  assumes "m \<noteq> []" and "\<forall>(k, v) \<in> set m. well_formed k \<and> well_formed v" and "js ''__proto__'' \<notin> fst ` set m"
  shows "\<exists>q m'. serializeSearch m = Inr q \<and> parseSearch (63 # q) = Inr m' \<and> map_of m' = map_of m"
proof -
  have "\<exists>v. map_of m k = Some v \<and> well_formed k \<and> well_formed v" if "k \<in> set (objectKeys m)" for k
    using that assms(2) map_of_SomeD [of m k] by (cases "map_of m k") (auto simp: map_of_eq_None_iff)
  then obtain ps where ps: "serialize_keys m (objectKeys m) = Inr ps" "\<forall>p \<in> set ps. 38 \<notin> set p" "length ps = length (objectKeys m)"
    "parse_pairs ps [] = Inr (fold (\<lambda>k n. assign n k (the (map_of m k))) (objectKeys m) [])"
    using serialize_keys_ok [of "objectKeys m" m] by blast
  have "objectKeys m \<noteq> []" using assms(1) set_objectKeys [of m] by fastforce
  then have "split_at 38 (join_with [38] ps) = ps" using split_at_join [of ps 38] ps(2,3) by fastforce
  then have "parseSearch (63 # join_with [38] ps) = Inr (fold (\<lambda>k n. assign n k (the (map_of m k))) (objectKeys m) [])"
    using ps(4) by (simp add: parseSearch_def)
  moreover have "map_of (fold (\<lambda>k n. assign n k (the (map_of m k))) (objectKeys m) []) k = map_of m k" for k
    using assms(3) map_of_eq_None_iff [of m k] by (cases "map_of m k") (simp_all add: map_of_fold_assign)
  ultimately show ?thesis using ps(1) by (auto simp: serializeSearch_def)
qed

theorem search_round_trip_witness:
  "\<exists>q m'. serializeSearch [(js ''q'', [0xE9, 0x26, 0x20]), (js ''a='', [0xD83D, 0xDE00])] = Inr q
     \<and> parseSearch (63 # q) = Inr m' \<and> map_of m' = map_of [(js ''q'', [0xE9, 0x26, 0x20]), (js ''a='', [0xD83D, 0xDE00])]"
  by (rule search_round_trip) (code_simp+)

end
