(* ===== verification/SwaggerErr.thy ===== *)
theory SwaggerErr
  imports SwaggerUtils
begin

text \<open>
  The plugin of Swagger UI that collects errors (modules 90 and 205 to 211 of \<^verbatim>\<open>swagger-ui.js\<close>): the
  actions, the reducers, the transformers of messages and the selectors. \<^verbatim>\<open>DEFAULT_ERROR_STRUCTURE\<close> is an object of the
  module into which \<^verbatim>\<open>Object.assign\<close> copies the fields of an error; it is a part of the state here.
  The theorems: every stored error has one of the three types, whatever is dispatched; clearing a type removes exactly
  its errors; and the fields of an error show up in later errors that do not have them.
\<close>

section \<open>Messages\<close>

text \<open>The first position at which a text occurs.\<close>

fun index_of_text :: "jsstr \<Rightarrow> jsstr \<Rightarrow> nat option" where
  "index_of_text p [] = (if p = [] then Some 0 else None)"
| "index_of_text p (c # s) = (if starts_with p (c # s) then Some 0 else map_option Suc (index_of_text p s))"

text \<open>\<^verbatim>\<open>makeNewMessage\<close>: what each of the types adds, by its position.\<close>

definition type_phrase :: "jsstr list \<Rightarrow> nat \<Rightarrow> jsstr" where
  "type_phrase types i =
     (let c = types ! i; more = (i + 1 < length types \<and> types ! (i + 1) \<noteq> [])
      in if i + 1 = length types \<and> length types > 1 then js ''or '' @ c
         else if more \<and> length types > 2 then c @ js '', ''
         else if more then c @ js '' ''
         else c)"

definition makeNewMessage :: "jsstr list \<Rightarrow> jsstr" where
  "makeNewMessage types = js ''should be a'' @ concat (map (type_phrase types) [0..<length types])"

definition seekStr :: jsstr where
  "seekStr = js ''is not of a type(s)''"

definition not_of_type :: "sval \<Rightarrow> jserr + sval" where
  "not_of_type err =
     rbind (mget err (js ''message'')) (\<lambda>message.
       case message of
         SStr m \<Rightarrow>
           (case index_of_text seekStr m of
              Some i \<Rightarrow> Inr (iset err (js ''message'')
                (SStr (take i m @ makeNewMessage (split_at 44 (drop (i + length seekStr) m)))))
            | None \<Rightarrow> Inr err)
       | SList xs \<Rightarrow> Inr err
       | _ \<Rightarrow> Inl (TypeError ''indexOf is not a function''))"

text \<open>\<^verbatim>\<open>str.replace(new RegExp("instance.", "g"), "")\<close>: the dot stands for any character but a line terminator.\<close>

definition line_terminator :: "16 word \<Rightarrow> bool" where
  "line_terminator c \<longleftrightarrow> c \<in> {10, 13, 0x2028, 0x2029}"

function removeSubstring :: "jsstr \<Rightarrow> jsstr" where
  "removeSubstring str =
     (case str of
        [] \<Rightarrow> []
      | c # s \<Rightarrow>
          (if starts_with (js ''instance'') (c # s) \<and> length s \<ge> 8 \<and> \<not> line_terminator (s ! 7) then removeSubstring (drop 8 s)
           else c # removeSubstring s))"
  by auto
termination by (relation "measure length") auto

declare removeSubstring.simps [simp del]

definition strip_instance :: "sval \<Rightarrow> jserr + sval" where
  "strip_instance err =
     rbind (mget err (js ''message'')) (\<lambda>message.
       case message of
         SStr m \<Rightarrow> Inr (iset err (js ''message'') (SStr (removeSubstring m)))
       | _ \<Rightarrow> Inl (TypeError ''replace is not a function''))"

primrec map_result :: "(sval \<Rightarrow> jserr + sval) \<Rightarrow> sval list \<Rightarrow> jserr + sval list" where
  "map_result f [] = Inr []"
| "map_result f (x # xs) = rbind (f x) (\<lambda>y. rbind (map_result f xs) (\<lambda>ys. Inr (y # ys)))"

text \<open>
  \<^verbatim>\<open>transformErrors\<close>: a transformer that throws leaves all the errors as they were. The second transformer returns
  its argument.
\<close>

definition try_transform :: "(sval list \<Rightarrow> jserr + sval list) \<Rightarrow> sval list \<Rightarrow> sval list" where
  "try_transform f errors = (case f errors of Inl e \<Rightarrow> errors | Inr es \<Rightarrow> filter truthy es)"

definition transformErrors :: "sval list \<Rightarrow> sval list" where
  "transformErrors errors =
     filter truthy (try_transform (map_result strip_instance) (try_transform Inr (try_transform (map_result not_of_type) errors)))"

section \<open>Actions and reducers\<close>

text \<open>The payload of \<^verbatim>\<open>clearBy\<close> is a function; a value that is not one has no effect.\<close>

datatype err_action =
    NewThrownErr sval | NewThrownErrBatch "sval list" | NewSpecErr sval | NewSpecErrBatch "sval list" | NewAuthErr sval
  | Clear sval | ClearBy "(sval \<Rightarrow> bool) option"

record err_state =
  e_default :: fields
  e_errors :: "sval list option"

definition DEFAULT_ERROR_STRUCTURE :: fields where
  "DEFAULT_ERROR_STRUCTURE =
     [(js ''line'', SNum (IntN 0)), (js ''level'', SStr (js ''error'')), (js ''message'', SStr (js ''Unknown error''))]"

text \<open>The own properties that \<^verbatim>\<open>Object.assign\<close> copies from a source.\<close>

definition source_fields :: "sval \<Rightarrow> fields" where
  "source_fields v =
     (case v of
        SObj ps \<Rightarrow> ps
      | SArr xs \<Rightarrow> zip (map (\<lambda>i. int_toString 10 (int i)) [0..<length xs]) xs
      | SStr s \<Rightarrow> zip (map (\<lambda>i. int_toString 10 (int i)) [0..<length s]) (map (\<lambda>c. SStr [c]) s)
      | _ \<Rightarrow> [])"

text \<open>\<^verbatim>\<open>Object.assign(DEFAULT_ERROR_STRUCTURE, err, {type: t})\<close> changes the structure and returns it.\<close>

definition assign_error :: "fields \<Rightarrow> sval \<Rightarrow> string \<Rightarrow> fields" where
  "assign_error d err t = assign (copy_fields d (source_fields err)) (js ''type'') (SStr (js t))"

definition the_errors :: "err_state \<Rightarrow> sval list" where
  "the_errors s = (case e_errors s of None \<Rightarrow> [] | Some es \<Rightarrow> es)"

definition put_errors :: "err_state \<Rightarrow> sval list \<Rightarrow> err_state" where
  "put_errors s es = s\<lparr> e_errors := Some (transformErrors es) \<rparr>"

primrec assign_batch :: "fields \<Rightarrow> string \<Rightarrow> sval list \<Rightarrow> fields \<times> sval list" where
  "assign_batch d t [] = (d, [])"
| "assign_batch d t (e # es) =
     (let d' = assign_error d e t; (d'', r) = assign_batch d' t es in (d'', fromJS (SObj d') # r))"

definition new_thrown :: "err_state \<Rightarrow> sval \<Rightarrow> err_state" where
  "new_thrown s payload =
     (let d = assign_error (e_default s) payload ''thrown''
      in put_errors (s\<lparr> e_default := d \<rparr>) (the_errors s @ [fromJS (SObj d)]))"

definition new_batch :: "err_state \<Rightarrow> string \<Rightarrow> sval list \<Rightarrow> err_state" where
  "new_batch s t payload =
     (let (d, es) = assign_batch (e_default s) t payload
      in put_errors (s\<lparr> e_default := d \<rparr>) (the_errors s @ es))"

text \<open>\<^verbatim>\<open>sortBy\<close> is stable and puts the values that are undefined last.\<close>

definition line_less :: "host \<Rightarrow> sval \<Rightarrow> sval \<Rightarrow> bool" where
  "line_less H a b =
     (if b = SUndef then a \<noteq> SUndef else if a = SUndef then False else js_less H a b)"

primrec insert_by_line :: "host \<Rightarrow> sval \<times> sval \<Rightarrow> (sval \<times> sval) list \<Rightarrow> (sval \<times> sval) list" where
  "insert_by_line H e [] = [e]"
| "insert_by_line H e (f # fs) = (if line_less H (fst f) (fst e) then f # insert_by_line H e fs else e # f # fs)"

definition sort_by_line :: "host \<Rightarrow> (sval \<times> sval) list \<Rightarrow> (sval \<times> sval) list" where
  "sort_by_line H es = foldr (insert_by_line H) es []"

definition line_of :: "sval \<Rightarrow> jserr + (sval \<times> sval)" where
  "line_of err = rbind (mget err (js ''line'')) (\<lambda>l. Inr (l, err))"

primrec lines_of :: "sval list \<Rightarrow> jserr + (sval \<times> sval) list" where
  "lines_of [] = Inr []"
| "lines_of (e # es) = rbind (line_of e) (\<lambda>l. rbind (lines_of es) (\<lambda>ls. Inr (l # ls)))"

text \<open>\<^verbatim>\<open>error.set("type", t)\<close> of the error as an immutable value.\<close>

definition typed_error :: "sval \<Rightarrow> string \<Rightarrow> jserr + sval" where
  "typed_error err t =
     (if has_set err then Inr (iset err (js ''type'') (SStr (js t))) else Inl (TypeError ''set is not a function''))"

definition new_spec :: "host \<Rightarrow> err_state \<Rightarrow> sval \<Rightarrow> jserr + err_state" where
  "new_spec H s payload =
     rbind (typed_error (fromJS payload) ''spec'') (\<lambda>error.
     rbind (lines_of (the_errors s @ [error])) (\<lambda>ls. Inr (put_errors s (map snd (sort_by_line H ls)))))"

definition new_auth :: "err_state \<Rightarrow> sval \<Rightarrow> jserr + err_state" where
  "new_auth s payload =
     rbind (typed_error (fromJS (SObj (copy_fields [] (source_fields payload)))) ''auth'') (\<lambda>error.
       Inr (put_errors s (the_errors s @ [error])))"

text \<open>\<^verbatim>\<open>clear(filter)\<close>: an error goes if one of its fields is the value that the filter has for it.\<close>

definition err_entries :: "sval \<Rightarrow> fields" where
  "err_entries err =
     (case err of
        SMap ps \<Rightarrow> ps
      | SList xs \<Rightarrow> zip (map (\<lambda>i. int_toString 10 (int i)) [0..<length xs]) xs
      | _ \<Rightarrow> [])"

definition payload_get :: "sval \<Rightarrow> jsstr \<Rightarrow> sval" where
  "payload_get payload k =
     (if k = js ''length'' then
        (case payload of
           SArr xs \<Rightarrow> SNum (IntN (int (length xs)))
         | SStr s \<Rightarrow> SNum (IntN (int (length s)))
         | _ \<Rightarrow> field (source_fields payload) k)
      else field (source_fields payload) k)"

definition kept :: "sval \<Rightarrow> sval \<Rightarrow> bool" where
  "kept payload err =
     list_all (\<lambda>(k, v). \<not> truthy (payload_get payload k) \<or> \<not> strict_eq (field (err_entries err) k) (payload_get payload k))
       (err_entries err)"

definition clear_errors :: "err_state \<Rightarrow> sval \<Rightarrow> err_state" where
  "clear_errors s payload =
     (case e_errors s of
        None \<Rightarrow> s
      | Some es \<Rightarrow> if truthy payload then s\<lparr> e_errors := Some (filter (kept payload) es) \<rparr> else s)"

definition clear_by :: "err_state \<Rightarrow> (sval \<Rightarrow> bool) option \<Rightarrow> jserr + err_state" where
  "clear_by s payload =
     (case payload of
        None \<Rightarrow> Inr s
      | Some p \<Rightarrow>
          (case e_errors s of
             None \<Rightarrow> Inl (TypeError ''filter of undefined'')
           | Some es \<Rightarrow> Inr (s\<lparr> e_errors := Some (filter p es) \<rparr>)))"

fun err_reducer :: "host \<Rightarrow> err_state \<Rightarrow> err_action \<Rightarrow> jserr + err_state" where
  "err_reducer H s (NewThrownErr payload) = Inr (new_thrown s payload)"
| "err_reducer H s (NewThrownErrBatch payload) = Inr (new_batch s ''thrown'' payload)"
| "err_reducer H s (NewSpecErr payload) = new_spec H s payload"
| "err_reducer H s (NewSpecErrBatch payload) = Inr (new_batch s ''spec'' payload)"
| "err_reducer H s (NewAuthErr payload) = new_auth s payload"
| "err_reducer H s (Clear payload) = Inr (clear_errors s payload)"
| "err_reducer H s (ClearBy payload) = clear_by s payload"

definition allErrors :: "err_state \<Rightarrow> sval list" where
  "allErrors s = the_errors s"

definition lastError :: "err_state \<Rightarrow> sval" where
  "lastError s = (if allErrors s = [] then SUndef else last (allErrors s))"

section \<open>Every error has a type\<close>

definition err_types :: "sval set" where
  "err_types = {SStr (js ''thrown''), SStr (js ''spec''), SStr (js ''auth'')}"

fun err_ok :: "sval \<Rightarrow> bool" where
  "err_ok (SMap ps) = (field ps (js ''type'') \<in> err_types)"
| "err_ok v = False"

definition errs_ok :: "err_state \<Rightarrow> bool" where
  "errs_ok s = list_all err_ok (the_errors s)"

text \<open>An error of the description is a record, not an array.\<close>

fun admissible :: "err_action \<Rightarrow> bool" where
  "admissible (NewSpecErr payload) = (case fromJS payload of SMap ps \<Rightarrow> True | _ \<Rightarrow> False)"
| "admissible a = True"

inductive err_reach :: "host \<Rightarrow> err_state \<Rightarrow> bool" for H where
  Start: "err_reach H \<lparr> e_default = DEFAULT_ERROR_STRUCTURE, e_errors = None \<rparr>"
| Dispatch: "err_reach H s \<Longrightarrow> admissible a \<Longrightarrow> err_reducer H s a = Inr s' \<Longrightarrow> err_reach H s'"

lemma field_prop_set [simp]: "field (prop_set ps k v) k' = (if k' = k then v else field ps k')"
  by (simp add: field_def)

lemma field_own_entries [simp]: "field (own_entries ps) k = field ps k"
proof -
  have "map_of (map (\<lambda>k. (k, f k)) ks) k = (if k \<in> set ks then Some (f k) else None)" for f :: "jsstr \<Rightarrow> sval" and ks
    by (induction ks) auto
  then show ?thesis using map_of_eq_None_iff [of ps k] by (cases "map_of ps k") (simp_all add: own_entries_def field_def)
qed

lemma field_map_prod: "f SUndef = SUndef \<Longrightarrow> field (map (map_prod id f) ps) k = f (field ps k)"
  by (induction ps) (auto simp: field_def)

lemma fromJS_fields: "\<exists>qs. fromJS (SObj ps) = SMap qs \<and> (\<forall>k. field qs k = fromJS (field ps k))"
  by (simp add: field_map_prod)

text \<open>A transformer changes nothing of an error but its message.\<close>

definition same_but_message :: "sval \<Rightarrow> sval \<Rightarrow> bool" where
  "same_but_message a b \<longleftrightarrow> (\<exists>ps qs. a = SMap ps \<and> b = SMap qs \<and> (\<forall>k. k \<noteq> js ''message'' \<longrightarrow> field qs k = field ps k))"

lemma same_refl: "a = SMap ps \<Longrightarrow> same_but_message a a"
  by (auto simp: same_but_message_def)

lemma transform_same:
  assumes "f = not_of_type \<or> f = strip_instance" "a = SMap ps" "f a = Inr b"
  shows "same_but_message a b"
proof -
  have "mget a (js ''message'') = Inr (field ps (js ''message''))" using assms(2) by (simp add: mget_def isImmutable_def field_def)
  then show ?thesis using assms
    by (cases "field ps (js ''message'')")
      (auto simp: same_but_message_def not_of_type_def strip_instance_def split: option.splits)
qed

lemma map_result_same:
  assumes "f = not_of_type \<or> f = strip_instance" "\<forall>a \<in> set es. \<exists>ps. a = SMap ps" "map_result f es = Inr fs"
  shows "list_all2 same_but_message es fs"
  using assms(2,3)
proof (induction es arbitrary: fs)
  case (Cons a es)
  then show ?case using transform_same [OF assms(1)] by auto
qed simp

lemma same_maps: "list_all2 same_but_message es fs \<Longrightarrow> \<forall>a \<in> set fs. \<exists>ps. a = SMap ps"
  by (induction rule: list_all2_induct) (auto simp: same_but_message_def)

lemma same_list_refl: "\<forall>a \<in> set es. \<exists>ps. a = SMap ps \<Longrightarrow> list_all2 same_but_message es es"
  by (induction es) (auto intro: same_refl)

lemma filter_truthy_maps: "\<forall>a \<in> set es. \<exists>ps. a = SMap ps \<Longrightarrow> filter truthy es = es"
  by (auto simp: filter_id_conv)

lemma try_transform_same:
  assumes "f = not_of_type \<or> f = strip_instance" "\<forall>a \<in> set es. \<exists>ps. a = SMap ps"
  shows "list_all2 same_but_message es (try_transform (map_result f) es)"
proof (cases "map_result f es")
  case (Inr fs)
  then have "list_all2 same_but_message es fs" using map_result_same assms by blast
  then show ?thesis using Inr filter_truthy_maps [OF same_maps] by (simp add: try_transform_def)
qed (use same_list_refl [OF assms(2)] in \<open>simp add: try_transform_def\<close>)

lemma same_trans: "same_but_message a b \<Longrightarrow> same_but_message b c \<Longrightarrow> same_but_message a c"
  by (auto simp: same_but_message_def)

lemma transformErrors_same:
  assumes "\<forall>a \<in> set es. \<exists>ps. a = SMap ps"
  shows "list_all2 same_but_message es (transformErrors es)"
proof -
  let ?fs = "try_transform (map_result not_of_type) es"
  let ?gs = "try_transform (map_result strip_instance) ?fs"
  have f: "list_all2 same_but_message es ?fs" using try_transform_same assms by blast
  then have g: "list_all2 same_but_message ?fs ?gs" using try_transform_same same_maps by blast
  have "list_all2 same_but_message es ?gs" by (intro list_all2_trans [OF _ f g]) (rule same_trans)
  moreover have "transformErrors es = ?gs"
    using filter_truthy_maps [OF same_maps [OF f]] filter_truthy_maps [OF same_maps [OF g]]
    by (simp add: transformErrors_def try_transform_def [of Inr])
  ultimately show ?thesis by simp
qed


lemma same_ok: "same_but_message a b \<Longrightarrow> err_ok a \<Longrightarrow> err_ok b"
  by (auto simp: same_but_message_def)

lemma err_ok_map: "err_ok a \<Longrightarrow> \<exists>ps. a = SMap ps"
  by (cases a) auto

lemma put_errors_ok:
  assumes "list_all err_ok es"
  shows "errs_ok (put_errors s es)"
proof -
  have "list_all2 same_but_message es (transformErrors es)"
    using assms err_ok_map by (intro transformErrors_same) (auto simp: list_all_iff)
  then have "list_all err_ok (transformErrors es)"
    using assms by (induction rule: list_all2_induct) (auto intro: same_ok)
  then show ?thesis by (simp add: errs_ok_def put_errors_def the_errors_def)
qed

lemma assign_error_ok:
  assumes "SStr (js t) \<in> err_types"
  shows "err_ok (fromJS (SObj (assign_error d e t)))"
  using assms by (simp add: assign_error_def assign_def field_map_prod)

lemma assign_batch_ok:
  "SStr (js t) \<in> err_types \<Longrightarrow> list_all err_ok (snd (assign_batch d t es))"
  by (induction es arbitrary: d) (auto simp: Let_def case_prod_beta' assign_error_ok simp del: fromJS.simps)

lemma typed_error_ok:
  assumes "typed_error (SMap ps) t = Inr e" "SStr (js t) \<in> err_types"
  shows "err_ok e"
  using assms by (auto simp: typed_error_def)

lemma set_insert_by_line: "set (insert_by_line H e fs) = insert e (set fs)"
  by (induction fs) auto

lemma set_sort_by_line: "set (sort_by_line H es) = set es"
  by (induction es) (auto simp: sort_by_line_def set_insert_by_line)

lemma lines_of_snd: "lines_of es = Inr ls \<Longrightarrow> map snd ls = es"
  by (induction es arbitrary: ls) (auto simp: line_of_def)

lemma err_types_simps [simp]: "SStr (js ''thrown'') \<in> err_types" "SStr (js ''spec'') \<in> err_types" "SStr (js ''auth'') \<in> err_types"
  by (simp_all add: err_types_def)

lemma err_reducer_ok:
  assumes "errs_ok s" "admissible a" "err_reducer H s a = Inr s'"
  shows "errs_ok s'"
proof (cases a)
  case (NewThrownErr p)
  then show ?thesis using assms assign_error_ok
    by (auto simp: new_thrown_def Let_def errs_ok_def simp del: fromJS.simps intro!: put_errors_ok [unfolded errs_ok_def])
next
  case (NewThrownErrBatch p)
  then show ?thesis using assms assign_batch_ok [of "''thrown''"]
    by (auto simp: new_batch_def Let_def case_prod_beta' errs_ok_def intro!: put_errors_ok [unfolded errs_ok_def])
next
  case (NewSpecErr p)
  then obtain ps where p: "fromJS p = SMap ps" using assms(2) by (auto split: sval.splits)
  obtain e ls where e: "typed_error (SMap ps) ''spec'' = Inr e" "lines_of (the_errors s @ [e]) = Inr ls"
    "s' = put_errors s (map snd (sort_by_line H ls))" using assms(3) NewSpecErr p by (auto simp: new_spec_def)
  have "set (map snd (sort_by_line H ls)) = set (the_errors s @ [e])"
    using lines_of_snd [OF e(2)] by (simp add: set_sort_by_line) (metis list.set_map set_append list.simps(15) empty_set Un_insert_right sup_bot_right)
  moreover have "err_ok e" using typed_error_ok e(1) by simp
  ultimately have "list_all err_ok (map snd (sort_by_line H ls))" using assms(1) by (auto simp: list_all_iff errs_ok_def)
  then show ?thesis using e(3) put_errors_ok by blast
next
  case (NewSpecErrBatch p)
  then show ?thesis using assms assign_batch_ok [of "''spec''"]
    by (auto simp: new_batch_def Let_def case_prod_beta' errs_ok_def intro!: put_errors_ok [unfolded errs_ok_def])
next
  case (NewAuthErr p)
  then obtain e ps where "typed_error (SMap ps) ''auth'' = Inr e" "s' = put_errors s (the_errors s @ [e])"
    using assms(3) by (auto simp: new_auth_def)
  then show ?thesis using typed_error_ok assms(1) put_errors_ok by (auto simp: errs_ok_def)
next
  case (Clear p)
  then show ?thesis using assms by (auto simp: clear_errors_def errs_ok_def the_errors_def list_all_iff split: option.splits if_splits)
next
  case (ClearBy p)
  then show ?thesis using assms by (auto simp: clear_by_def errs_ok_def the_errors_def list_all_iff split: option.splits)
qed

lemma reach_errs_ok: "err_reach H s \<Longrightarrow> errs_ok s"
proof (induction rule: err_reach.induct)
  case Start
  then show ?case by (simp add: errs_ok_def the_errors_def)
next
  case (Dispatch s a s')
  then show ?case using err_reducer_ok by blast
qed

text \<open>Two thrown errors, the second without a line.\<close>

definition first_err :: fields where
  "first_err = [(js ''message'', SStr (js ''first'')), (js ''line'', SNum (IntN 7))]"

definition second_err :: fields where
  "second_err = [(js ''message'', SStr (js ''second''))]"

definition sample_start :: err_state where
  "sample_start = \<lparr> e_default = DEFAULT_ERROR_STRUCTURE, e_errors = None \<rparr>"

definition sample_state :: err_state where
  "sample_state = new_thrown sample_start (SObj first_err)"

lemma sample_reach: "err_reach plain_host sample_start" "err_reach plain_host sample_state"
proof -
  show s: "err_reach plain_host sample_start" unfolding sample_start_def by (rule err_reach.Start)
  show "err_reach plain_host sample_state"
    by (rule err_reach.Dispatch [OF s, of "NewThrownErr (SObj first_err)"]) (simp_all add: sample_state_def)
qed



lemma field_fold_assign:
  "k \<noteq> js ''__proto__'' \<Longrightarrow> field (fold (\<lambda>k t. assign t k (f k)) ks d) k = (if k \<in> set ks then f k else field d k)"
  by (induction ks arbitrary: d) (auto simp: assign_def)

lemma field_copy_fields:
  "k \<noteq> js ''__proto__'' \<Longrightarrow> field (copy_fields d src) k = (if k \<in> fst ` set src then field src k else field d k)"
  by (simp add: copy_fields_def field_fold_assign)

lemma field_assign_error:
  "k \<noteq> js ''__proto__'' \<Longrightarrow> k \<noteq> js ''type'' \<Longrightarrow>
   field (assign_error d (SObj ps) t) k = (if k \<in> fst ` set ps then field ps k else field d k)"
  by (simp add: assign_error_def assign_def source_fields_def field_copy_fields)

lemma list_all2_last:
  "list_all2 P xs ys \<Longrightarrow> xs \<noteq> [] \<Longrightarrow> ys \<noteq> [] \<and> P (last xs) (last ys)"
  by (induction rule: list_all2_induct) (auto simp: list_all2_Nil)

lemma new_thrown_last:
  assumes "errs_ok s"
  shows "\<exists>es. lastError (new_thrown s p) = SMap es \<and>
     (\<forall>k. k \<noteq> js ''message'' \<longrightarrow> field es k = fromJS (field (assign_error (e_default s) p ''thrown'') k))"
proof -
  let ?d = "assign_error (e_default s) p ''thrown''"
  let ?es = "the_errors s @ [fromJS (SObj ?d)]"
  obtain qs where qs: "fromJS (SObj ?d) = SMap qs" "\<forall>k. field qs k = fromJS (field ?d k)" using fromJS_fields by blast
  have "\<forall>a \<in> set ?es. \<exists>ps. a = SMap ps" using assms err_ok_map qs(1) by (auto simp: errs_ok_def list_all_iff)
  then have "transformErrors ?es \<noteq> [] \<and> same_but_message (last ?es) (last (transformErrors ?es))"
    by (intro list_all2_last transformErrors_same) simp_all
  then obtain es where "transformErrors ?es \<noteq> []" "last (transformErrors ?es) = SMap es"
    "\<forall>k. k \<noteq> js ''message'' \<longrightarrow> field es k = field qs k" using qs(1) by (auto simp: same_but_message_def)
  then show ?thesis using qs(2) by (simp add: lastError_def allErrors_def new_thrown_def Let_def put_errors_def the_errors_def)
qed

text \<open>C25: The reducer copies each thrown error into the one \<^verbatim>\<open>DEFAULT_ERROR_STRUCTURE\<close> of the
  module. So a field of a thrown error that the next thrown error does not have is stored with the next one as well:
  an error without a line is shown at the line of the error before it.
\<close>
theorem thrown_error_inherits:
  assumes "err_reach H s"
    and "err_reducer H s (NewThrownErr (SObj ps)) = Inr s1" and "err_reducer H s1 (NewThrownErr (SObj qs)) = Inr s2"
    and "k \<in> fst ` set ps" and "k \<notin> fst ` set qs" and "k \<notin> {js ''type'', js ''message'', js ''__proto__''}"
  shows "\<exists>es. lastError s2 = SMap es \<and> field es k = fromJS (field ps k)"
proof -
  have "errs_ok s1" using reach_errs_ok [OF assms(1)] _ assms(2) by (rule err_reducer_ok) simp
  moreover have "e_default s1 = assign_error (e_default s) (SObj ps) ''thrown''" "s2 = new_thrown s1 (SObj qs)"
    using assms(2,3) by (auto simp: new_thrown_def Let_def put_errors_def)
  moreover have "field (assign_error (e_default s1) (SObj qs) ''thrown'') k = field ps k"
    using assms(4-6) by (simp add: calculation(2) field_assign_error)
  ultimately show ?thesis using new_thrown_last [of s1 "SObj qs"] assms(6) by auto
qed

theorem thrown_error_inherits_witness:
  "\<exists>es. lastError (new_thrown sample_state (SObj second_err)) = SMap es \<and> field es (js ''line'') = SNum (IntN 7)"
proof -
  have "\<exists>es. lastError (new_thrown sample_state (SObj second_err)) = SMap es \<and>
    field es (js ''line'') = fromJS (field first_err (js ''line''))"
    by (rule thrown_error_inherits [OF sample_reach(1), of first_err sample_state second_err])
      (simp_all add: sample_state_def first_err_def second_err_def)
  then show ?thesis by (simp add: first_err_def field_def)
qed

lemma type_kept:
  assumes "field ps (js ''type'') \<in> err_types" and "t \<noteq> []"
  shows "kept (SObj [(js ''type'', SStr (js t))]) (SMap ps) \<longleftrightarrow> field ps (js ''type'') \<noteq> SStr (js t)"
proof -
  let ?p = "SObj [(js ''type'', SStr (js t))]"
  have p: "payload_get ?p k = (if k = js ''type'' then SStr (js t) else SUndef)" for k
    by (simp add: payload_get_def source_fields_def field_def)
  have t: "\<exists>v. (js ''type'', v) \<in> set ps" using assms(1) map_of_SomeD [of ps "js ''type''"]
    by (auto simp: field_def err_types_def split: option.splits)
  have "truthy (SStr (js t))" using assms(2) by (simp add: js_def)
  moreover have "strict_eq (field ps (js ''type'')) (SStr (js t)) \<longleftrightarrow> field ps (js ''type'') = SStr (js t)"
    using assms(1) by (auto simp: err_types_def strict_eq_def)
  ultimately show ?thesis using t by (auto simp: kept_def err_entries_def p list_all_iff split: if_splits)
qed

text \<open>After any actions, \<^verbatim>\<open>clear({type: t})\<close> does not throw; it removes exactly the errors
  of type \<open>t\<close> and keeps the others in their order.
\<close>
theorem clear_removes_type:
  assumes "err_reach H s" and "t \<noteq> []"
  shows "\<exists>s'. err_reducer H s (Clear (SObj [(js ''type'', SStr (js t))])) = Inr s' \<and>
    allErrors s' = filter (\<lambda>e. iget e (js ''type'') \<noteq> Some (SStr (js t))) (allErrors s)"
proof -
  let ?p = "SObj [(js ''type'', SStr (js t))]"
  have "kept ?p e \<longleftrightarrow> iget e (js ''type'') \<noteq> Some (SStr (js t))" if "e \<in> set (the_errors s)" for e
  proof -
    have "err_ok e" using reach_errs_ok [OF assms(1)] that by (simp add: errs_ok_def list_all_iff)
    then obtain ps where "e = SMap ps" "field ps (js ''type'') \<in> err_types" by (cases e) auto
    then show ?thesis using type_kept [of ps t] assms(2) by (auto simp: field_def split: option.splits)
  qed
  then have "filter (kept ?p) (the_errors s) = filter (\<lambda>e. iget e (js ''type'') \<noteq> Some (SStr (js t))) (the_errors s)"
    by (rule filter_cong [OF refl])
  then show ?thesis by (auto simp: clear_errors_def allErrors_def the_errors_def split: option.splits)
qed


theorem clear_removes_type_witness:
  "\<exists>s'. err_reducer plain_host sample_state (Clear (SObj [(js ''type'', SStr (js ''thrown''))])) = Inr s' \<and>
    allErrors s' = filter (\<lambda>e. iget e (js ''type'') \<noteq> Some (SStr (js ''thrown''))) (allErrors sample_state)"
  by (rule clear_removes_type [OF sample_reach(2)]) simp

end
