(* ===== verification/SwaggerSpec.thy ===== *)
theory SwaggerSpec
  imports SwaggerErr
begin

text \<open>
  The plugin of Swagger UI that keeps the description of the API (modules 140, 141 and 219 of \<^verbatim>\<open>swagger-ui.js\<close>): all its
  reducers, and the selectors that combine the description with what the user has entered for an operation. The state
  of the plugin is an immutable map. \<^verbatim>\<open>pathMethod\<close> is the pair of the path and the method of an operation, \<open>hash\<close> the
  function \<^verbatim>\<open>hashCode\<close> of Immutable, about which nothing is assumed.
  The theorems: what is stored for an operation is what the selectors return for it, and nothing else changes; after
  the parameters of an operation have been validated, the operation may be executed exactly when each of them is valid.
\<close>

section \<open>Immutable collections\<close>

text \<open>\<^verbatim>\<open>v.get(k, d)\<close>, and \<^verbatim>\<open>v.set(k, w)\<close> of the state.\<close>

definition mget_or :: "sval \<Rightarrow> jsstr \<Rightarrow> sval \<Rightarrow> jserr + sval" where
  "mget_or v k d =
     (if isImmutable v then Inr (case iget v k of None \<Rightarrow> d | Some w \<Rightarrow> w) else Inl (TypeError ''get is not a function''))"

definition mset :: "sval \<Rightarrow> jsstr \<Rightarrow> sval \<Rightarrow> jserr + sval" where
  "mset v k w = (if has_set v then Inr (iset v k w) else Inl (TypeError ''set is not a function''))"

definition got :: "sval \<Rightarrow> jsstr \<Rightarrow> sval" where
  "got v k = (case iget v k of None \<Rightarrow> SUndef | Some w \<Rightarrow> w)"

definition ivalues :: "sval \<Rightarrow> jserr + sval list" where
  "ivalues v =
     (case v of SList xs \<Rightarrow> Inr xs | SMap ps \<Rightarrow> Inr (map snd ps) | SSet xs \<Rightarrow> Inr xs | _ \<Rightarrow> Inl (TypeError ''not a function''))"

text \<open>\<^verbatim>\<open>v.map(f)\<close>.\<close>

definition imap :: "(sval \<Rightarrow> jserr + sval) \<Rightarrow> sval \<Rightarrow> jserr + sval" where
  "imap f v =
     rbind (ivalues v) (\<lambda>xs. rbind (map_result f xs) (\<lambda>ys.
       Inr (case v of SMap ps \<Rightarrow> SMap (zip (map fst ps) ys) | SSet _ \<Rightarrow> SSet (remdups ys) | _ \<Rightarrow> SList ys)))"

text \<open>
  The entries that \<^verbatim>\<open>merge\<close> takes from an argument. A list stands for its entries; a list whose elements are pairs
  themselves is no description and is not distinguished from the others.
\<close>

definition keyed :: "sval \<Rightarrow> jserr + fields" where
  "keyed v =
     (case v of
        SMap ps \<Rightarrow> Inr ps
      | SUndef \<Rightarrow> Inr []
      | SNull \<Rightarrow> Inr []
      | SObj ps \<Rightarrow> Inr (own_entries (map (map_prod id fromJS) ps))
      | SList [] \<Rightarrow> Inr []
      | SArr [] \<Rightarrow> Inr []
      | SSet [] \<Rightarrow> Inr []
      | _ \<Rightarrow> Inl (TypeError ''Expected [K, V] tuple''))"

primrec merge_maps :: "fields \<Rightarrow> sval list \<Rightarrow> jserr + fields" where
  "merge_maps ps [] = Inr ps"
| "merge_maps ps (v # vs) = rbind (keyed v) (\<lambda>qs. merge_maps (merge_fields ps qs) vs)"

section \<open>Selectors\<close>

text \<open>\<^verbatim>\<open>mergerFn\<close>, and \<^verbatim>\<open>mergeWith(mergerFn, ...)\<close> of two maps.\<close>

function mergerFn :: "sval \<Rightarrow> sval \<Rightarrow> sval" and mergeWith_fields :: "fields \<Rightarrow> fields \<Rightarrow> fields" where
  "mergerFn oldVal newVal =
     (case oldVal of
        SMap ps \<Rightarrow>
          (case newVal of
             SMap qs \<Rightarrow> if truthy (field qs (js ''$$ref'')) then newVal else SMap (mergeWith_fields ps qs)
           | _ \<Rightarrow> newVal)
      | _ \<Rightarrow> newVal)"
| "mergeWith_fields ps [] = ps"
| "mergeWith_fields ps ((k, v) # qs) =
     mergeWith_fields (prop_set ps k (case map_of ps k of None \<Rightarrow> v | Some w \<Rightarrow> mergerFn w v)) qs"
  by pat_completeness auto
termination
  by (relation "measure (\<lambda>x. case x of Inl (a, v) \<Rightarrow> size v | Inr (ps, qs) \<Rightarrow> size_list (size_prod (\<lambda>_. 0) size) qs)") auto

declare mergerFn.simps [simp del]

definition specJsonWithResolvedSubtrees :: "sval \<Rightarrow> jserr + sval" where
  "specJsonWithResolvedSubtrees state =
     rbind (mget (or_val state (SMap [])) (js ''json'')) (\<lambda>json.
     rbind (mget (or_val state (SMap [])) (js ''resolvedSubtrees'')) (\<lambda>subtrees.
     rbind (keyed json) (\<lambda>ps. rbind (keyed subtrees) (\<lambda>qs. Inr (SMap (mergeWith_fields (merge_fields [] ps) qs))))))"

type_synonym path_method = "jsstr \<times> jsstr"

definition op_path :: "path_method \<Rightarrow> jsstr list \<Rightarrow> jsstr list" where
  "op_path pm rest = [js ''paths'', fst pm, snd pm] @ rest"

definition meta_path :: "path_method \<Rightarrow> jsstr list \<Rightarrow> jsstr list" where
  "meta_path pm rest = js ''meta'' # op_path pm rest"

definition param_key :: "host \<Rightarrow> sval \<Rightarrow> sval \<Rightarrow> jsstr" where
  "param_key H name inn = str_of H name @ js ''.'' @ str_of H inn"

definition hash_key :: "host \<Rightarrow> (sval \<Rightarrow> int) \<Rightarrow> sval \<Rightarrow> sval \<Rightarrow> sval \<Rightarrow> jsstr" where
  "hash_key H hash param name inn = param_key H name inn @ js ''.hash-'' @ int_toString 10 (hash param)"

text \<open>One parameter of the description with what is known of \<open>param\<close>.\<close>

definition merge_param :: "host \<Rightarrow> (sval \<Rightarrow> int) \<Rightarrow> sval \<Rightarrow> sval \<Rightarrow> sval \<Rightarrow> jserr + sval" where
  "merge_param H hash metaParams param currentParam =
     rbind (mget param (js ''name'')) (\<lambda>name.
     rbind (mget param (js ''in'')) (\<lambda>inn.
     rbind (mget metaParams (param_key H name inn)) (\<lambda>nameInKeyedMeta.
     rbind (mget metaParams (hash_key H hash param name inn)) (\<lambda>hashKeyedMeta.
     rbind (merge_maps [] [currentParam, nameInKeyedMeta, hashKeyedMeta]) (\<lambda>ps. Inr (SMap ps))))))"

definition same_param :: "sval \<Rightarrow> sval \<Rightarrow> sval \<Rightarrow> bool" where
  "same_param inn name p \<longleftrightarrow> strict_eq (got p (js ''in'')) inn \<and> strict_eq (got p (js ''name'')) name"

text \<open>
  The second argument of \<^verbatim>\<open>find\<close> is the \<^verbatim>\<open>this\<close> of the predicate: where the source means a default, the result is
  \<^verbatim>\<open>undefined\<close>.
\<close>

definition find_value :: "(sval \<Rightarrow> bool) \<Rightarrow> sval list \<Rightarrow> sval" where
  "find_value p xs = (case find p xs of None \<Rightarrow> SUndef | Some x \<Rightarrow> x)"

definition parameterWithMetaByIdentity :: "host \<Rightarrow> (sval \<Rightarrow> int) \<Rightarrow> sval \<Rightarrow> path_method \<Rightarrow> sval \<Rightarrow> jserr + sval" where
  "parameterWithMetaByIdentity H hash state pm param =
     rbind (specJsonWithResolvedSubtrees state) (\<lambda>json.
     rbind (ivalues (getIn_or json (op_path pm [js ''parameters'']) (SMap []))) (\<lambda>opParams.
     let metaParams = getIn_or state (meta_path pm [js ''parameters'']) (SMap [])
     in rbind (map_result (merge_param H hash metaParams param) opParams) (\<lambda>mergedParams.
          Inr (find_value (same_param (got param (js ''in'')) (got param (js ''name''))) mergedParams))))"

primrec find_param :: "sval \<Rightarrow> sval \<Rightarrow> sval list \<Rightarrow> jserr + sval" where
  "find_param inn name [] = Inr SUndef"
| "find_param inn name (p # ps) =
     (if \<not> isImmutable p then Inl (TypeError ''get is not a function'')
      else if same_param inn name p then Inr p else find_param inn name ps)"

definition parameterWithMeta :: "host \<Rightarrow> (sval \<Rightarrow> int) \<Rightarrow> sval \<Rightarrow> path_method \<Rightarrow> sval \<Rightarrow> sval \<Rightarrow> jserr + sval" where
  "parameterWithMeta H hash state pm paramName paramIn =
     rbind (specJsonWithResolvedSubtrees state) (\<lambda>json.
     rbind (ivalues (getIn_or json (op_path pm [js ''parameters'']) (SMap []))) (\<lambda>opParams.
     rbind (find_param paramIn paramName opParams) (\<lambda>currentParam.
       parameterWithMetaByIdentity H hash state pm currentParam)))"

definition operationWithMeta :: "host \<Rightarrow> (sval \<Rightarrow> int) \<Rightarrow> sval \<Rightarrow> path_method \<Rightarrow> jserr + sval" where
  "operationWithMeta H hash state pm =
     rbind (specJsonWithResolvedSubtrees state) (\<lambda>json.
     let op = getIn_or json (op_path pm []) (SMap []); meta = getIn_or state (meta_path pm []) (SMap [])
     in rbind (mget_or op (js ''parameters'') (SList [])) (\<lambda>params.
        rbind (imap (parameterWithMetaByIdentity H hash state pm) params) (\<lambda>mergedParams.
        rbind (merge_maps [] [op, meta]) (\<lambda>ps. Inr (SMap (prop_set ps (js ''parameters'') mergedParams))))))"

definition parameterInclusionSettingFor :: "host \<Rightarrow> sval \<Rightarrow> path_method \<Rightarrow> sval \<Rightarrow> sval \<Rightarrow> sval" where
  "parameterInclusionSettingFor H state pm paramName paramIn =
     getIn_or state (meta_path pm [js ''parameter_inclusions'', param_key H paramName paramIn]) (SBool False)"

definition responseFor :: "sval \<Rightarrow> path_method \<Rightarrow> jserr + sval" where
  "responseFor state pm =
     rbind (mget_or (or_val state (SMap [])) (js ''responses'') (SMap [])) (\<lambda>r. Inr (getIn_or r [fst pm, snd pm] SNull))"

definition requestFor :: "sval \<Rightarrow> path_method \<Rightarrow> jserr + sval" where
  "requestFor state pm =
     rbind (mget_or (or_val state (SMap [])) (js ''requests'') (SMap [])) (\<lambda>r. Inr (getIn_or r [fst pm, snd pm] SNull))"

definition mutatedRequestFor :: "sval \<Rightarrow> path_method \<Rightarrow> jserr + sval" where
  "mutatedRequestFor state pm =
     rbind (mget_or (or_val state (SMap [])) (js ''mutatedRequests'') (SMap [])) (\<lambda>r. Inr (getIn_or r [fst pm, snd pm] SNull))"

definition findDefinition :: "sval \<Rightarrow> jsstr \<Rightarrow> sval" where
  "findDefinition state name =
     (let resolvedRes = getIn_or state [js ''resolvedSubtrees'', js ''definitions'', name] SNull;
          unresolvedRes = getIn_or state [js ''json'', js ''definitions'', name] SNull
      in or_val resolvedRes (or_val unresolvedRes SNull))"

text \<open>\<^verbatim>\<open>spec(state)\<close>, the description as it was loaded.\<close>

definition spec_of :: "sval \<Rightarrow> jserr + sval" where
  "spec_of state = mget_or (or_val state (SMap [])) (js ''json'') (SMap [])"

definition hasHost :: "sval \<Rightarrow> jserr + bool" where
  "hasHost state =
     rbind (spec_of state) (\<lambda>spec. rbind (mget spec (js ''host'')) (\<lambda>h.
       Inr (case h of SStr s \<Rightarrow> s \<noteq> [] \<and> hd s \<noteq> 47 | _ \<Rightarrow> False)))"

definition getParameter :: "sval \<Rightarrow> path_method \<Rightarrow> sval \<Rightarrow> sval \<Rightarrow> jserr + sval" where
  "getParameter state pm name inType =
     rbind (ivalues (getIn_or state (meta_path pm [js ''parameters'']) (SList []))) (\<lambda>params.
       Inr (or_val (find_value (\<lambda>p. case p of SMap ps \<Rightarrow> same_param inType name p | _ \<Rightarrow> False) params) (SMap [])))"

text \<open>The values of all parameters, by where they are sent and their names.\<close>

primrec parameter_values :: "host \<Rightarrow> bool \<Rightarrow> sval list \<Rightarrow> fields \<Rightarrow> jserr + fields" where
  "parameter_values H isXml [] hash = Inr hash"
| "parameter_values H isXml (p # ps) hash =
     rbind (mget p (js ''in'')) (\<lambda>inn. rbind (mget p (js ''name'')) (\<lambda>name.
       let value = got p (if isXml \<and> inn = SStr (js ''body'') then js ''value_xml'' else js ''value'')
       in parameter_values H isXml ps (prop_set hash (param_key H inn name) value)))"

definition parameterValues :: "host \<Rightarrow> (sval \<Rightarrow> int) \<Rightarrow> sval \<Rightarrow> path_method \<Rightarrow> bool \<Rightarrow> jserr + sval" where
  "parameterValues H hash state pm isXml =
     rbind (operationWithMeta H hash state pm) (\<lambda>op.
     rbind (ivalues (got op (js ''parameters''))) (\<lambda>params.
     rbind (parameter_values H isXml params []) (\<lambda>ps. Inr (SMap ps))))"

text \<open>Both functions return \<^verbatim>\<open>undefined\<close>, which counts as false, if the parameters are no list.\<close>

definition some_param :: "jsstr \<Rightarrow> jsstr \<Rightarrow> sval \<Rightarrow> bool" where
  "some_param k w parameters =
     (case parameters of
        SList xs \<Rightarrow> list_ex (\<lambda>p. case p of SMap ps \<Rightarrow> field ps k = SStr w | _ \<Rightarrow> False) xs
      | _ \<Rightarrow> False)"

definition parametersIncludeIn :: "sval \<Rightarrow> jsstr \<Rightarrow> bool" where
  "parametersIncludeIn parameters inValue = some_param (js ''in'') inValue parameters"

definition parametersIncludeType :: "sval \<Rightarrow> jsstr \<Rightarrow> bool" where
  "parametersIncludeType parameters typeValue = some_param (js ''type'') typeValue parameters"

definition currentProducesFor :: "sval \<Rightarrow> path_method \<Rightarrow> jserr + sval" where
  "currentProducesFor state pm =
     rbind (specJsonWithResolvedSubtrees state) (\<lambda>json.
     let operation = getIn_or json (op_path pm []) SNull
     in if operation = SNull then Inr SUndef
        else if \<not> isImmutable operation then Inl (TypeError ''getIn is not a function'')
        else
          let currentProducesValue = getIn_or state (meta_path pm [js ''produces_value'']) SNull;
              firstProducesArrayItem = getIn_or operation [js ''produces'', js ''0''] SNull
          in Inr (or_val currentProducesValue (or_val firstProducesArrayItem (SStr (js ''application/json'')))))"

text \<open>\<^verbatim>\<open>contentTypeValues\<close> asks for a parameter of the type \<^verbatim>\<open>formData\<close>.\<close>

definition contentTypeValues :: "sval \<Rightarrow> path_method \<Rightarrow> jserr + sval" where
  "contentTypeValues state pm =
     rbind (specJsonWithResolvedSubtrees state) (\<lambda>json.
     rbind (currentProducesFor state pm) (\<lambda>producesValue.
     rbind (mget (getIn_or json (op_path pm []) (SMap [])) (js ''parameters'')) (\<lambda>params.
     rbind (mget (getIn_or state (meta_path pm []) (SMap [])) (js ''consumes_value'')) (\<lambda>consumesValue.
       let parameters = or_val params (SList []);
           requestContentType =
             (if truthy consumesValue then consumesValue
              else if parametersIncludeType parameters (js ''file'') then SStr (js ''multipart/form-data'')
              else if parametersIncludeType parameters (js ''formData'') then SStr (js ''application/x-www-form-urlencoded'')
              else SUndef)
       in Inr (SMap [(js ''requestContentType'', fromJS requestContentType), (js ''responseContentType'', fromJS producesValue)])))))"

definition operationConsumes :: "sval \<Rightarrow> path_method \<Rightarrow> jserr + sval" where
  "operationConsumes state pm =
     rbind (specJsonWithResolvedSubtrees state) (\<lambda>json. Inr (getIn_or json (op_path pm [js ''consumes'']) (SMap [])))"

text \<open>\<^verbatim>\<open>url.match(/^([a-z][a-z0-9+\-.]*):/)\<close>.\<close>

definition lower_letter :: "16 word \<Rightarrow> bool" where
  "lower_letter c \<longleftrightarrow> 97 \<le> c \<and> c \<le> 122"

definition scheme_char :: "16 word \<Rightarrow> bool" where
  "scheme_char c \<longleftrightarrow> lower_letter c \<or> 48 \<le> c \<and> c \<le> 57 \<or> c \<in> {43, 45, 46}"

definition url_scheme :: "jsstr \<Rightarrow> jsstr option" where
  "url_scheme url =
     (let s = takeWhile scheme_char url; r = dropWhile scheme_char url
      in if s \<noteq> [] \<and> lower_letter (hd s) \<and> r \<noteq> [] \<and> hd r = 58 then Some s else None)"

definition operationScheme :: "sval \<Rightarrow> path_method \<Rightarrow> jserr + sval" where
  "operationScheme state pm =
     rbind (mget state (js ''url'')) (\<lambda>url.
       case url of
         SStr u \<Rightarrow>
           Inr (or_val (getIn_or state [js ''scheme'', fst pm, snd pm] SUndef)
             (or_val (getIn_or state [js ''scheme'', js ''_defaultScheme''] SUndef)
             (SStr (case url_scheme u of None \<Rightarrow> [] | Some s \<Rightarrow> s))))
       | _ \<Rightarrow> Inl (TypeError ''match is not a function''))"

definition canExecuteScheme :: "sval \<Rightarrow> path_method \<Rightarrow> jserr + bool" where
  "canExecuteScheme state pm =
     rbind (operationScheme state pm) (\<lambda>s. Inr (s = SStr (js ''http'') \<or> s = SStr (js ''https'')))"

text \<open>\<^verbatim>\<open>validateBeforeExecute\<close>: whether the list of errors of each parameter is empty.\<close>

definition has_errors :: "sval \<Rightarrow> jserr + bool" where
  "has_errors errors =
     (if truthy errors then rbind (ivalues errors) (\<lambda>es. Inr (es \<noteq> [])) else Inr False)"

primrec no_errors :: "sval list \<Rightarrow> jserr + bool" where
  "no_errors [] = Inr True"
| "no_errors (p # ps) =
     rbind (mget p (js ''errors'')) (\<lambda>errors.
     rbind (has_errors errors) (\<lambda>e. rbind (no_errors ps) (\<lambda>rest. Inr (\<not> e \<and> rest))))"

definition validateBeforeExecute :: "sval \<Rightarrow> path_method \<Rightarrow> jserr + bool" where
  "validateBeforeExecute state pm =
     rbind (ivalues (getIn_or state (meta_path pm [js ''parameters'']) (SList []))) no_errors"

section \<open>Reducers\<close>

datatype spec_action =
    UpdateSpec sval | UpdateUrl sval | UpdateJson sval | UpdateResolved sval | UpdateResolvedSubtree "jsstr list" sval
  | UpdateParam path_method sval sval sval sval bool
  | UpdateEmptyParamInclusion path_method sval sval sval
  | ValidateParams path_method bool | ClearValidateParams path_method
  | SetResponse fields path_method | SetRequest sval path_method | SetMutatedRequest sval path_method
  | UpdateOperationMetaValue path_method sval jsstr
  | ClearResponse path_method | ClearRequest path_method
  | SetScheme sval "jsstr option" "jsstr option"

definition update_param ::
  "host \<Rightarrow> (sval \<Rightarrow> int) \<Rightarrow> sval \<Rightarrow> path_method \<Rightarrow> sval \<Rightarrow> sval \<Rightarrow> sval \<Rightarrow> sval \<Rightarrow> bool \<Rightarrow> jserr + sval" where
  "update_param H hash state pm paramName paramIn param value isXml =
     (let paramKey =
            (if isImmutable param \<and> \<not> truthy paramIn \<and> \<not> truthy paramName
             then hash_key H hash param (got param (js ''name'')) (got param (js ''in''))
             else param_key H paramName paramIn);
          valueKey = (if isXml then js ''value_xml'' else js ''value'')
      in setIn state (meta_path pm [js ''parameters'', paramKey, valueKey]) value)"

text \<open>\<^verbatim>\<open>/xml/i.test(v)\<close>.\<close>

definition lower_ascii :: "16 word \<Rightarrow> 16 word" where
  "lower_ascii c = (if 65 \<le> c \<and> c \<le> 90 then c + 32 else c)"

definition mentions_xml :: "host \<Rightarrow> sval \<Rightarrow> bool" where
  "mentions_xml H v = contains_text (js ''xml'') (map lower_ascii (str_of H v))"

fun error_value :: "param_error \<Rightarrow> sval" where
  "error_value (Message m) = SStr m"
| "error_value (At i m) = SMap [(js ''index'', SNum (IntN (int i))), (js ''error'', SStr m)]"

definition validate_one :: "host \<Rightarrow> bool \<Rightarrow> bool \<Rightarrow> sval \<Rightarrow> sval \<Rightarrow> jserr + sval" where
  "validate_one H isXml isOAS3 res param =
     (case param of
        SMap ps \<Rightarrow>
          rbind (validateParam H ps isXml isOAS3) (\<lambda>errors.
            setIn res [param_key H (field ps (js ''name'')) (field ps (js ''in'')), js ''errors''] (SList (map error_value errors)))
      | _ \<Rightarrow> Inl (TypeError ''get is not a function''))"

primrec validate_all :: "host \<Rightarrow> bool \<Rightarrow> bool \<Rightarrow> sval list \<Rightarrow> sval \<Rightarrow> jserr + sval" where
  "validate_all H isXml isOAS3 [] res = Inr res"
| "validate_all H isXml isOAS3 (p # ps) res = rbind (validate_one H isXml isOAS3 res p) (validate_all H isXml isOAS3 ps)"

definition is_xml :: "host \<Rightarrow> sval \<Rightarrow> path_method \<Rightarrow> jserr + bool" where
  "is_xml H state pm =
     rbind (mget (getIn_or state (meta_path pm []) (SMap [])) (js ''consumes_value'')) (\<lambda>v. Inr (mentions_xml H v))"

definition validate_params :: "host \<Rightarrow> (sval \<Rightarrow> int) \<Rightarrow> sval \<Rightarrow> path_method \<Rightarrow> bool \<Rightarrow> jserr + sval" where
  "validate_params H hash state pm isOAS3 =
     rbind (is_xml H state pm) (\<lambda>isXml.
     rbind (operationWithMeta H hash state pm) (\<lambda>op.
       updateIn_or state (meta_path pm [js ''parameters'']) (SMap []) (\<lambda>paramMeta.
         rbind (ivalues (got op (js ''parameters''))) (\<lambda>params. validate_all H isXml isOAS3 params paramMeta))))"

definition clear_validate_params :: "sval \<Rightarrow> path_method \<Rightarrow> jserr + sval" where
  "clear_validate_params state pm =
     updateIn_or state (meta_path pm [js ''parameters'']) (SList []) (imap (\<lambda>param. mset param (js ''errors'') (SList [])))"

text \<open>A property of a value that may be \<^verbatim>\<open>undefined\<close>.\<close>

definition prop_of :: "sval \<Rightarrow> jsstr \<Rightarrow> jserr + sval" where
  "prop_of v k =
     (case v of
        SUndef \<Rightarrow> Inl (TypeError ''property of undefined'')
      | SNull \<Rightarrow> Inl (TypeError ''property of null'')
      | SObj ps \<Rightarrow> Inr (field ps k)
      | _ \<Rightarrow> Inr SUndef)"

definition response_result :: "fields \<Rightarrow> jserr + fields" where
  "response_result res =
     (if truthy (field res (js ''error'')) then
        rbind (prop_of (field res (js ''err'')) (js ''name'')) (\<lambda>name.
        rbind (prop_of (field res (js ''err'')) (js ''message'')) (\<lambda>message.
        rbind (prop_of (field res (js ''err'')) (js ''statusCode'')) (\<lambda>statusCode.
        rbind (prop_of (field res (js ''err'')) (js ''response'')) (\<lambda>response.
          Inr (copy_fields [(js ''error'', SBool True), (js ''name'', name), (js ''message'', message), (js ''statusCode'', statusCode)]
            (source_fields response))))))
      else Inr res)"

text \<open>The data of a response that are a \<^verbatim>\<open>Blob\<close> are a file here.\<close>

definition set_response :: "sval \<Rightarrow> fields \<Rightarrow> path_method \<Rightarrow> jserr + sval" where
  "set_response state res pm =
     rbind (response_result res) (\<lambda>result.
     rbind (setIn state [js ''responses'', fst pm, snd pm]
              (fromJSOrdered (SObj (prop_set result (js ''headers'') (or_val (field result (js ''headers'')) (SObj [])))))) (\<lambda>newState.
       case field res (js ''data'') of
         SFile n \<Rightarrow> setIn newState [js ''responses'', fst pm, snd pm, js ''text''] (SFile n)
       | _ \<Rightarrow> Inr newState))"

definition update_operation_meta :: "sval \<Rightarrow> path_method \<Rightarrow> sval \<Rightarrow> jsstr \<Rightarrow> jserr + sval" where
  "update_operation_meta state pm value key =
     (if list_all (\<lambda>k. \<not> truthy (getIn_or state (k # op_path pm []) SUndef)) [js ''json'', js ''resolved'', js ''resolvedSubtrees'']
      then Inr state
      else setIn state (meta_path pm [key]) (fromJS value))"

definition given :: "jsstr option \<Rightarrow> bool" where
  "given p \<longleftrightarrow> p \<noteq> None \<and> p \<noteq> Some []"

text \<open>\<^verbatim>\<open>SET_SCHEME\<close> with a path but no method, or a method but no path, returns nothing.\<close>

definition set_scheme :: "sval \<Rightarrow> sval \<Rightarrow> jsstr option \<Rightarrow> jsstr option \<Rightarrow> jserr + sval" where
  "set_scheme state scheme path method =
     (if given path \<and> given method then setIn state [js ''scheme'', the path, the method] scheme
      else if \<not> given path \<and> \<not> given method then setIn state [js ''scheme'', js ''_defaultScheme''] scheme
      else Inr SUndef)"

fun spec_reducer :: "host \<Rightarrow> (sval \<Rightarrow> int) \<Rightarrow> sval \<Rightarrow> spec_action \<Rightarrow> jserr + sval" where
  "spec_reducer H hash state (UpdateSpec v) = (case v of SStr s \<Rightarrow> mset state (js ''spec'') v | _ \<Rightarrow> Inr state)"
| "spec_reducer H hash state (UpdateUrl v) = mset state (js ''url'') (SStr (str_of H v))"
| "spec_reducer H hash state (UpdateJson v) = mset state (js ''json'') (fromJSOrdered v)"
| "spec_reducer H hash state (UpdateResolved v) = setIn state [js ''resolved''] (fromJSOrdered v)"
| "spec_reducer H hash state (UpdateResolvedSubtree path v) = setIn state (js ''resolvedSubtrees'' # path) (fromJSOrdered v)"
| "spec_reducer H hash state (UpdateParam pm name inn param value isXml) = update_param H hash state pm name inn param value isXml"
| "spec_reducer H hash state (UpdateEmptyParamInclusion pm name inn incl) =
     (if \<not> truthy name \<or> \<not> truthy inn then Inr state
      else setIn state (meta_path pm [js ''parameter_inclusions'', param_key H name inn]) incl)"
| "spec_reducer H hash state (ValidateParams pm isOAS3) = validate_params H hash state pm isOAS3"
| "spec_reducer H hash state (ClearValidateParams pm) = clear_validate_params state pm"
| "spec_reducer H hash state (SetResponse res pm) = set_response state res pm"
| "spec_reducer H hash state (SetRequest req pm) = setIn state [js ''requests'', fst pm, snd pm] (fromJSOrdered req)"
| "spec_reducer H hash state (SetMutatedRequest req pm) = setIn state [js ''mutatedRequests'', fst pm, snd pm] (fromJSOrdered req)"
| "spec_reducer H hash state (UpdateOperationMetaValue pm value key) = update_operation_meta state pm value key"
| "spec_reducer H hash state (ClearResponse pm) = deleteIn state [js ''responses'', fst pm, snd pm]"
| "spec_reducer H hash state (ClearRequest pm) = deleteIn state [js ''requests'', fst pm, snd pm]"
| "spec_reducer H hash state (SetScheme scheme path method) = set_scheme state scheme path method"

section \<open>What the selectors return\<close>

lemma updateIn_or_maps:
  assumes "\<forall>v. t = Some v \<longrightarrow> map_path path v"
    and "f (case Option.bind t (\<lambda>v. getIn v path) of None \<Rightarrow> d | Some v \<Rightarrow> v) = Inr w"
  shows "\<exists>t'. updateIn path t (Some d) (\<lambda>u. rbind (f (case u of None \<Rightarrow> d | Some w \<Rightarrow> w)) (\<lambda>w. Inr (Some w))) = Inr t' \<and>
    (case Option.bind t' (\<lambda>v. getIn v path) of None \<Rightarrow> d | Some v \<Rightarrow> v) = w \<and> (t \<noteq> None \<longrightarrow> t' \<noteq> None)"
  using assms
proof (induction path arbitrary: t)
  case Nil
  then show ?case by (cases t) (auto simp: Let_def)
next
  case (Cons k ks)
  let ?g = "\<lambda>u. rbind (f (case u of None \<Rightarrow> d | Some w \<Rightarrow> w)) (\<lambda>w. Inr (Some w))"
  let ?c = "Option.bind t (\<lambda>v. iget v k)"
  obtain ps where t: "t = None \<and> ps = [] \<or> t = Some (SMap ps)"
    using Cons.prems(1) by (cases t) (auto split: sval.splits)
  have sub: "\<forall>v. ?c = Some v \<longrightarrow> map_path ks v" using Cons.prems(1) t by auto
  have get: "Option.bind t (\<lambda>v. getIn v (k # ks)) = Option.bind ?c (\<lambda>v. getIn v ks)" by (cases t) auto
  obtain c' where c': "updateIn ks ?c (Some d) ?g = Inr c'"
    "(case Option.bind c' (\<lambda>v. getIn v ks) of None \<Rightarrow> d | Some v \<Rightarrow> v) = w" "?c \<noteq> None \<longrightarrow> c' \<noteq> None"
    using Cons.IH [OF sub] Cons.prems(2) get by metis
  have set: "(case t of None \<Rightarrow> True | Some v \<Rightarrow> has_set v)" "(case t of None \<Rightarrow> SMap [] | Some v \<Rightarrow> v) = SMap ps"
    using t by auto
  show ?case
  proof (cases "c' = ?c")
    case True
    then show ?thesis using c' set(1) get by (auto simp: Let_def)
  next
    case False
    then obtain w' where "c' = Some w'" using c'(3) by (cases c') auto
    then show ?thesis using c'(1,2) set False by (auto simp: Let_def)
  qed
qed

lemma updateIn_or_get:
  assumes "map_path path s" and "f (getIn_or s path d) = Inr w"
  shows "\<exists>s'. updateIn_or s path d f = Inr s' \<and> getIn_or s' path d = w"
proof -
  obtain t' where "updateIn path (Some s) (Some d) (\<lambda>u. rbind (f (case u of None \<Rightarrow> d | Some w \<Rightarrow> w)) (\<lambda>w. Inr (Some w))) = Inr (Some t')"
    "(case getIn t' path of None \<Rightarrow> d | Some v \<Rightarrow> v) = w"
    using updateIn_or_maps [of "Some s" path f d w] assms by (auto simp: getIn_or_def)
  then show ?thesis by (simp add: updateIn_or_def whole_def getIn_or_def)
qed

text \<open>What has been entered for the parameters of an operation.\<close>

definition entry_ok :: "sval \<Rightarrow> bool" where
  "entry_ok v =
     (case v of SMap es \<Rightarrow> (case field es (js ''errors'') of SUndef \<Rightarrow> True | SList xs \<Rightarrow> True | _ \<Rightarrow> False) | _ \<Rightarrow> False)"

definition entries_ok :: "fields \<Rightarrow> bool" where
  "entries_ok qs \<longleftrightarrow> distinct (map fst qs) \<and> list_all (\<lambda>(k, v). entry_ok v) qs"

definition clean :: "sval \<Rightarrow> bool" where
  "clean v \<longleftrightarrow> (case got v (js ''errors'') of SList (x # xs) \<Rightarrow> False | _ \<Rightarrow> True)"

lemma no_errors_clean:
  "list_all entry_ok vs \<Longrightarrow> no_errors vs = Inr (list_all clean vs)"
  by (induction vs)
    (auto simp: entry_ok_def clean_def mget_def isImmutable_def got_def field_def has_errors_def ivalues_def
      split: sval.splits option.splits list.splits)

lemma prop_set_same: "map_of ps k = Some v \<Longrightarrow> prop_set ps k v = ps"
  by (induction ps k v rule: prop_set.induct) (auto split: if_splits)

lemma fst_prop_set: "map fst (prop_set ps k v) = (if k \<in> fst ` set ps then map fst ps else map fst ps @ [k])"
  by (induction ps k v rule: prop_set.induct) auto

lemma set_entry:
  assumes "entries_ok qs"
  shows "\<exists>es. setIn (SMap qs) [k, js ''errors''] w = Inr (SMap (prop_set qs k (SMap es))) \<and> field es (js ''errors'') = w"
proof (cases "map_of qs k")
  case None
  then show ?thesis by (auto simp: setIn_def whole_def Let_def field_def)
next
  case (Some v)
  then have "entry_ok v" using assms map_of_SomeD [OF Some] by (auto simp: entries_ok_def list_all_iff)
  then obtain es where es: "v = SMap es" by (cases v) (auto simp: entry_ok_def)
  have "setIn (SMap qs) [k, js ''errors''] w = Inr (SMap (prop_set qs k (SMap (prop_set es (js ''errors'') w))))"
  proof (cases "map_of es (js ''errors'') = Some w")
    case True
    then show ?thesis using Some es prop_set_same [of qs k] prop_set_same [of es "js ''errors''" w]
      by (simp add: setIn_def whole_def Let_def)
  next
    case False
    then show ?thesis using Some es prop_set_same [of qs k]
      by (cases "map_of es (js ''errors'')") (auto simp: setIn_def whole_def Let_def)
  qed
  then show ?thesis by auto
qed

lemma entries_set:
  assumes "entries_ok qs" "field es (js ''errors'') = SList xs"
  shows "entries_ok (prop_set qs k (SMap es))"
proof -
  have "set (prop_set qs k (SMap es)) \<subseteq> insert (k, SMap es) (set qs)"
    by (induction qs k "SMap es" rule: prop_set.induct) auto
  moreover have "entry_ok (SMap es)" using assms(2) by (simp add: entry_ok_def)
  ultimately have "list_all (\<lambda>(k, v). entry_ok v) (prop_set qs k (SMap es))"
    using assms(1) by (auto simp: entries_ok_def list_all_iff)
  then show ?thesis using assms(1) by (auto simp: entries_ok_def fst_prop_set)
qed

definition key_of :: "host \<Rightarrow> fields \<Rightarrow> jsstr" where
  "key_of H ps = param_key H (field ps (js ''name'')) (field ps (js ''in''))"

text \<open>The errors that validating the parameters \<open>pss\<close> leaves.\<close>

lemma validate_all_entries:
  assumes "entries_ok qs" and "\<forall>ps \<in> set pss. validateParam H ps x o3 = Inr (e ps)" and "distinct (map (key_of H) pss)"
  shows "\<exists>qs'. validate_all H x o3 (map SMap pss) (SMap qs) = Inr (SMap qs') \<and> entries_ok qs'
    \<and> (\<forall>k. k \<notin> key_of H ` set pss \<longrightarrow> map_of qs' k = map_of qs k)
    \<and> (\<forall>ps \<in> set pss. \<exists>fs. map_of qs' (key_of H ps) = Some (SMap fs) \<and> field fs (js ''errors'') = SList (map error_value (e ps)))"
  using assms
proof (induction pss arbitrary: qs)
  case (Cons ps pss)
  let ?w = "SList (map error_value (e ps))"
  obtain es where es: "setIn (SMap qs) [key_of H ps, js ''errors''] ?w = Inr (SMap (prop_set qs (key_of H ps) (SMap es)))"
    "field es (js ''errors'') = ?w" using set_entry [OF Cons.prems(1)] by blast
  let ?qs = "prop_set qs (key_of H ps) (SMap es)"
  have ok: "entries_ok ?qs" using entries_set Cons.prems(1) es(2) by blast
  have one: "validate_one H x o3 (SMap qs) (SMap ps) = Inr (SMap ?qs)"
    using es(1) Cons.prems(2) by (simp add: validate_one_def key_of_def)
  have "\<forall>ps \<in> set pss. validateParam H ps x o3 = Inr (e ps)" "distinct (map (key_of H) pss)" using Cons.prems(2,3) by auto
  from Cons.IH [OF ok this] obtain qs' where qs': "validate_all H x o3 (map SMap pss) (SMap ?qs) = Inr (SMap qs')" "entries_ok qs'"
    "\<forall>k. k \<notin> key_of H ` set pss \<longrightarrow> map_of qs' k = map_of ?qs k"
    "\<forall>ps \<in> set pss. \<exists>fs. map_of qs' (key_of H ps) = Some (SMap fs) \<and> field fs (js ''errors'') = SList (map error_value (e ps))"
    by blast
  have "map_of qs' (key_of H ps) = Some (SMap es)" using qs'(3) Cons.prems(3) by auto
  then show ?case using one qs' es(2) by auto
qed auto

lemma clean_entries:
  assumes "entries_ok qs"
  shows "list_all clean (map snd qs) \<longleftrightarrow> (\<forall>k v. map_of qs k = Some v \<longrightarrow> clean v)"
  using assms by (auto simp: entries_ok_def list_all_iff dest: map_of_SomeD)

lemma clean_map: "clean (SMap fs) \<longleftrightarrow> (case field fs (js ''errors'') of SList (x # xs) \<Rightarrow> False | _ \<Rightarrow> True)"
  by (simp add: clean_def got_def field_def)

text \<open>C18: When the parameters of an operation are validated, \<^verbatim>\<open>validateBeforeExecute\<close> then
  says that it may be executed exactly if \<^verbatim>\<open>validateParam\<close> finds no error in any parameter, given that the parameters have
  different keys, what was entered for them are records and no record of another parameter holds errors.
\<close>
theorem validate_then_execute:
  assumes "is_xml H s pm = Inr x" and "operationWithMeta H hash s pm = Inr op"
    and "got op (js ''parameters'') = SList (map SMap pss)" and "distinct (map (key_of H) pss)"
    and "\<forall>ps \<in> set pss. \<exists>es. validateParam H ps x isOAS3 = Inr es"
    and "map_path (meta_path pm [js ''parameters'']) s"
    and "getIn_or s (meta_path pm [js ''parameters'']) (SMap []) = SMap qs" and "entries_ok qs"
    and "\<forall>k v. map_of qs k = Some v \<longrightarrow> k \<notin> key_of H ` set pss \<longrightarrow> clean v"
  shows "\<exists>s'. spec_reducer H hash s (ValidateParams pm isOAS3) = Inr s' \<and>
    validateBeforeExecute s' pm = Inr (\<forall>ps \<in> set pss. validateParam H ps x isOAS3 = Inr [])"
proof -
  let ?p = "meta_path pm [js ''parameters'']"
  obtain e where e: "\<forall>ps \<in> set pss. validateParam H ps x isOAS3 = Inr (e ps)" using assms(5) by metis
  obtain qs' where qs': "validate_all H x isOAS3 (map SMap pss) (SMap qs) = Inr (SMap qs')" "entries_ok qs'"
    "\<forall>k. k \<notin> key_of H ` set pss \<longrightarrow> map_of qs' k = map_of qs k"
    "\<forall>ps \<in> set pss. \<exists>fs. map_of qs' (key_of H ps) = Some (SMap fs) \<and> field fs (js ''errors'') = SList (map error_value (e ps))"
    using validate_all_entries [OF assms(8) e assms(4)] by blast
  obtain s' where s': "spec_reducer H hash s (ValidateParams pm isOAS3) = Inr s'" "getIn_or s' ?p (SMap []) = SMap qs'"
    using updateIn_or_get [OF assms(6), where d = "SMap []" and w = "SMap qs'" and
      f = "\<lambda>v. rbind (ivalues (got op (js ''parameters''))) (\<lambda>params. validate_all H x isOAS3 params v)"] assms(1,2,3,7) qs'(1)
    by (auto simp: validate_params_def ivalues_def)
  have own: "clean v \<longleftrightarrow> e ps = []" if "ps \<in> set pss" "map_of qs' (key_of H ps) = Some v" for ps v
  proof -
    note m = that
    obtain fs where "map_of qs' (key_of H ps) = Some (SMap fs)" "field fs (js ''errors'') = SList (map error_value (e ps))"
      using bspec [OF qs'(4) m(1)] by (elim exE conjE)
    then show ?thesis using m(2) by (cases "e ps") (auto simp: clean_map)
  qed
  have "list_all clean (map snd qs') \<longleftrightarrow> (\<forall>ps \<in> set pss. e ps = [])"
  proof
    assume "list_all clean (map snd qs')"
    then show "\<forall>ps \<in> set pss. e ps = []" using clean_entries [OF qs'(2)] own qs'(4) by metis
  next
    assume r: "\<forall>ps \<in> set pss. e ps = []"
    have "clean v" if "map_of qs' k = Some v" for k v
      using that own r qs'(3) assms(9) by (cases "k \<in> key_of H ` set pss") auto
    then show "list_all clean (map snd qs')" using clean_entries [OF qs'(2)] by blast
  qed
  moreover have "list_all entry_ok (map snd qs')" using qs'(2) by (auto simp: entries_ok_def list_all_iff)
  moreover have "getIn s' ?p = Some (SMap qs') \<or> getIn s' ?p = None \<and> qs' = []"
    using s'(2) by (auto simp: getIn_or_def split: option.splits)
  ultimately have "validateBeforeExecute s' pm = Inr (\<forall>ps \<in> set pss. e ps = [])"
    using no_errors_clean [of "map snd qs'"] by (auto simp: validateBeforeExecute_def getIn_or_def ivalues_def)
  then show ?thesis using s'(1) e by auto
qed

text \<open>An operation with two parameters, of which a value has been entered for the first.\<close>

definition sample_pm :: path_method where
  "sample_pm = (js ''/pay'', js ''post'')"

definition sample_params :: "fields list" where
  "sample_params =
     [[(js ''name'', SStr (js ''n'')), (js ''in'', SStr (js ''query'')), (js ''type'', SStr (js ''integer'')), (js ''value'', SStr (js ''7''))],
      [(js ''name'', SStr (js ''m'')), (js ''in'', SStr (js ''query'')), (js ''type'', SStr (js ''string'')), (js ''required'', SBool True)]]"

definition sample_spec :: sval where
  "sample_spec = SMap [
     (js ''json'', SMap [(js ''paths'', SMap [(js ''/pay'', SMap [(js ''post'', SMap [(js ''parameters'', SList [
        SMap [(js ''name'', SStr (js ''n'')), (js ''in'', SStr (js ''query'')), (js ''type'', SStr (js ''integer''))],
        SMap [(js ''name'', SStr (js ''m'')), (js ''in'', SStr (js ''query'')), (js ''type'', SStr (js ''string'')), (js ''required'', SBool True)]])])])])]),
     (js ''meta'', SMap [(js ''paths'', SMap [(js ''/pay'', SMap [(js ''post'', SMap [(js ''parameters'', SMap [
        (js ''n.query'', SMap [(js ''value'', SStr (js ''7''))])])])])])])]"

definition sample_entered :: fields where
  "sample_entered = [(js ''n.query'', SMap [(js ''value'', SStr (js ''7''))])]"

lemma sample_operation:
  "operationWithMeta plain_host (\<lambda>v. 0) sample_spec sample_pm = Inr (SMap [(js ''parameters'', SList (map SMap sample_params))])"
  by code_simp

theorem validate_then_execute_witness:
  "\<exists>s'. spec_reducer plain_host (\<lambda>v. 0) sample_spec (ValidateParams sample_pm False) = Inr s' \<and>
     validateBeforeExecute s' sample_pm = Inr False"
proof -
  have "list_all (\<lambda>ps. case validateParam plain_host ps False False of Inl e \<Rightarrow> False | Inr es \<Rightarrow> True) sample_params" by code_simp
  then have e: "\<forall>ps \<in> set sample_params. \<exists>es. validateParam plain_host ps False False = Inr es"
    by (auto simp: list_all_iff split: sum.splits) (metis sumE)
  have "\<exists>s'. spec_reducer plain_host (\<lambda>v. 0) sample_spec (ValidateParams sample_pm False) = Inr s' \<and>
     validateBeforeExecute s' sample_pm = Inr (\<forall>ps \<in> set sample_params. validateParam plain_host ps False False = Inr [])"
  proof (rule validate_then_execute [OF _ sample_operation _ _ e, where qs = sample_entered])
    show "is_xml plain_host sample_spec sample_pm = Inr False" by code_simp
    show "got (SMap [(js ''parameters'', SList (map SMap sample_params))]) (js ''parameters'') = SList (map SMap sample_params)"
      by (simp add: got_def)
    show "distinct (map (key_of plain_host) sample_params)" by code_simp
    show "map_path (meta_path sample_pm [js ''parameters'']) sample_spec" by code_simp
    show "getIn_or sample_spec (meta_path sample_pm [js ''parameters'']) (SMap []) = SMap sample_entered" by code_simp
    show "entries_ok sample_entered" by code_simp
    show "\<forall>k v. map_of sample_entered k = Some v \<longrightarrow> k \<notin> key_of plain_host ` set sample_params \<longrightarrow> clean v"
      by (auto simp: sample_entered_def clean_def got_def split: if_splits)
  qed
  moreover have "\<not> (\<forall>ps \<in> set sample_params. validateParam plain_host ps False False = Inr [])" by code_simp
  ultimately show ?thesis by simp
qed

section \<open>Responses of several operations\<close>

text \<open>What \<^verbatim>\<open>SET_RESPONSE\<close> stores for the result of a request.\<close>

definition shown_response :: "fields \<Rightarrow> sval" where
  "shown_response result = fromJSOrdered (SObj (prop_set result (js ''headers'') (or_val (field result (js ''headers'')) (SObj []))))"

definition has_blob :: "fields \<Rightarrow> bool" where
  "has_blob res = (case field res (js ''data'') of SFile n \<Rightarrow> True | _ \<Rightarrow> False)"

lemma set_response_setIn:
  assumes "response_result res = Inr q" and "\<not> has_blob res"
  shows "set_response s res pm = setIn s [js ''responses'', fst pm, snd pm] (shown_response q)"
proof -
  have "(case field res (js ''data'') of SFile n \<Rightarrow> f n | _ \<Rightarrow> y) = y" for f :: "nat \<Rightarrow> jserr + sval" and y
    using assms(2) by (auto simp: has_blob_def split: sval.splits)
  moreover have "rbind m Inr = m" for m :: "jserr + sval" by (cases m) auto
  ultimately show ?thesis using assms(1) by (simp add: set_response_def shown_response_def)
qed

lemma responseFor_get:
  assumes "getIn s [js ''responses'', fst pm, snd pm] = Some v"
  shows "responseFor s pm = Inr v"
proof -
  obtain r where r: "iget s (js ''responses'') = Some r" "getIn r [fst pm, snd pm] = Some v"
    using assms by (auto simp: bind_eq_Some_conv)
  then have "isImmutable s" "truthy s" by (cases s; simp add: isImmutable_def)+
  then show ?thesis using r by (simp add: responseFor_def mget_or_def or_val_def getIn_or_def)
qed

text \<open>C26: Requests run at the same time: the responses of two operations are stored one after
  the other, in whatever order they arrive, and afterwards each operation has its own. A request that failed is shown
  with the fields of its error.
\<close>
theorem responses_independent:
  assumes "map_path [js ''responses'', fst pm1, snd pm1] s" and "map_path [js ''responses'', fst pm2, snd pm2] s"
    and "pm1 \<noteq> pm2" and "response_result r1 = Inr q1" and "response_result r2 = Inr q2" and "\<not> has_blob r1" and "\<not> has_blob r2"
  shows "\<exists>s' s''. spec_reducer H hash s (SetResponse r1 pm1) = Inr s' \<and> spec_reducer H hash s' (SetResponse r2 pm2) = Inr s'' \<and>
    responseFor s'' pm1 = Inr (shown_response q1) \<and> responseFor s'' pm2 = Inr (shown_response q2)"
proof -
  have "\<not> prefix [js ''responses'', fst pm1, snd pm1] [js ''responses'', fst pm2, snd pm2]"
    "\<not> prefix [js ''responses'', fst pm2, snd pm2] [js ''responses'', fst pm1, snd pm1]"
    using assms(3) by (auto simp: prod_eq_iff)
  from immutable.two_writes [OF assms(1,2) this, of "shown_response q1" "shown_response q2"] show ?thesis
    using set_response_setIn [OF assms(4,6)] set_response_setIn [OF assms(5,7)]
    by (auto simp del: getIn.simps dest!: responseFor_get)
qed

theorem responses_independent_witness:
  "\<exists>s' s''. spec_reducer plain_host (\<lambda>v. 0) sample_spec (SetResponse [(js ''status'', SNum (IntN 200))] sample_pm) = Inr s' \<and>
     spec_reducer plain_host (\<lambda>v. 0) s' (SetResponse [(js ''error'', SBool True), (js ''err'', SObj [(js ''name'', SStr (js ''E''))])]
       (js ''/pay'', js ''get'')) = Inr s'' \<and>
     responseFor s'' sample_pm = Inr (shown_response [(js ''status'', SNum (IntN 200))]) \<and>
     responseFor s'' (js ''/pay'', js ''get'') = Inr (shown_response
       [(js ''error'', SBool True), (js ''name'', SStr (js ''E'')), (js ''message'', SUndef), (js ''statusCode'', SUndef)])"
  by (rule responses_independent) code_simp+

text \<open>A scheme for a path without a method takes the whole state away.\<close>

lemma scheme_without_method:
  "p \<noteq> [] \<Longrightarrow> spec_reducer H hash s (SetScheme v (Some p) None) = Inr SUndef"
  by (simp add: set_scheme_def given_def)

text \<open>A parameter that is not in the description has no metadata; the empty map meant as the result is not returned.\<close>

lemma parameterWithMeta_unknown:
  "parameterWithMeta plain_host (\<lambda>v. 0) sample_spec sample_pm (SStr (js ''z'')) (SStr (js ''query''))
     = Inl (TypeError ''get is not a function'')
   \<and> parameterWithMeta plain_host (\<lambda>v. 0) sample_spec (js ''/pay'', js ''get'') (SStr (js ''z'')) (SStr (js ''query'')) = Inr SUndef"
  by code_simp

text \<open>A parameter of a form does not make the content type that of a form.\<close>

lemma form_content_type:
  "contentTypeValues (SMap [(js ''json'', SMap [(js ''paths'', SMap [(js ''/pay'', SMap [(js ''post'', SMap [(js ''parameters'', SList [
     SMap [(js ''name'', SStr (js ''n'')), (js ''in'', SStr (js ''formData'')), (js ''type'', SStr (js ''string''))]])])])])])]) sample_pm
   = Inr (SMap [(js ''requestContentType'', SUndef), (js ''responseContentType'', SStr (js ''application/json''))])"
  by code_simp

end
