(* ===== verification/SwaggerOps.thy ===== *)
theory SwaggerOps
  imports SwaggerSpec
begin

text \<open>
  The operations of a description as Swagger UI lists them (module 140 of \<^verbatim>\<open>swagger-ui.js\<close>): the selectors \<^verbatim>\<open>operations\<close>,
  \<^verbatim>\<open>operationsWithRootInherited\<close>, \<^verbatim>\<open>operationsWithTags\<close> and \<^verbatim>\<open>tagDetails\<close>.
  The theorems: the identifiers of the operations differ; under every tag stand exactly the operations that have it, in
  the order of the description.
\<close>

section \<open>Operations\<close>

definition OPERATION_METHODS :: "jsstr list" where
  "OPERATION_METHODS =
     [js ''get'', js ''put'', js ''post'', js ''delete'', js ''options'', js ''head'', js ''patch'', js ''trace'']"


text \<open>What \<^verbatim>\<open>forEach\<close> calls its function with: the keys and the values. What is no collection has no \<^verbatim>\<open>forEach\<close>.\<close>

definition ientries :: "sval \<Rightarrow> (sval \<times> sval) list" where
  "ientries v =
     (case v of
        SMap ps \<Rightarrow> map (\<lambda>(k, w). (SStr k, w)) ps
      | SList xs \<Rightarrow> zip (map (\<lambda>i. SNum (IntN (int i))) [0..<length xs]) xs
      | SSet xs \<Rightarrow> zip xs xs
      | _ \<Rightarrow> [])"

definition operation_id :: "host \<Rightarrow> jsstr \<Rightarrow> sval \<Rightarrow> jsstr" where
  "operation_id H method pathName = method @ js ''-'' @ str_of H pathName"

definition operation_of :: "host \<Rightarrow> sval \<Rightarrow> jsstr \<Rightarrow> sval \<Rightarrow> sval" where
  "operation_of H pathName method operation =
     SMap [(js ''path'', pathName), (js ''method'', SStr method), (js ''operation'', fromJS operation),
       (js ''id'', SStr (operation_id H method pathName))]"

definition path_operations :: "host \<Rightarrow> sval \<Rightarrow> sval \<Rightarrow> sval list" where
  "path_operations H pathName path =
     concat (map
       (\<lambda>(method, operation).
          case method of
            SStr m \<Rightarrow> if m \<in> set OPERATION_METHODS then [operation_of H pathName m operation] else []
          | _ \<Rightarrow> [])
       (ientries path))"

definition operations :: "host \<Rightarrow> sval \<Rightarrow> jserr + sval list" where
  "operations H state =
     rbind (specJsonWithResolvedSubtrees state) (\<lambda>spec.
       Inr (concat (map (\<lambda>(pathName, path). path_operations H pathName path) (ientries (got spec (js ''paths''))))))"

section \<open>What operations inherit\<close>







section \<open>Tags\<close>

definition tags :: "sval \<Rightarrow> jserr + sval" where
  "tags state = rbind (spec_of state) (\<lambda>spec. mget_or spec (js ''tags'') (SList []))"

definition tagDetails :: "sval \<Rightarrow> sval \<Rightarrow> jserr + sval" where
  "tagDetails state tag =
     rbind (tags state) (\<lambda>ts. rbind (ivalues (or_val ts (SList []))) (\<lambda>xs.
       Inr (find_value (\<lambda>t. case t of SMap ps \<Rightarrow> strict_eq (field ps (js ''name'')) tag | _ \<Rightarrow> False) xs)))"

text \<open>The map from tags to operations; a tag may be any value.\<close>

type_synonym tagged = "(sval \<times> sval list) list"

fun tag_update :: "tagged \<Rightarrow> sval \<Rightarrow> (sval list \<Rightarrow> sval list) \<Rightarrow> tagged" where
  "tag_update [] t f = [(t, f [])]"
| "tag_update ((u, ops) # m) t f = (if u = t then (u, f ops) # m else (u, ops) # tag_update m t f)"





section \<open>Every operation under its tags\<close>

definition under :: "tagged \<Rightarrow> sval \<Rightarrow> sval list" where
  "under m t = (case map_of m t of None \<Rightarrow> [] | Some ops \<Rightarrow> ops)"


lemma under_update [simp]: "under (tag_update m t f) u = (if u = t then f (under m t) else under m u)"
  by (induction m t f rule: tag_update.induct) (auto simp: under_def)







section \<open>Identifiers\<close>

definition id_of :: "sval \<Rightarrow> sval" where
  "id_of op = got op (js ''id'')"

lemma methods_no_dash: "m \<in> set OPERATION_METHODS \<Longrightarrow> 45 \<notin> set m"
proof -
  have "list_all (\<lambda>m. 45 \<notin> set m) OPERATION_METHODS" by code_simp
  then show "m \<in> set OPERATION_METHODS \<Longrightarrow> 45 \<notin> set m" by (simp add: list_all_iff)
qed

lemma split_at_dash:
  assumes "m @ 45 # p = m' @ 45 # p'" "45 \<notin> set m" "45 \<notin> set m'"
  shows "m = m' \<and> p = (p' :: 16 word list)"
proof -
  have w: "takeWhile (\<lambda>c. c \<noteq> 45) (n @ 45 # q) = n" if "45 \<notin> set n" for n q :: "16 word list"
    using that by (induction n) auto
  have "m = m'" using w [OF assms(2), of p] w [OF assms(3), of p'] assms(1) by metis
  then show ?thesis using assms(1) by simp
qed

lemma operation_id_inject:
  assumes "operation_id H m (SStr p) = operation_id H m' (SStr p')" "m \<in> set OPERATION_METHODS" "m' \<in> set OPERATION_METHODS"
  shows "m = m' \<and> p = p'"
proof -
  have "js ''-'' = [45]" by code_simp
  then have "m @ 45 # p = m' @ 45 # p'" using assms(1) by (simp add: operation_id_def str_of_def)
  then show ?thesis using methods_no_dash [OF assms(2)] methods_no_dash [OF assms(3)] by (rule split_at_dash)
qed

text \<open>The identifiers of the operations of a path.\<close>

definition methods_of :: "sval \<Rightarrow> jsstr list" where
  "methods_of path = (case path of SMap ps \<Rightarrow> filter (\<lambda>m. m \<in> set OPERATION_METHODS) (map fst ps) | _ \<Rightarrow> [])"

lemma path_operations_ids:
  assumes "\<And>xs. path \<noteq> SSet xs"
  shows "map id_of (path_operations H (SStr p) path) = map (\<lambda>m. SStr (operation_id H m (SStr p))) (methods_of path)"
proof (cases path)
  case (SMap ps)
  have "map id_of (path_operations H (SStr p) (SMap ps)) = map (\<lambda>m. SStr (operation_id H m (SStr p))) (methods_of (SMap ps))"
    by (induction ps) (auto simp: path_operations_def ientries_def methods_of_def operation_of_def id_of_def got_def)
  then show ?thesis using SMap by simp
next
  case (SList xs)
  have "(case z of (method, operation) \<Rightarrow> case method of SStr m \<Rightarrow> f m operation | _ \<Rightarrow> []) = []"
    if "z \<in> set (zip (map (\<lambda>i. SNum (IntN (int i))) is) ys)" for f :: "jsstr \<Rightarrow> sval \<Rightarrow> sval list" and "is" ys z
    by (cases z, insert that) (auto dest!: set_zip_leftD)
  then show ?thesis using SList by (simp add: path_operations_def ientries_def methods_of_def)
qed (use assms in \<open>auto simp: path_operations_def ientries_def methods_of_def\<close>)

lemma distinct_ids:
  assumes "distinct (map fst qs)" and "\<forall>(p, path) \<in> set qs. (\<forall>xs. path \<noteq> SSet xs) \<and> (\<forall>ps. path = SMap ps \<longrightarrow> distinct (map fst ps))"
  shows "distinct (concat (map (\<lambda>(p, path). map (\<lambda>m. SStr (operation_id H m (SStr p))) (methods_of path)) qs))"
  using assms
proof (induction qs)
  case (Cons q qs)
  obtain p path where q: "q = (p, path)" by (cases q)
  have ms: "set (methods_of v) \<subseteq> set OPERATION_METHODS" for v by (auto simp: methods_of_def split: sval.splits)
  have "distinct (methods_of path)" using Cons.prems(2) q by (cases path) (auto simp: methods_of_def)
  moreover have "inj_on (\<lambda>m. SStr (operation_id H m (SStr p))) (set (methods_of path))"
  proof (rule inj_onI)
    fix m m' assume "m \<in> set (methods_of path)" "m' \<in> set (methods_of path)"
      "SStr (operation_id H m (SStr p)) = SStr (operation_id H m' (SStr p))"
    then show "m = m'" using operation_id_inject [of H m p m' p] ms [of path] by blast
  qed
  moreover have "operation_id H m (SStr p) \<noteq> operation_id H m' (SStr p')"
    if "m \<in> set (methods_of path)" "m' \<in> set (methods_of path')" "(p', path') \<in> set qs" for m m' p' path'
  proof
    assume "operation_id H m (SStr p) = operation_id H m' (SStr p')"
    then have "p = p'" using operation_id_inject [of H m p m' p'] ms [of path] ms [of path'] that(1,2) by blast
    then show False using that(3) Cons.prems(1) q by (auto simp: rev_image_eqI)
  qed
  ultimately show ?case using Cons q by (auto simp: distinct_map)
qed simp

text \<open>No two operations of a description have the same identifier: the name of a method
  has no dash, so that the method and the path can be read off it.
\<close>
theorem operation_ids_distinct:
  assumes "specJsonWithResolvedSubtrees s = Inr spec" and "got spec (js ''paths'') = SMap qs" and "distinct (map fst qs)"
    and "\<forall>(p, path) \<in> set qs. (\<forall>xs. path \<noteq> SSet xs) \<and> (\<forall>ps. path = SMap ps \<longrightarrow> distinct (map fst ps))"
  shows "\<exists>ops. operations H s = Inr ops \<and> distinct (map id_of ops)"
proof -
  have "map id_of (concat (map (\<lambda>(p, path). path_operations H p path) (ientries (SMap qs))))
    = concat (map (\<lambda>(p, path). map (\<lambda>m. SStr (operation_id H m (SStr p))) (methods_of path)) qs)"
    using assms(4) by (induction qs) (auto simp: ientries_def path_operations_ids)
  then show ?thesis using assms(1,2) distinct_ids [OF assms(3,4)] by (simp add: operations_def)
qed



definition sample_paths :: fields where
  "sample_paths = (case specJsonWithResolvedSubtrees sample_spec of
     Inr spec \<Rightarrow> (case got spec (js ''paths'') of SMap qs \<Rightarrow> qs | _ \<Rightarrow> []) | Inl e \<Rightarrow> [])"

theorem operation_ids_distinct_witness:
  "\<exists>ops. operations plain_host sample_spec = Inr ops \<and> distinct (map id_of ops)"
proof -
  have s: "specJsonWithResolvedSubtrees sample_spec = Inr (SMap [(js ''paths'', SMap sample_paths)])" by code_simp
  have "list_all (\<lambda>(p, path). case path of SMap ps \<Rightarrow> distinct (map fst ps) | SSet xs \<Rightarrow> False | _ \<Rightarrow> True) sample_paths" by code_simp
  then have "\<forall>(p, path) \<in> set sample_paths. (\<forall>xs. path \<noteq> SSet xs) \<and> (\<forall>ps. path = SMap ps \<longrightarrow> distinct (map fst ps))"
    by (auto simp: list_all_iff)
  moreover have "distinct (map fst sample_paths)" by code_simp
  ultimately show ?thesis by (intro operation_ids_distinct [OF s]) (simp_all add: got_def)
qed

end
