(* ===== verification/SwaggerAuth.thy ===== *)
theory SwaggerAuth
  imports SwaggerSpec
begin

text \<open>
  The plugin of Swagger UI for authorization (modules 240 to 242 of \<^verbatim>\<open>swagger-ui.js\<close>): its reducers and selectors, the
  helpers \<^verbatim>\<open>preauthorizeBasic\<close> and \<^verbatim>\<open>preauthorizeApiKey\<close>, and \<^verbatim>\<open>btoa\<close>, which encodes through a \<^verbatim>\<open>Buffer\<close>. \<open>ta\<close> says
  whether the host has typed arrays. Names of security schemes are strings.
  The theorems: the header of HTTP basic authentication decodes to the name and the password; who logs out is not
  authorized any more.
\<close>

section \<open>Reducers\<close>

definition btoa :: "bool \<Rightarrow> jsstr \<Rightarrow> jserr + jsstr" where
  "btoa ta str =
     rbind (fromString ta str (Str (js ''utf-8''))) (\<lambda>buffer. BufferStr.toString buffer (Some (Str (js ''base64''), Undefined, Undefined)))"

definition basic_header :: "host \<Rightarrow> bool \<Rightarrow> sval \<Rightarrow> sval \<Rightarrow> jserr + jsstr" where
  "basic_header H ta username password =
     rbind (btoa ta (str_of H username @ js '':'' @ str_of H password)) (\<lambda>b. Inr (js ''Basic '' @ b))"

definition authorize_one :: "host \<Rightarrow> bool \<Rightarrow> sval \<Rightarrow> jsstr \<Rightarrow> sval \<Rightarrow> jserr + sval" where
  "authorize_one H ta m key security =
     (if \<not> isImmutable security then Inl (TypeError ''getIn is not a function'')
      else
        let type = getIn_or security [js ''schema'', js ''type''] SUndef
        in if type = SStr (js ''apiKey'') \<or> type = SStr (js ''http'') then mset m key security
           else if type = SStr (js ''basic'') then
             let username = getIn_or security [js ''value'', js ''username''] SUndef;
                 password = getIn_or security [js ''value'', js ''password''] SUndef
             in rbind (basic_header H ta username password) (\<lambda>h.
                rbind (setIn m [key, js ''value''] (SObj [(js ''username'', username), (js ''header'', SStr h)])) (\<lambda>m'.
                  setIn m' [key, js ''schema''] (got security (js ''schema''))))
           else Inr m)"

primrec authorize_all :: "host \<Rightarrow> bool \<Rightarrow> fields \<Rightarrow> sval \<Rightarrow> jserr + sval" where
  "authorize_all H ta [] m = Inr m"
| "authorize_all H ta (e # es) m =
     rbind (authorize_one H ta m (fst e) (snd e)) (\<lambda>m'. authorize_all H ta es m')"

datatype auth_action =
    ShowAuthPopup sval | Authorize fields | AuthorizeOauth2 fields sval | Logout "jsstr list" | ConfigureAuth sval

definition authorize :: "host \<Rightarrow> bool \<Rightarrow> sval \<Rightarrow> fields \<Rightarrow> jserr + sval" where
  "authorize H ta state payload =
     rbind (mget state (js ''authorized'')) (\<lambda>a.
     rbind (authorize_all H ta (own_entries (map (map_prod id fromJS) payload)) (or_val a (SMap []))) (\<lambda>m.
       mset state (js ''authorized'') m))"

definition authorize_oauth2 :: "sval \<Rightarrow> fields \<Rightarrow> sval \<Rightarrow> jserr + sval" where
  "authorize_oauth2 state auth token =
     (let parsedAuth = fromJS (SObj (prop_set auth (js ''token'') (SObj (copy_fields [] (source_fields token)))))
      in case got parsedAuth (js ''name'') of
           SStr name \<Rightarrow> setIn state [js ''authorized'', name] parsedAuth
         | _ \<Rightarrow> Inl (PlainError ''no name''))"

definition logout :: "sval \<Rightarrow> jsstr list \<Rightarrow> jserr + sval" where
  "logout state payload =
     rbind (mget state (js ''authorized'')) (\<lambda>a.
       case a of
         SMap m \<Rightarrow> mset state (js ''authorized'') (SMap (fold (\<lambda>k m. prop_delete m k) payload m))
       | _ \<Rightarrow> Inl (TypeError ''withMutations is not a function''))"

fun auth_reducer :: "host \<Rightarrow> bool \<Rightarrow> sval \<Rightarrow> auth_action \<Rightarrow> jserr + sval" where
  "auth_reducer H ta state (ShowAuthPopup v) = mset state (js ''showDefinitions'') v"
| "auth_reducer H ta state (Authorize payload) = authorize H ta state payload"
| "auth_reducer H ta state (AuthorizeOauth2 auth token) = authorize_oauth2 state auth token"
| "auth_reducer H ta state (Logout payload) = logout state payload"
| "auth_reducer H ta state (ConfigureAuth v) = mset state (js ''configs'') v"

section \<open>Selectors\<close>

definition authorized :: "sval \<Rightarrow> jserr + sval" where
  "authorized state = rbind (mget state (js ''authorized'')) (\<lambda>a. Inr (or_val a (SMap [])))"

text \<open>The definitions, each as a map of its own, and those that one of the requirements mentions.\<close>

definition definitionsToAuthorize :: "sval \<Rightarrow> jserr + sval list" where
  "definitionsToAuthorize securityDefinitions =
     (case or_val securityDefinitions (SMap []) of
        SMap ps \<Rightarrow> Inr (map (\<lambda>(key, val). SMap [(key, val)]) ps)
      | _ \<Rightarrow> Inl (TypeError ''entrySeq is not a function''))"

primrec mentioned :: "jsstr \<Rightarrow> sval list \<Rightarrow> jserr + bool" where
  "mentioned key [] = Inr False"
| "mentioned key (sec # secs) = rbind (mget sec key) (\<lambda>v. if truthy v then Inr True else mentioned key secs)"

primrec needed :: "sval list \<Rightarrow> fields \<Rightarrow> jserr + sval list" where
  "needed securities [] = Inr []"
| "needed securities (d # defs) =
     rbind (mentioned (fst d) securities) (\<lambda>b. rbind (needed securities defs) (\<lambda>r. Inr (if b then SMap [d] # r else r)))"

definition definitionsForRequirements :: "sval \<Rightarrow> sval list \<Rightarrow> jserr + sval list" where
  "definitionsForRequirements securityDefinitions securities =
     (case or_val securityDefinitions (SMap []) of
        SMap ps \<Rightarrow> needed securities ps
      | _ \<Rightarrow> Inl (TypeError ''entrySeq is not a function''))"

definition satisfied :: "sval \<Rightarrow> sval \<Rightarrow> jserr + bool" where
  "satisfied auth security =
     (case security of
        SUndef \<Rightarrow> Inl (TypeError ''Cannot convert undefined or null to object'')
      | SNull \<Rightarrow> Inl (TypeError ''Cannot convert undefined or null to object'')
      | v \<Rightarrow>
          (if source_fields v \<noteq> [] \<and> \<not> isImmutable auth then Inl (TypeError ''get is not a function'')
           else Inr (list_all (\<lambda>key. truthy (got auth key)) (map fst (source_fields v)))))"

primrec some_satisfied :: "sval \<Rightarrow> sval list \<Rightarrow> jserr + bool" where
  "some_satisfied auth [] = Inr False"
| "some_satisfied auth (sec # secs) =
     rbind (satisfied auth sec) (\<lambda>b. rbind (some_satisfied auth secs) (\<lambda>c. Inr (b \<or> c)))"

definition isAuthorized :: "sval \<Rightarrow> sval \<Rightarrow> jserr + sval" where
  "isAuthorized state securities =
     rbind (authorized state) (\<lambda>auth.
       case securities of
         SList secs \<Rightarrow> rbind (some_satisfied auth (map toJS secs)) (\<lambda>b. Inr (SBool b))
       | _ \<Rightarrow> Inr SNull)"

section \<open>Helpers for pages\<close>

definition definition_base :: "bool \<Rightarrow> jsstr list" where
  "definition_base isOAS3 = (if isOAS3 then [js ''components'', js ''securitySchemes''] else [js ''securityDefinitions''])"

definition preauthorizeBasic :: "bool \<Rightarrow> sval \<Rightarrow> jsstr \<Rightarrow> sval \<Rightarrow> sval \<Rightarrow> auth_action option" where
  "preauthorizeBasic isOAS3 specJson key username password =
     (let schema = getIn_or specJson (definition_base isOAS3 @ [key]) SUndef
      in if \<not> truthy schema then None
         else Some (Authorize [(key, SObj [
           (js ''value'', SObj [(js ''username'', username), (js ''password'', password)]), (js ''schema'', toJS schema)])]))"

definition preauthorizeApiKey :: "bool \<Rightarrow> sval \<Rightarrow> jsstr \<Rightarrow> sval \<Rightarrow> auth_action option" where
  "preauthorizeApiKey isOAS3 specJson key value =
     (let schema = getIn_or specJson (definition_base isOAS3 @ [key]) SUndef
      in if \<not> truthy schema then None
         else Some (Authorize [(key, SObj [(js ''value'', value), (js ''schema'', toJS schema)])]))"

section \<open>Logging out\<close>

lemma map_of_fold_delete:
  "map_of (fold (\<lambda>k m. prop_delete m k) ks m) k = (if k \<in> set ks then None else map_of m k)"
  by (induction ks arbitrary: m) auto

lemma some_satisfied_iff:
  "isImmutable auth \<Longrightarrow> list_all (\<lambda>sec. sec \<noteq> SUndef \<and> sec \<noteq> SNull) secs \<Longrightarrow>
   some_satisfied auth secs = Inr (\<exists>sec \<in> set secs. \<forall>key \<in> fst ` set (source_fields sec). truthy (got auth key))"
  by (induction secs) (auto simp: satisfied_def list_all_iff split: sval.splits)

text \<open>After \<^verbatim>\<open>logout(names)\<close>, which changes no other authorization, a list of requirements each of
  which needs one of these names is not met: \<^verbatim>\<open>isAuthorized\<close> returns false, whatever was authorized before.
\<close>
theorem logout_revokes:
  assumes "iget s (js ''authorized'') = Some (SMap m)" and "has_set s" and "\<forall>xs. s \<noteq> SList xs"
    and "\<forall>ps \<in> set reqs. \<exists>k \<in> set ns. k \<in> fst ` set ps"
  shows "\<exists>s' m'. auth_reducer H ta s (Logout ns) = Inr s' \<and> authorized s' = Inr (SMap m') \<and>
    (\<forall>k. map_of m' k = (if k \<in> set ns then None else map_of m k)) \<and>
    isAuthorized s' (SList (map SMap reqs)) = Inr (SBool False)"
proof -
  let ?m = "fold (\<lambda>k m. prop_delete m k) ns m"
  obtain ss where s: "s = SMap ss" using assms(2,3) by (cases s) auto
  let ?s = "SMap (prop_set ss (js ''authorized'') (SMap ?m))"
  have r: "auth_reducer H ta s (Logout ns) = Inr ?s" using assms(1) s by (simp add: logout_def mget_def isImmutable_def mset_def)
  have a: "authorized ?s = Inr (SMap ?m)" by (simp add: authorized_def mget_def isImmutable_def or_val_def)
  have "\<not> truthy (got (SMap ?m) k)" if "k \<in> set ns" for k using that by (simp add: got_def map_of_fold_delete)
  then have "\<not> (\<exists>sec \<in> set (map toJS (map SMap reqs)). \<forall>key \<in> fst ` set (source_fields sec). truthy (got (SMap ?m) key))"
    using assms(4) by (fastforce simp: source_fields_def image_image)
  moreover have "list_all (\<lambda>sec. sec \<noteq> SUndef \<and> sec \<noteq> SNull) (map toJS (map SMap reqs))" by (simp add: list_all_iff)
  moreover have "isImmutable (SMap ?m)" by (simp add: isImmutable_def)
  ultimately have "isAuthorized ?s (SList (map SMap reqs)) = Inr (SBool False)"
    using a some_satisfied_iff by (simp add: isAuthorized_def)
  then show ?thesis using r a map_of_fold_delete by blast
qed

definition sample_auth :: sval where
  "sample_auth = SMap [(js ''authorized'', SMap [(js ''key'', SMap []), (js ''other'', SMap [])])]"

theorem logout_revokes_witness:
  "\<exists>s' m'. auth_reducer plain_host True sample_auth (Logout [js ''key'']) = Inr s' \<and> authorized s' = Inr (SMap m') \<and>
    (\<forall>k. map_of m' k = (if k \<in> set [js ''key''] then None else map_of [(js ''key'', SMap []), (js ''other'', SMap [])] k)) \<and>
    isAuthorized s' (SList (map SMap [[(js ''other'', SList []), (js ''key'', SList [])]])) = Inr (SBool False)"
  by (rule logout_revokes) (simp_all add: sample_auth_def)

section \<open>Basic authentication\<close>

lemma encodings [simp]: "isEncoding (js ''utf-8'')" "resolve_encoding (js ''utf-8'') = Some Utf8"
  "isEncoding (js ''base64'')" "resolve_encoding (js ''base64'') = Some Base64"
  by code_simp+

text \<open>What \<^verbatim>\<open>btoa\<close> returns for a string with paired surrogates.\<close>

lemma btoa_value:
  assumes "well_formed str" and "str \<noteq> []" and "utf8ToBytes str None = Inr bs" and "int (length bs) \<le> kMaxLength ta"
  shows "btoa ta str = Inr (base64_fromByteArray (map word_of_int bs)) \<and>
    fromString ta (base64_fromByteArray (map word_of_int bs)) (Str (js ''base64'')) = Inr (map word_of_int bs) \<and>
    BufferStr.toString (map word_of_int bs) (Some (Str (js ''utf-8''), Undefined, Undefined)) = Inr str"
proof -
  let ?u = "map word_of_int bs :: buffer"
  have utf: "fromString ta str (Str (js ''utf-8'')) = Inr ?u"
    by (rule utf8_buffer.from_bytes [OF assms(1,2,3) _ _ assms(4)]) simp_all
  have "bs \<noteq> []" using utf8_buffer.reads_all [OF assms(1,2,3)] by simp
  then have "fromString ta (base64_fromByteArray ?u) (Str (js ''base64'')) = Inr ?u \<and>
    BufferStr.toString ?u (Some (Str (js ''base64''), Undefined, Undefined)) = Inr (base64_fromByteArray ?u)"
    using assms(4) by (intro base64_through_buffer) (simp_all add: names_def)
  moreover have "\<exists>buf. fromString ta str (Str (js ''utf-8'')) = Inr buf \<and>
    BufferStr.toString buf (Some (Str (js ''utf-8''), Undefined, Undefined)) = Inr str"
    using utf8_buffer.through_buffer [OF assms(1,3), of "js ''utf-8''" ta] assms(4) by simp
  ultimately show ?thesis using utf by (auto simp: btoa_def)
qed

lemma getIn_or_fields: "getIn_or (SMap ps) (k # ks) SUndef = getIn_or (field ps k) ks SUndef"
  by (cases "map_of ps k"; cases ks) (auto simp: getIn_or_def field_def)

lemma getIn_or_fromJS: "getIn_or (fromJS (SObj ps)) (k # ks) SUndef = getIn_or (fromJS (field ps k)) ks SUndef"
  using fromJS_fields [of ps] getIn_or_fields by auto

definition basic_security :: "sval \<Rightarrow> sval \<Rightarrow> fields \<Rightarrow> sval" where
  "basic_security username password sch = SObj [
     (js ''value'', SObj [(js ''username'', username), (js ''password'', password)]), (js ''schema'', toJS (SMap sch))]"

lemma basic_security_fields:
  assumes "field sch (js ''type'') = SStr (js ''basic'')"
  shows "getIn_or (fromJS (basic_security (SStr u) (SStr p) sch)) [js ''schema'', js ''type''] SUndef = SStr (js ''basic'')"
    "getIn_or (fromJS (basic_security (SStr u) (SStr p) sch)) [js ''value'', js ''username''] SUndef = SStr u"
    "getIn_or (fromJS (basic_security (SStr u) (SStr p) sch)) [js ''value'', js ''password''] SUndef = SStr p"
    "isImmutable (fromJS (basic_security (SStr u) (SStr p) sch))"
proof -
  have "field (map (map_prod id toJS) sch) (js ''type'') = SStr (js ''basic'')" using assms by (simp add: field_map_prod)
  then show "getIn_or (fromJS (basic_security (SStr u) (SStr p) sch)) [js ''schema'', js ''type''] SUndef = SStr (js ''basic'')"
    unfolding basic_security_def getIn_or_fromJS by (simp add: field_def [of "[(_, _), _]"] getIn_or_fromJS del: fromJS.simps) (simp add: getIn_or_def)
  show "getIn_or (fromJS (basic_security (SStr u) (SStr p) sch)) [js ''value'', js ''username''] SUndef = SStr u"
    "getIn_or (fromJS (basic_security (SStr u) (SStr p) sch)) [js ''value'', js ''password''] SUndef = SStr p"
    unfolding basic_security_def getIn_or_fromJS by (simp_all add: field_def getIn_or_fromJS del: fromJS.simps) (simp_all add: getIn_or_def)
  show "isImmutable (fromJS (basic_security (SStr u) (SStr p) sch))" by (simp add: basic_security_def isImmutable_def)
qed

lemma authorize_basic:
  assumes "field sch (js ''type'') = SStr (js ''basic'')" and "basic_header H ta (SStr u) (SStr p) = Inr h"
    and "map_path [key, js ''value''] m" and "map_path [key, js ''schema''] m"
  shows "\<exists>m'. authorize_one H ta m key (fromJS (basic_security (SStr u) (SStr p) sch)) = Inr m' \<and>
    getIn m' [key, js ''value''] = Some (SObj [(js ''username'', SStr u), (js ''header'', SStr h)])"
proof -
  have "\<not> prefix [key, js ''value''] [key, js ''schema'']" "\<not> prefix [key, js ''schema''] [key, js ''value'']" by simp_all
  from immutable.two_writes [OF assms(3,4) this]
  obtain m1 m2 where "setIn m [key, js ''value''] (SObj [(js ''username'', SStr u), (js ''header'', SStr h)]) = Inr m1"
    "setIn m1 [key, js ''schema''] (got (fromJS (basic_security (SStr u) (SStr p) sch)) (js ''schema'')) = Inr m2"
    "getIn m2 [key, js ''value''] = Some (SObj [(js ''username'', SStr u), (js ''header'', SStr h)])" by blast
  then show ?thesis using basic_security_fields [OF assms(1), of u p] assms(2) by (simp add: authorize_one_def Let_def)
qed

text \<open>C19: For a security scheme of type \<^verbatim>\<open>basic\<close>, \<^verbatim>\<open>preauthorizeBasic\<close> makes an action that the
  reducer accepts, and stores the header \<^verbatim>\<open>Basic\<close> followed by a text that \<^verbatim>\<open>Buffer.from(text, "base64").toString("utf-8")\<close> turns
  into the name, a colon and the password again.
\<close>
theorem basic_header_decodes:
  assumes "getIn_or spec (definition_base isOAS3 @ [key]) SUndef = SMap sch" and "field sch (js ''type'') = SStr (js ''basic'')"
    and "well_formed (u @ js '':'' @ p)" and "utf8ToBytes (u @ js '':'' @ p) None = Inr bs" and "int (length bs) \<le> kMaxLength ta"
    and "s = SMap ss" and "map_path [js ''authorized'', key, js ''value''] s" and "map_path [js ''authorized'', key, js ''schema''] s"
  shows "\<exists>a s' h buf. preauthorizeBasic isOAS3 spec key (SStr u) (SStr p) = Some a \<and> auth_reducer H ta s a = Inr s' \<and>
    getIn s' [js ''authorized'', key, js ''value''] = Some (SObj [(js ''username'', SStr u), (js ''header'', SStr (js ''Basic '' @ h))]) \<and>
    fromString ta h (Str (js ''base64'')) = Inr buf \<and>
    BufferStr.toString buf (Some (Str (js ''utf-8''), Undefined, Undefined)) = Inr (u @ js '':'' @ p)"
proof -
  let ?h = "base64_fromByteArray (map word_of_int bs)" and ?sec = "basic_security (SStr u) (SStr p) sch"
  have ne: "u @ js '':'' @ p \<noteq> []" by (simp add: js_def)
  note b = btoa_value [OF assms(3) ne assms(4,5)]
  obtain m where m: "mget s (js ''authorized'') = Inr a \<Longrightarrow> or_val a (SMap []) = SMap m" "map_path [key, js ''value''] (SMap m)"
    "map_path [key, js ''schema''] (SMap m)" "mget s (js ''authorized'') = Inr (if map_of ss (js ''authorized'') = None then SUndef else SMap m)"
    for a
  proof (cases "map_of ss (js ''authorized'')")
    case None
    then show ?thesis using assms(6) by (intro that [of "[]"]) (auto simp: mget_def isImmutable_def or_val_def)
  next
    case (Some w)
    moreover obtain m where "w = SMap m" using Some assms(6,7) by (cases w) auto
    ultimately show ?thesis using assms(6-8) by (intro that [of m]) (auto simp: mget_def isImmutable_def or_val_def)
  qed
  have "basic_header H ta (SStr u) (SStr p) = Inr (js ''Basic '' @ ?h)" using b by (simp add: basic_header_def str_of_def)
  from authorize_basic [OF assms(2) this m(2,3)] obtain m' where m': "authorize_one H ta (SMap m) key (fromJS ?sec) = Inr m'"
    "getIn m' [key, js ''value''] = Some (SObj [(js ''username'', SStr u), (js ''header'', SStr (js ''Basic '' @ ?h))])" by blast
  have "own_entries (map (map_prod id fromJS) [(key, ?sec)]) = [(key, fromJS ?sec)]"
    by (simp add: own_entries_def objectKeys_def Let_def field_def)
  then have "auth_reducer H ta s (Authorize [(key, ?sec)]) = Inr (SMap (prop_set ss (js ''authorized'') m'))"
    using m(1) [OF m(4)] m(4) m'(1) assms(6) by (simp add: authorize_def mset_def)
  moreover have "preauthorizeBasic isOAS3 spec key (SStr u) (SStr p) = Some (Authorize [(key, ?sec)])"
    using assms(1) by (simp add: preauthorizeBasic_def basic_security_def)
  moreover have "getIn (SMap (prop_set ss (js ''authorized'') m')) [js ''authorized'', key, js ''value'']
    = Some (SObj [(js ''username'', SStr u), (js ''header'', SStr (js ''Basic '' @ ?h))])" using m'(2) by simp
  ultimately show ?thesis using b by blast
qed

definition sample_scheme :: sval where
  "sample_scheme = SMap [(js ''securityDefinitions'', SMap [(js ''b'', SMap [(js ''type'', SStr (js ''basic''))])])]"

theorem basic_header_decodes_witness:
  "\<exists>a s' h buf. preauthorizeBasic False sample_scheme (js ''b'') (SStr (js ''me'')) (SStr (js ''pw'')) = Some a \<and>
    auth_reducer plain_host True (SMap []) a = Inr s' \<and>
    getIn s' [js ''authorized'', js ''b'', js ''value''] = Some (SObj [(js ''username'', SStr (js ''me'')), (js ''header'', SStr (js ''Basic '' @ h))]) \<and>
    fromString True h (Str (js ''base64'')) = Inr buf \<and>
    BufferStr.toString buf (Some (Str (js ''utf-8''), Undefined, Undefined)) = Inr (js ''me'' @ js '':'' @ js ''pw'')"
proof (rule basic_header_decodes [where ss = "[]" and sch = "[(js ''type'', SStr (js ''basic''))]" and bs = "[109, 101, 58, 112, 119]"])
  show "getIn_or sample_scheme (definition_base False @ [js ''b'']) SUndef = SMap [(js ''type'', SStr (js ''basic''))]" by code_simp
  show "field [(js ''type'', SStr (js ''basic''))] (js ''type'') = SStr (js ''basic'')" by (simp add: field_def)
  show "well_formed (js ''me'' @ js '':'' @ js ''pw'')" by code_simp
  show "utf8ToBytes (js ''me'' @ js '':'' @ js ''pw'') None = Inr [109, 101, 58, 112, 119]" by code_simp
  show "int (length [109, 101, 58, 112, 119 :: int]) \<le> kMaxLength True" by code_simp
qed simp_all

end
