(* ===== verification/SwaggerEntry.thy ===== *)
theory SwaggerEntry
  imports SwaggerSpec
begin

text \<open>
  What the user enters for a parameter, from the reducer \<^verbatim>\<open>UPDATE_PARAM\<close> to the selectors that validation and execution
  read (modules 140 and 219 of \<^verbatim>\<open>swagger-ui.js\<close>). The theorem: the value that was entered is the value of the parameter,
  and the rest of the parameter is as the description has it.
\<close>

section \<open>What was entered is used\<close>

lemma field_merge_fields: "field (merge_fields ps qs) k = (if k \<in> fst ` set qs then field qs k else field ps k)"
proof -
  have "field (fold (\<lambda>k m. prop_set m k (f k)) ks ps) k = (if k \<in> set ks then f k else field ps k)" for f ks
    by (induction ks arbitrary: ps) auto
  then show ?thesis by (simp add: merge_fields_def)
qed

lemma field_absent: "k \<notin> fst ` set qs \<Longrightarrow> field qs k = SUndef"
  using map_of_eq_None_iff [of qs k] by (simp add: field_def)

lemma strict_eq_text: "strict_eq v (SStr t) \<longleftrightarrow> v = SStr t"
  by (cases v) (auto simp: strict_eq_def)

text \<open>A description is not changed by what is kept for its operations.\<close>

lemma specJson_cong:
  assumes "getIn s' [js ''json''] = getIn s [js ''json'']" "getIn s' [js ''resolvedSubtrees''] = getIn s [js ''resolvedSubtrees'']"
    "s = SMap ss" "s' = SMap ss'"
  shows "specJsonWithResolvedSubtrees s' = specJsonWithResolvedSubtrees s"
proof -
  have "iget s' (js ''json'') = iget s (js ''json'')" "iget s' (js ''resolvedSubtrees'') = iget s (js ''resolvedSubtrees'')"
    using assms(1,2) by (auto simp: bind_eq_Some_conv split: option.splits Option.bind_splits)
  then show ?thesis using assms(3,4) by (simp add: specJsonWithResolvedSubtrees_def mget_def isImmutable_def or_val_def)
qed

text \<open>The merged parameter, when what was entered is the map \<open>es\<close> and nothing was entered by identity.\<close>

lemma merge_param_fields:
  assumes "param = SMap ps0" "field ps0 (js ''name'') = SStr n" "field ps0 (js ''in'') = SStr i"
    and "map_of qs (param_key H (SStr n) (SStr i)) = Some (SMap es)"
    and "map_of qs (hash_key H hash param (SStr n) (SStr i)) = None"
  shows "merge_param H hash (SMap qs) param (SMap ps) = Inr (SMap (merge_fields (merge_fields (merge_fields [] ps) es) []))"
proof -
  have "mget param (js ''name'') = Inr (SStr n)" "mget param (js ''in'') = Inr (SStr i)"
    using assms(1-3) by (auto simp: mget_def isImmutable_def field_def split: option.splits)
  then show ?thesis using assms(4,5) by (simp add: merge_param_def mget_def isImmutable_def keyed_def)
qed

lemma merged_fields:
  assumes "k \<notin> fst ` set es"
  shows "field (merge_fields (merge_fields (merge_fields [] ps) es) []) k = field ps k"
  using assms field_absent [of k ps] by (auto simp: field_merge_fields field_def [of "[]"])

lemma merge_all_params:
  assumes "\<And>ps. merge_param H hash (SMap qs) param (SMap ps) = Inr (SMap (f ps))"
  shows "map_result (merge_param H hash (SMap qs) param) (map SMap pss) = Inr (map (\<lambda>ps. SMap (f ps)) pss)"
  by (induction pss) (simp_all add: assms)

definition is_param :: "jsstr \<Rightarrow> jsstr \<Rightarrow> fields \<Rightarrow> bool" where
  "is_param n i ps \<longleftrightarrow> field ps (js ''in'') = SStr i \<and> field ps (js ''name'') = SStr n"

lemma same_param_map: "same_param (SStr i) (SStr n) (SMap ps) \<longleftrightarrow> is_param n i ps"
  by (simp add: same_param_def is_param_def strict_eq_text got_def field_def)

lemma find_param_maps:
  "find_param (SStr i) (SStr n) (map SMap pss) = Inr (case find (is_param n i) pss of None \<Rightarrow> SUndef | Some ps \<Rightarrow> SMap ps)"
  by (induction pss) (auto simp: same_param_map isImmutable_def)

lemma find_map_SMap:
  assumes "\<And>ps. is_param n i (f ps) = is_param n i ps" "find (is_param n i) pss = Some ps0"
  shows "find_value (same_param (SStr i) (SStr n)) (map (\<lambda>ps. SMap (f ps)) pss) = SMap (f ps0)"
  using assms(2) by (induction pss) (auto simp: find_value_def same_param_map assms(1) split: if_splits)

lemma parameterWithMeta_entered:
  assumes "specJsonWithResolvedSubtrees s = Inr j"
    and "getIn_or j (op_path pm [js ''parameters'']) (SMap []) = SList (map SMap pss)"
    and "find (is_param n i) pss = Some ps0"
    and "getIn s (meta_path pm [js ''parameters'']) = Some (SMap qs)"
    and "map_of qs (param_key H (SStr n) (SStr i)) = Some (SMap es)"
    and "map_of qs (hash_key H hash (SMap ps0) (SStr n) (SStr i)) = None"
    and "js ''name'' \<notin> fst ` set es" "js ''in'' \<notin> fst ` set es"
  shows "parameterWithMeta H hash s pm (SStr n) (SStr i) = Inr (SMap (merge_fields (merge_fields (merge_fields [] ps0) es) []))"
proof -
  let ?f = "\<lambda>ps. merge_fields (merge_fields (merge_fields [] ps) es) []"
  have p0: "field ps0 (js ''name'') = SStr n" "field ps0 (js ''in'') = SStr i" "is_param n i ps0"
    using assms(3) by (auto simp: is_param_def find_Some_iff)
  have "map_result (merge_param H hash (SMap qs) (SMap ps0)) (map SMap pss) = Inr (map (\<lambda>ps. SMap (?f ps)) pss)"
    by (rule merge_all_params) (rule merge_param_fields [OF refl p0(1,2) assms(5,6)])
  moreover have "is_param n i (?f ps) = is_param n i ps" for ps
    using merged_fields assms(7,8) by (simp add: is_param_def)
  then have "find_value (same_param (SStr i) (SStr n)) (map (\<lambda>ps. SMap (?f ps)) pss) = SMap (?f ps0)"
    using assms(3) by (rule find_map_SMap)
  moreover have "got (SMap ps0) (js ''in'') = SStr i" "got (SMap ps0) (js ''name'') = SStr n"
    using p0 by (simp_all add: got_def field_def)
  ultimately show ?thesis using assms(1-4)
    by (simp add: parameterWithMeta_def parameterWithMetaByIdentity_def find_param_maps ivalues_def getIn_or_def [of s] Let_def)
qed

lemma getIn_append: "getIn v (p @ q) = Option.bind (getIn v p) (\<lambda>w. getIn w q)"
  by (induction p arbitrary: v) (auto split: Option.bind_splits)

lemma map_path_get: "map_path (p @ k # q) v \<Longrightarrow> getIn v p = Some w \<Longrightarrow> \<exists>ps. w = SMap ps"
  by (induction p arbitrary: v) (auto split: sval.splits option.splits)

text \<open>The map at the end of a path to which something was written, with its entries.\<close>

lemma entry_after:
  assumes "map_path (p @ [k, e]) s" "setIn s (p @ [k, e]) v = Inr s'"
  shows "\<exists>qs es. getIn s' p = Some (SMap qs) \<and> map_of qs k = Some (SMap es) \<and> map_of es e = Some v
    \<and> (\<forall>e'. e' \<noteq> e \<longrightarrow> map_of es e' = getIn s (p @ [k, e'])) \<and> (\<forall>k'. k' \<noteq> k \<longrightarrow> map_of qs k' = getIn s (p @ [k']))"
proof -
  have v: "getIn s' (p @ [k, e]) = Some v" using immutable.get_set [OF assms] .
  have ok: "map_path (p @ [k, e]) s'" using immutable.ok_set [OF assms(1,1,2)] by simp
  obtain w where w: "getIn s' p = Some w" using v by (auto simp: getIn_append bind_eq_Some_conv)
  then obtain qs where qs: "w = SMap qs" using map_path_get [of p k "[e]" s'] ok by auto
  obtain u where u: "map_of qs k = Some u" "getIn u [e] = Some v" using v w qs by (auto simp: getIn_append bind_eq_Some_conv)
  then obtain es where es: "u = SMap es" using map_path_get [of "p @ [k]" e "[]" s'] ok w qs by (auto simp: getIn_append)
  have "map_of es e' = getIn s (p @ [k, e'])" if "e' \<noteq> e" for e'
  proof -
    have "getIn s' (p @ [k, e']) = getIn s (p @ [k, e'])" using immutable.get_other [OF assms, of "p @ [k, e']"] that by simp
    then show ?thesis using w qs u es by (simp add: getIn_append)
  qed
  moreover have "map_of qs k' = getIn s (p @ [k'])" if "k' \<noteq> k" for k'
  proof -
    have "getIn s' (p @ [k']) = getIn s (p @ [k'])" using immutable.get_other [OF assms, of "p @ [k']"] that by simp
    then show ?thesis using w qs by (simp add: getIn_append)
  qed
  moreover have "map_of es e = Some v" using u es by (auto simp: bind_eq_Some_conv)
  ultimately show ?thesis using w qs u es by blast
qed

text \<open>C20: When the user enters a value for a parameter of the description, by its name and place, the reducer stores it, and
  \<^verbatim>\<open>parameterWithMeta\<close> returns the parameter with this value; every other field, for which nothing was entered, is the one of
  the description. What was entered by identity would take precedence, and is excluded here.
\<close>
theorem entered_value_used:
  assumes "s = SMap ss" and "specJsonWithResolvedSubtrees s = Inr j"
    and "getIn_or j (op_path pm [js ''parameters'']) (SMap []) = SList (map SMap pss)"
    and "find (is_param n i) pss = Some ps0"
    and "map_path (meta_path pm [js ''parameters'', param_key H (SStr n) (SStr i), js ''value'']) s"
    and "getIn s (meta_path pm [js ''parameters'', hash_key H hash (SMap ps0) (SStr n) (SStr i)]) = None"
    and "\<forall>k \<in> K. getIn s (meta_path pm [js ''parameters'', param_key H (SStr n) (SStr i), k]) = None"
    and "js ''name'' \<in> K" and "js ''in'' \<in> K" and "js ''value'' \<notin> K"
  shows "\<exists>s' r. spec_reducer H hash s (UpdateParam pm (SStr n) (SStr i) SUndef v False) = Inr s' \<and>
    parameterWithMeta H hash s' pm (SStr n) (SStr i) = Inr (SMap r) \<and> field r (js ''value'') = v \<and>
    (\<forall>k \<in> K. field r k = field ps0 k)"
proof -
  let ?k = "param_key H (SStr n) (SStr i)" and ?p = "meta_path pm [js ''parameters'']"
  have path: "meta_path pm [js ''parameters'', a, b] = ?p @ [a, b]" "meta_path pm [js ''parameters'', a] = ?p @ [a]" for a b
    by (simp_all add: meta_path_def op_path_def)
  obtain s' where s': "setIn s (?p @ [?k, js ''value'']) v = Inr s'" using immutable.set_ok assms(5) path by metis
  have red: "spec_reducer H hash s (UpdateParam pm (SStr n) (SStr i) SUndef v False) = Inr s'"
    using s' by (simp add: update_param_def isImmutable_def path)
  obtain qs es where e: "getIn s' ?p = Some (SMap qs)" "map_of qs ?k = Some (SMap es)" "map_of es (js ''value'') = Some v"
    "\<forall>e'. e' \<noteq> js ''value'' \<longrightarrow> map_of es e' = getIn s (?p @ [?k, e'])" "\<forall>k'. k' \<noteq> ?k \<longrightarrow> map_of qs k' = getIn s (?p @ [k'])"
    using entry_after [OF _ s'] assms(5) path by metis
  have "hash_key H hash (SMap ps0) (SStr n) (SStr i) \<noteq> ?k" by (simp add: hash_key_def js_def)
  then have h: "map_of qs (hash_key H hash (SMap ps0) (SStr n) (SStr i)) = None" using e(5) assms(6) path by simp
  have K: "k \<notin> fst ` set es" if "k \<in> K" for k
  proof -
    have "k \<noteq> js ''value''" using that assms(10) by blast
    then have "map_of es k = None" using e(4) bspec [OF assms(7) that] path(1) by simp
    then show ?thesis by (simp add: map_of_eq_None_iff)
  qed
  have ok: "map_path (?p @ [?k, js ''value'']) s" using assms(5) path(1) by simp
  have "map_path (?p @ [?k, js ''value'']) s'" using immutable.ok_set [OF ok ok s'] by simp
  then obtain ss' where ss': "s' = SMap ss'" by (cases s') (simp_all add: meta_path_def)
  have get: "getIn s' [js a] = getIn s [js a]" if "a \<noteq> ''meta''" for a
    using that immutable.get_other [OF ok s', of "[js a]"] by (simp add: meta_path_def)
  have "specJsonWithResolvedSubtrees s' = Inr j" using specJson_cong [OF get get assms(1) ss'] assms(2) by simp
  from parameterWithMeta_entered [OF this assms(3,4) e(1,2) h] K assms(8,9)
  have "parameterWithMeta H hash s' pm (SStr n) (SStr i) = Inr (SMap (merge_fields (merge_fields (merge_fields [] ps0) es) []))" by blast
  moreover have "field (merge_fields (merge_fields (merge_fields [] ps0) es) []) (js ''value'') = v"
    using e(3) map_of_SomeD [OF e(3)] by (auto simp: field_merge_fields field_def [of es] intro: rev_image_eqI)
  ultimately show ?thesis using red merged_fields K by blast
qed

definition fresh_spec :: sval where
  "fresh_spec = SMap [(js ''json'', SMap [(js ''paths'', SMap [(js ''/pay'', SMap [(js ''post'', SMap [(js ''parameters'',
     SList [SMap [(js ''name'', SStr (js ''n'')), (js ''in'', SStr (js ''query''))]])])])])])]"

theorem entered_value_used_witness:
  "\<exists>s' r. spec_reducer plain_host (\<lambda>v. 0) fresh_spec (UpdateParam sample_pm (SStr (js ''n'')) (SStr (js ''query'')) SUndef (SBool True) False)
      = Inr s' \<and>
    parameterWithMeta plain_host (\<lambda>v. 0) s' sample_pm (SStr (js ''n'')) (SStr (js ''query'')) = Inr (SMap r) \<and> field r (js ''value'') = SBool True \<and>
    (\<forall>k \<in> {js ''name'', js ''in'', js ''type''}. field r k = field [(js ''name'', SStr (js ''n'')), (js ''in'', SStr (js ''query''))] k)"
proof (rule entered_value_used [where pss = "[[(js ''name'', SStr (js ''n'')), (js ''in'', SStr (js ''query''))]]"])
  show "fresh_spec = SMap (case fresh_spec of SMap ps \<Rightarrow> ps | _ \<Rightarrow> [])" by (simp add: fresh_spec_def)
  show "specJsonWithResolvedSubtrees fresh_spec = Inr (got fresh_spec (js ''json''))" by code_simp
  show "getIn_or (got fresh_spec (js ''json'')) (op_path sample_pm [js ''parameters'']) (SMap [])
    = SList (map SMap [[(js ''name'', SStr (js ''n'')), (js ''in'', SStr (js ''query''))]])" by code_simp
  show "find (is_param (js ''n'') (js ''query'')) [[(js ''name'', SStr (js ''n'')), (js ''in'', SStr (js ''query''))]]
    = Some [(js ''name'', SStr (js ''n'')), (js ''in'', SStr (js ''query''))]" by code_simp
qed (code_simp+)

end
