(* ===== verification/SwaggerViews.thy ===== *)
theory SwaggerViews
  imports SwaggerSpec
begin

text \<open>
  Two plugins of Swagger UI that keep what the page shows (modules 139, 213 and 214 of \<^verbatim>\<open>swagger-ui.js\<close>: layout; 151 and
  those of its reducers and selectors: OpenAPI 3). The map \<^verbatim>\<open>shown\<close> of the layout has lists as keys; it is a list of pairs here.
  \<open>isOAS3\<close> says whether the description is one of OpenAPI 3. The function \<open>replace\<close> is \<^verbatim>\<open>str.replace(new RegExp(p, "g"), v)\<close>.
  The lemmas: what was shown or selected last is what the selectors return, and nothing else changes.
\<close>

section \<open>Layout\<close>

record layout_state =
  l_layout :: sval
  l_filter :: sval
  l_shown :: "(sval list \<times> sval) list"
  l_modes :: "sval option"

datatype layout_action = UpdateLayout sval | UpdateFilter sval | Show sval sval | UpdateMode "jsstr list" sval

text \<open>The second arguments of the actions: \<^verbatim>\<open>show(thing)\<close> shows, \<^verbatim>\<open>changeMode(thing)\<close> sets the empty mode.\<close>

definition show_thing :: "sval \<Rightarrow> sval \<Rightarrow> layout_action" where
  "show_thing thing shown = Show (SArr (normalizeArray thing)) (if shown = SUndef then SBool True else shown)"

definition changeMode :: "jsstr list \<Rightarrow> sval \<Rightarrow> layout_action" where
  "changeMode thing mode = UpdateMode thing (if mode = SUndef then SStr [] else mode)"

definition thing_key :: "sval \<Rightarrow> sval list" where
  "thing_key thing = map fromJS (normalizeArray thing)"

fun shown_set :: "(sval list \<times> sval) list \<Rightarrow> sval list \<Rightarrow> sval \<Rightarrow> (sval list \<times> sval) list" where
  "shown_set [] t b = [(t, b)]"
| "shown_set ((u, c) # m) t b = (if u = t then (u, b) # m else (u, c) # shown_set m t b)"

fun layout_reducer :: "host \<Rightarrow> layout_state \<Rightarrow> layout_action \<Rightarrow> jserr + layout_state" where
  "layout_reducer H s (UpdateLayout v) = Inr (s\<lparr> l_layout := v \<rparr>)"
| "layout_reducer H s (UpdateFilter v) = Inr (s\<lparr> l_filter := v \<rparr>)"
| "layout_reducer H s (Show thing isShown) = Inr (s\<lparr> l_shown := shown_set (l_shown s) (thing_key thing) isShown \<rparr>)"
| "layout_reducer H s (UpdateMode thing mode) =
     rbind (updateIn thing (l_modes s) None (\<lambda>u. Inr (Some (SStr (str_of H (or_val mode (SStr []))))))) (\<lambda>m. Inr (s\<lparr> l_modes := m \<rparr>))"

definition isShown :: "layout_state \<Rightarrow> sval \<Rightarrow> sval \<Rightarrow> sval" where
  "isShown s thing d = (case map_of (l_shown s) (thing_key thing) of None \<Rightarrow> d | Some b \<Rightarrow> b)"

definition whatMode :: "layout_state \<Rightarrow> jsstr list \<Rightarrow> sval \<Rightarrow> sval" where
  "whatMode s thing d =
     (case Option.bind (l_modes s) (\<lambda>m. getIn m thing) of None \<Rightarrow> if d = SUndef then SStr [] else d | Some v \<Rightarrow> v)"

definition showSummary :: "layout_state \<Rightarrow> bool" where
  "showSummary s = (\<not> truthy (isShown s (SStr (js ''editor'')) SUndef))"

lemma map_of_shown_set [simp]: "map_of (shown_set m t b) u = (if u = t then Some b else map_of m u)"
  by (induction m t b rule: shown_set.induct) auto

lemma normalizeArray_idem: "normalizeArray (SArr (normalizeArray v)) = normalizeArray v"
  by (simp add: normalizeArray_def)

text \<open>\<^verbatim>\<open>show\<close> decides what \<^verbatim>\<open>isShown\<close> returns for the thing, in either of its two spellings, and for no other thing.\<close>

lemma show_isShown:
  "\<exists>s'. layout_reducer H s (show_thing thing b) = Inr s' \<and>
    isShown s' other d = (if thing_key other = thing_key thing then (if b = SUndef then SBool True else b) else isShown s other d)"
  by (auto simp: show_thing_def isShown_def thing_key_def normalizeArray_idem)

text \<open>A mode is kept as a text under the names of the thing.\<close>

lemma mode_whatMode:
  assumes "\<forall>m. l_modes s = Some m \<longrightarrow> map_path thing m"
  shows "\<exists>s'. layout_reducer H s (changeMode thing (SStr mode)) = Inr s' \<and> whatMode s' thing d = SStr mode \<and>
    (\<forall>q. \<not> prefix thing q \<longrightarrow> \<not> prefix q thing \<longrightarrow> whatMode s' q d = whatMode s q d)"
proof -
  have "str_of H (or_val (SStr mode) (SStr [])) = mode" by (simp add: or_val_def str_of_def)
  then show ?thesis using updateIn_maps [OF assms, of "SStr mode"] by (auto simp: changeMode_def whatMode_def)
qed

section \<open>OpenAPI 3\<close>

datatype oas3_action =
    UpdateSelectedServer sval jsstr | UpdateRequestBodyValue sval path_method | UpdateRequestContentType sval path_method
  | UpdateResponseContentType sval path_method | UpdateServerVariableValue jsstr jsstr jsstr sval

definition namespaced :: "jsstr \<Rightarrow> jsstr list \<Rightarrow> jsstr list" where
  "namespaced ns path = (if ns = [] then path else ns # path)"

definition request_data :: "path_method \<Rightarrow> string \<Rightarrow> jsstr list" where
  "request_data pm k = [js ''requestData'', fst pm, snd pm, js k]"

fun oas3_reducer :: "sval \<Rightarrow> oas3_action \<Rightarrow> jserr + sval" where
  "oas3_reducer state (UpdateSelectedServer url ns) = setIn state (namespaced ns [js ''selectedServer'']) url"
| "oas3_reducer state (UpdateRequestBodyValue value pm) = setIn state (request_data pm ''bodyValue'') value"
| "oas3_reducer state (UpdateRequestContentType value pm) = setIn state (request_data pm ''requestContentType'') value"
| "oas3_reducer state (UpdateResponseContentType value pm) = setIn state (request_data pm ''responseContentType'') value"
| "oas3_reducer state (UpdateServerVariableValue server ns key val) =
     setIn state (namespaced ns [js ''serverVariableValues'', server, key]) val"

definition onlyOAS3 :: "bool \<Rightarrow> sval \<Rightarrow> sval" where
  "onlyOAS3 isOAS3 v = (if isOAS3 then v else SNull)"

definition selectedServer :: "bool \<Rightarrow> sval \<Rightarrow> jsstr \<Rightarrow> sval" where
  "selectedServer isOAS3 state ns =
     onlyOAS3 isOAS3 (or_val (getIn_or state (namespaced ns [js ''selectedServer'']) SUndef) (SStr []))"

definition requestBodyValue :: "bool \<Rightarrow> sval \<Rightarrow> path_method \<Rightarrow> sval" where
  "requestBodyValue isOAS3 state pm = onlyOAS3 isOAS3 (or_val (getIn_or state (request_data pm ''bodyValue'') SUndef) SNull)"

definition requestContentType :: "bool \<Rightarrow> sval \<Rightarrow> path_method \<Rightarrow> sval" where
  "requestContentType isOAS3 state pm = onlyOAS3 isOAS3 (or_val (getIn_or state (request_data pm ''requestContentType'') SUndef) SNull)"

definition responseContentType :: "bool \<Rightarrow> sval \<Rightarrow> path_method \<Rightarrow> sval" where
  "responseContentType isOAS3 state pm = onlyOAS3 isOAS3 (or_val (getIn_or state (request_data pm ''responseContentType'') SUndef) SNull)"

text \<open>The place of a server: its URL and a namespace, empty if there is none.\<close>

definition serverVariableValue :: "bool \<Rightarrow> sval \<Rightarrow> jsstr \<Rightarrow> jsstr \<Rightarrow> jsstr \<Rightarrow> sval" where
  "serverVariableValue isOAS3 state server ns key =
     onlyOAS3 isOAS3 (or_val (getIn_or state (namespaced ns [js ''serverVariableValues'', server, key]) SUndef) SNull)"

definition serverVariables :: "bool \<Rightarrow> sval \<Rightarrow> jsstr \<Rightarrow> jsstr \<Rightarrow> sval" where
  "serverVariables isOAS3 state server ns =
     onlyOAS3 isOAS3 (or_val (getIn_or state (namespaced ns [js ''serverVariableValues'', server]) SUndef) (SMap []))"

primrec substitute_all :: "(jsstr \<Rightarrow> jsstr \<Rightarrow> jsstr \<Rightarrow> jserr + jsstr) \<Rightarrow> host \<Rightarrow> fields \<Rightarrow> jsstr \<Rightarrow> jserr + jsstr" where
  "substitute_all replace H [] str = Inr str"
| "substitute_all replace H (e # es) str =
     rbind (replace (js ''{'' @ fst e @ js ''}'') (str_of H (snd e)) str) (substitute_all replace H es)"

definition serverEffectiveValue ::
  "(jsstr \<Rightarrow> jsstr \<Rightarrow> jsstr \<Rightarrow> jserr + jsstr) \<Rightarrow> host \<Rightarrow> bool \<Rightarrow> sval \<Rightarrow> jsstr \<Rightarrow> jsstr \<Rightarrow> jserr + sval" where
  "serverEffectiveValue replace H isOAS3 state server ns =
     (if \<not> isOAS3 then Inr SNull
      else case serverVariables True state server ns of
             SMap vs \<Rightarrow> rbind (substitute_all replace H vs server) (\<lambda>str. Inr (SStr str))
           | _ \<Rightarrow> Inl (TypeError ''map is not a function''))"

text \<open>The values of two variables of a server, or of two servers, are kept apart; a text that is not empty is read back.\<close>

lemma server_variables_kept:
  assumes "map_path (namespaced ns [js ''serverVariableValues'', srv, k]) s" "map_path (namespaced ns [js ''serverVariableValues'', srv', k']) s"
    and "(srv, k) \<noteq> (srv', k')" "v \<noteq> []" "w \<noteq> []"
  shows "\<exists>s' s''. oas3_reducer s (UpdateServerVariableValue srv ns k (SStr v)) = Inr s' \<and>
    oas3_reducer s' (UpdateServerVariableValue srv' ns k' (SStr w)) = Inr s'' \<and>
    serverVariableValue True s'' srv ns k = SStr v \<and> serverVariableValue True s'' srv' ns k' = SStr w"
proof -
  let ?p = "namespaced ns [js ''serverVariableValues'', srv, k]" and ?q = "namespaced ns [js ''serverVariableValues'', srv', k']"
  have "\<not> prefix ?p ?q" "\<not> prefix ?q ?p" using assms(3) by (auto simp: namespaced_def)
  from immutable.two_writes [OF assms(1,2) this, of "SStr v" "SStr w"] obtain s' s'' where
    w: "setIn s ?p (SStr v) = Inr s'" "setIn s' ?q (SStr w) = Inr s''" "getIn s'' ?p = Some (SStr v)" "getIn s'' ?q = Some (SStr w)"
    by blast
  then have "serverVariableValue True s'' srv ns k = SStr v" "serverVariableValue True s'' srv' ns k' = SStr w"
    using assms(4,5) by (simp_all add: serverVariableValue_def onlyOAS3_def getIn_or_def or_val_def)
  then show ?thesis using w(1,2) by auto
qed

end
