(* ===== verification/TerraSdk.thy ===== *)
theory TerraSdk
  imports JsCore "HOL-Library.Char_ord" "HOL-Library.List_Lexorder" "HOL-Library.Product_Lexorder"
    "HOL-Library.Signed_Division" "HOL-Library.Multiset"
begin

text \<open>
  What the modules of the chain (the Go code under \<^verbatim>\<open>src/x\<close>) use of the language and of the Cosmos SDK: integers,
  decimals, coins, the store of a module and the validators. The SDK is not part of the repository: the
  operations that round are arguments of the model (\<open>sdk\<close>), and what the code relies on is the locale
  \<open>sdk_rounding\<close>. The store is a table sorted by its keys, with the laws of a finite map.
\<close>

section \<open>Numbers\<close>

text \<open>
  \<^verbatim>\<open>sdk.Int\<close> is an integer of arbitrary size, \<^verbatim>\<open>sdk.Dec\<close> a number with 18 decimals, kept as the number of its
  units. Sums, differences, comparisons and products with an integer are exact.
\<close>

type_synonym dec = int

definition dec_unit :: int where
  "dec_unit = 10 ^ 18"

definition NewDecFromInt :: "int \<Rightarrow> dec" where
  "NewDecFromInt i = i * dec_unit"

definition OneDec :: dec where
  "OneDec = dec_unit"

definition NewDecWithPrec :: "int \<Rightarrow> nat \<Rightarrow> dec" where
  "NewDecWithPrec i prec = i * 10 ^ (18 - prec)"

text \<open>\<^verbatim>\<open>sdk.Coins\<close>: amounts by denomination, sorted, without zeros.\<close>

type_synonym coins = "(string \<times> int) list"

definition AmountOf :: "coins \<Rightarrow> string \<Rightarrow> int" where
  "AmountOf cs d = (case map_of cs d of None \<Rightarrow> 0 | Some a \<Rightarrow> a)"

definition coins_ok :: "coins \<Rightarrow> bool" where
  "coins_ok cs \<longleftrightarrow> sorted_wrt (<) (map fst cs) \<and> (\<forall>c \<in> set cs. 0 < snd c)"

definition NewCoin :: "string \<Rightarrow> int \<Rightarrow> coins" where
  "NewCoin d a = (if a = 0 then [] else [(d, a)])"

text \<open>
  The operations of the SDK that are arguments of the model: products and quotients of decimals, rounding,
  and sums and differences of coins, where a negative difference panics.
\<close>

record sdk =
  sdk_Mul :: "dec \<Rightarrow> dec \<Rightarrow> dec"
  sdk_Quo :: "dec \<Rightarrow> dec \<Rightarrow> dec"
  sdk_QuoInt :: "dec \<Rightarrow> int \<Rightarrow> dec"
  sdk_TruncateInt :: "dec \<Rightarrow> int"
  sdk_RoundInt :: "dec \<Rightarrow> int"
  sdk_Add :: "coins \<Rightarrow> coins \<Rightarrow> coins"
  sdk_Sub :: "coins \<Rightarrow> coins \<Rightarrow> coins option"

text \<open>Products and quotients are monotonic, exact where the result has 18 decimals, and off by at most a unit.\<close>

locale sdk_rounding =
  fixes S :: sdk
  assumes Mul_mono: "0 \<le> b \<Longrightarrow> a \<le> a' \<Longrightarrow> sdk_Mul S a b \<le> sdk_Mul S a' b"
    and Mul_exact: "dec_unit dvd a * b \<Longrightarrow> sdk_Mul S a b = a * b div dec_unit"
    and Quo_mono: "0 < b \<Longrightarrow> a \<le> a' \<Longrightarrow> sdk_Quo S a b \<le> sdk_Quo S a' b"
    and Quo_exact: "b \<noteq> 0 \<Longrightarrow> b dvd a * dec_unit \<Longrightarrow> sdk_Quo S a b = a * dec_unit div b"
    and QuoInt_trunc: "0 \<le> a \<Longrightarrow> 0 < i \<Longrightarrow> sdk_QuoInt S a i = a div i"
    and TruncateInt_trunc: "0 \<le> a \<Longrightarrow> sdk_TruncateInt S a = a div dec_unit"
    and RoundInt_near: "\<bar>2 * (sdk_RoundInt S a * dec_unit - a)\<bar> \<le> dec_unit"
begin

lemma Mul_zero: "sdk_Mul S 0 b = 0"
  using Mul_exact [of 0 b] by simp

lemma Mul_one: "sdk_Mul S dec_unit b = b"
  using Mul_exact [of dec_unit b] by (simp add: dec_unit_def)

lemma Mul_nonneg: "0 \<le> a \<Longrightarrow> 0 \<le> b \<Longrightarrow> 0 \<le> sdk_Mul S a b"
  using Mul_mono [of b 0 a] Mul_zero by simp

text \<open>A fraction of a number is not more than the number.\<close>

lemma Mul_le: "a \<le> dec_unit \<Longrightarrow> 0 \<le> b \<Longrightarrow> sdk_Mul S a b \<le> b"
  using Mul_mono [of b a dec_unit] Mul_one by simp

lemma Quo_zero: "b \<noteq> 0 \<Longrightarrow> sdk_Quo S 0 b = 0"
  using Quo_exact [of b 0] by simp

lemma Quo_self: "b \<noteq> 0 \<Longrightarrow> sdk_Quo S b b = dec_unit"
  using Quo_exact [of b b] by simp

lemma Quo_unit_interval:
  assumes "0 \<le> a" and "a \<le> b" and "0 < b"
  shows "0 \<le> sdk_Quo S a b" and "sdk_Quo S a b \<le> dec_unit"
  using Quo_mono [of b 0 a] Quo_mono [of b a b] Quo_zero [of b] Quo_self [of b] assms by simp_all

lemma RoundInt_exact: "sdk_RoundInt S (i * dec_unit) = i"
proof -
  have "\<bar>2 * ((sdk_RoundInt S (i * dec_unit) - i) * dec_unit)\<bar> \<le> dec_unit"
    using RoundInt_near [of "i * dec_unit"] by (simp add: left_diff_distrib)
  then have "2 * \<bar>sdk_RoundInt S (i * dec_unit) - i\<bar> * dec_unit \<le> 1 * dec_unit"
    by (simp add: abs_mult dec_unit_def)
  then have "2 * \<bar>sdk_RoundInt S (i * dec_unit) - i\<bar> \<le> 1"
    unfolding mult_le_cancel_right by (auto simp: dec_unit_def)
  then show ?thesis by arith
qed

end

locale sdk_coins =
  fixes S :: sdk
  assumes Add_ok: "coins_ok a \<Longrightarrow> coins_ok b \<Longrightarrow> coins_ok (sdk_Add S a b)"
    and Add_amount: "coins_ok a \<Longrightarrow> coins_ok b \<Longrightarrow> AmountOf (sdk_Add S a b) d = AmountOf a d + AmountOf b d"
    and Sub_some: "coins_ok a \<Longrightarrow> coins_ok b \<Longrightarrow> (\<And>d. AmountOf b d \<le> AmountOf a d) \<Longrightarrow>
      \<exists>c. sdk_Sub S a b = Some c \<and> coins_ok c \<and> (\<forall>d. AmountOf c d = AmountOf a d - AmountOf b d)"

locale cosmos = sdk_rounding S + sdk_coins S for S

text \<open>The decimals of the SDK, as they are documented: half of a unit is rounded to the even neighbour.\<close>

definition round_even :: "int \<Rightarrow> int \<Rightarrow> int" where
  "round_even a d =
     (let q = a div d; r = a mod d
      in if 2 * r < d then q else if 2 * r > d then q + 1 else if even q then q else q + 1)"

definition trunc_div :: "int \<Rightarrow> int \<Rightarrow> int" where
  "trunc_div a d = (if d = 0 then 0 else sgn a * sgn d * (\<bar>a\<bar> div \<bar>d\<bar>))"

definition coins_of :: "string list \<Rightarrow> (string \<Rightarrow> int) \<Rightarrow> coins" where
  "coins_of ds f = filter (\<lambda>c. snd c \<noteq> 0) (map (\<lambda>d. (d, f d)) (sort (remdups ds)))"

definition coins_add :: "coins \<Rightarrow> coins \<Rightarrow> coins" where
  "coins_add a b = coins_of (map fst a @ map fst b) (\<lambda>d. AmountOf a d + AmountOf b d)"

definition coins_sub :: "coins \<Rightarrow> coins \<Rightarrow> coins option" where
  "coins_sub a b =
     (if list_all (\<lambda>d. AmountOf b d \<le> AmountOf a d) (map fst a @ map fst b)
      then Some (coins_of (map fst a @ map fst b) (\<lambda>d. AmountOf a d - AmountOf b d)) else None)"

definition dec18 :: sdk where
  "dec18 = \<lparr> sdk_Mul = (\<lambda>a b. round_even (a * b) dec_unit),
             sdk_Quo = (\<lambda>a b. if b < 0 then round_even (- a * dec_unit) (- b) else round_even (a * dec_unit) b),
             sdk_QuoInt = trunc_div, sdk_TruncateInt = (\<lambda>a. trunc_div a dec_unit),
             sdk_RoundInt = (\<lambda>a. round_even a dec_unit),
             sdk_Add = coins_add, sdk_Sub = coins_sub \<rparr>"

lemma round_even_near:
  assumes "0 < d"
  shows "\<bar>2 * (round_even a d * d - a)\<bar> \<le> d"
proof -
  have a: "a = a div d * d + a mod d" by simp
  have m: "0 \<le> a mod d" "a mod d < d" using assms by simp_all
  define q r where "q = a div d" and "r = a mod d"
  have "a = q * d + r" "0 \<le> r" "r < d" using a m by (simp_all add: q_def r_def)
  then show ?thesis by (auto simp: round_even_def q_def [symmetric] r_def [symmetric] Let_def algebra_simps abs_if)
qed

lemma round_even_exact: "0 < d \<Longrightarrow> d dvd a \<Longrightarrow> round_even a d = a div d"
  by (simp add: round_even_def)

lemma round_even_mono:
  assumes "0 < d" and "a \<le> a'"
  shows "round_even a d \<le> round_even a' d"
proof (cases "a = a'")
  case False
  show ?thesis
  proof (rule ccontr)
    assume "\<not> round_even a d \<le> round_even a' d"
    then have "round_even a' d + 1 \<le> round_even a d" by simp
    then have "(round_even a' d + 1) * d \<le> round_even a d * d" using assms(1) by (intro mult_right_mono) simp_all
    then have "2 * (round_even a' d * d) + 2 * d \<le> 2 * (round_even a d * d)" by (simp add: distrib_right)
    moreover have "2 * (round_even a d * d) \<le> 2 * a + d" "2 * a' \<le> 2 * (round_even a' d * d) + d"
      using round_even_near [OF assms(1), of a] round_even_near [OF assms(1), of a'] by (simp_all add: abs_le_iff right_diff_distrib)
    ultimately show False using assms False by linarith
  qed
qed simp

interpretation dec18: sdk_rounding dec18
proof unfold_locales
  show "sdk_Mul dec18 a b \<le> sdk_Mul dec18 a' b" if "0 \<le> b" "a \<le> a'" for a a' b
    using that by (auto simp: dec18_def dec_unit_def intro!: round_even_mono mult_right_mono)
  show "sdk_Mul dec18 a b = a * b div dec_unit" if "dec_unit dvd a * b" for a b
    using that round_even_exact [of dec_unit "a * b"] by (simp add: dec18_def dec_unit_def)
  show "sdk_Quo dec18 a b \<le> sdk_Quo dec18 a' b" if "0 < b" "a \<le> a'" for a a' b
    using that by (auto simp: dec18_def dec_unit_def intro!: round_even_mono)
  show "sdk_Quo dec18 a b = a * dec_unit div b" if "b \<noteq> 0" "b dvd a * dec_unit" for a b
    using that round_even_exact [of b "a * dec_unit"] round_even_exact [of "- b" "- (a * dec_unit)"]
    by (simp add: dec18_def) 
  show "sdk_QuoInt dec18 a i = a div i" if "0 \<le> a" "0 < i" for a i
    using that by (simp add: dec18_def trunc_div_def sgn_if)
  show "sdk_TruncateInt dec18 a = a div dec_unit" if "0 \<le> a" for a
    using that by (simp add: dec18_def trunc_div_def sgn_if dec_unit_def)
  show "\<bar>2 * (sdk_RoundInt dec18 a * dec_unit - a)\<bar> \<le> dec_unit" for a
    using round_even_near [of dec_unit a] by (simp add: dec18_def dec_unit_def)
qed

lemma AmountOf_coins_of:
  "AmountOf (coins_of ds f) d = (if d \<in> set ds then f d else 0)"
proof -
  have "map_of (filter (\<lambda>c. snd c \<noteq> 0) (map (\<lambda>d. (d, f d)) xs)) d = (if d \<in> set xs \<and> f d \<noteq> 0 then Some (f d) else None)" for xs
    by (induction xs) auto
  then show ?thesis by (simp add: AmountOf_def coins_of_def)
qed

lemma coins_of_ok:
  assumes "\<And>d. d \<in> set ds \<Longrightarrow> 0 \<le> f d"
  shows "coins_ok (coins_of ds f)"
proof -
  have "sorted_wrt (<) (sort (remdups ds))" by (simp add: strict_sorted_iff)
  then have "sorted_wrt (<) (map fst (coins_of ds f))"
    unfolding coins_of_def sorted_wrt_map filter_map by (simp add: sorted_wrt_filter comp_def)
  then show ?thesis using assms by (force simp: coins_ok_def coins_of_def)
qed

lemma AmountOf_outside: "d \<notin> set (map fst a) \<Longrightarrow> AmountOf a d = 0"
  by (simp add: AmountOf_def map_of_eq_None_iff split: option.split) (metis domI domIff dom_map_of_conv_image_fst)

lemma AmountOf_nonneg: "coins_ok a \<Longrightarrow> 0 \<le> AmountOf a d"
  by (auto simp: AmountOf_def coins_ok_def split: option.split dest!: map_of_SomeD)

interpretation dec18: cosmos dec18
proof unfold_locales
  fix a b :: coins
  assume ab: "coins_ok a" "coins_ok b"
  show "coins_ok (sdk_Add dec18 a b)"
    using ab by (auto simp: dec18_def coins_add_def AmountOf_nonneg intro!: coins_of_ok add_nonneg_nonneg)
  show "AmountOf (sdk_Add dec18 a b) d = AmountOf a d + AmountOf b d" for d
    using AmountOf_outside [of d a] AmountOf_outside [of d b] by (auto simp: dec18_def coins_add_def AmountOf_coins_of)
  assume le: "\<And>d. AmountOf b d \<le> AmountOf a d"
  have "AmountOf (coins_of (map fst a @ map fst b) (\<lambda>d. AmountOf a d - AmountOf b d)) d = AmountOf a d - AmountOf b d" for d
    using AmountOf_outside [of d a] AmountOf_outside [of d b] by (auto simp: AmountOf_coins_of)
  moreover have "coins_ok (coins_of (map fst a @ map fst b) (\<lambda>d. AmountOf a d - AmountOf b d))"
    using le by (intro coins_of_ok) simp
  ultimately show "\<exists>c. sdk_Sub dec18 a b = Some c \<and> coins_ok c \<and> (\<forall>d. AmountOf c d = AmountOf a d - AmountOf b d)"
    using le by (auto simp: dec18_def coins_sub_def list_all_iff)
qed

section \<open>The store of a module\<close>

text \<open>
  The entries under a prefix, sorted by what follows the prefix in the key, in the order in which an iterator
  returns them. The SDK keeps the entries that it iterates over apart from later changes.
\<close>

type_synonym ('k, 'v) kv = "('k \<times> 'v) list"

primrec kv_set :: "'k::linorder \<Rightarrow> 'v \<Rightarrow> ('k, 'v) kv \<Rightarrow> ('k, 'v) kv" where
  "kv_set k v [] = [(k, v)]"
| "kv_set k v (e # s) =
     (if k < fst e then (k, v) # e # s else if k = fst e then (k, v) # s else e # kv_set k v s)"

definition kv_delete :: "'k \<Rightarrow> ('k, 'v) kv \<Rightarrow> ('k, 'v) kv" where
  "kv_delete k s = filter (\<lambda>e. fst e \<noteq> k) s"

definition kv_ok :: "('k::linorder, 'v) kv \<Rightarrow> bool" where
  "kv_ok s = sorted_wrt (<) (map fst s)"

text \<open>The interface of a store: what is read after a write, and that the entries are determined by what is read.\<close>

locale store =
  fixes get :: "'s \<Rightarrow> 'k \<Rightarrow> 'v option"
    and set_at :: "'k \<Rightarrow> 'v \<Rightarrow> 's \<Rightarrow> 's"
    and delete :: "'k \<Rightarrow> 's \<Rightarrow> 's"
    and invar :: "'s \<Rightarrow> bool"
  assumes get_set: "invar s \<Longrightarrow> get (set_at k v s) = (get s)(k \<mapsto> v)"
    and get_delete: "invar s \<Longrightarrow> get (delete k s) = (get s)(k := None)"
    and invar_set: "invar s \<Longrightarrow> invar (set_at k v s)"
    and invar_delete: "invar s \<Longrightarrow> invar (delete k s)"
    and extensional: "invar s \<Longrightarrow> invar t \<Longrightarrow> get s = get t \<Longrightarrow> s = t"
begin

lemma set_set: "invar s \<Longrightarrow> set_at k v (set_at k w s) = set_at k v s"
  by (rule extensional) (simp_all add: invar_set get_set)

lemma set_commute: "invar s \<Longrightarrow> k \<noteq> k' \<Longrightarrow> set_at k v (set_at k' w s) = set_at k' w (set_at k v s)"
  by (rule extensional) (auto simp: invar_set get_set fun_upd_twist)

lemma delete_commute: "invar s \<Longrightarrow> delete k (delete k' s) = delete k' (delete k s)"
  by (rule extensional) (auto simp: invar_delete get_delete fun_upd_twist)

text \<open>An amount that is added to the one that is there; amounts may be added in any order.\<close>

definition add_at :: "('v \<Rightarrow> 'v \<Rightarrow> 'v) \<Rightarrow> 'k \<Rightarrow> 'v \<Rightarrow> 's \<Rightarrow> 's" where
  "add_at f k v s = set_at k (case get s k of None \<Rightarrow> v | Some w \<Rightarrow> f v w) s"

lemma invar_add: "invar s \<Longrightarrow> invar (add_at f k v s)"
  by (simp add: add_at_def invar_set)

lemma add_commute:
  assumes "invar s" and "\<And>x y. f x y = f y x" and "\<And>x y z. f (f x y) z = f x (f y z)"
  shows "add_at f k v (add_at f k' w s) = add_at f k' w (add_at f k v s)"
proof (cases "k = k'")
  case True
  have "f v (f w x) = f w (f v x)" for x using assms(2,3) by metis
  then show ?thesis using True assms(1,2) by (auto simp: add_at_def get_set set_set split: option.split)
next
  case False
  then show ?thesis using assms(1) set_commute [OF assms(1) False] by (simp add: add_at_def get_set)
qed

end

lemma kv_set_keys: "fst ` set (kv_set k v s) = insert k (fst ` set s)"
  by (induction s) auto

lemma kv_set_ok: "kv_ok s \<Longrightarrow> kv_ok (kv_set k v s)"
proof (induction s)
  case (Cons e s)
  then have "kv_ok s" "\<forall>x \<in> set s. fst e < fst x" by (simp_all add: kv_ok_def)
  moreover have "\<forall>x \<in> set (kv_set k v s). fst e < fst x" if "fst e < k"
    using that \<open>\<forall>x \<in> set s. fst e < fst x\<close> kv_set_keys [of k v s] by (metis (no_types, lifting) image_iff insert_iff)
  ultimately show ?case using Cons by (auto simp: kv_ok_def not_less_iff_gr_or_eq)
qed (simp add: kv_ok_def)

lemma kv_set_get: "kv_ok s \<Longrightarrow> map_of (kv_set k v s) = (map_of s)(k \<mapsto> v)"
proof (induction s)
  case (Cons e s)
  obtain k' v' where e: "e = (k', v')" by (cases e)
  have "kv_ok s" "\<forall>x \<in> set s. k' < fst x" using Cons e by (simp_all add: kv_ok_def)
  then show ?case using Cons e by (auto simp: fun_eq_iff)
qed simp

lemma kv_delete_get: "map_of (kv_delete k s) = (map_of s)(k := None)"
  by (induction s) (auto simp: kv_delete_def fun_eq_iff)

lemma kv_delete_ok: "kv_ok s \<Longrightarrow> kv_ok (kv_delete k s)"
  by (simp add: kv_ok_def kv_delete_def sorted_wrt_map sorted_wrt_filter)

lemma kv_distinct: "kv_ok s \<Longrightarrow> distinct (map fst s)"
  unfolding kv_ok_def by (induction s) auto

lemma kv_ext:
  assumes "kv_ok s" and "kv_ok t" and "map_of s = map_of t"
  shows "s = t"
proof (rule map_sorted_distinct_set_unique [of fst])
  have d: "distinct (map fst s)" "distinct (map fst t)" using assms kv_distinct by blast+
  then show set: "set s = set t" using assms(3) map_of_inject_set by blast
  show "inj_on fst (set s \<union> set t)" using d(1) set by (simp add: distinct_map)
  show "sorted (map fst s)" "sorted (map fst t)" using assms(1,2) by (simp_all add: kv_ok_def strict_sorted_iff)
  show "distinct (map fst s)" "distinct (map fst t)" using d .
qed

interpretation kv: store map_of kv_set kv_delete kv_ok
  by unfold_locales (auto simp: kv_set_get kv_delete_get kv_set_ok kv_delete_ok intro: kv_ext)

section \<open>Blocks\<close>

definition BlocksPerMinute :: int where
  "BlocksPerMinute = 10"

definition BlocksPerHour :: int where
  "BlocksPerHour = BlocksPerMinute * 60"

definition BlocksPerDay :: int where
  "BlocksPerDay = BlocksPerHour * 24"

definition BlocksPerWeek :: int where
  "BlocksPerWeek = BlocksPerDay * 7"

definition BlocksPerEpoch :: int where
  "BlocksPerEpoch = BlocksPerWeek"

definition GetEpoch :: "int \<Rightarrow> int" where
  "GetEpoch height = height sdiv BlocksPerEpoch"

text \<open>What a Go function may panic with.\<close>

datatype panic = DivideByZero | NegativeCoin | NilMapWrite | NilDec | MintFailed

definition IsPeriodLastBlock :: "int \<Rightarrow> int \<Rightarrow> panic + bool" where
  "IsPeriodLastBlock height blocksPerPeriod =
     (if blocksPerPeriod = 0 then Inl DivideByZero else Inr ((height + 1) smod blocksPerPeriod = 0))"

section \<open>Validators\<close>

text \<open>The staking module: the bonded tokens of a validator, absent if there is none of that address, and their sum.\<close>

record valset =
  Validator :: "string \<Rightarrow> int option"
  TotalBondedTokens :: int

definition MicroLunaDenom :: string where
  "MicroLunaDenom = ''uluna''"

definition MicroSDRDenom :: string where
  "MicroSDRDenom = ''usdr''"

end
