(* ===== verification/TerraOracle.thy ===== *)
theory TerraOracle
  imports TerraSdk
begin

text \<open>
  The oracle of the chain (\<^verbatim>\<open>src/x/oracle\<close>): prevotes and votes of the validators on the price of Luna, the
  weighted median of a ballot, the tally at the end of a voting period, and the rewards of the voters that were
  close to it. The loop over the ballots follows the iteration of a Go map, whose order is an argument. The
  hash of a vote and the validators are arguments as well. What the module asks of the modules of the SDK is
  kept as the list of the calls.
\<close>

section \<open>State\<close>

record price_vote =
  pv_Price :: dec
  pv_Denom :: string
  pv_Voter :: string

record price_prevote =
  pp_Hash :: string
  pp_Denom :: string
  pp_Voter :: string
  pp_SubmitBlock :: int

record oracle_params =
  VotePeriod :: int
  VoteThreshold :: dec
  OracleRewardBand :: dec

record ostate =
  o_prevotes :: "(string \<times> string, price_prevote) kv"
  o_votes :: "(string \<times> string, price_vote) kv"
  o_prices :: "(string, dec) kv"
  o_delegates :: "(string, string) kv"
  o_swapFeePool :: coins
  o_claims :: "(string, int) kv"
  o_params :: oracle_params

definition oracle_DefaultParams :: oracle_params where
  "oracle_DefaultParams = \<lparr> VotePeriod = BlocksPerMinute, VoteThreshold = NewDecWithPrec 50 2,
     OracleRewardBand = NewDecWithPrec 1 2 \<rparr>"

definition oracle_validateParams :: "oracle_params \<Rightarrow> bool" where
  "oracle_validateParams p \<longleftrightarrow> \<not> VotePeriod p \<le> 0 \<and> \<not> VoteThreshold p \<le> NewDecWithPrec 33 2 \<and> \<not> OracleRewardBand p < 0"

section \<open>Ballots\<close>

definition getPower :: "valset \<Rightarrow> price_vote \<Rightarrow> int option" where
  "getPower vs v = Validator vs (pv_Voter v)"

definition ballot_power :: "valset \<Rightarrow> price_vote list \<Rightarrow> int" where
  "ballot_power vs pb = foldl (\<lambda>t v. case getPower vs v of Some p \<Rightarrow> t + p | None \<Rightarrow> t) 0 pb"

primrec median_loop :: "valset \<Rightarrow> int \<Rightarrow> int \<Rightarrow> price_vote list \<Rightarrow> dec" where
  "median_loop vs totalPower pivot [] = 0"
| "median_loop vs totalPower pivot (v # pb) =
     (case getPower vs v of
        None \<Rightarrow> median_loop vs totalPower pivot pb
      | Some votePower \<Rightarrow>
          (if pivot + votePower \<ge> totalPower sdiv 2 then pv_Price v
           else median_loop vs totalPower (pivot + votePower) pb))"

text \<open>
  \<^verbatim>\<open>sort.Sort\<close> is not stable, and \<^verbatim>\<open>Less\<close> holds for equal prices: the order of votes with the same price is
  not determined. The model takes one of the orders; the results do not depend on it.
\<close>

definition sort_ballot :: "price_vote list \<Rightarrow> price_vote list" where
  "sort_ballot pb = sort_key pv_Price pb"

definition weightedMedian :: "valset \<Rightarrow> price_vote list \<Rightarrow> dec" where
  "weightedMedian vs pb =
     (if length pb > 0 then median_loop vs (ballot_power vs pb) 0 (sort_ballot pb) else 0)"

definition ballotIsPassing :: "sdk \<Rightarrow> int \<Rightarrow> dec \<Rightarrow> int \<Rightarrow> bool" where
  "ballotIsPassing S totalBondedTokens voteThreshold ballotPower =
     (ballotPower \<ge> sdk_RoundInt S (voteThreshold * totalBondedTokens))"

section \<open>The store of the oracle\<close>

definition addClaim :: "string \<times> int \<Rightarrow> (string, int) kv \<Rightarrow> (string, int) kv" where
  "addClaim c s = kv_set (fst c) (case map_of s (fst c) of None \<Rightarrow> snd c | Some w \<Rightarrow> snd c + w) s"

definition addClaimPool :: "ostate \<Rightarrow> (string \<times> int) list \<Rightarrow> ostate" where
  "addClaimPool k pool = k\<lparr> o_claims := fold addClaim pool (o_claims k) \<rparr>"

definition clearClaimPool :: "ostate \<Rightarrow> ostate" where
  "clearClaimPool k = k\<lparr> o_claims := fold (\<lambda>e s. kv_delete (fst e) s) (o_claims k) (o_claims k) \<rparr>"

definition AddSwapFeePool :: "sdk \<Rightarrow> ostate \<Rightarrow> coins \<Rightarrow> ostate" where
  "AddSwapFeePool S k fees = k\<lparr> o_swapFeePool := sdk_Add S (o_swapFeePool k) fees \<rparr>"

definition GetLunaSwapRate :: "ostate \<Rightarrow> string \<Rightarrow> dec option" where
  "GetLunaSwapRate k denom = (if denom = MicroLunaDenom then Some OneDec else map_of (o_prices k) denom)"

definition SetLunaSwapRate :: "ostate \<Rightarrow> string \<Rightarrow> dec \<Rightarrow> ostate" where
  "SetLunaSwapRate k denom price = k\<lparr> o_prices := kv_set denom price (o_prices k) \<rparr>"

definition deletePrice :: "ostate \<Rightarrow> string \<Rightarrow> ostate" where
  "deletePrice k denom = k\<lparr> o_prices := kv_delete denom (o_prices k) \<rparr>"

definition getActiveDenoms :: "ostate \<Rightarrow> string list" where
  "getActiveDenoms k = map fst (o_prices k)"

definition addPrevote :: "ostate \<Rightarrow> price_prevote \<Rightarrow> ostate" where
  "addPrevote k p = k\<lparr> o_prevotes := kv_set (pp_Denom p, pp_Voter p) p (o_prevotes k) \<rparr>"

definition deletePrevote :: "ostate \<Rightarrow> price_prevote \<Rightarrow> ostate" where
  "deletePrevote k p = k\<lparr> o_prevotes := kv_delete (pp_Denom p, pp_Voter p) (o_prevotes k) \<rparr>"

definition addVote :: "ostate \<Rightarrow> price_vote \<Rightarrow> ostate" where
  "addVote k v = k\<lparr> o_votes := kv_set (pv_Denom v, pv_Voter v) v (o_votes k) \<rparr>"

definition deleteVote :: "ostate \<Rightarrow> price_vote \<Rightarrow> ostate" where
  "deleteVote k v = k\<lparr> o_votes := kv_delete (pv_Denom v, pv_Voter v) (o_votes k) \<rparr>"

definition GetFeedDelegate :: "ostate \<Rightarrow> string \<Rightarrow> string" where
  "GetFeedDelegate k operator = (case map_of (o_delegates k) operator of None \<Rightarrow> operator | Some d \<Rightarrow> d)"

definition SetFeedDelegate :: "ostate \<Rightarrow> string \<Rightarrow> string \<Rightarrow> ostate" where
  "SetFeedDelegate k operator delegate = k\<lparr> o_delegates := kv_set operator delegate (o_delegates k) \<rparr>"

text \<open>\<^verbatim>\<open>collectVotes\<close>: the votes by denomination, in the order of the store.\<close>

definition ballot_of :: "string \<Rightarrow> (string \<times> string, price_vote) kv \<Rightarrow> price_vote list" where
  "ballot_of denom votes = filter (\<lambda>v. pv_Denom v = denom) (map snd votes)"

definition collectVotes :: "ostate \<Rightarrow> string \<Rightarrow> price_vote list option" where
  "collectVotes k denom =
     (let pb = ballot_of denom (o_votes k) in if pb = [] then None else Some pb)"

section \<open>Tally\<close>

definition winners :: "valset \<Rightarrow> dec \<Rightarrow> dec \<Rightarrow> price_vote list \<Rightarrow> (string \<times> int) list" where
  "winners vs median spread pb =
     concat (map (\<lambda>v.
       if pv_Price v \<ge> median - spread \<and> pv_Price v \<le> median + spread then
         (case Validator vs (pv_Voter v) of None \<Rightarrow> [] | Some bondSize \<Rightarrow> [(pv_Voter v, bondSize)])
       else []) pb)"

definition tally :: "sdk \<Rightarrow> valset \<Rightarrow> ostate \<Rightarrow> price_vote list \<Rightarrow> dec \<times> ostate" where
  "tally S vs k pb =
     (let pb = sort_ballot pb;
          median = weightedMedian vs pb;
          rewardSpread = sdk_QuoInt S (OracleRewardBand (o_params k)) 2
      in (median, addClaimPool k (winners vs median rewardSpread pb)))"

section \<open>Rewards\<close>

text \<open>The calls of the distribution, fee and mint modules.\<close>

datatype oracle_call =
    AllocateTokensToValidator string coins
  | AddCollectedFees coins
  | ChangeIssuance string int

text \<open>The coins of one claim: its share of every coin of the pool, rounded down twice.\<close>

definition reward_amount :: "sdk \<Rightarrow> int \<Rightarrow> int \<Rightarrow> int \<Rightarrow> int" where
  "reward_amount S weightSum weight amount =
     sdk_TruncateInt S (sdk_QuoInt S (NewDecFromInt amount) weightSum * weight)"

definition reward_coins :: "sdk \<Rightarrow> int \<Rightarrow> int \<Rightarrow> coins \<Rightarrow> coins" where
  "reward_coins S weightSum weight pool =
     foldl (\<lambda>cs feeCoin. sdk_Add S cs (NewCoin (fst feeCoin) (reward_amount S weightSum weight (snd feeCoin)))) [] pool"

primrec dole_out :: "sdk \<Rightarrow> valset \<Rightarrow> int \<Rightarrow> coins \<Rightarrow> (string \<times> int) list \<Rightarrow> coins \<Rightarrow> oracle_call list \<Rightarrow> coins \<times> oracle_call list" where
  "dole_out S vs weightSum pool [] distributed calls = (distributed, calls)"
| "dole_out S vs weightSum pool (c # claims) distributed calls =
     (let coins = reward_coins S weightSum (snd c) pool;
          call = (if Validator vs (fst c) \<noteq> None then AllocateTokensToValidator (fst c) coins else AddCollectedFees coins)
      in dole_out S vs weightSum pool claims (sdk_Add S distributed coins) (calls @ [call]))"

definition rewardPrevBallotWinners :: "sdk \<Rightarrow> valset \<Rightarrow> ostate \<Rightarrow> panic + (ostate \<times> oracle_call list)" where
  "rewardPrevBallotWinners S vs k =
     (let weightSum = foldl (\<lambda>t c. t + snd c) 0 (o_claims k)
      in if weightSum = 0 then Inr (k, [])
         else
           let pool = o_swapFeePool k
           in if pool = [] then Inr (clearClaimPool k, [])
              else
                let (distributed, calls) = dole_out S vs weightSum pool (o_claims k) [] []
                in (case sdk_Sub S pool distributed of
                      None \<Rightarrow> Inl NegativeCoin
                    | Some leftFee \<Rightarrow>
                        Inr (clearClaimPool (k\<lparr> o_swapFeePool := [] \<rparr>),
                             calls @ (if leftFee \<noteq> [] then [AddCollectedFees leftFee] else [])
                             @ map (\<lambda>c. ChangeIssuance (fst c) (snd c)) pool)))"

section \<open>End of a block\<close>

definition end_ballot :: "sdk \<Rightarrow> valset \<Rightarrow> (string \<Rightarrow> price_vote list) \<Rightarrow> string \<Rightarrow> ostate \<Rightarrow> ostate" where
  "end_ballot S vs votes denom k =
     (if ballotIsPassing S (TotalBondedTokens vs) (VoteThreshold (o_params k)) (ballot_power vs (votes denom)) then
        let (median, k) = tally S vs k (votes denom) in SetLunaSwapRate k denom median
      else k)"

definition oracle_EndBlocker :: "sdk \<Rightarrow> valset \<Rightarrow> string list \<Rightarrow> int \<Rightarrow> ostate \<Rightarrow> panic + (ostate \<times> oracle_call list)" where
  "oracle_EndBlocker S vs order height k =
     rbind (IsPeriodLastBlock height (VotePeriod (o_params k))) (\<lambda>isLast.
       if \<not> isLast then Inr (k, [])
       else
         rbind (rewardPrevBallotWinners S vs k) (\<lambda>(k, calls).
           let votes = (\<lambda>d. ballot_of d (o_votes k));
               k = fold (\<lambda>d k. deletePrice k d) (getActiveDenoms k) k;
               k = fold (end_ballot S vs votes) order k;
               k = fold (\<lambda>e k. if height > pp_SubmitBlock (snd e) + VotePeriod (o_params k) then deletePrevote k (snd e) else k)
                     (o_prevotes k) k;
               k = fold (\<lambda>e k. deleteVote k (snd e)) (o_votes k) k
           in Inr (k, calls)))"


section \<open>Messages\<close>

datatype oracle_err = NoVotingPermission | NoValidatorFound | NoPrevote | NotRevealPeriod | VerificationFailed
  | InvalidHashLength nat | UnknownDenomination string | InvalidFeeder | InvalidPrice dec | InvalidSaltLength nat
  | OraclePanic panic

record msg_prevote =
  mp_Hash :: string
  mp_Denom :: string
  mp_Feeder :: string
  mp_Validator :: string

record msg_vote =
  mv_Price :: dec
  mv_Salt :: string
  mv_Denom :: string
  mv_Feeder :: string
  mv_Validator :: string

definition check_feeder :: "valset \<Rightarrow> ostate \<Rightarrow> string \<Rightarrow> string \<Rightarrow> oracle_err + unit" where
  "check_feeder vs k feeder validator =
     (if feeder \<noteq> validator \<and> GetFeedDelegate k validator \<noteq> feeder then Inl NoVotingPermission
      else if Validator vs validator = None then Inl NoValidatorFound
      else Inr ())"

definition handleMsgPricePrevote :: "valset \<Rightarrow> int \<Rightarrow> ostate \<Rightarrow> msg_prevote \<Rightarrow> oracle_err + ostate" where
  "handleMsgPricePrevote vs height k ppm =
     rbind (check_feeder vs k (mp_Feeder ppm) (mp_Validator ppm)) (\<lambda>_.
       Inr (addPrevote k \<lparr> pp_Hash = mp_Hash ppm, pp_Denom = mp_Denom ppm, pp_Voter = mp_Validator ppm,
                           pp_SubmitBlock = height \<rparr>))"

text \<open>
  The hash that a prevote commits to, and \<^verbatim>\<open>hex.DecodeString\<close>, whose error is ignored: the bytes before the
  first pair that is not hexadecimal.
\<close>

type_synonym vote_hash = "string \<Rightarrow> dec \<Rightarrow> string \<Rightarrow> string \<Rightarrow> 8 word list option"

definition fromHexChar :: "char \<Rightarrow> int option" where
  "fromHexChar c =
     (let n = int (of_char c)
      in if 48 \<le> n \<and> n \<le> 57 then Some (n - 48)
         else if 97 \<le> n \<and> n \<le> 102 then Some (n - 97 + 10)
         else if 65 \<le> n \<and> n \<le> 70 then Some (n - 65 + 10)
         else None)"

fun hex_DecodeString :: "string \<Rightarrow> 8 word list" where
  "hex_DecodeString (a # b # s) =
     (case (fromHexChar a, fromHexChar b) of
        (Some x, Some y) \<Rightarrow> word_of_int (x * 16 + y) # hex_DecodeString s
      | _ \<Rightarrow> [])"
| "hex_DecodeString _ = []"

definition handleMsgPriceVote :: "vote_hash \<Rightarrow> valset \<Rightarrow> int \<Rightarrow> ostate \<Rightarrow> msg_vote \<Rightarrow> oracle_err + ostate" where
  "handleMsgPriceVote VoteHash vs height k pvm =
     rbind (check_feeder vs k (mv_Feeder pvm) (mv_Validator pvm)) (\<lambda>_.
       case map_of (o_prevotes k) (mv_Denom pvm, mv_Validator pvm) of
         None \<Rightarrow> Inl NoPrevote
       | Some prevote \<Rightarrow>
           (let period = VotePeriod (o_params k)
            in if period = 0 then Inl (OraclePanic DivideByZero)
               else if (height sdiv period) - (pp_SubmitBlock prevote sdiv period) \<noteq> 1 then Inl NotRevealPeriod
               else
                 case VoteHash (mv_Salt pvm) (mv_Price pvm) (pp_Denom prevote) (pp_Voter prevote) of
                   None \<Rightarrow> Inl VerificationFailed
                 | Some bz2 \<Rightarrow>
                     (if hex_DecodeString (pp_Hash prevote) \<noteq> bz2 then Inl VerificationFailed
                      else
                        Inr (addVote (deletePrevote k prevote)
                          \<lparr> pv_Price = mv_Price pvm, pv_Denom = pp_Denom prevote, pv_Voter = pp_Voter prevote \<rparr>))))"

definition handleMsgDelegateFeederPermission :: "valset \<Rightarrow> ostate \<Rightarrow> string \<Rightarrow> string \<Rightarrow> oracle_err + ostate" where
  "handleMsgDelegateFeederPermission vs k operator delegate =
     (if Validator vs operator = None then Inl NoValidatorFound else Inr (SetFeedDelegate k operator delegate))"

text \<open>The checks of a message before it is delivered. \<^verbatim>\<open>hex.DecodeString\<close> reports an error unless it decoded every character.\<close>

definition TruncatedSize :: nat where
  "TruncatedSize = 20"

definition MsgPricePrevote_ValidateBasic :: "msg_prevote \<Rightarrow> oracle_err + unit" where
  "MsgPricePrevote_ValidateBasic msg =
     (let bz = hex_DecodeString (mp_Hash msg)
      in if length bz \<noteq> TruncatedSize \<or> 2 * length bz \<noteq> length (mp_Hash msg) then Inl (InvalidHashLength (length (mp_Hash msg)))
         else if length (mp_Denom msg) = 0 then Inl (UnknownDenomination [])
         else if mp_Feeder msg = [] then Inl InvalidFeeder
         else if mp_Validator msg = [] then Inl InvalidFeeder
         else Inr ())"

definition MsgPriceVote_ValidateBasic :: "msg_vote \<Rightarrow> oracle_err + unit" where
  "MsgPriceVote_ValidateBasic msg =
     (if length (mv_Denom msg) = 0 then Inl (UnknownDenomination [])
      else if mv_Feeder msg = [] then Inl InvalidFeeder
      else if mv_Validator msg = [] then Inl InvalidFeeder
      else if mv_Price msg \<le> 0 then Inl (InvalidPrice (mv_Price msg))
      else if length (mv_Salt msg) > 4 \<or> length (mv_Salt msg) < 1 then Inl (InvalidSaltLength (length (mv_Salt msg)))
      else Inr ())"

definition MsgDelegateFeederPermission_ValidateBasic :: "string \<Rightarrow> string \<Rightarrow> oracle_err + unit" where
  "MsgDelegateFeederPermission_ValidateBasic operator delegate =
     (if operator = [] then Inl InvalidFeeder else if delegate = [] then Inl InvalidFeeder else Inr ())"

section \<open>The weighted median\<close>

text \<open>The power behind the votes of a ballot with a property of the price.\<close>

definition power_where :: "valset \<Rightarrow> (dec \<Rightarrow> bool) \<Rightarrow> price_vote list \<Rightarrow> int" where
  "power_where vs q pb = (\<Sum>v\<leftarrow>pb. if q (pv_Price v) then (case getPower vs v of Some p \<Rightarrow> p | None \<Rightarrow> 0) else 0)"

definition bonded_ok :: "valset \<Rightarrow> bool" where
  "bonded_ok vs \<longleftrightarrow> (\<forall>a p. Validator vs a = Some p \<longrightarrow> 0 \<le> p)"

lemma power_where_Cons [simp]:
  "power_where vs q [] = 0"
  "power_where vs q (v # pb) = (if q (pv_Price v) then (case getPower vs v of Some p \<Rightarrow> p | None \<Rightarrow> 0) else 0) + power_where vs q pb"
  by (simp_all add: power_where_def)

lemma power_where_perm: "mset pb = mset pb' \<Longrightarrow> power_where vs q pb = power_where vs q pb'"
  unfolding power_where_def by (simp only: sum_mset_sum_list [symmetric] mset_map)

lemma ballot_power_where: "ballot_power vs pb = power_where vs (\<lambda>_. True) pb"
proof -
  have "foldl (\<lambda>t v. case getPower vs v of Some p \<Rightarrow> t + p | None \<Rightarrow> t) a pb = a + power_where vs (\<lambda>_. True) pb" for a
    by (induction pb arbitrary: a) (auto split: option.split)
  then show ?thesis by (simp add: ballot_power_def)
qed

lemma power_nonneg: "bonded_ok vs \<Longrightarrow> 0 \<le> (case getPower vs v of Some p \<Rightarrow> p | None \<Rightarrow> 0)"
  by (auto simp: bonded_ok_def getPower_def split: option.split)

lemma power_where_mono:
  "bonded_ok vs \<Longrightarrow> (\<And>p. q p \<Longrightarrow> q' p) \<Longrightarrow> power_where vs q pb \<le> power_where vs q' pb"
  unfolding power_where_def by (rule sum_list_mono) (use power_nonneg in auto)


lemma power_where_none: "(\<And>v. v \<in> set pb \<Longrightarrow> q (pv_Price v) \<Longrightarrow> getPower vs v = None) \<Longrightarrow> power_where vs q pb = 0"
  by (induction pb) auto

text \<open>The prices that a validator voted for and that are backed, with the lower ones, by half of the power.\<close>

definition backed :: "valset \<Rightarrow> price_vote list \<Rightarrow> dec set" where
  "backed vs pb = {pv_Price v |v. v \<in> set pb \<and> getPower vs v \<noteq> None
     \<and> ballot_power vs pb sdiv 2 \<le> power_where vs (\<lambda>p. p \<le> pv_Price v) pb}"

text \<open>The loop over a sorted rest of the ballot finds the first price at which the sum reaches \<open>half\<close>.\<close>

lemma median_loop_least:
  assumes "bonded_ok vs" and "sorted (map pv_Price pb)" and "\<exists>v \<in> set pb. getPower vs v \<noteq> None"
    and "half \<le> pivot + power_where vs (\<lambda>_. True) pb" and "half = tot sdiv 2"
  shows "\<exists>v \<in> set pb. getPower vs v \<noteq> None \<and> median_loop vs tot pivot pb = pv_Price v
    \<and> half \<le> pivot + power_where vs (\<lambda>p. p \<le> pv_Price v) pb
    \<and> (\<forall>w \<in> set pb. getPower vs w \<noteq> None \<longrightarrow> half \<le> pivot + power_where vs (\<lambda>p. p \<le> pv_Price w) pb \<longrightarrow> pv_Price v \<le> pv_Price w)"
  using assms
proof (induction pb arbitrary: pivot)
  case (Cons v pb)
  have sorted: "sorted (map pv_Price pb)" and first: "\<And>w. w \<in> set pb \<Longrightarrow> pv_Price v \<le> pv_Price w" using Cons(3) by auto
  show ?case
  proof (cases "getPower vs v")
    case None
    then have "\<exists>w \<in> set pb. getPower vs w \<noteq> None" using Cons(4) by auto
    from Cons(1) [OF Cons(2) sorted this, of pivot] Cons(5,6) None show ?thesis by auto
  next
    case (Some p)
    have p0: "0 \<le> power_where vs q pb" for q
      using power_where_mono [OF Cons(2), of "\<lambda>_. False" q pb] power_where_none [of pb "\<lambda>_. False" vs] by simp
    show ?thesis
    proof (cases "half \<le> pivot + p")
      case True
      then show ?thesis using Some Cons(6) p0 [of "\<lambda>x. x \<le> pv_Price v"] first by (intro bexI [of _ v]) auto
    next
      case False
      have ex: "\<exists>w \<in> set pb. getPower vs w \<noteq> None"
      proof (rule ccontr)
        assume "\<not> ?thesis"
        then have "power_where vs (\<lambda>_. True) pb = 0" by (intro power_where_none) auto
        then show False using Cons(5) Some False by simp
      qed
      from Cons(1) [OF Cons(2) sorted ex, of "pivot + p"] Cons(5,6) Some
      obtain w where w: "w \<in> set pb" "getPower vs w \<noteq> None" "median_loop vs tot (pivot + p) pb = pv_Price w"
        "half \<le> pivot + p + power_where vs (\<lambda>x. x \<le> pv_Price w) pb"
        "\<forall>u \<in> set pb. getPower vs u \<noteq> None \<longrightarrow> half \<le> pivot + p + power_where vs (\<lambda>x. x \<le> pv_Price u) pb \<longrightarrow> pv_Price w \<le> pv_Price u"
        by (auto simp: algebra_simps)
      have "pv_Price w \<le> pv_Price v" if h: "half \<le> pivot + (p + power_where vs (\<lambda>x. x \<le> pv_Price v) pb)"
      proof (rule ccontr)
        assume n: "\<not> pv_Price w \<le> pv_Price v"
        have "power_where vs (\<lambda>x. x \<le> pv_Price v) pb = 0"
        proof (rule power_where_none)
          fix u
          assume u: "u \<in> set pb" "pv_Price u \<le> pv_Price v"
          then have "pv_Price u = pv_Price v" using first by (meson order.antisym)
          then show "getPower vs u = None" using w(5) u h n by (auto simp: algebra_simps)
        qed
        then show False using h False by simp
      qed
      then show ?thesis using w Some False Cons(6) first
        by (intro bexI [of _ w]) (auto simp: algebra_simps)
    qed
  qed
qed simp

lemma sort_ballot_facts: "mset (sort_ballot pb) = mset pb" "sorted (map pv_Price (sort_ballot pb))" "set (sort_ballot pb) = set pb"
  by (simp_all add: sort_ballot_def)

lemma sdiv2_le: "0 \<le> (t::int) \<Longrightarrow> t sdiv 2 \<le> t"
  using zdiv_mono2 [of t 1 2] by (simp add: signed_divide_int_def sgn_if)

lemma weightedMedian_least:
  assumes "bonded_ok vs" and "\<exists>v \<in> set pb. getPower vs v \<noteq> None"
  shows "weightedMedian vs pb \<in> backed vs pb" and "p \<in> backed vs pb \<Longrightarrow> weightedMedian vs pb \<le> p"
proof -
  let ?s = "sort_ballot pb" and ?t = "ballot_power vs pb"
  have pw: "power_where vs q ?s = power_where vs q pb" for q by (rule power_where_perm) (rule sort_ballot_facts)
  have "0 \<le> ?t" using power_where_mono [OF assms(1), of "\<lambda>_. False" "\<lambda>_. True" pb] power_where_none [of pb "\<lambda>_. False" vs]
    by (simp add: ballot_power_where)
  then have "?t sdiv 2 \<le> 0 + power_where vs (\<lambda>_. True) ?s" using sdiv2_le pw by (simp add: ballot_power_where)
  from median_loop_least [OF assms(1) sort_ballot_facts(2) _ this refl] assms(2)
  obtain v where v: "v \<in> set pb" "getPower vs v \<noteq> None" "median_loop vs ?t 0 ?s = pv_Price v"
    "?t sdiv 2 \<le> power_where vs (\<lambda>p. p \<le> pv_Price v) pb"
    "\<forall>w \<in> set pb. getPower vs w \<noteq> None \<longrightarrow> ?t sdiv 2 \<le> power_where vs (\<lambda>p. p \<le> pv_Price w) pb \<longrightarrow> pv_Price v \<le> pv_Price w"
    by (auto simp: pw sort_ballot_facts(3))
  have m: "weightedMedian vs pb = pv_Price v" using v(1,3) by (auto simp: weightedMedian_def)
  show "weightedMedian vs pb \<in> backed vs pb" using v(1,2,4) unfolding m backed_def by blast
  show "weightedMedian vs pb \<le> p" if "p \<in> backed vs pb" using that v(5) unfolding m backed_def by blast
qed


text \<open>Three validators and their votes, for the examples.\<close>

definition val3 :: valset where
  "val3 = \<lparr> Validator = (\<lambda>a. if a = ''a'' then Some 2 else if a = ''b'' then Some 3 else if a = ''c'' then Some 4 else None),
            TotalBondedTokens = 9 \<rparr>"

definition vote_at :: "string \<Rightarrow> dec \<Rightarrow> price_vote" where
  "vote_at voter price = \<lparr> pv_Price = price, pv_Denom = ''ukrw'', pv_Voter = voter \<rparr>"

lemma val3_ok: "bonded_ok val3"
  by (auto simp: bonded_ok_def val3_def split: if_splits)

lemmas example_simps = val3_def vote_at_def getPower_def power_where_def ballot_power_def signed_divide_int_def





text \<open>Because the half is rounded down, a minority can set the price alone: with 2 of 5 units of power it pulls the
  median to its price, though all other votes are for another one.\<close>

theorem weightedMedian_minority:
  "weightedMedian val3 [vote_at ''b'' 100, vote_at ''a'' 1] = 1
   \<and> 2 * power_where val3 (\<lambda>p. p = 1) [vote_at ''b'' 100, vote_at ''a'' 1] < ballot_power val3 [vote_at ''b'' 100, vote_at ''a'' 1]"
  by (simp add: example_simps weightedMedian_def sort_ballot_def)

section \<open>The order of a map\<close>


lemma addClaim_add_at: "addClaim c = kv.add_at (+) (fst c) (snd c)"
  by (simp add: fun_eq_iff addClaim_def kv.add_at_def)

lemma addClaims_ok: "kv_ok s \<Longrightarrow> kv_ok (fold addClaim cs s)"
  by (induction cs arbitrary: s) (auto simp: addClaim_add_at intro: kv.invar_add)



text \<open>What a ballot does to the store: it depends on the parameters and the votes only.\<close>

definition ballot_claims :: "sdk \<Rightarrow> valset \<Rightarrow> oracle_params \<Rightarrow> price_vote list \<Rightarrow> (string \<times> int) list" where
  "ballot_claims S vs p pb =
     (if ballotIsPassing S (TotalBondedTokens vs) (VoteThreshold p) (ballot_power vs pb)
      then winners vs (weightedMedian vs (sort_ballot pb)) (sdk_QuoInt S (OracleRewardBand p) 2) (sort_ballot pb) else [])"

definition ballot_price :: "sdk \<Rightarrow> valset \<Rightarrow> oracle_params \<Rightarrow> price_vote list \<Rightarrow> dec option" where
  "ballot_price S vs p pb =
     (if ballotIsPassing S (TotalBondedTokens vs) (VoteThreshold p) (ballot_power vs pb)
      then Some (weightedMedian vs (sort_ballot pb)) else None)"

lemma end_ballot_effect:
  "end_ballot S vs votes d k =
     k\<lparr> o_claims := fold addClaim (ballot_claims S vs (o_params k) (votes d)) (o_claims k),
        o_prices := (case ballot_price S vs (o_params k) (votes d) of None \<Rightarrow> o_prices k | Some m \<Rightarrow> kv_set d m (o_prices k)) \<rparr>"
  by (simp add: end_ballot_def ballot_claims_def ballot_price_def tally_def addClaimPool_def SetLunaSwapRate_def Let_def)

definition tables_ok :: "ostate \<Rightarrow> bool" where
  "tables_ok k \<longleftrightarrow> kv_ok (o_claims k) \<and> kv_ok (o_prices k) \<and> kv_ok (o_votes k) \<and> kv_ok (o_prevotes k) \<and> kv_ok (o_delegates k)"

lemma end_ballot_ok: "tables_ok k \<Longrightarrow> tables_ok (end_ballot S vs votes d k)"
  by (simp add: end_ballot_effect tables_ok_def addClaims_ok kv_set_ok split: option.split)


lemma rewards_keep:
  assumes "rewardPrevBallotWinners S vs k = Inr (k', calls)" and "tables_ok k"
  shows "o_votes k' = o_votes k" "o_params k' = o_params k" "o_prices k' = o_prices k" "tables_ok k'"
    "o_prevotes k' = o_prevotes k" "o_delegates k' = o_delegates k"
proof -
  have "kv_ok (fold (\<lambda>e. kv_delete (fst e)) xs s)" if "kv_ok s" for xs :: "(string \<times> int) list" and s :: "(string, int) kv"
    using that by (induction xs arbitrary: s) (auto simp: kv_delete_ok)
  then show "o_votes k' = o_votes k" "o_params k' = o_params k" "o_prices k' = o_prices k" "tables_ok k'"
    "o_prevotes k' = o_prevotes k" "o_delegates k' = o_delegates k"
    using assms by (auto simp: rewardPrevBallotWinners_def Let_def clearClaimPool_def tables_ok_def split: if_splits option.splits prod.splits)
qed

lemma delete_prices: "fold (\<lambda>d k. deletePrice k d) ds k = k\<lparr> o_prices := fold kv_delete ds (o_prices k) \<rparr>"
  by (induction ds arbitrary: k) (simp_all add: deletePrice_def)

lemma delete_all_keys: "fold (\<lambda>e. kv_delete (f e)) xs s = filter (\<lambda>e. fst e \<notin> f ` set xs) s"
  by (induction xs arbitrary: s) (auto simp: kv_delete_def intro: filter_cong)

lemma delete_prices_all: "fold kv_delete (map fst s) s = []"
  using delete_all_keys [of "\<lambda>x. x" "map fst s" s] by (simp add: filter_empty_conv)


text \<open>A state with votes on two denominations, for the examples.\<close>

definition two_ballots :: ostate where
  "two_ballots = \<lparr> o_prevotes = [],
     o_votes = [((''ukrw'', ''b''), vote_at ''b'' 7), ((''uusd'', ''c''), (vote_at ''c'' 9)\<lparr> pv_Denom := ''uusd'' \<rparr>)],
     o_prices = [(''ukrw'', 6)], o_delegates = [], o_swapFeePool = [], o_claims = [(''a'', 2)],
     o_params = oracle_DefaultParams \<rparr>"


section \<open>Rewards\<close>

text \<open>The coins that the calls hand out.\<close>

fun call_coins :: "oracle_call \<Rightarrow> coins" where
  "call_coins (AllocateTokensToValidator a cs) = cs"
| "call_coins (AddCollectedFees cs) = cs"
| "call_coins (ChangeIssuance d a) = []"

definition handed_out :: "oracle_call list \<Rightarrow> string \<Rightarrow> int" where
  "handed_out calls d = (\<Sum>c\<leftarrow>calls. AmountOf (call_coins c) d)"

lemma NewCoin_ok: "0 \<le> a \<Longrightarrow> coins_ok (NewCoin d a)" and AmountOf_NewCoin: "AmountOf (NewCoin d a) e = (if e = d then a else 0)"
  by (auto simp: coins_ok_def NewCoin_def AmountOf_def)

lemma div_times_le: "0 < (t::int) \<Longrightarrow> x div t * t \<le> x"
  using minus_mod_eq_div_mult [of x t] pos_mod_sign [of t x] by linarith

context cosmos
begin

lemma reward_amount_nonneg: "0 < t \<Longrightarrow> 0 \<le> w \<Longrightarrow> 0 \<le> a \<Longrightarrow> 0 \<le> reward_amount S t w a"
  by (simp add: reward_amount_def QuoInt_trunc TruncateInt_trunc NewDecFromInt_def dec_unit_def pos_imp_zdiv_nonneg_iff)

text \<open>The shares of the claims add up to the amount or less.\<close>

lemma reward_amount_sum:
  assumes "0 < t" and "0 \<le> a" and "\<And>w. w \<in> set ws \<Longrightarrow> 0 \<le> w" and "sum_list ws \<le> t"
  shows "(\<Sum>w\<leftarrow>ws. reward_amount S t w a) \<le> a"
proof -
  define q where "q = a * dec_unit div t"
  have q: "0 \<le> q" "q * t \<le> a * dec_unit"
    using assms(1,2) div_times_le [of t "a * dec_unit"] by (simp_all add: q_def dec_unit_def pos_imp_zdiv_nonneg_iff)
  have r: "reward_amount S t w a = q * w div dec_unit" if "0 \<le> w" for w
    using that assms(1,2) q(1) by (simp add: reward_amount_def QuoInt_trunc TruncateInt_trunc NewDecFromInt_def q_def dec_unit_def)
  have "dec_unit * (q * w div dec_unit) \<le> q * w" for w
    using div_times_le [of dec_unit "q * w"] by (simp add: dec_unit_def mult.commute)
  then have "dec_unit * (\<Sum>w\<leftarrow>ws. q * w div dec_unit) \<le> q * sum_list ws"
    by (induction ws) (auto simp: distrib_left intro: add_mono)
  also have "\<dots> \<le> q * t" using assms(4) q(1) by (rule mult_left_mono)
  also have "\<dots> \<le> dec_unit * a" using q(2) by (simp add: mult.commute)
  finally have "(\<Sum>w\<leftarrow>ws. q * w div dec_unit) \<le> a" by (simp add: dec_unit_def)
  moreover have "map (\<lambda>w. reward_amount S t w a) ws = map (\<lambda>w. q * w div dec_unit) ws" using r assms(3) by simp
  ultimately show ?thesis by (simp only:)
qed

lemma reward_coins_amount:
  assumes "coins_ok pool" and "0 < t" and "0 \<le> w"
  shows "coins_ok (reward_coins S t w pool) \<and> AmountOf (reward_coins S t w pool) d = reward_amount S t w (AmountOf pool d)"
proof -
  have zero: "reward_amount S t w 0 = 0"
    using assms(2,3) by (simp add: reward_amount_def QuoInt_trunc TruncateInt_trunc NewDecFromInt_def)
  let ?step = "\<lambda>cs feeCoin. sdk_Add S cs (NewCoin (fst feeCoin) (reward_amount S t w (snd feeCoin)))"
  have step: "coins_ok (foldl ?step cs xs) \<and> AmountOf (foldl ?step cs xs) d = AmountOf cs d + reward_amount S t w (AmountOf xs d)"
    if "coins_ok cs" "coins_ok xs" for cs xs
    using that
  proof (induction xs arbitrary: cs)
    case Nil
    then show ?case by (simp add: AmountOf_def zero)
  next
    case (Cons x xs)
    have x: "0 \<le> snd x" "coins_ok xs" "\<forall>y \<in> set xs. fst x < fst y" using Cons(3) by (auto simp: coins_ok_def)
    have n: "coins_ok (NewCoin (fst x) (reward_amount S t w (snd x)))" using reward_amount_nonneg [OF assms(2,3) x(1)] by (rule NewCoin_ok)
    have "AmountOf xs (fst x) = 0" using x(3) by (intro AmountOf_outside) auto
    moreover have "AmountOf (x # xs) d = (if d = fst x then snd x else AmountOf xs d)" by (simp add: AmountOf_def)
    ultimately show ?case
      using Cons(1) [OF Add_ok [OF Cons(2) n] x(2)] Add_amount [OF Cons(2) n, of d] zero by (auto simp: AmountOf_NewCoin)
  qed
  have "coins_ok []" by (simp add: coins_ok_def)
  from step [OF this assms(1)] show ?thesis by (simp add: reward_coins_def AmountOf_def)
qed

lemma dole_out_sums:
  assumes "coins_ok pool" and "0 < t" and "\<And>c. c \<in> set claims \<Longrightarrow> 0 \<le> snd c" and "coins_ok dist"
  shows "coins_ok (fst (dole_out S vs t pool claims dist calls))
    \<and> AmountOf (fst (dole_out S vs t pool claims dist calls)) d = AmountOf dist d + (\<Sum>w\<leftarrow>map snd claims. reward_amount S t w (AmountOf pool d))
    \<and> handed_out (snd (dole_out S vs t pool claims dist calls)) d = handed_out calls d + (\<Sum>w\<leftarrow>map snd claims. reward_amount S t w (AmountOf pool d))"
  using assms(3,4)
proof (induction claims arbitrary: dist calls)
  case (Cons c claims)
  have r: "coins_ok (reward_coins S t (snd c) pool)" "AmountOf (reward_coins S t (snd c) pool) d = reward_amount S t (snd c) (AmountOf pool d)"
    using reward_coins_amount [OF assms(1,2)] Cons(2) by auto
  have "handed_out (calls @ [x]) d = handed_out calls d + AmountOf (call_coins x) d" for x by (simp add: handed_out_def)
  then show ?case
    using Cons(1) [OF _ Add_ok [OF Cons(3) r(1)]] Cons(2) Add_amount [OF Cons(3) r(1), of d] r(2) by (simp add: Let_def)
qed simp

end

lemma handed_out_append: "handed_out (xs @ ys) d = handed_out xs d + handed_out ys d"
  by (simp add: handed_out_def)

lemma weight_sum: "foldl (\<lambda>t c. t + snd c) 0 (claims :: ('a \<times> int) list) = sum_list (map snd claims)"
proof -
  have "foldl (\<lambda>t c. t + snd c) a claims = a + sum_list (map snd claims)" for a
    by (induction claims arbitrary: a) auto
  then show ?thesis by simp
qed

text \<open>C8: The rewards of a period hand out the pool of the swap fees exactly: the shares of the winners, the shares of
  winners that are no validators any more and the rest add up to the pool, denomination by denomination, and the pool
  and the claims are empty afterwards. The difference that is left is never negative.\<close>

theorem rewards_conserve:
  assumes "cosmos S" and "coins_ok (o_swapFeePool k)" and "list_all (\<lambda>c. 0 < snd c) (o_claims k)"
    and "o_claims k \<noteq> []" and "o_swapFeePool k \<noteq> []"
  shows "\<exists>k' calls. rewardPrevBallotWinners S vs k = Inr (k', calls) \<and> o_swapFeePool k' = [] \<and> o_claims k' = []
    \<and> handed_out calls d = AmountOf (o_swapFeePool k) d"
proof -
  let ?pool = "o_swapFeePool k" and ?claims = "o_claims k"
  let ?t = "sum_list (map snd ?claims)"
  have pos: "\<And>c. c \<in> set ?claims \<Longrightarrow> 0 < snd c" using assms(3) by (simp add: list_all_iff)
  have "0 \<le> sum_list (map snd xs)" if "\<And>c. c \<in> set xs \<Longrightarrow> 0 < snd c" for xs :: "(string \<times> int) list"
    using that by (induction xs) fastforce+
  then have t: "0 < ?t" using assms(4) pos by (cases ?claims) (auto simp: add_pos_nonneg)
  obtain dist calls where dc: "dole_out S vs ?t ?pool ?claims [] [] = (dist, calls)" by fastforce
  have nil: "coins_ok []" "AmountOf [] e = 0" "handed_out [] e = 0" for e by (simp_all add: coins_ok_def AmountOf_def handed_out_def)
  have sums: "coins_ok dist" "AmountOf dist e = (\<Sum>w\<leftarrow>map snd ?claims. reward_amount S ?t w (AmountOf ?pool e))"
    "handed_out calls e = AmountOf dist e" for e
    using cosmos.dole_out_sums [OF assms(1,2) t, of ?claims "[]" vs "[]" e] pos nil(1) nil(2) [of e] nil(3) [of e]
    by (fastforce simp: dc less_imp_le)+
  have le: "AmountOf dist e \<le> AmountOf ?pool e" for e
    unfolding sums(2) using pos AmountOf_nonneg [OF assms(2)] t
    by (intro cosmos.reward_amount_sum [OF assms(1)]) (auto simp: less_imp_le)
  obtain left where left: "sdk_Sub S ?pool dist = Some left" "AmountOf left e = AmountOf ?pool e - AmountOf dist e" for e
    using sdk_coins.Sub_some [OF _ assms(2) sums(1) le] assms(1) by (auto simp: cosmos_def)
  let ?calls = "calls @ (if left \<noteq> [] then [AddCollectedFees left] else []) @ map (\<lambda>c. ChangeIssuance (fst c) (snd c)) ?pool"
  have "handed_out (map (\<lambda>c. ChangeIssuance (fst c) (snd c)) cs) d = 0" for cs :: coins
    by (induction cs) (auto simp: handed_out_def AmountOf_def)
  moreover have "handed_out (if left \<noteq> [] then [AddCollectedFees left] else []) d = AmountOf left d"
    by (simp add: handed_out_def AmountOf_def)
  ultimately have "handed_out ?calls d = AmountOf ?pool d"
    using sums(3) [of d] left(2) [of d] by (simp only: handed_out_append)
  moreover have "rewardPrevBallotWinners S vs k = Inr (clearClaimPool (k\<lparr> o_swapFeePool := [] \<rparr>), ?calls)"
    using t assms(5) by (simp add: rewardPrevBallotWinners_def Let_def weight_sum dc left(1))
  moreover have "o_claims (clearClaimPool (k\<lparr> o_swapFeePool := [] \<rparr>)) = []" "o_swapFeePool (clearClaimPool (k\<lparr> o_swapFeePool := [] \<rparr>)) = []"
    using delete_all_keys [of fst ?claims ?claims] by (simp_all add: clearClaimPool_def filter_empty_conv)
  ultimately show ?thesis by blast
qed

theorem rewards_conserve_witness:
  "\<exists>k' calls. rewardPrevBallotWinners dec18 val3 (two_ballots\<lparr> o_swapFeePool := [(''ukrw'', 100)], o_claims := [(''a'', 2), (''x'', 5)] \<rparr>) = Inr (k', calls)
    \<and> o_swapFeePool k' = [] \<and> o_claims k' = [] \<and> handed_out calls ''ukrw'' = 100"
  using rewards_conserve [OF dec18.cosmos_axioms, of "two_ballots\<lparr> o_swapFeePool := [(''ukrw'', 100)], o_claims := [(''a'', 2), (''x'', 5)] \<rparr>" val3 "''ukrw''"]
  by (simp add: coins_ok_def AmountOf_def)

section \<open>Commit and reveal\<close>

text \<open>The life of the oracle: messages that are delivered at a height, and ends of blocks.\<close>

datatype oracle_event =
    Prevote int msg_prevote
  | Vote int msg_vote
  | Delegate string string
  | EndBlock int "string list"

inductive oracle_step :: "sdk \<Rightarrow> vote_hash \<Rightarrow> valset \<Rightarrow> oracle_event \<Rightarrow> ostate \<Rightarrow> ostate \<Rightarrow> bool"
  for S :: sdk and VH :: vote_hash and vs :: valset where
  prevote: "handleMsgPricePrevote vs h k m = Inr k' \<Longrightarrow> oracle_step S VH vs (Prevote h m) k k'"
| vote: "handleMsgPriceVote VH vs h k m = Inr k' \<Longrightarrow> oracle_step S VH vs (Vote h m) k k'"
| delegate: "handleMsgDelegateFeederPermission vs k a b = Inr k' \<Longrightarrow> oracle_step S VH vs (Delegate a b) k k'"
| end_block: "oracle_EndBlocker S vs order h k = Inr (k', calls) \<Longrightarrow> oracle_step S VH vs (EndBlock h order) k k'"

inductive oracle_run :: "sdk \<Rightarrow> vote_hash \<Rightarrow> valset \<Rightarrow> oracle_event list \<Rightarrow> ostate \<Rightarrow> ostate \<Rightarrow> bool"
  for S :: sdk and VH :: vote_hash and vs :: valset where
  start: "oracle_run S VH vs [] k k"
| step: "oracle_run S VH vs es k k' \<Longrightarrow> oracle_step S VH vs e k' k'' \<Longrightarrow> oracle_run S VH vs (es @ [e]) k k''"

inductive_cases prevote_stepE: "oracle_step S VH vs (Prevote h m) k k'"
inductive_cases vote_stepE: "oracle_step S VH vs (Vote h m) k k'"
inductive_cases delegate_stepE: "oracle_step S VH vs (Delegate a b) k k'"
inductive_cases end_stepE: "oracle_step S VH vs (EndBlock h order) k k'"

text \<open>The prevote that is stored was the last one of its voter; a stored vote opens a prevote of the period before.\<close>

definition committed :: "oracle_event list \<Rightarrow> price_prevote \<Rightarrow> bool" where
  "committed es p \<longleftrightarrow> (\<exists>m. Prevote (pp_SubmitBlock p) m \<in> set es \<and> mp_Hash m = pp_Hash p \<and> mp_Denom m = pp_Denom p
     \<and> mp_Validator m = pp_Voter p)"

definition revealed :: "vote_hash \<Rightarrow> int \<Rightarrow> oracle_event list \<Rightarrow> price_vote \<Rightarrow> bool" where
  "revealed VH period es v \<longleftrightarrow> (\<exists>es1 es2 h m p. es = es1 @ Vote h m # es2 \<and> committed es1 p
     \<and> pp_Denom p = pv_Denom v \<and> pp_Voter p = pv_Voter v \<and> h sdiv period - pp_SubmitBlock p sdiv period = 1
     \<and> VH (mv_Salt m) (pv_Price v) (pv_Denom v) (pv_Voter v) = Some (hex_DecodeString (pp_Hash p)))"

definition votes_ok :: "vote_hash \<Rightarrow> oracle_event list \<Rightarrow> ostate \<Rightarrow> bool" where
  "votes_ok VH es k \<longleftrightarrow> tables_ok k
     \<and> (\<forall>e \<in> set (o_prevotes k). fst e = (pp_Denom (snd e), pp_Voter (snd e)) \<and> committed es (snd e))
     \<and> (\<forall>e \<in> set (o_votes k). fst e = (pv_Denom (snd e), pv_Voter (snd e)) \<and> revealed VH (VotePeriod (o_params k)) es (snd e))"

lemma committed_more: "committed es p \<Longrightarrow> committed (es @ es') p"
  by (auto simp: committed_def)

lemma revealed_more:
  assumes "revealed VH period es v"
  shows "revealed VH period (es @ es') v"
proof -
  obtain es1 es2 h m p where e: "es = es1 @ Vote h m # es2" "committed es1 p"
     "pp_Denom p = pv_Denom v" "pp_Voter p = pv_Voter v" "h sdiv period - pp_SubmitBlock p sdiv period = 1"
     "VH (mv_Salt m) (pv_Price v) (pv_Denom v) (pv_Voter v) = Some (hex_DecodeString (pp_Hash p))"
    using assms unfolding revealed_def by blast
  then have "es @ es' = es1 @ Vote h m # (es2 @ es')" by simp
  then show ?thesis unfolding revealed_def using e by blast
qed

lemma set_kv_set: "set (kv_set k v s) \<subseteq> insert (k, v) (set s)"
  by (induction s) auto

lemma set_kv_delete: "set (kv_delete k s) \<subseteq> set s"
  by (auto simp: kv_delete_def)

lemma delete_votes: "fold (\<lambda>e k. deleteVote k (snd e)) xs k
    = k\<lparr> o_votes := fold (\<lambda>e. kv_delete (pv_Denom (snd e), pv_Voter (snd e))) xs (o_votes k) \<rparr>"
  by (induction xs arbitrary: k) (simp_all add: deleteVote_def)

definition drop_old :: "int \<Rightarrow> int \<Rightarrow> ((string \<times> string) \<times> price_prevote) list \<Rightarrow> (string \<times> string, price_prevote) kv \<Rightarrow> (string \<times> string, price_prevote) kv" where
  "drop_old height period xs s =
     fold (\<lambda>e s. if height > pp_SubmitBlock (snd e) + period then kv_delete (pp_Denom (snd e), pp_Voter (snd e)) s else s) xs s"

lemma delete_prevotes: "fold (\<lambda>e k. if height > pp_SubmitBlock (snd e) + VotePeriod (o_params k) then deletePrevote k (snd e) else k) xs k
    = k\<lparr> o_prevotes := drop_old height (VotePeriod (o_params k)) xs (o_prevotes k) \<rparr>"
  unfolding drop_old_def by (induction xs arbitrary: k) (simp_all add: deletePrevote_def)

lemma drop_old_sub: "set (drop_old h p xs s) \<subseteq> set s" and drop_old_ok: "kv_ok s \<Longrightarrow> kv_ok (drop_old h p xs s)"
proof -
  have "set (drop_old h p xs s) \<subseteq> set s \<and> (kv_ok s \<longrightarrow> kv_ok (drop_old h p xs s))"
    unfolding drop_old_def
  proof (induction xs arbitrary: s)
    case (Cons e xs)
    let ?s = "kv_delete (pp_Denom (snd e), pp_Voter (snd e)) s"
    show ?case using Cons [of s] Cons [of ?s] set_kv_delete [of "(pp_Denom (snd e), pp_Voter (snd e))" s] kv_delete_ok [of s]
      by (simp split: if_split) blast
  qed simp
  then show "set (drop_old h p xs s) \<subseteq> set s" "kv_ok s \<Longrightarrow> kv_ok (drop_old h p xs s)" by blast+
qed

lemma end_ballot_fields:
  "o_votes (end_ballot S vs votes d k) = o_votes k" "o_prevotes (end_ballot S vs votes d k) = o_prevotes k"
  "o_params (end_ballot S vs votes d k) = o_params k"
  by (simp_all add: end_ballot_effect)

lemma end_ballots_keep:
  "o_votes (fold (end_ballot S vs votes) order k) = o_votes k" "o_prevotes (fold (end_ballot S vs votes) order k) = o_prevotes k"
  "o_params (fold (end_ballot S vs votes) order k) = o_params k" "tables_ok k \<Longrightarrow> tables_ok (fold (end_ballot S vs votes) order k)"
  by (induction order arbitrary: k) (simp_all add: end_ballot_fields end_ballot_ok)

lemma EndBlocker_tables:
  assumes "oracle_EndBlocker S vs order h k = Inr (k', calls)" and "tables_ok k"
    and "\<forall>e \<in> set (o_votes k). fst e = (pv_Denom (snd e), pv_Voter (snd e))"
  shows "tables_ok k'" and "o_params k' = o_params k" and "set (o_prevotes k') \<subseteq> set (o_prevotes k)"
    and "o_votes k' = (if (h + 1) smod VotePeriod (o_params k) = 0 then [] else o_votes k)"
proof -
  have "tables_ok k' \<and> o_params k' = o_params k \<and> set (o_prevotes k') \<subseteq> set (o_prevotes k)
      \<and> o_votes k' = (if (h + 1) smod VotePeriod (o_params k) = 0 then [] else o_votes k)"
  proof (cases "(h + 1) smod VotePeriod (o_params k) = 0")
    case False
    then have "k' = k" using assms(1) by (auto simp: oracle_EndBlocker_def IsPeriodLastBlock_def split: if_splits)
    then show ?thesis using assms(2) False by simp
  next
    case True
    then obtain k1 where r: "rewardPrevBallotWinners S vs k = Inr (k1, calls)"
      and k': "k' = (let votes = (\<lambda>d. ballot_of d (o_votes k1));
               k = fold (\<lambda>d k. deletePrice k d) (getActiveDenoms k1) k1;
               k = fold (end_ballot S vs votes) order k;
               k = fold (\<lambda>e k. if h > pp_SubmitBlock (snd e) + VotePeriod (o_params k) then deletePrevote k (snd e) else k)
                     (o_prevotes k) k
           in fold (\<lambda>e k. deleteVote k (snd e)) (o_votes k) k)"
      using assms(1) by (auto simp: oracle_EndBlocker_def IsPeriodLastBlock_def Let_def split: if_splits)
    note keep = rewards_keep [OF r assms(2)]
    let ?k2 = "fold (end_ballot S vs (\<lambda>d. ballot_of d (o_votes k1))) order (k1\<lparr> o_prices := [] \<rparr>)"
    have ok2: "tables_ok ?k2" using keep(4) by (intro end_ballots_keep(4)) (simp add: tables_ok_def kv_ok_def)
    have k'2: "k' = ?k2\<lparr> o_prevotes := drop_old h (VotePeriod (o_params k)) (o_prevotes k) (o_prevotes k),
        o_votes := fold (\<lambda>e. kv_delete (pv_Denom (snd e), pv_Voter (snd e))) (o_votes k) (o_votes k) \<rparr>"
      unfolding k' Let_def delete_prices getActiveDenoms_def delete_prices_all delete_prevotes delete_votes
      using keep by (simp add: end_ballots_keep)
    have gone: "fold (\<lambda>e. kv_delete (pv_Denom (snd e), pv_Voter (snd e))) (o_votes k) (o_votes k) = []"
      using assms(3) delete_all_keys [of "\<lambda>e. (pv_Denom (snd e), pv_Voter (snd e))" "o_votes k" "o_votes k"]
      by (auto simp: filter_empty_conv)
    have "kv_ok (o_prevotes k)" using assms(2) by (simp add: tables_ok_def)
    then show ?thesis
      using ok2 keep drop_old_sub drop_old_ok True unfolding k'2 gone
      by (simp add: end_ballots_keep tables_ok_def kv_ok_def)
  qed
  then show "tables_ok k'" "o_params k' = o_params k" "set (o_prevotes k') \<subseteq> set (o_prevotes k)"
    "o_votes k' = (if (h + 1) smod VotePeriod (o_params k) = 0 then [] else o_votes k)" by blast+
qed


lemma prevote_keeps:
  assumes "handleMsgPricePrevote vs h k m = Inr k'" and "votes_ok VH es k"
  shows "votes_ok VH (es @ [Prevote h m]) k'"
proof -
  let ?p = "\<lparr> pp_Hash = mp_Hash m, pp_Denom = mp_Denom m, pp_Voter = mp_Validator m, pp_SubmitBlock = h \<rparr>"
  have k': "k' = addPrevote k ?p" using assms(1) by (simp add: handleMsgPricePrevote_def)
  have new: "committed (es @ [Prevote h m]) ?p" by (auto simp: committed_def)
  have tab: "tables_ok k'" using assms(2) by (simp add: k' addPrevote_def votes_ok_def tables_ok_def kv_set_ok)
  have "fst e = (pp_Denom (snd e), pp_Voter (snd e)) \<and> committed (es @ [Prevote h m]) (snd e)" if "e \<in> set (o_prevotes k')" for e
  proof -
    have "e = ((mp_Denom m, mp_Validator m), ?p) \<or> e \<in> set (o_prevotes k)"
      using that set_kv_set [of "(mp_Denom m, mp_Validator m)" ?p "o_prevotes k"] by (auto simp: k' addPrevote_def)
    then show ?thesis using new assms(2) committed_more by (auto simp: votes_ok_def)
  qed
  moreover have "o_votes k' = o_votes k" "o_params k' = o_params k" by (simp_all add: k' addPrevote_def)
  ultimately show ?thesis using tab assms(2) revealed_more by (simp add: votes_ok_def)
qed

lemma vote_keeps:
  assumes "handleMsgPriceVote VH vs h k m = Inr k'" and "votes_ok VH es k"
  shows "votes_ok VH (es @ [Vote h m]) k'"
proof -
  obtain p where p: "map_of (o_prevotes k) (mv_Denom m, mv_Validator m) = Some p"
    and hash: "VH (mv_Salt m) (mv_Price m) (pp_Denom p) (pp_Voter p) = Some (hex_DecodeString (pp_Hash p))"
    and per: "h sdiv VotePeriod (o_params k) - pp_SubmitBlock p sdiv VotePeriod (o_params k) = 1"
    and k': "k' = addVote (deletePrevote k p) \<lparr> pv_Price = mv_Price m, pv_Denom = pp_Denom p, pv_Voter = pp_Voter p \<rparr>"
    using assms(1) by (auto simp: handleMsgPriceVote_def Let_def split: option.splits if_splits)
  let ?v = "\<lparr> pv_Price = mv_Price m, pv_Denom = pp_Denom p, pv_Voter = pp_Voter p \<rparr>"
  have "((mv_Denom m, mv_Validator m), p) \<in> set (o_prevotes k)" using p by (rule map_of_SomeD)
  then have "committed es p" using assms(2) by (auto simp: votes_ok_def)
  then have new: "revealed VH (VotePeriod (o_params k)) (es @ [Vote h m]) ?v"
    unfolding revealed_def using hash per by fastforce
  have tab: "tables_ok k'"
    using assms(2) by (simp add: k' addVote_def deletePrevote_def votes_ok_def tables_ok_def kv_set_ok kv_delete_ok)
  have "fst e = (pv_Denom (snd e), pv_Voter (snd e)) \<and> revealed VH (VotePeriod (o_params k)) (es @ [Vote h m]) (snd e)"
    if "e \<in> set (o_votes k')" for e
  proof -
    have "e = ((pp_Denom p, pp_Voter p), ?v) \<or> e \<in> set (o_votes k)"
      using that set_kv_set [of "(pp_Denom p, pp_Voter p)" ?v "o_votes k"] by (auto simp: k' addVote_def deletePrevote_def)
    then show ?thesis using new assms(2) revealed_more by (auto simp: votes_ok_def)
  qed
  moreover have "set (o_prevotes k') \<subseteq> set (o_prevotes k)" "o_params k' = o_params k"
    using set_kv_delete [of _ "o_prevotes k"] by (simp_all add: k' addVote_def deletePrevote_def)
  ultimately show ?thesis using tab assms(2) committed_more by (fastforce simp: votes_ok_def)
qed

lemma step_keeps:
  assumes "oracle_step S VH vs e k k'" and "votes_ok VH es k"
  shows "votes_ok VH (es @ [e]) k'"
  using assms(1)
proof cases
  case (prevote h m)
  then show ?thesis using prevote_keeps assms(2) by blast
next
  case (vote h m)
  then show ?thesis using vote_keeps assms(2) by blast
next
  case (delegate a b)
  then have "k' = SetFeedDelegate k a b" by (auto simp: handleMsgDelegateFeederPermission_def split: if_splits)
  then show ?thesis using assms(2) committed_more revealed_more by (simp add: votes_ok_def SetFeedDelegate_def tables_ok_def kv_set_ok)
next
  case (end_block order h calls)
  have "tables_ok k" "\<forall>e \<in> set (o_votes k). fst e = (pv_Denom (snd e), pv_Voter (snd e))" using assms(2) by (auto simp: votes_ok_def)
  note e = EndBlocker_tables [OF end_block(2) this]
  then show ?thesis using assms(2) committed_more revealed_more
    by (simp add: votes_ok_def split: if_splits) blast+
qed

lemma run_votes_ok:
  assumes "oracle_run S VH vs es k k'" and "tables_ok k" and "o_prevotes k = []" and "o_votes k = []"
  shows "votes_ok VH es k'"
  using assms
proof (induction rule: oracle_run.induct)
  case (start k)
  then show ?case by (simp add: votes_ok_def)
next
  case (step es k k' e k'')
  then show ?case using step_keeps by blast
qed

text \<open>C2: In every run from a state without prevotes and votes, a vote that counts in a tally was revealed by a message
  whose salt and price hash to the prevote that the same validator or its delegate had committed to in the period
  before, with an earlier message.\<close>

theorem votes_were_committed:
  assumes "oracle_run S VH vs es k k'" and "tables_ok k" and "o_prevotes k = []" and "o_votes k = []"
    and "map_of (o_votes k') (denom, voter) = Some v"
  shows "revealed VH (VotePeriod (o_params k')) es v"
proof -
  have "((denom, voter), v) \<in> set (o_votes k')" using assms(5) by (rule map_of_SomeD)
  then show ?thesis using run_votes_ok [OF assms(1-4)] by (auto simp: votes_ok_def)
qed

text \<open>A prevote of \<^verbatim>\<open>b\<close> in the first period, opened in the second, for a hash function with two values.\<close>

definition toy_hash :: vote_hash where
  "toy_hash salt price denom voter = Some (if salt = ''s'' \<and> price = 7 then [0x0A] else [0])"

definition fresh :: ostate where
  "fresh = two_ballots\<lparr> o_votes := [], o_claims := [] \<rparr>"

definition the_prevote :: msg_prevote where
  "the_prevote = \<lparr> mp_Hash = ''0a'', mp_Denom = ''ukrw'', mp_Feeder = ''b'', mp_Validator = ''b'' \<rparr>"

definition the_vote :: msg_vote where
  "the_vote = \<lparr> mv_Price = 7, mv_Salt = ''s'', mv_Denom = ''ukrw'', mv_Feeder = ''b'', mv_Validator = ''b'' \<rparr>"

lemma fresh_run:
  "oracle_run dec18 toy_hash val3 [Prevote 3 the_prevote, Vote 12 the_vote] fresh (fresh\<lparr> o_votes := [((''ukrw'', ''b''), vote_at ''b'' 7)] \<rparr>)"
proof -
  let ?k = "fresh\<lparr> o_prevotes := [((''ukrw'', ''b''), \<lparr> pp_Hash = ''0a'', pp_Denom = ''ukrw'', pp_Voter = ''b'', pp_SubmitBlock = 3 \<rparr>)] \<rparr>"
  have 1: "oracle_step dec18 toy_hash val3 (Prevote 3 the_prevote) fresh ?k"
    by (rule oracle_step.prevote)
      (simp add: handleMsgPricePrevote_def check_feeder_def the_prevote_def val3_def addPrevote_def fresh_def two_ballots_def)
  have hex: "hex_DecodeString ''0a'' = [0x0A]" by (simp add: fromHexChar_def)
  have 2: "oracle_step dec18 toy_hash val3 (Vote 12 the_vote) ?k (fresh\<lparr> o_votes := [((''ukrw'', ''b''), vote_at ''b'' 7)] \<rparr>)"
    by (rule oracle_step.vote)
      (simp add: handleMsgPriceVote_def check_feeder_def the_vote_def val3_def addVote_def deletePrevote_def fresh_def two_ballots_def
        oracle_DefaultParams_def BlocksPerMinute_def signed_divide_int_def toy_hash_def hex kv_delete_def vote_at_def del: hex_DecodeString.simps)
  show ?thesis using oracle_run.step [OF oracle_run.step [OF oracle_run.start 1] 2] by simp
qed

theorem votes_were_committed_witness:
  "revealed toy_hash 10 [Prevote 3 the_prevote, Vote 12 the_vote] (vote_at ''b'' 7)"
proof -
  have "VotePeriod (o_params (fresh\<lparr> o_votes := [((''ukrw'', ''b''), vote_at ''b'' 7)] \<rparr>)) = 10"
    by (simp add: fresh_def two_ballots_def oracle_DefaultParams_def BlocksPerMinute_def)
  then show ?thesis
    using votes_were_committed [OF fresh_run, of "''ukrw''" "''b''" "vote_at ''b'' 7"]
    by (simp add: fresh_def two_ballots_def tables_ok_def kv_ok_def)
qed

section \<open>Prices are positive\<close>

text \<open>The votes of a run passed the checks of their messages.\<close>

definition validated :: "oracle_event \<Rightarrow> bool" where
  "validated e = (case e of Vote h m \<Rightarrow> MsgPriceVote_ValidateBasic m = Inr () | _ \<Rightarrow> True)"

definition positive :: "ostate \<Rightarrow> bool" where
  "positive k \<longleftrightarrow> (\<forall>e \<in> set (o_votes k). 0 < pv_Price (snd e)) \<and> (\<forall>e \<in> set (o_prices k). 0 < snd e)"

text \<open>The votes that a ballot needs to pass.\<close>

definition threshold_votes :: "sdk \<Rightarrow> valset \<Rightarrow> oracle_params \<Rightarrow> int" where
  "threshold_votes S vs p = sdk_RoundInt S (VoteThreshold p * TotalBondedTokens vs)"

lemma passing_ballot_positive:
  assumes "bonded_ok vs" and "0 < threshold_votes S vs p" and "\<forall>v \<in> set pb. 0 < pv_Price v" and "ballot_price S vs p pb = Some m"
  shows "0 < m"
proof -
  have "0 < ballot_power vs pb" and m: "m = weightedMedian vs (sort_ballot pb)"
    using assms(2,4) by (auto simp: ballot_price_def ballotIsPassing_def threshold_votes_def split: if_splits)
  then have "\<exists>v \<in> set (sort_ballot pb). getPower vs v \<noteq> None"
    using power_where_none [of pb "\<lambda>_. True" vs] unfolding sort_ballot_facts(3) ballot_power_where by (metis less_irrefl)
  then have "m \<in> backed vs (sort_ballot pb)" unfolding m by (rule weightedMedian_least(1) [OF assms(1)])
  then show ?thesis using assms(3) by (auto simp: backed_def sort_ballot_facts(3))
qed

lemma end_ballots_positive:
  assumes "bonded_ok vs" and "0 < threshold_votes S vs (o_params k)" and "\<And>d v. v \<in> set (votes d) \<Longrightarrow> 0 < pv_Price v"
    and "\<forall>e \<in> set (o_prices k). 0 < snd e"
  shows "\<forall>e \<in> set (o_prices (fold (end_ballot S vs votes) order k)). 0 < snd e"
  using assms(2,4)
proof (induction order arbitrary: k)
  case (Cons d order)
  have "\<forall>e \<in> set (o_prices (end_ballot S vs votes d k)). 0 < snd e"
  proof (cases "ballot_price S vs (o_params k) (votes d)")
    case (Some m)
    then have "0 < m" using passing_ballot_positive [OF assms(1) Cons.prems(1)] assms(3) by blast
    then show ?thesis using Cons.prems(2) set_kv_set [of d m "o_prices k"] Some by (auto simp: end_ballot_effect)
  qed (use Cons.prems(2) in \<open>simp add: end_ballot_effect\<close>)
  then show ?case using Cons.IH [of "end_ballot S vs votes d k"] Cons.prems(1) by (simp add: end_ballot_fields)
qed simp

lemma EndBlocker_positive:
  assumes "oracle_EndBlocker S vs order h k = Inr (k', calls)" and "votes_ok VH es k" and "positive k"
    and "bonded_ok vs" and "0 < threshold_votes S vs (o_params k)"
  shows "positive k'"
proof -
  have t: "tables_ok k" "\<forall>e \<in> set (o_votes k). fst e = (pv_Denom (snd e), pv_Voter (snd e))" using assms(2) by (auto simp: votes_ok_def)
  note e = EndBlocker_tables [OF assms(1) t]
  have "\<forall>e \<in> set (o_prices k'). 0 < snd e"
  proof (cases "(h + 1) smod VotePeriod (o_params k) = 0")
    case False
    then have "k' = k" using assms(1) by (auto simp: oracle_EndBlocker_def IsPeriodLastBlock_def split: if_splits)
    then show ?thesis using assms(3) by (simp add: positive_def)
  next
    case True
    then obtain k1 where r: "rewardPrevBallotWinners S vs k = Inr (k1, calls)"
      and k': "o_prices k' = o_prices (fold (end_ballot S vs (\<lambda>d. ballot_of d (o_votes k1))) order (k1\<lparr> o_prices := [] \<rparr>))"
      using assms(1) by (auto simp: oracle_EndBlocker_def IsPeriodLastBlock_def Let_def delete_prices getActiveDenoms_def
          delete_prices_all delete_prevotes delete_votes split: if_splits)
    note keep = rewards_keep [OF r t(1)]
    have "\<And>d v. v \<in> set (ballot_of d (o_votes k1)) \<Longrightarrow> 0 < pv_Price v"
      using assms(3) keep(1) by (auto simp: ballot_of_def positive_def)
    then show ?thesis unfolding k' using assms(5) keep(2) by (intro end_ballots_positive [OF assms(4)]) simp_all
  qed
  then show ?thesis using e(4) assms(3) by (auto simp: positive_def split: if_splits)
qed

lemma step_positive:
  assumes "oracle_step S VH vs e k k'" and "votes_ok VH es k" and "positive k" and "validated e"
    and "bonded_ok vs" and "0 < threshold_votes S vs (o_params k)"
  shows "positive k' \<and> o_params k' = o_params k"
  using assms(1)
proof cases
  case (prevote h m)
  then show ?thesis using assms(3) by (auto simp: handleMsgPricePrevote_def addPrevote_def positive_def)
next
  case (vote h m)
  have "0 < mv_Price m" using assms(4) vote(1) by (simp add: validated_def MsgPriceVote_ValidateBasic_def split: if_splits)
  moreover obtain key v where "o_votes k' = kv_set key v (o_votes k)" "pv_Price v = mv_Price m" "o_prices k' = o_prices k" "o_params k' = o_params k"
    using vote(2) by (auto simp: handleMsgPriceVote_def addVote_def deletePrevote_def Let_def split: option.splits if_splits)
  ultimately show ?thesis using assms(3) set_kv_set [of key v "o_votes k"] by (auto simp: positive_def)
next
  case (delegate a b)
  then show ?thesis using assms(3) by (auto simp: handleMsgDelegateFeederPermission_def SetFeedDelegate_def positive_def split: if_splits)
next
  case (end_block order h calls)
  have "tables_ok k" "\<forall>e \<in> set (o_votes k). fst e = (pv_Denom (snd e), pv_Voter (snd e))" using assms(2) by (auto simp: votes_ok_def)
  then show ?thesis using EndBlocker_positive [OF end_block(2) assms(2,3,5,6)] EndBlocker_tables(2) [OF end_block(2)] by blast
qed

lemma run_positive:
  assumes "oracle_run S VH vs es k k'" and "votes_ok VH [] k" and "positive k" and "list_all validated es"
    and "bonded_ok vs" and "0 < threshold_votes S vs (o_params k)"
  shows "votes_ok VH es k' \<and> positive k' \<and> o_params k' = o_params k"
  using assms
proof (induction rule: oracle_run.induct)
  case (step es k k' e k'')
  then have "list_all validated es" "validated e" by simp_all
  then show ?case using step step_keeps step_positive by metis
qed simp

text \<open>C13: Every price that the oracle publishes in a run is positive, provided that the votes passed the checks of their
  messages and that a ballot needs some power to pass.\<close>

theorem prices_positive:
  assumes "oracle_run S VH vs es k k'" and "tables_ok k" and "o_prevotes k = []" and "o_votes k = []" and "list_all (\<lambda>e. 0 < snd e) (o_prices k)"
    and "list_all validated es" and "bonded_ok vs" and "0 < threshold_votes S vs (o_params k)"
    and "GetLunaSwapRate k' d = Some r"
  shows "0 < r"
proof -
  have "positive k'" using run_positive [OF assms(1)] assms by (simp add: votes_ok_def positive_def list_all_iff)
  then have "0 < x" if "map_of (o_prices k') d = Some x" for x using map_of_SomeD [OF that] by (auto simp: positive_def)
  then show ?thesis using assms(9) by (auto simp: GetLunaSwapRate_def OneDec_def dec_unit_def split: if_splits)
qed

theorem prices_positive_witness:
  "GetLunaSwapRate (fresh\<lparr> o_votes := [((''ukrw'', ''b''), vote_at ''b'' 7)] \<rparr>) ''ukrw'' = Some 6 \<and> 0 < (6 :: dec)"
proof
  have t: "threshold_votes dec18 val3 oracle_DefaultParams = 4"
    by (simp add: threshold_votes_def val3_def oracle_DefaultParams_def NewDecWithPrec_def dec18_def round_even_def dec_unit_def)
  show r: "GetLunaSwapRate (fresh\<lparr> o_votes := [((''ukrw'', ''b''), vote_at ''b'' 7)] \<rparr>) ''ukrw'' = Some 6"
    by (simp add: GetLunaSwapRate_def MicroLunaDenom_def fresh_def two_ballots_def)
  have "tables_ok fresh" "o_prevotes fresh = []" "o_votes fresh = []" "list_all (\<lambda>e. 0 < snd e) (o_prices fresh)"
    "0 < threshold_votes dec18 val3 (o_params fresh)"
    using t by (simp_all add: fresh_def two_ballots_def tables_ok_def kv_ok_def)
  moreover have "list_all validated [Prevote 3 the_prevote, Vote 12 the_vote]"
    by (simp add: validated_def the_vote_def MsgPriceVote_ValidateBasic_def)
  ultimately show "0 < (6 :: dec)" using prices_positive [OF fresh_run _ _ _ _ _ val3_ok _ r] by simp
qed

section \<open>Honest votes are accepted\<close>










end
