(* ===== verification/TerraMint.thy ===== *)
theory TerraMint
  imports TerraSdk
begin

text \<open>
  The issuance of the currencies (\<^verbatim>\<open>src/x/mint\<close>): minting and burning coins of an account, and a table of the
  issuance by day that is filled when a day is first asked for. The bank and the accounts of the SDK are an
  argument; \<open>bank_laws\<close> is what minting and burning relies on.
\<close>

section \<open>State\<close>

text \<open>The bank: crediting and debiting an account, and the coins of all accounts together.\<close>

record 'b bank =
  bk_AddCoins :: "'b \<Rightarrow> string \<Rightarrow> string \<times> int \<Rightarrow> 'b option"
  bk_SubtractCoins :: "'b \<Rightarrow> string \<Rightarrow> string \<times> int \<Rightarrow> 'b option"
  bk_Total :: "'b \<Rightarrow> string \<Rightarrow> int"

record 'b mint =
  m_issuance :: "(string \<times> int, int) kv"
  m_bank :: 'b
  m_notBonded :: int

datatype mint_err = BankError | NegativeIssuance

section \<open>Operations\<close>

function GetIssuance :: "'b bank \<Rightarrow> 'b mint \<Rightarrow> string \<Rightarrow> int \<Rightarrow> int \<times> 'b mint" where
  "GetIssuance B k denom day =
     (case map_of (m_issuance k) (denom, day) of
        Some issuance \<Rightarrow> (issuance, k)
      | None \<Rightarrow>
          let (issuance, k') = (if day \<le> 0 then (bk_Total B (m_bank k) denom, k) else GetIssuance B k denom (day - 1))
          in (issuance, k'\<lparr> m_issuance := kv_set (denom, day) issuance (m_issuance k') \<rparr>))"
  by auto
termination
  by (relation "measure (\<lambda>(B, k, denom, day). nat day)") auto

declare GetIssuance.simps [simp del]

definition mint_ChangeIssuance :: "'b bank \<Rightarrow> int \<Rightarrow> 'b mint \<Rightarrow> string \<Rightarrow> int \<Rightarrow> mint_err + 'b mint" where
  "mint_ChangeIssuance B height k denom delta =
     (let curDay = height sdiv BlocksPerDay
      in if map_of (m_issuance k) (denom, 0) = None then Inr (snd (GetIssuance B k denom curDay))
         else
           let (curIssuance, k) = GetIssuance B k denom curDay; newIssuance = curIssuance + delta
           in if newIssuance < 0 then Inl NegativeIssuance
              else Inr (k\<lparr> m_issuance := kv_set (denom, curDay) newIssuance (m_issuance k) \<rparr>))"

definition Mint :: "'b bank \<Rightarrow> int \<Rightarrow> 'b mint \<Rightarrow> string \<Rightarrow> string \<times> int \<Rightarrow> mint_err + 'b mint" where
  "Mint B height k recipient coin =
     (case bk_AddCoins B (m_bank k) recipient coin of
        None \<Rightarrow> Inl BankError
      | Some b \<Rightarrow>
          let k = k\<lparr> m_bank := b \<rparr>;
              k = (if fst coin = MicroLunaDenom then k\<lparr> m_notBonded := m_notBonded k + snd coin \<rparr> else k)
          in mint_ChangeIssuance B height k (fst coin) (snd coin))"

definition Burn :: "'b bank \<Rightarrow> int \<Rightarrow> 'b mint \<Rightarrow> string \<Rightarrow> string \<times> int \<Rightarrow> mint_err + 'b mint" where
  "Burn B height k payer coin =
     (case bk_SubtractCoins B (m_bank k) payer coin of
        None \<Rightarrow> Inl BankError
      | Some b \<Rightarrow>
          let k = k\<lparr> m_bank := b \<rparr>;
              k = (if fst coin = MicroLunaDenom then k\<lparr> m_notBonded := m_notBonded k - snd coin \<rparr> else k)
          in mint_ChangeIssuance B height k (fst coin) (- snd coin))"

definition PeekEpochSeigniorage :: "'b bank \<Rightarrow> int \<Rightarrow> 'b mint \<Rightarrow> int \<Rightarrow> int \<times> 'b mint" where
  "PeekEpochSeigniorage B height k epoch =
     (let daysPerEpoch = BlocksPerEpoch sdiv BlocksPerDay;
          epochLastDay = (epoch + 1) * daysPerEpoch - 1;
          today = height sdiv BlocksPerDay;
          epochLastDay = (if epochLastDay > today then today else epochLastDay);
          prevEpochLastDay = epochLastDay - daysPerEpoch;
          prevEpochLastDay = (if prevEpochLastDay < 0 then 0 else prevEpochLastDay);
          (prevEpochIssuance, k) = GetIssuance B k MicroLunaDenom prevEpochLastDay;
          (epochIssuance, k) = GetIssuance B k MicroLunaDenom epochLastDay;
          epochSeigniorage = epochIssuance - prevEpochIssuance
      in (if epochSeigniorage < 0 then 0 else epochSeigniorage, k))"

section \<open>The table of the issuance\<close>

text \<open>
  What the table says of a denomination on a day, without filling it: the entry of the day or of the last day
  before it that has one, or the coins of the accounts.
\<close>

function issued :: "'b bank \<Rightarrow> 'b mint \<Rightarrow> string \<Rightarrow> int \<Rightarrow> int" where
  "issued B k denom day =
     (case map_of (m_issuance k) (denom, day) of
        Some i \<Rightarrow> i
      | None \<Rightarrow> if day \<le> 0 then bk_Total B (m_bank k) denom else issued B k denom (day - 1))"
  by auto
termination
  by (relation "measure (\<lambda>(B, k, denom, day). nat day)") auto

declare issued.simps [simp del]

text \<open>The days of a denomination that have an entry begin with day 0.\<close>

definition issuance_ok :: "'b mint \<Rightarrow> bool" where
  "issuance_ok k \<longleftrightarrow> kv_ok (m_issuance k)
     \<and> (\<forall>denom day. map_of (m_issuance k) (denom, day) \<noteq> None \<longrightarrow> 0 \<le> day \<and> map_of (m_issuance k) (denom, 0) \<noteq> None)"

text \<open>An entry that says what the table says already changes nothing.\<close>

lemma issued_fill:
  assumes "kv_ok (m_issuance k)" and "i = issued B k denom day"
  shows "issued B (k\<lparr> m_issuance := kv_set (denom, day) i (m_issuance k) \<rparr>) d e = issued B k d e"
proof (induction "nat e" arbitrary: e rule: less_induct)
  case less
  let ?k = "k\<lparr> m_issuance := kv_set (denom, day) i (m_issuance k) \<rparr>"
  have prev: "issued B ?k d (e - 1) = issued B k d (e - 1)" if "\<not> e \<le> 0" using less that by simp
  have new: "issued B ?k d e = (case (if (d, e) = (denom, day) then Some i else map_of (m_issuance k) (d, e)) of
      Some x \<Rightarrow> x | None \<Rightarrow> if e \<le> 0 then bk_Total B (m_bank k) d else issued B ?k d (e - 1))"
    by (subst issued.simps) (simp add: kv_set_get assms(1) split: option.split)
  show ?case
  proof (cases "(d, e) = (denom, day)")
    case True
    then show ?thesis unfolding new using assms(2) by simp
  next
    case False
    then show ?thesis unfolding new issued.simps [of B k d e] if_not_P [OF False]
      by (cases "map_of (m_issuance k) (d, e)") (use prev in simp_all)
  qed
qed

lemma issuance_ok_set:
  assumes "issuance_ok k" and "0 \<le> day" and "day = 0 \<or> map_of (m_issuance k) (denom, 0) \<noteq> None"
  shows "issuance_ok (k\<lparr> m_issuance := kv_set (denom, day) i (m_issuance k) \<rparr>)"
  using assms by (auto simp: issuance_ok_def kv_set_get kv_set_ok split: if_splits)

text \<open>Asking for a day fills the table without changing what it says.\<close>

definition same_issuance :: "'b bank \<Rightarrow> 'b mint \<Rightarrow> 'b mint \<Rightarrow> bool" where
  "same_issuance B k k' \<longleftrightarrow> issuance_ok k' \<and> m_bank k' = m_bank k \<and> m_notBonded k' = m_notBonded k
     \<and> (\<forall>d e. issued B k' d e = issued B k d e)"

lemma GetIssuance_ok:
  assumes "issuance_ok k" and "0 \<le> day"
  shows "fst (GetIssuance B k denom day) = issued B k denom day \<and> same_issuance B k (snd (GetIssuance B k denom day))
    \<and> map_of (m_issuance (snd (GetIssuance B k denom day))) (denom, day) \<noteq> None
    \<and> (\<forall>e. e > day \<longrightarrow> map_of (m_issuance (snd (GetIssuance B k denom day))) (d, e) = map_of (m_issuance k) (d, e))
    \<and> (\<forall>d'. d' \<noteq> denom \<longrightarrow> map_of (m_issuance (snd (GetIssuance B k denom day))) (d', d0) = map_of (m_issuance k) (d', d0))"
  using assms
proof (induction "nat day" arbitrary: day rule: less_induct)
  case less
  show ?case
  proof (cases "map_of (m_issuance k) (denom, day)")
    case (Some i)
    then show ?thesis using less(2)
      by (simp add: GetIssuance.simps [of B k denom day] issued.simps [of B k denom day] same_issuance_def)
  next
    case None
    define r where "r = (if day \<le> 0 then (bk_Total B (m_bank k) denom, k) else GetIssuance B k denom (day - 1))"
    have g: "GetIssuance B k denom day = (fst r, (snd r)\<lparr> m_issuance := kv_set (denom, day) (fst r) (m_issuance (snd r)) \<rparr>)"
      using None by (simp add: GetIssuance.simps [of B k denom day] r_def Let_def case_prod_beta')
    have r: "fst r = issued B k denom day" "same_issuance B k (snd r)" "0 < day \<Longrightarrow> map_of (m_issuance (snd r)) (denom, day - 1) \<noteq> None"
      "\<forall>e. e > day \<longrightarrow> map_of (m_issuance (snd r)) (d, e) = map_of (m_issuance k) (d, e)"
      "\<forall>d'. d' \<noteq> denom \<longrightarrow> map_of (m_issuance (snd r)) (d', d0) = map_of (m_issuance k) (d', d0)"
      using less(1) [of "day - 1"] less(2,3) None
      by (auto simp: r_def issued.simps [of B k denom day] same_issuance_def)
    have ok: "issuance_ok (snd r)" using r(2) by (simp add: same_issuance_def)
    then have "day = 0 \<or> map_of (m_issuance (snd r)) (denom, 0) \<noteq> None" using r(3) less(3) by (cases "day = 0") (auto simp: issuance_ok_def)
    note set = issuance_ok_set [OF ok less(3) this]
    have kv: "kv_ok (m_issuance (snd r))" using ok by (simp add: issuance_ok_def)
    have "fst r = issued B (snd r) denom day" using r(1,2) by (simp add: same_issuance_def)
    note fill = issued_fill [OF kv this]
    show ?thesis unfolding g using r set fill kv by (auto simp: same_issuance_def kv_set_get)
  qed
qed

section \<open>Supply\<close>

text \<open>What minting and burning relies on.\<close>

locale bank_laws =
  fixes B :: "'b bank"
  assumes Add_total: "bk_AddCoins B b a c = Some b' \<Longrightarrow> bk_Total B b' d = bk_Total B b d + (if d = fst c then snd c else 0)"
    and Sub_total: "bk_SubtractCoins B b a c = Some b' \<Longrightarrow> bk_Total B b' d = bk_Total B b d - (if d = fst c then snd c else 0)"
    and Total_nonneg: "0 \<le> bk_Total B b d"

text \<open>The table agrees with the accounts on a day, and has no entries of later days.\<close>

definition tracked :: "'b bank \<Rightarrow> 'b mint \<Rightarrow> int \<Rightarrow> bool" where
  "tracked B k day \<longleftrightarrow> issuance_ok k \<and> (\<forall>denom. issued B k denom day = bk_Total B (m_bank k) denom)
     \<and> (\<forall>denom e. e > day \<longrightarrow> map_of (m_issuance k) (denom, e) = None)"

lemma tracked_later:
  assumes "tracked B k day" and "0 \<le> day" and "day \<le> day'"
  shows "tracked B k day'"
proof -
  have "issued B k denom day' = issued B k denom day" for denom
    using assms(3)
  proof (induction "nat (day' - day)" arbitrary: day')
    case (Suc n)
    then have less: "day < day'" by linarith
    then have "map_of (m_issuance k) (denom, day') = None" using assms(1) by (simp add: tracked_def)
    then have "issued B k denom day' = issued B k denom (day' - 1)" using assms(2) less by (simp add: issued.simps [of B k denom day'])
    moreover have "n = nat (day' - 1 - day)" "day \<le> day' - 1" using Suc(2) less by linarith+
    ultimately show ?case using Suc(1) [of "day' - 1"] by simp
  qed simp
  then show ?thesis using assms by (simp add: tracked_def)
qed

text \<open>The issuance is changed by what the accounts changed.\<close>

lemma ChangeIssuance_tracks:
  assumes "issuance_ok k" and "0 \<le> h" and "day = h sdiv BlocksPerDay" and "0 \<le> day"
    and "\<And>e. e > day \<Longrightarrow> map_of (m_issuance k) (denom, e) = None"
    and "map_of (m_issuance k) (denom, 0) \<noteq> None \<Longrightarrow> issued B k denom day + delta = bk_Total B (m_bank k) denom"
    and "0 \<le> bk_Total B (m_bank k) denom"
  obtains k' where "mint_ChangeIssuance B h k denom delta = Inr k'" "issuance_ok k'" "m_bank k' = m_bank k"
    "issued B k' denom day = bk_Total B (m_bank k) denom"
    "\<And>d e. d \<noteq> denom \<Longrightarrow> map_of (m_issuance k') (d, e) = map_of (m_issuance k) (d, e)"
    "\<And>e. e > day \<Longrightarrow> map_of (m_issuance k') (denom, e) = None"
proof -
  note g = GetIssuance_ok [OF assms(1,4), of B denom]
  let ?k = "snd (GetIssuance B k denom day)"
  have ok: "issuance_ok ?k" "m_bank ?k = m_bank k" "kv_ok (m_issuance ?k)" using g by (auto simp: same_issuance_def issuance_ok_def)
  have other: "map_of (m_issuance ?k) (d, e) = map_of (m_issuance k) (d, e)" if "d \<noteq> denom" for d e using g [of d e] that by blast
  have later: "map_of (m_issuance ?k) (denom, e) = None" if "e > day" for e using g [of denom] assms(5) that by auto
  show ?thesis
  proof (cases "map_of (m_issuance k) (denom, 0)")
    case None
    have "issued B k denom e = bk_Total B (m_bank k) denom" for e
    proof (induction "nat e" arbitrary: e rule: less_induct)
      case less
      have "map_of (m_issuance k) (denom, e) = None" using None assms(1) unfolding issuance_ok_def by metis
      then show ?case using less [of "e - 1"] by (simp add: issued.simps [of B k denom e])
    qed
    then have "issued B ?k denom day = bk_Total B (m_bank k) denom" using g by (simp add: same_issuance_def)
    then show ?thesis using that [of ?k] None assms(3) ok other later by (simp add: mint_ChangeIssuance_def)
  next
    case (Some z)
    define n where "n = issued B k denom day + delta"
    let ?k' = "?k\<lparr> m_issuance := kv_set (denom, day) n (m_issuance ?k) \<rparr>"
    have n: "n = bk_Total B (m_bank k) denom" using assms(6) Some by (simp add: n_def)
    have "mint_ChangeIssuance B h k denom delta = Inr ?k'"
      using Some assms(3,7) g [of denom] n by (simp add: mint_ChangeIssuance_def Let_def case_prod_beta' n_def)
    moreover have "map_of (m_issuance ?k) (denom, 0) \<noteq> None"
      using g [of denom 0] ok(1) unfolding issuance_ok_def by metis
    then have "issuance_ok ?k'" using issuance_ok_set [OF ok(1) assms(4)] by blast
    moreover have "issued B ?k' denom day = n" using ok(3) by (simp add: issued.simps kv_set_get)
    moreover have "map_of (m_issuance ?k') (d, e) = (if (d, e) = (denom, day) then Some n else map_of (m_issuance ?k) (d, e))" for d e
      using ok(3) by (simp add: kv_set_get)
    ultimately show ?thesis using that [of ?k'] ok(2) n other later by auto
  qed
qed

lemma sdiv_day: "0 \<le> h \<Longrightarrow> h sdiv BlocksPerDay = h div 14400"
  by (simp add: signed_divide_int_def BlocksPerDay_def BlocksPerHour_def BlocksPerMinute_def sgn_if)

text \<open>What the table says of a denomination depends on its entries, and on the accounts only while there are none.\<close>

lemma issued_cong:
  assumes "0 \<le> e" and "\<And>e. map_of (m_issuance k') (d, e) = map_of (m_issuance k) (d, e)"
    and "map_of (m_issuance k) (d, 0) \<noteq> None \<or> bk_Total B (m_bank k') d = bk_Total B (m_bank k) d"
  shows "issued B k' d e = issued B k d e"
  using assms(1)
proof (induction "nat e" arbitrary: e rule: less_induct)
  case less
  show ?case
  proof (cases "e = 0")
    case True
    then show ?thesis using assms(2,3) by (auto simp: issued.simps [of B k' d 0] issued.simps [of B k d 0] split: option.split)
  next
    case False
    then have "issued B k' d (e - 1) = issued B k d (e - 1)" using less by simp
    then show ?thesis using assms(2) False less(2) by (simp add: issued.simps [of B k' d e] issued.simps [of B k d e] split: option.split)
  qed
qed

text \<open>Coins of one denomination that come or go, and the change of the issuance that records it.\<close>

lemma coins_move_tracks:
  assumes "tracked B k day" and "day = h sdiv BlocksPerDay" and "0 \<le> h"
    and "\<And>d. bk_Total B b d = bk_Total B (m_bank k) d + (if d = denom then delta else 0)" and "0 \<le> bk_Total B b denom"
    and "m_issuance k1 = m_issuance k" and "m_bank k1 = b"
  shows "\<exists>k'. mint_ChangeIssuance B h k1 denom delta = Inr k' \<and> tracked B k' day \<and> m_bank k' = b"
proof -
  have day: "0 \<le> day" using assms(2,3) by (simp add: sdiv_day pos_imp_zdiv_nonneg_iff)
  have ok: "issuance_ok k1" using assms(1,6) by (simp add: tracked_def issuance_ok_def)
  have t: "issued B k d day = bk_Total B (m_bank k) d" for d using assms(1) by (simp add: tracked_def)
  have "issued B k1 denom day + delta = bk_Total B (m_bank k1) denom" if "map_of (m_issuance k1) (denom, 0) \<noteq> None"
    using issued_cong [OF day, of k1 denom k B] that t assms(4,6,7) by simp
  moreover have "map_of (m_issuance k1) (denom, e) = None" if "e > day" for e using that assms(1,6) by (simp add: tracked_def)
  ultimately obtain k' where k': "mint_ChangeIssuance B h k1 denom delta = Inr k'" "issuance_ok k'" "m_bank k' = m_bank k1"
    "issued B k' denom day = bk_Total B (m_bank k1) denom"
    "\<And>d e. d \<noteq> denom \<Longrightarrow> map_of (m_issuance k') (d, e) = map_of (m_issuance k1) (d, e)"
    "\<And>e. e > day \<Longrightarrow> map_of (m_issuance k') (denom, e) = None"
    using ChangeIssuance_tracks [OF ok assms(3,2) day, of denom B delta] assms(5,7) by auto
  have "issued B k' d day = bk_Total B (m_bank k') d" for d
  proof (cases "d = denom")
    case False
    then have "issued B k' d day = issued B k d day"
      using k'(3,5) assms(4,6,7) by (intro issued_cong [OF day]) auto
    then show ?thesis using t False k'(3) assms(4,7) by simp
  qed (use k'(3,4) in simp)
  moreover have "map_of (m_issuance k') (d, e) = None" if "e > day" for d e
    using k'(5,6) that assms(1,6) by (cases "d = denom") (auto simp: tracked_def)
  ultimately show ?thesis using k' assms(7) by (auto simp: tracked_def)
qed

lemma tracked_at:
  assumes "tracked B k (h0 sdiv BlocksPerDay)" and "0 \<le> h0" and "h0 \<le> h"
  shows "tracked B k (h sdiv BlocksPerDay)"
  using tracked_later [OF assms(1)] assms(2,3) by (simp add: sdiv_day pos_imp_zdiv_nonneg_iff zdiv_mono1)

lemma Mint_tracks:
  assumes "bank_laws B" and "tracked B k (h sdiv BlocksPerDay)" and "0 \<le> h"
  shows "case Mint B h k a c of Inr k' \<Rightarrow> tracked B k' (h sdiv BlocksPerDay) \<and> bk_AddCoins B (m_bank k) a c = Some (m_bank k')
    | Inl e \<Rightarrow> bk_AddCoins B (m_bank k) a c = None"
proof (cases "bk_AddCoins B (m_bank k) a c")
  case (Some b)
  let ?k = "if fst c = MicroLunaDenom then k\<lparr> m_bank := b, m_notBonded := m_notBonded k + snd c \<rparr> else k\<lparr> m_bank := b \<rparr>"
  have "\<exists>k'. mint_ChangeIssuance B h ?k (fst c) (snd c) = Inr k' \<and> tracked B k' (h sdiv BlocksPerDay) \<and> m_bank k' = b"
    by (rule coins_move_tracks [OF assms(2) refl assms(3) _ bank_laws.Total_nonneg [OF assms(1)]])
      (simp_all add: bank_laws.Add_total [OF assms(1) Some])
  then show ?thesis using Some by (auto simp: Mint_def Let_def)
qed (simp add: Mint_def)

lemma Burn_tracks:
  assumes "bank_laws B" and "tracked B k (h sdiv BlocksPerDay)" and "0 \<le> h"
  shows "case Burn B h k a c of Inr k' \<Rightarrow> tracked B k' (h sdiv BlocksPerDay) \<and> bk_SubtractCoins B (m_bank k) a c = Some (m_bank k')
    | Inl e \<Rightarrow> bk_SubtractCoins B (m_bank k) a c = None"
proof (cases "bk_SubtractCoins B (m_bank k) a c")
  case (Some b)
  let ?k = "if fst c = MicroLunaDenom then k\<lparr> m_bank := b, m_notBonded := m_notBonded k - snd c \<rparr> else k\<lparr> m_bank := b \<rparr>"
  have "\<exists>k'. mint_ChangeIssuance B h ?k (fst c) (- snd c) = Inr k' \<and> tracked B k' (h sdiv BlocksPerDay) \<and> m_bank k' = b"
    by (rule coins_move_tracks [OF assms(2) refl assms(3) _ bank_laws.Total_nonneg [OF assms(1)]])
      (simp_all add: bank_laws.Sub_total [OF assms(1) Some])
  then show ?thesis using Some by (auto simp: Burn_def Let_def)
qed (simp add: Burn_def)

text \<open>C9: Minting and burning keep the issuance of every currency equal to the coins of the accounts, on the day of the
  block and whatever the day of the last change was; they fail only when the bank refuses, and the error of a negative
  issuance cannot occur.\<close>

theorem mint_burn_tracks:
  assumes "bank_laws B" and "tracked B k (h0 sdiv BlocksPerDay)" and "0 \<le> h0" and "h0 \<le> h"
  shows "(case Mint B h k a c of Inr k' \<Rightarrow> tracked B k' (h sdiv BlocksPerDay) | Inl e \<Rightarrow> bk_AddCoins B (m_bank k) a c = None)
    \<and> (case Burn B h k a c of Inr k' \<Rightarrow> tracked B k' (h sdiv BlocksPerDay) | Inl e \<Rightarrow> bk_SubtractCoins B (m_bank k) a c = None)"
  using Mint_tracks [OF assms(1) tracked_at [OF assms(2-4)], of a c] Burn_tracks [OF assms(1) tracked_at [OF assms(2-4)], of a c] assms(3,4)
  by (simp split: sum.splits)

text \<open>Asking for the issuance of a day up to today changes nothing of this.\<close>

lemma GetIssuance_tracked:
  assumes "tracked B k day" and "0 \<le> e" and "e \<le> day"
  shows "tracked B (snd (GetIssuance B k denom e)) day \<and> m_bank (snd (GetIssuance B k denom e)) = m_bank k"
proof -
  have ok: "issuance_ok k" using assms(1) by (simp add: tracked_def)
  have "map_of (m_issuance (snd (GetIssuance B k denom e))) (d, x) = map_of (m_issuance k) (d, x)" if "x > e" for d x
    using GetIssuance_ok [OF ok assms(2), of B denom d] that by blast
  then show ?thesis
    using GetIssuance_ok [OF ok assms(2), of B denom] assms(1,3) by (simp add: tracked_def same_issuance_def)
qed

section \<open>A bank\<close>

text \<open>Accounts as a list of balances, each of an address and a denomination: a bank with the laws above.\<close>

type_synonym balances = "((string \<times> string) \<times> nat) list"

primrec credit :: "string \<times> string \<Rightarrow> nat \<Rightarrow> balances \<Rightarrow> balances" where
  "credit k n [] = [(k, n)]"
| "credit k n (e # b) = (if fst e = k then (k, snd e + n) # b else e # credit k n b)"

primrec debit :: "string \<times> string \<Rightarrow> nat \<Rightarrow> balances \<Rightarrow> balances option" where
  "debit k n [] = None"
| "debit k n (e # b) =
     (if fst e = k then if n \<le> snd e then Some ((k, snd e - n) # b) else None
      else map_option (\<lambda>b'. e # b') (debit k n b))"

definition balances_total :: "balances \<Rightarrow> string \<Rightarrow> int" where
  "balances_total b d = int (sum_list (map snd (filter (\<lambda>e. snd (fst e) = d) b)))"

definition account_bank :: "balances bank" where
  "account_bank =
     \<lparr> bk_AddCoins = (\<lambda>b a c. if snd c > 0 then Some (credit (a, fst c) (nat (snd c)) b) else None),
       bk_SubtractCoins = (\<lambda>b a c. if snd c > 0 then debit (a, fst c) (nat (snd c)) b else None),
       bk_Total = balances_total \<rparr>"

lemma credit_total: "balances_total (credit k n b) d = balances_total b d + (if d = snd k then int n else 0)"
  by (induction b) (auto simp: balances_total_def)

lemma debit_total: "debit k n b = Some b' \<Longrightarrow> balances_total b' d = balances_total b d - (if d = snd k then int n else 0)"
  by (induction b arbitrary: b') (auto simp: balances_total_def split: if_splits)

lemma balances_total_nonneg: "0 \<le> balances_total b d"
  by (simp add: balances_total_def)

interpretation account: bank_laws account_bank
  by unfold_locales (auto simp: account_bank_def credit_total balances_total_nonneg dest: debit_total [where d = d for d] split: if_splits)

definition no_issuance :: "balances \<Rightarrow> balances mint" where
  "no_issuance b = \<lparr> m_issuance = [], m_bank = b, m_notBonded = 0 \<rparr>"

lemma issued_empty: "m_issuance k = [] \<Longrightarrow> issued B k d e = bk_Total B (m_bank k) d"
  by (induction "nat e" arbitrary: e rule: less_induct) (subst issued.simps, simp)

lemma tracked_start: "tracked account_bank (no_issuance b) day"
  by (simp add: tracked_def issuance_ok_def no_issuance_def kv_ok_def issued_empty)

theorem mint_burn_tracks_witness:
  "(case Mint account_bank 28800 (no_issuance [((''a'', ''usdr''), 7)]) ''a'' (''usdr'', 5) of
      Inr k' \<Rightarrow> tracked account_bank k' (28800 sdiv BlocksPerDay) | Inl e \<Rightarrow> False)
   \<and> (case Burn account_bank 28800 (no_issuance [((''a'', ''usdr''), 7)]) ''a'' (''usdr'', 5) of
      Inr k' \<Rightarrow> tracked account_bank k' (28800 sdiv BlocksPerDay) | Inl e \<Rightarrow> False)"
proof -
  let ?k = "no_issuance [((''a'', ''usdr''), 7)]"
  have "bk_AddCoins account_bank (m_bank ?k) ''a'' (''usdr'', 5) \<noteq> None"
    "bk_SubtractCoins account_bank (m_bank ?k) ''a'' (''usdr'', 5) \<noteq> None"
    by (simp_all add: account_bank_def no_issuance_def)
  then show ?thesis
    using mint_burn_tracks [OF account.bank_laws_axioms tracked_start, of 0 28800 "[((''a'', ''usdr''), 7)]" "''a''" "(''usdr'', 5)"]
    by (simp split: sum.splits)
qed

end
