(* ===== verification/TerraMarket.thy ===== *)
theory TerraMarket
  imports TerraOracle TerraMint
begin

text \<open>
  Swaps between Luna and the other currencies (\<^verbatim>\<open>src/x/market\<close>) at the prices of the oracle: the offered coins are
  burned and the asked coins minted, less a fee that grows with the change of the issuance of Luna over the day.
  The state is the one of the oracle, the one of the mint module and the parameters. An error or a panic discards the
  changes, as the SDK does for a message.
\<close>

section \<open>State\<close>

record market_params =
  DailyLunaDeltaCap :: dec
  MinSwapSpread :: dec
  MaxSwapSpread :: dec

record 'b market =
  mk_oracle :: ostate
  mk_mint :: "'b mint"
  mk_params :: market_params

datatype market_err =
    NoEffectivePrice string
  | InsufficientSwapCoins int
  | RecursiveSwap string
  | ExceedsDailySwapLimit
  | InvalidAddress
  | MintError mint_err
  | MarketPanic panic

record msg_swap =
  ms_Trader :: string
  ms_OfferCoin :: "string \<times> int"
  ms_AskDenom :: string

definition market_DefaultParams :: market_params where
  "market_DefaultParams = \<lparr> DailyLunaDeltaCap = NewDecWithPrec 5 3, MinSwapSpread = NewDecWithPrec 2 2,
     MaxSwapSpread = NewDecWithPrec 10 1 \<rparr>"

definition market_validateParams :: "market_params \<Rightarrow> bool" where
  "market_validateParams p \<longleftrightarrow>
     \<not> DailyLunaDeltaCap p < 0 \<and> \<not> MinSwapSpread p < 0 \<and> \<not> MaxSwapSpread p < MinSwapSpread p"

section \<open>Operations\<close>

definition ComputeLunaDelta :: "sdk \<Rightarrow> 'b bank \<Rightarrow> int \<Rightarrow> 'b market \<Rightarrow> int \<Rightarrow> dec \<times> 'b market" where
  "ComputeLunaDelta S B height k change =
     (let curDay = height sdiv BlocksPerDay
      in if curDay = 0 then (0, k)
         else
           let (prevIssuance, m) = GetIssuance B (mk_mint k) MicroLunaDenom (curDay - 1)
           in if prevIssuance \<noteq> 0 then
                let (curIssuance, m) = GetIssuance B m MicroLunaDenom curDay;
                    postSwapIssuance = curIssuance + change
                in (sdk_QuoInt S (NewDecFromInt (postSwapIssuance - prevIssuance)) prevIssuance, k\<lparr> mk_mint := m \<rparr>)
              else (0, k\<lparr> mk_mint := m \<rparr>))"

definition newCoin :: "string \<Rightarrow> int \<Rightarrow> market_err + (string \<times> int)" where
  "newCoin denom amount = (if amount < 0 then Inl (MarketPanic NegativeCoin) else Inr (denom, amount))"

definition dec_Quo :: "sdk \<Rightarrow> dec \<Rightarrow> dec \<Rightarrow> market_err + dec" where
  "dec_Quo S a b = (if b = 0 then Inl (MarketPanic DivideByZero) else Inr (sdk_Quo S a b))"

definition swap_rate :: "'b market \<Rightarrow> string \<Rightarrow> market_err + dec" where
  "swap_rate k denom =
     (case GetLunaSwapRate (mk_oracle k) denom of None \<Rightarrow> Inl (NoEffectivePrice denom) | Some r \<Rightarrow> Inr r)"

definition GetSwapCoin ::
    "sdk \<Rightarrow> 'b bank \<Rightarrow> int \<Rightarrow> 'b market \<Rightarrow> string \<times> int \<Rightarrow> string \<Rightarrow> bool \<Rightarrow> market_err + ((string \<times> int) \<times> dec \<times> 'b market)" where
  "GetSwapCoin S B height k offerCoin askDenom isInternal =
     rbind (swap_rate k (fst offerCoin)) (\<lambda>offerRate.
     rbind (swap_rate k askDenom) (\<lambda>askRate.
     rbind (dec_Quo S (sdk_Mul S (NewDecFromInt (snd offerCoin)) askRate) offerRate) (\<lambda>ret.
       let retAmount = sdk_TruncateInt S ret
       in if retAmount = 0 then Inl (InsufficientSwapCoins (snd offerCoin))
          else if isInternal \<or> (fst offerCoin \<noteq> MicroLunaDenom \<and> askDenom \<noteq> MicroLunaDenom) then
            rbind (newCoin askDenom retAmount) (\<lambda>c. Inr (c, 0, k))
          else
            let (dailyDelta, k) =
                  (if fst offerCoin = MicroLunaDenom then ComputeLunaDelta S B height k (- snd offerCoin)
                   else if askDenom = MicroLunaDenom then ComputeLunaDelta S B height k retAmount
                   else (0, k));
                dailyDelta = \<bar>dailyDelta\<bar>;
                p = mk_params k;
                maxDelta = DailyLunaDeltaCap p
            in if dailyDelta > maxDelta then Inl ExceedsDailySwapLimit
               else
                 rbind (dec_Quo S dailyDelta maxDelta) (\<lambda>q.
                   let spread = MinSwapSpread p + sdk_Mul S q (MaxSwapSpread p - MinSwapSpread p)
                   in rbind (newCoin askDenom retAmount) (\<lambda>c. Inr (c, spread, k))))))"

definition GetSwapDecCoin :: "sdk \<Rightarrow> 'b market \<Rightarrow> string \<times> dec \<Rightarrow> string \<Rightarrow> market_err + (string \<times> dec)" where
  "GetSwapDecCoin S k offerCoin askDenom =
     rbind (swap_rate k (fst offerCoin)) (\<lambda>offerRate.
     rbind (swap_rate k askDenom) (\<lambda>askRate.
     rbind (dec_Quo S (sdk_Mul S (snd offerCoin) askRate) offerRate) (\<lambda>retAmount.
       if retAmount \<le> 0 then Inl (InsufficientSwapCoins (sdk_TruncateInt S (snd offerCoin)))
       else Inr (askDenom, retAmount))))"

text \<open>The fee of a swap, which goes to the pool of the oracle, and the coins that are left.\<close>

definition charge_fee :: "sdk \<Rightarrow> 'b market \<Rightarrow> string \<times> int \<Rightarrow> dec \<Rightarrow> market_err + ((string \<times> int) \<times> 'b market)" where
  "charge_fee S k swapCoin spread =
     (if spread > 0 then
        let swapFeeAmt = sdk_TruncateInt S (spread * snd swapCoin)
        in if swapFeeAmt > 0 then
             let k = k\<lparr> mk_oracle := AddSwapFeePool S (mk_oracle k) (NewCoin (fst swapCoin) swapFeeAmt) \<rparr>
             in rbind (newCoin (fst swapCoin) (snd swapCoin - swapFeeAmt)) (\<lambda>c. Inr (c, k))
           else Inr (swapCoin, k)
      else Inr (swapCoin, k))"

definition on_mint :: "'b market \<Rightarrow> mint_err + 'b mint \<Rightarrow> market_err + 'b market" where
  "on_mint k r = (case r of Inl e \<Rightarrow> Inl (MintError e) | Inr m \<Rightarrow> Inr (k\<lparr> mk_mint := m \<rparr>))"

definition handleMsgSwap :: "sdk \<Rightarrow> 'b bank \<Rightarrow> int \<Rightarrow> 'b market \<Rightarrow> msg_swap \<Rightarrow> market_err + ((string \<times> int) \<times> 'b market)" where
  "handleMsgSwap S B height k msg =
     (if fst (ms_OfferCoin msg) = ms_AskDenom msg then Inl (RecursiveSwap (ms_AskDenom msg))
      else
        rbind (GetSwapCoin S B height k (ms_OfferCoin msg) (ms_AskDenom msg) False) (\<lambda>(swapCoin, spread, k).
        rbind (charge_fee S k swapCoin spread) (\<lambda>(swapCoin, k).
        rbind (on_mint k (Burn B height (mk_mint k) (ms_Trader msg) (ms_OfferCoin msg))) (\<lambda>k.
        rbind (on_mint k (Mint B height (mk_mint k) (ms_Trader msg) swapCoin)) (\<lambda>k.
          Inr (swapCoin, k))))))"

definition MsgSwap_ValidateBasic :: "msg_swap \<Rightarrow> market_err + unit" where
  "MsgSwap_ValidateBasic msg =
     (if length (ms_Trader msg) = 0 then Inl InvalidAddress
      else if snd (ms_OfferCoin msg) < 0 then Inl (InsufficientSwapCoins (snd (ms_OfferCoin msg)))
      else if fst (ms_OfferCoin msg) = ms_AskDenom msg then Inl (RecursiveSwap (ms_AskDenom msg))
      else Inr ())"

definition market_InitGenesis :: "'b market \<Rightarrow> market_params \<Rightarrow> 'b market" where
  "market_InitGenesis k data = k\<lparr> mk_params := data \<rparr>"

definition market_ExportGenesis :: "'b market \<Rightarrow> market_params" where
  "market_ExportGenesis k = mk_params k"

section \<open>Bounds of a swap\<close>

lemma ComputeLunaDelta_keeps [simp]:
  "mk_oracle (snd (ComputeLunaDelta S B h k c)) = mk_oracle k" "mk_params (snd (ComputeLunaDelta S B h k c)) = mk_params k"
  by (simp_all add: ComputeLunaDelta_def Let_def split: prod.split)

lemma ComputeLunaDelta_tracked:
  assumes "tracked B (mk_mint k) (h sdiv BlocksPerDay)" and "0 \<le> h"
  shows "tracked B (mk_mint (snd (ComputeLunaDelta S B h k c))) (h sdiv BlocksPerDay)
    \<and> m_bank (mk_mint (snd (ComputeLunaDelta S B h k c))) = m_bank (mk_mint k)"
proof (cases "h sdiv BlocksPerDay = 0")
  case False
  let ?day = "h sdiv BlocksPerDay"
  have day: "1 \<le> ?day" using False assms(2) by (simp add: sdiv_day) 
  obtain p m where p: "GetIssuance B (mk_mint k) MicroLunaDenom (?day - 1) = (p, m)" by fastforce
  obtain q n where q: "GetIssuance B m MicroLunaDenom ?day = (q, n)" by fastforce
  have m: "tracked B m ?day \<and> m_bank m = m_bank (mk_mint k)"
    using GetIssuance_tracked [OF assms(1), of "?day - 1" MicroLunaDenom] p day by simp
  then have "tracked B n ?day \<and> m_bank n = m_bank (mk_mint k)"
    using GetIssuance_tracked [of B m ?day ?day MicroLunaDenom] q day by simp
  then show ?thesis using m p q False by (simp add: ComputeLunaDelta_def)
qed (use assms(1) in \<open>simp add: ComputeLunaDelta_def\<close>)

text \<open>What a successful computation of a swap returns.\<close>

definition swap_amount :: "sdk \<Rightarrow> 'b market \<Rightarrow> string \<times> int \<Rightarrow> string \<Rightarrow> int option" where
  "swap_amount S k offer ask =
     (case (GetLunaSwapRate (mk_oracle k) (fst offer), GetLunaSwapRate (mk_oracle k) ask) of
        (Some offerRate, Some askRate) \<Rightarrow> Some (sdk_TruncateInt S (sdk_Quo S (sdk_Mul S (NewDecFromInt (snd offer)) askRate) offerRate))
      | _ \<Rightarrow> None)"

lemma linear_bounds:
  assumes "sdk_rounding S" and "0 \<le> d" and "d \<le> m" and "0 < m" and "lo \<le> hi"
  shows "lo \<le> lo + sdk_Mul S (sdk_Quo S d m) (hi - lo) \<and> lo + sdk_Mul S (sdk_Quo S d m) (hi - lo) \<le> hi"
  using sdk_rounding.Quo_unit_interval [OF assms(1), of d m] sdk_rounding.Mul_nonneg [OF assms(1), of "sdk_Quo S d m" "hi - lo"]
    sdk_rounding.Mul_le [OF assms(1), of "sdk_Quo S d m" "hi - lo"] assms by simp

lemma GetSwapCoin_result:
  assumes "sdk_rounding S" and "market_validateParams (mk_params k)"
    and "GetSwapCoin S B h k offer ask internal = Inr (c, spread, k')"
  shows "fst c = ask \<and> 0 < snd c \<and> swap_amount S k offer ask = Some (snd c)
    \<and> (if internal \<or> fst offer \<noteq> MicroLunaDenom \<and> ask \<noteq> MicroLunaDenom then spread = 0 \<and> k' = k
       else MinSwapSpread (mk_params k) \<le> spread \<and> spread \<le> MaxSwapSpread (mk_params k)
            \<and> (\<exists>change. k' = snd (ComputeLunaDelta S B h k change)))"
proof -
  let ?p = "mk_params k"
  have p: "0 \<le> DailyLunaDeltaCap ?p" "MinSwapSpread ?p \<le> MaxSwapSpread ?p"
    using assms(2) by (simp_all add: market_validateParams_def)
  have band: "MinSwapSpread ?p \<le> MinSwapSpread ?p + sdk_Mul S (sdk_Quo S \<bar>d\<bar> (DailyLunaDeltaCap ?p)) (MaxSwapSpread ?p - MinSwapSpread ?p)
      \<and> MinSwapSpread ?p + sdk_Mul S (sdk_Quo S \<bar>d\<bar> (DailyLunaDeltaCap ?p)) (MaxSwapSpread ?p - MinSwapSpread ?p) \<le> MaxSwapSpread ?p"
    if "\<bar>d\<bar> \<le> DailyLunaDeltaCap ?p" "DailyLunaDeltaCap ?p \<noteq> 0" for d
    using that p by (intro linear_bounds [OF assms(1)]) simp_all
  obtain offerRate askRate where r: "GetLunaSwapRate (mk_oracle k) (fst offer) = Some offerRate" "GetLunaSwapRate (mk_oracle k) ask = Some askRate"
    using assms(3) by (auto simp: GetSwapCoin_def swap_rate_def split: option.splits)
  show ?thesis
  proof (cases "internal \<or> fst offer \<noteq> MicroLunaDenom \<and> ask \<noteq> MicroLunaDenom")
    case True
    then show ?thesis
      using assms(3) r by (auto simp: GetSwapCoin_def swap_rate_def swap_amount_def dec_Quo_def newCoin_def Let_def split: if_splits)
  next
    case False
    define change where "change = (if fst offer = MicroLunaDenom then - snd offer
      else sdk_TruncateInt S (sdk_Quo S (sdk_Mul S (NewDecFromInt (snd offer)) askRate) offerRate))"
    obtain d k1 where d: "ComputeLunaDelta S B h k change = (d, k1)" by fastforce
    then have k1: "k1 = snd (ComputeLunaDelta S B h k change)" "mk_params k1 = ?p"
      using ComputeLunaDelta_keeps(2) [of S B h k change] by simp_all
    have "k' = k1 \<and> fst c = ask \<and> 0 < snd c \<and> swap_amount S k offer ask = Some (snd c) \<and> \<bar>d\<bar> \<le> DailyLunaDeltaCap ?p
      \<and> DailyLunaDeltaCap ?p \<noteq> 0
      \<and> spread = MinSwapSpread ?p + sdk_Mul S (sdk_Quo S \<bar>d\<bar> (DailyLunaDeltaCap ?p)) (MaxSwapSpread ?p - MinSwapSpread ?p)"
      using assms(3) r False d k1(2)
      by (cases "fst offer = MicroLunaDenom") (auto simp: change_def GetSwapCoin_def swap_rate_def swap_amount_def dec_Quo_def newCoin_def Let_def split: if_splits)
    then show ?thesis using False band k1(1) by auto
  qed
qed

context cosmos
begin

lemma charge_fee_result:
  assumes "coins_ok (o_swapFeePool (mk_oracle k))" and "0 < snd c" and "charge_fee S k c spread = Inr (c', k')"
  shows "\<exists>fee. fst c' = fst c \<and> snd c' = snd c - fee \<and> 0 \<le> fee \<and> fee \<le> snd c \<and> fee * dec_unit \<le> max 0 (spread * snd c)
    \<and> mk_mint k' = mk_mint k \<and> mk_params k' = mk_params k \<and> coins_ok (o_swapFeePool (mk_oracle k'))
    \<and> (\<forall>d. AmountOf (o_swapFeePool (mk_oracle k')) d = AmountOf (o_swapFeePool (mk_oracle k)) d + (if d = fst c then fee else 0))"
proof (cases "spread > 0 \<and> sdk_TruncateInt S (spread * snd c) > 0")
  case True
  let ?fee = "sdk_TruncateInt S (spread * snd c)"
  have "0 \<le> spread * snd c" using True assms(2) by (simp add: less_imp_le)
  moreover from this have "?fee * dec_unit \<le> spread * snd c"
    by (simp add: TruncateInt_trunc div_times_le dec_unit_def)
  moreover have "coins_ok (NewCoin (fst c) ?fee)" using True by (intro NewCoin_ok) simp
  ultimately show ?thesis
    using True assms(1,3) by (intro exI [of _ ?fee])
      (auto simp: charge_fee_def newCoin_def AddSwapFeePool_def Add_ok Add_amount AmountOf_NewCoin Let_def split: if_splits)
next
  case False
  then show ?thesis using assms by (intro exI [of _ 0]) (auto simp: charge_fee_def Let_def split: if_splits)
qed

end

lemma on_mint_Inr: "on_mint k r = Inr k' \<longleftrightarrow> (\<exists>m. r = Inr m \<and> k' = k\<lparr> mk_mint := m \<rparr>)"
  by (auto simp: on_mint_def split: sum.splits)

lemma handleMsgSwap_Inr:
  assumes "handleMsgSwap S B h k msg = Inr (c, k')"
  obtains c1 spread k1 k2 m3 m4 where "fst (ms_OfferCoin msg) \<noteq> ms_AskDenom msg"
    and "GetSwapCoin S B h k (ms_OfferCoin msg) (ms_AskDenom msg) False = Inr (c1, spread, k1)"
    and "charge_fee S k1 c1 spread = Inr (c, k2)" and "Burn B h (mk_mint k2) (ms_Trader msg) (ms_OfferCoin msg) = Inr m3"
    and "Mint B h m3 (ms_Trader msg) c = Inr m4" and "k' = k2\<lparr> mk_mint := m4 \<rparr>"
  using assms by (auto simp: handleMsgSwap_def on_mint_Inr split: if_splits)

text \<open>C1: A swap burns the offered coins and mints the asked ones at the prices of the oracle, less a fee that is neither
  negative nor more than the amount nor more than the maximal spread of it; the fee goes to the pool of the oracle, no other
  currency is touched, and the issuance of every currency still is what the accounts hold.\<close>

theorem swap_accounts:
  assumes "cosmos S" and "bank_laws B" and "market_validateParams (mk_params k)" and "0 \<le> h"
    and "tracked B (mk_mint k) (h sdiv BlocksPerDay)" and "coins_ok (o_swapFeePool (mk_oracle k))"
    and "handleMsgSwap S B h k msg = Inr (c, k')"
  shows "\<exists>ret fee. swap_amount S k (ms_OfferCoin msg) (ms_AskDenom msg) = Some ret \<and> c = (ms_AskDenom msg, ret - fee)
    \<and> 0 \<le> fee \<and> fee \<le> ret \<and> fee * dec_unit \<le> MaxSwapSpread (mk_params k) * ret
    \<and> (\<forall>d. bk_Total B (m_bank (mk_mint k')) d = bk_Total B (m_bank (mk_mint k)) d
              - (if d = fst (ms_OfferCoin msg) then snd (ms_OfferCoin msg) else 0) + (if d = ms_AskDenom msg then ret - fee else 0))
    \<and> (\<forall>d. AmountOf (o_swapFeePool (mk_oracle k')) d
              = AmountOf (o_swapFeePool (mk_oracle k)) d + (if d = ms_AskDenom msg then fee else 0))
    \<and> tracked B (mk_mint k') (h sdiv BlocksPerDay) \<and> mk_params k' = mk_params k"
proof -
  have S: "sdk_rounding S" using assms(1) by (simp add: cosmos_def)
  obtain c1 spread k1 k2 m3 m4 where
      get: "GetSwapCoin S B h k (ms_OfferCoin msg) (ms_AskDenom msg) False = Inr (c1, spread, k1)"
    and fee: "charge_fee S k1 c1 spread = Inr (c, k2)"
    and burn: "Burn B h (mk_mint k2) (ms_Trader msg) (ms_OfferCoin msg) = Inr m3"
    and mint: "Mint B h m3 (ms_Trader msg) c = Inr m4" and k': "k' = k2\<lparr> mk_mint := m4 \<rparr>"
    using assms(7) by (rule handleMsgSwap_Inr)
  note g = GetSwapCoin_result [OF S assms(3) get]
  have k1: "mk_oracle k1 = mk_oracle k" "mk_params k1 = mk_params k" "tracked B (mk_mint k1) (h sdiv BlocksPerDay)"
      "m_bank (mk_mint k1) = m_bank (mk_mint k)"
    using g assms(5) ComputeLunaDelta_tracked [OF assms(5,4), of S] by (auto split: if_splits)
  have spread: "spread \<le> MaxSwapSpread (mk_params k)" "0 \<le> MaxSwapSpread (mk_params k)"
    using g assms(3) by (auto simp: market_validateParams_def split: if_splits)
  obtain f where f: "fst c = fst c1" "snd c = snd c1 - f" "0 \<le> f" "f \<le> snd c1" "f * dec_unit \<le> max 0 (spread * snd c1)"
      "mk_mint k2 = mk_mint k1" "mk_params k2 = mk_params k1"
      "\<And>d. AmountOf (o_swapFeePool (mk_oracle k2)) d = AmountOf (o_swapFeePool (mk_oracle k1)) d + (if d = fst c1 then f else 0)"
    using cosmos.charge_fee_result [OF assms(1) _ _ fee] g assms(6) k1(1) by auto
  have "spread * snd c1 \<le> MaxSwapSpread (mk_params k) * snd c1" "0 \<le> MaxSwapSpread (mk_params k) * snd c1"
    using spread g by (simp_all add: mult_right_mono)
  then have bound: "f * dec_unit \<le> MaxSwapSpread (mk_params k) * snd c1" using f(5) by linarith
  have b: "tracked B m3 (h sdiv BlocksPerDay)" "bk_SubtractCoins B (m_bank (mk_mint k)) (ms_Trader msg) (ms_OfferCoin msg) = Some (m_bank m3)"
    using Burn_tracks [OF assms(2) k1(3) assms(4), of "ms_Trader msg" "ms_OfferCoin msg"] burn f(6) k1(4) by simp_all
  have m: "tracked B m4 (h sdiv BlocksPerDay)" "bk_AddCoins B (m_bank m3) (ms_Trader msg) c = Some (m_bank m4)"
    using Mint_tracks [OF assms(2) b(1) assms(4), of "ms_Trader msg" c] mint by simp_all
  have tot: "bk_Total B (m_bank m4) d = bk_Total B (m_bank (mk_mint k)) d
      - (if d = fst (ms_OfferCoin msg) then snd (ms_OfferCoin msg) else 0) + (if d = ms_AskDenom msg then snd c1 - f else 0)" for d
    using bank_laws.Sub_total [OF assms(2) b(2), of d] bank_laws.Add_total [OF assms(2) m(2), of d] f(1,2) g by simp
  have "c = (ms_AskDenom msg, snd c1 - f)" using f(1,2) g by (simp add: prod_eq_iff)
  then show ?thesis
    using g f(3,4,7,8) bound tot m(1) k' k1(1,2) by (intro exI [of _ "snd c1"] exI [of _ f]) simp
qed

section \<open>Panics\<close>

context sdk_rounding
begin

lemma Quo_nonneg: "0 \<le> a \<Longrightarrow> 0 < b \<Longrightarrow> 0 \<le> sdk_Quo S a b"
  using Quo_mono [of b 0 a] Quo_zero [of b] by simp

lemma TruncateInt_nonneg: "0 \<le> a \<Longrightarrow> 0 \<le> sdk_TruncateInt S a"
  by (simp add: TruncateInt_trunc dec_unit_def pos_imp_zdiv_nonneg_iff)

text \<open>A fee of at most the whole leaves something that is not negative.\<close>

lemma TruncateInt_part:
  assumes "0 \<le> a" and "0 \<le> s" and "s \<le> dec_unit"
  shows "sdk_TruncateInt S (s * a) \<le> a"
proof -
  have "s * a div dec_unit \<le> dec_unit * a div dec_unit"
    using assms by (intro zdiv_mono1 mult_right_mono) (simp_all add: dec_unit_def)
  then show ?thesis using assms by (simp add: TruncateInt_trunc dec_unit_def)
qed

lemma charge_fee_no_panic: "0 \<le> snd c \<Longrightarrow> spread \<le> dec_unit \<Longrightarrow> charge_fee S k c spread \<noteq> Inl (MarketPanic p)"
  using TruncateInt_part [of "snd c" spread] by (auto simp: charge_fee_def newCoin_def Let_def)

lemma GetSwapCoin_no_panic:
  assumes "0 < DailyLunaDeltaCap (mk_params k)" and "\<And>d r. GetLunaSwapRate (mk_oracle k) d = Some r \<Longrightarrow> 0 < r" and "0 \<le> snd offer"
  shows "GetSwapCoin S B h k offer ask internal \<noteq> Inl (MarketPanic p)"
proof -
  have par: "mk_params k1 = mk_params k" if "ComputeLunaDelta S B h k c = (d, k1)" for c d k1
    using ComputeLunaDelta_keeps(2) [of S B h k c] that by simp
  consider "GetLunaSwapRate (mk_oracle k) (fst offer) = None \<or> GetLunaSwapRate (mk_oracle k) ask = None"
    | b a where "GetLunaSwapRate (mk_oracle k) (fst offer) = Some b" "GetLunaSwapRate (mk_oracle k) ask = Some a" by fastforce
  then show ?thesis
  proof cases
    case 1
    then show ?thesis by (auto simp: GetSwapCoin_def swap_rate_def rbind_Inl_iff split: option.splits)
  next
    case 2
    have pos: "0 < a" "0 < b" using assms(2) [OF 2(1)] assms(2) [OF 2(2)] by simp_all
    define ret where "ret = sdk_TruncateInt S (sdk_Quo S (sdk_Mul S (NewDecFromInt (snd offer)) a) b)"
    have "0 \<le> ret" unfolding ret_def
      using pos assms(3) by (intro TruncateInt_nonneg Quo_nonneg Mul_nonneg) (simp_all add: NewDecFromInt_def dec_unit_def)
    then show ?thesis
      using assms(1) pos 2 par unfolding GetSwapCoin_def
      by (simp add: swap_rate_def dec_Quo_def newCoin_def ret_def [symmetric] Let_def split: prod.split)
  qed
qed

end

text \<open>With positive prices, a positive cap of the daily change and a maximal spread of at most the whole, a swap cannot panic.\<close>

lemma swap_no_panic:
  assumes "sdk_rounding S" and "market_validateParams (mk_params k)" and "0 < DailyLunaDeltaCap (mk_params k)"
    and "MaxSwapSpread (mk_params k) \<le> OneDec" and "\<And>d r. GetLunaSwapRate (mk_oracle k) d = Some r \<Longrightarrow> 0 < r"
    and "MsgSwap_ValidateBasic msg = Inr ()"
  shows "handleMsgSwap S B h k msg \<noteq> Inl (MarketPanic p)"
proof
  assume panic: "handleMsgSwap S B h k msg = Inl (MarketPanic p)"
  have offer: "0 \<le> snd (ms_OfferCoin msg)" "fst (ms_OfferCoin msg) \<noteq> ms_AskDenom msg"
    using assms(6) by (auto simp: MsgSwap_ValidateBasic_def split: if_splits)
  have get: "GetSwapCoin S B h k (ms_OfferCoin msg) (ms_AskDenom msg) False \<noteq> Inl (MarketPanic p)"
    using assms(3,5) offer(1) by (intro sdk_rounding.GetSwapCoin_no_panic [OF assms(1)]) blast+
  have mint: "on_mint k1 r \<noteq> Inl (MarketPanic p)" for k1 :: "'a market" and r by (simp add: on_mint_def split: sum.split)
  obtain c spread k1 where ok: "GetSwapCoin S B h k (ms_OfferCoin msg) (ms_AskDenom msg) False = Inr (c, spread, k1)"
    and fee: "charge_fee S k1 c spread = Inl (MarketPanic p)"
    using panic offer(2) get mint by (auto simp: handleMsgSwap_def rbind_Inl_iff)
  have "0 < snd c" "spread \<le> OneDec"
    using GetSwapCoin_result [OF assms(1,2) ok] assms(4) by (auto simp: OneDec_def dec_unit_def split: if_splits)
  then show False using sdk_rounding.charge_fee_no_panic [OF assms(1), of c spread k1 p] fee by (simp add: OneDec_def)
qed

text \<open>A market with one price, no issuance recorded yet and ten Luna of an account, for the examples.\<close>

definition small_market :: "market_params \<Rightarrow> balances market" where
  "small_market p = \<lparr> mk_oracle = two_ballots\<lparr> o_prices := [(''ukrw'', 3 * dec_unit)] \<rparr>,
     mk_mint = no_issuance [((''a'', ''uluna''), 1000)], mk_params = p \<rparr>"

definition small_swap :: msg_swap where
  "small_swap = \<lparr> ms_Trader = ''a'', ms_OfferCoin = (''uluna'', 100), ms_AskDenom = ''ukrw'' \<rparr>"

lemmas market_simps = handleMsgSwap_def GetSwapCoin_def small_swap_def small_market_def swap_rate_def GetLunaSwapRate_def
  MicroLunaDenom_def dec_Quo_def newCoin_def ComputeLunaDelta_def charge_fee_def OneDec_def NewDecFromInt_def
  dec18_def dec_unit_def round_even_def trunc_div_def signed_divide_int_def BlocksPerDay_def BlocksPerHour_def BlocksPerMinute_def

definition swapped :: "market_err + ((string \<times> int) \<times> 'b market) \<Rightarrow> string \<times> int \<Rightarrow> bool" where
  "swapped r c = (case r of Inl e \<Rightarrow> False | Inr (c', k') \<Rightarrow> c' = c)"

lemma small_swap_result: "swapped (handleMsgSwap dec18 account_bank 5 (small_market market_DefaultParams) small_swap) (''ukrw'', 294)"
  by code_simp

theorem swap_accounts_witness:
  "\<exists>ret fee k'. handleMsgSwap dec18 account_bank 5 (small_market market_DefaultParams) small_swap = Inr ((''ukrw'', 294), k')
    \<and> ret - fee = 294 \<and> fee * dec_unit \<le> OneDec * ret
    \<and> balances_total (m_bank (mk_mint k')) ''uluna'' = 900 \<and> balances_total (m_bank (mk_mint k')) ''ukrw'' = 294"
proof -
  let ?k = "small_market market_DefaultParams"
  obtain k' where k': "handleMsgSwap dec18 account_bank 5 ?k small_swap = Inr ((''ukrw'', 294), k')"
    using small_swap_result by (auto simp: swapped_def split: sum.splits prod.splits)
  have "market_validateParams (mk_params ?k)" "tracked account_bank (mk_mint ?k) (5 sdiv BlocksPerDay)"
      "coins_ok (o_swapFeePool (mk_oracle ?k))" "MaxSwapSpread (mk_params ?k) = OneDec"
    by (simp_all add: small_market_def market_DefaultParams_def market_validateParams_def NewDecWithPrec_def tracked_start
        two_ballots_def coins_ok_def OneDec_def dec_unit_def)
  moreover have "bk_Total account_bank = balances_total" "fst (ms_OfferCoin small_swap) = ''uluna''" "snd (ms_OfferCoin small_swap) = 100"
      "ms_AskDenom small_swap = ''ukrw''" "balances_total (m_bank (mk_mint ?k)) ''uluna'' = 1000" "balances_total (m_bank (mk_mint ?k)) ''ukrw'' = 0"
    by (simp_all add: account_bank_def small_swap_def small_market_def no_issuance_def balances_total_def)
  ultimately obtain ret fee where "ret - fee = 294" "fee * dec_unit \<le> OneDec * ret"
      "balances_total (m_bank (mk_mint k')) ''uluna'' = 900" "balances_total (m_bank (mk_mint k')) ''ukrw'' = 294"
    using swap_accounts [OF dec18.cosmos_axioms account.bank_laws_axioms _ _ _ _ k'] by auto
  then show ?thesis using k' by blast
qed

text \<open>
  Parameters that \<^verbatim>\<open>validateParams\<close> accepts, and swaps that panic under them: a cap of zero divides by zero, and a spread
  of more than the whole leaves a negative coin. The default of the maximal spread is the whole, not a tenth of it.
\<close>

lemma swap_cap_zero_panics:
  "market_validateParams (market_DefaultParams\<lparr> DailyLunaDeltaCap := 0 \<rparr>)
   \<and> handleMsgSwap dec18 account_bank 5 (small_market (market_DefaultParams\<lparr> DailyLunaDeltaCap := 0 \<rparr>)) small_swap
     = Inl (MarketPanic DivideByZero)"
  by (simp add: market_validateParams_def market_DefaultParams_def NewDecWithPrec_def market_simps)

lemma swap_large_spread_panics:
  "market_validateParams (market_DefaultParams\<lparr> MinSwapSpread := 2 * OneDec, MaxSwapSpread := 2 * OneDec \<rparr>)
   \<and> handleMsgSwap dec18 account_bank 5 (small_market (market_DefaultParams\<lparr> MinSwapSpread := 2 * OneDec, MaxSwapSpread := 2 * OneDec \<rparr>)) small_swap
     = Inl (MarketPanic NegativeCoin)"
  by (simp add: market_validateParams_def market_DefaultParams_def NewDecWithPrec_def market_simps)

lemma default_maximal_spread: "MaxSwapSpread market_DefaultParams = OneDec"
  by (simp add: market_DefaultParams_def NewDecWithPrec_def OneDec_def dec_unit_def)

end
