(* ===== verification/TerraTreasury.thy ===== *)
theory TerraTreasury
  imports TerraMarket
begin

text \<open>
  The treasury (\<^verbatim>\<open>src/x/treasury\<close>): the tax rate and the weight of the mining rewards by epoch, the caps and proceeds of
  the tax, the indicators, and the update of the two rates at the end of an epoch. The state holds the one of the
  market, whose prices and issuance the indicators read.

  A decimal that was never set is \<^verbatim>\<open>nil\<close> in Go; it is the value \<open>None\<close> here, and computing with it panics. What the
  codec writes for it is an argument (\<open>nil_dec\<close>).
\<close>

section \<open>State\<close>

record policy =
  RateMin :: dec
  RateMax :: dec
  PolicyCap :: "string \<times> int"
  ChangeRateMax :: dec

record treasury_params =
  TaxPolicy :: policy
  RewardPolicy :: policy
  SeigniorageBurdenTarget :: dec
  MiningIncrement :: dec
  WindowShort :: int
  WindowLong :: int
  WindowProbation :: int

record 'b treasury =
  t_taxRate :: "(int, dec) kv"
  t_rewardWeight :: "(int, dec) kv"
  t_taxCap :: "(string, int) kv"
  t_taxProceeds :: "(int, coins) kv"
  t_params :: treasury_params
  t_market :: "'b market"

record treasury_genesis =
  tg_Params :: treasury_params
  tg_TaxRate :: dec
  tg_RewardWeight :: dec

definition treasury_DefaultParams :: treasury_params where
  "treasury_DefaultParams =
     \<lparr> TaxPolicy = \<lparr> RateMin = NewDecWithPrec 5 4, RateMax = NewDecWithPrec 1 2, PolicyCap = (MicroSDRDenom, 1000000),
                    ChangeRateMax = NewDecWithPrec 25 5 \<rparr>,
       RewardPolicy = \<lparr> RateMin = NewDecWithPrec 5 2, RateMax = NewDecWithPrec 90 2, PolicyCap = (''unused'', 0),
                       ChangeRateMax = NewDecWithPrec 25 3 \<rparr>,
       SeigniorageBurdenTarget = NewDecWithPrec 67 2, MiningIncrement = NewDecWithPrec 107 2,
       WindowShort = 4, WindowLong = 52, WindowProbation = 12 \<rparr>"

definition treasury_validateParams :: "treasury_params \<Rightarrow> bool" where
  "treasury_validateParams p \<longleftrightarrow>
     \<not> RateMax (TaxPolicy p) < RateMin (TaxPolicy p) \<and> \<not> RateMin (TaxPolicy p) < 0
     \<and> \<not> RateMax (RewardPolicy p) < RateMin (RewardPolicy p) \<and> \<not> RateMin (RewardPolicy p) < 0"

definition treasury_DefaultGenesisState :: treasury_genesis where
  "treasury_DefaultGenesisState =
     \<lparr> tg_Params = treasury_DefaultParams, tg_TaxRate = NewDecWithPrec 1 3, tg_RewardWeight = NewDecWithPrec 5 2 \<rparr>"

definition treasury_ValidateGenesis :: "treasury_genesis \<Rightarrow> bool" where
  "treasury_ValidateGenesis data \<longleftrightarrow>
     \<not> (tg_TaxRate data > RateMax (TaxPolicy (tg_Params data)) \<or> tg_TaxRate data < RateMin (TaxPolicy (tg_Params data)))
     \<and> \<not> (tg_RewardWeight data > RateMax (RewardPolicy (tg_Params data)) \<or> tg_RewardWeight data < RateMin (RewardPolicy (tg_Params data)))
     \<and> treasury_validateParams (tg_Params data)"

section \<open>Policies\<close>

definition Clamp :: "policy \<Rightarrow> dec \<Rightarrow> dec \<Rightarrow> dec" where
  "Clamp pc prevRate newRate =
     (let newRate = (if newRate < RateMin pc then RateMin pc else if newRate > RateMax pc then RateMax pc else newRate);
          delta = newRate - prevRate
      in if newRate > prevRate then (if delta > ChangeRateMax pc then prevRate + ChangeRateMax pc else newRate)
         else (if \<bar>delta\<bar> > ChangeRateMax pc then prevRate - ChangeRateMax pc else newRate))"

section \<open>The store of the treasury\<close>

definition SetRewardWeight :: "int \<Rightarrow> 'b treasury \<Rightarrow> dec \<Rightarrow> 'b treasury" where
  "SetRewardWeight height k weight = k\<lparr> t_rewardWeight := kv_set (GetEpoch height) weight (t_rewardWeight k) \<rparr>"

function reward_weight_loop :: "(int, dec) kv \<Rightarrow> int \<Rightarrow> int \<Rightarrow> dec option" where
  "reward_weight_loop s epoch e =
     (if e \<ge> 0 then
        (case map_of s e of
           Some w \<Rightarrow> Some w
         | None \<Rightarrow> if epoch \<le> 0 then Some (tg_RewardWeight treasury_DefaultGenesisState) else reward_weight_loop s epoch (e - 1))
      else None)"
  by auto
termination
  by (relation "measure (\<lambda>(s, epoch, e). nat (e + 1))") auto

declare reward_weight_loop.simps [simp del]

definition GetRewardWeight :: "dec \<Rightarrow> 'b treasury \<Rightarrow> int \<Rightarrow> dec option \<times> 'b treasury" where
  "GetRewardWeight nil_dec k epoch =
     (case map_of (t_rewardWeight k) epoch of
        Some w \<Rightarrow> (Some w, k)
      | None \<Rightarrow>
          let rewardWeight = reward_weight_loop (t_rewardWeight k) epoch epoch;
              bz = (case rewardWeight of None \<Rightarrow> nil_dec | Some w \<Rightarrow> w)
          in (rewardWeight, k\<lparr> t_rewardWeight := kv_set epoch bz (t_rewardWeight k) \<rparr>))"

definition SetTaxRate :: "int \<Rightarrow> 'b treasury \<Rightarrow> dec \<Rightarrow> 'b treasury" where
  "SetTaxRate height k rate = k\<lparr> t_taxRate := kv_set (GetEpoch height) rate (t_taxRate k) \<rparr>"

function GetTaxRate :: "'b treasury \<Rightarrow> int \<Rightarrow> dec \<times> 'b treasury" where
  "GetTaxRate k epoch =
     (case map_of (t_taxRate k) epoch of
        Some rate \<Rightarrow> (rate, k)
      | None \<Rightarrow>
          let (rate, k') = (if epoch \<le> 0 then (tg_TaxRate treasury_DefaultGenesisState, k) else GetTaxRate k (epoch - 1))
          in (rate, k'\<lparr> t_taxRate := kv_set epoch rate (t_taxRate k') \<rparr>))"
  by auto
termination
  by (relation "measure (\<lambda>(k, epoch). nat epoch)") auto

declare GetTaxRate.simps [simp del]

definition setTaxCap :: "'b treasury \<Rightarrow> string \<Rightarrow> int \<Rightarrow> 'b treasury" where
  "setTaxCap k denom amount = k\<lparr> t_taxCap := kv_set denom amount (t_taxCap k) \<rparr>"

definition GetTaxCap :: "sdk \<Rightarrow> 'b bank \<Rightarrow> int \<Rightarrow> 'b treasury \<Rightarrow> string \<Rightarrow> panic + (int \<times> 'b treasury)" where
  "GetTaxCap S B height k denom =
     (case map_of (t_taxCap k) denom of
        Some taxCap \<Rightarrow> Inr (taxCap, k)
      | None \<Rightarrow>
          let referenceCap = PolicyCap (TaxPolicy (t_params k))
          in rbind (case GetSwapCoin S B height (t_market k) referenceCap denom True of
                      Inr (reqCap, _, _) \<Rightarrow> Inr (snd reqCap)
                    | Inl (MarketPanic p) \<Rightarrow> Inl p
                    | Inl _ \<Rightarrow> if snd referenceCap < 0 then Inl NegativeCoin else Inr (snd referenceCap))
               (\<lambda>taxCap. Inr (taxCap, setTaxCap k denom taxCap)))"

definition PeekTaxProceeds :: "'b treasury \<Rightarrow> int \<Rightarrow> coins" where
  "PeekTaxProceeds k epoch = (case map_of (t_taxProceeds k) epoch of None \<Rightarrow> [] | Some res \<Rightarrow> res)"

definition RecordTaxProceeds :: "sdk \<Rightarrow> int \<Rightarrow> 'b treasury \<Rightarrow> coins \<Rightarrow> 'b treasury" where
  "RecordTaxProceeds S height k delta =
     (let epoch = GetEpoch height; proceeds = PeekTaxProceeds k epoch
      in k\<lparr> t_taxProceeds := kv_set epoch (sdk_Add S proceeds delta) (t_taxProceeds k) \<rparr>)"

section \<open>Indicators\<close>

text \<open>An indicator of an epoch; reading the issuance and the weights fills their tables.\<close>

type_synonym 'b indicator = "'b treasury \<Rightarrow> int \<Rightarrow> panic + (dec \<times> 'b treasury)"

text \<open>A swap of decimal coins for the indicators: an error counts for nothing.\<close>

definition swap_or_zero :: "sdk \<Rightarrow> 'b treasury \<Rightarrow> string \<times> dec \<Rightarrow> panic + dec" where
  "swap_or_zero S k c =
     (case GetSwapDecCoin S (t_market k) c MicroSDRDenom of
        Inr r \<Rightarrow> Inr (snd r) | Inl (MarketPanic p) \<Rightarrow> Inl p | Inl _ \<Rightarrow> Inr 0)"

primrec tax_rewards :: "sdk \<Rightarrow> 'b treasury \<Rightarrow> coins \<Rightarrow> dec \<Rightarrow> panic + dec" where
  "tax_rewards S k [] acc = Inr acc"
| "tax_rewards S k (c # cs) acc =
     (let reward = NewDecFromInt (snd c)
      in if fst c \<noteq> MicroSDRDenom then rbind (swap_or_zero S k (fst c, reward)) (\<lambda>r. tax_rewards S k cs (acc + r))
         else tax_rewards S k cs (acc + reward))"

definition TaxRewardsForEpoch :: "sdk \<Rightarrow> 'b indicator" where
  "TaxRewardsForEpoch S k epoch = rbind (tax_rewards S k (PeekTaxProceeds k epoch) 0) (\<lambda>r. Inr (r, k))"

definition SeigniorageRewardsForEpoch :: "dec \<Rightarrow> sdk \<Rightarrow> 'b bank \<Rightarrow> int \<Rightarrow> 'b indicator" where
  "SeigniorageRewardsForEpoch nil_dec S B height k epoch =
     (let (seignioragePool, m) = PeekEpochSeigniorage B height (mk_mint (t_market k)) epoch;
          k = k\<lparr> t_market := (t_market k)\<lparr> mk_mint := m \<rparr> \<rparr>;
          (weight, k) = GetRewardWeight nil_dec k epoch
      in case weight of
           None \<Rightarrow> Inl NilDec
         | Some w \<Rightarrow>
             let rewardAmt = w * seignioragePool
             in if rewardAmt < 0 then Inl NegativeCoin
                else rbind (swap_or_zero S k (MicroLunaDenom, rewardAmt)) (\<lambda>r. Inr (r, k)))"

definition MiningRewardForEpoch :: "dec \<Rightarrow> sdk \<Rightarrow> 'b bank \<Rightarrow> int \<Rightarrow> 'b indicator" where
  "MiningRewardForEpoch nil_dec S B height k epoch =
     rbind (TaxRewardsForEpoch S k epoch) (\<lambda>(taxRewards, k).
     rbind (SeigniorageRewardsForEpoch nil_dec S B height k epoch) (\<lambda>(seigniorageRewards, k).
       Inr (taxRewards + seigniorageRewards, k)))"

definition UnitLunaIndicator :: "sdk \<Rightarrow> valset \<Rightarrow> 'b indicator \<Rightarrow> 'b indicator" where
  "UnitLunaIndicator S vs f k epoch =
     rbind (f k epoch) (\<lambda>(indicator, k).
       if TotalBondedTokens vs = 0 then Inl DivideByZero else Inr (sdk_QuoInt S indicator (TotalBondedTokens vs), k))"

definition TRL :: "sdk \<Rightarrow> valset \<Rightarrow> 'b indicator" where
  "TRL S vs = UnitLunaIndicator S vs (TaxRewardsForEpoch S)"

definition SRL :: "dec \<Rightarrow> sdk \<Rightarrow> 'b bank \<Rightarrow> int \<Rightarrow> valset \<Rightarrow> 'b indicator" where
  "SRL nil_dec S B height vs = UnitLunaIndicator S vs (SeigniorageRewardsForEpoch nil_dec S B height)"

definition MRL :: "dec \<Rightarrow> sdk \<Rightarrow> 'b bank \<Rightarrow> int \<Rightarrow> valset \<Rightarrow> 'b indicator" where
  "MRL nil_dec S B height vs = UnitLunaIndicator S vs (MiningRewardForEpoch nil_dec S B height)"

text \<open>The loop of the two functions below; it returns the sum, the epoch at which it stopped and the state.\<close>

function indicator_loop :: "'b indicator \<Rightarrow> int \<Rightarrow> int \<Rightarrow> dec \<Rightarrow> 'b treasury \<Rightarrow> panic + (dec \<times> int \<times> 'b treasury)" where
  "indicator_loop f lo i acc k =
     (if i \<ge> 0 \<and> i > lo then rbind (f k i) (\<lambda>(val, k). indicator_loop f lo (i - 1) (acc + val) k)
      else Inr (acc, i, k))"
  by auto
termination
  by (relation "measure (\<lambda>(f, lo, i, acc, k). nat (i + 1))") auto

declare indicator_loop.simps [simp del]

definition SumIndicator :: "int \<Rightarrow> 'b treasury \<Rightarrow> int \<Rightarrow> 'b indicator \<Rightarrow> panic + (dec \<times> 'b treasury)" where
  "SumIndicator height k epochs f =
     (let curEpoch = GetEpoch height
      in rbind (indicator_loop f (curEpoch - epochs) curEpoch 0 k) (\<lambda>(acc, i, k). Inr (acc, k)))"

definition RollingAverageIndicator :: "sdk \<Rightarrow> int \<Rightarrow> 'b treasury \<Rightarrow> int \<Rightarrow> 'b indicator \<Rightarrow> panic + (dec \<times> 'b treasury)" where
  "RollingAverageIndicator S height k epochs f =
     (let curEpoch = GetEpoch height
      in rbind (indicator_loop f (curEpoch - epochs) curEpoch 0 k) (\<lambda>(acc, i, k).
           let computedEpochs = curEpoch - i
           in if computedEpochs = 0 then Inr (acc, k) else Inr (sdk_QuoInt S acc computedEpochs, k)))"

section \<open>Updates of the policies\<close>

definition updateTaxPolicy :: "sdk \<Rightarrow> valset \<Rightarrow> int \<Rightarrow> 'b treasury \<Rightarrow> panic + (dec \<times> 'b treasury)" where
  "updateTaxPolicy S vs height k =
     (let params = t_params k;
          (oldTaxRate, k) = GetTaxRate k (GetEpoch height);
          inc = MiningIncrement params
      in rbind (RollingAverageIndicator S height k (WindowLong params) (TRL S vs)) (\<lambda>(tlYear, k).
         rbind (RollingAverageIndicator S height k (WindowShort params) (TRL S vs)) (\<lambda>(tlMonth, k).
           let newTaxRate = (if tlMonth = 0 then RateMax (TaxPolicy params)
                             else sdk_Quo S (sdk_Mul S oldTaxRate (sdk_Mul S tlYear inc)) tlMonth);
               newTaxRate = Clamp (TaxPolicy params) oldTaxRate newTaxRate
           in Inr (newTaxRate, SetTaxRate height k newTaxRate))))"

definition updateRewardPolicy :: "dec \<Rightarrow> sdk \<Rightarrow> 'b bank \<Rightarrow> int \<Rightarrow> 'b treasury \<Rightarrow> panic + (dec \<times> 'b treasury)" where
  "updateRewardPolicy nil_dec S B height k =
     (let params = t_params k;
          (oldWeight, k) = GetRewardWeight nil_dec k (GetEpoch height);
          sbTarget = SeigniorageBurdenTarget params
      in rbind (SumIndicator height k (WindowShort params) (SeigniorageRewardsForEpoch nil_dec S B height)) (\<lambda>(seigniorageSum, k).
         rbind (SumIndicator height k (WindowShort params) (MiningRewardForEpoch nil_dec S B height)) (\<lambda>(totalSum, k).
         case oldWeight of
           None \<Rightarrow> Inl NilDec
         | Some oldWeight \<Rightarrow>
           rbind (if totalSum = 0 \<or> seigniorageSum = 0 then Inr (RateMax (RewardPolicy params))
                  else
                    let sb = sdk_Quo S seigniorageSum totalSum
                    in if sb = 0 then Inl DivideByZero else Inr (sdk_Mul S oldWeight (sdk_Quo S sbTarget sb)))
             (\<lambda>newRewardWeight.
               let newRewardWeight = Clamp (RewardPolicy params) oldWeight newRewardWeight
               in Inr (newRewardWeight, SetRewardWeight height k newRewardWeight)))))"

definition isProbationPeriod :: "int \<Rightarrow> 'b treasury \<Rightarrow> bool" where
  "isProbationPeriod height k = (GetEpoch (height + 1) < WindowProbation (t_params k))"

definition treasury_EndBlocker :: "dec \<Rightarrow> sdk \<Rightarrow> 'b bank \<Rightarrow> valset \<Rightarrow> int \<Rightarrow> 'b treasury \<Rightarrow> panic + 'b treasury" where
  "treasury_EndBlocker nil_dec S B vs height k =
     rbind (IsPeriodLastBlock height BlocksPerEpoch) (\<lambda>isLast.
       if \<not> isLast then Inr k
       else if isProbationPeriod height k then Inr k
       else
         rbind (updateTaxPolicy S vs height k) (\<lambda>(taxRate, k).
         rbind (updateRewardPolicy nil_dec S B height k) (\<lambda>(rewardWeight, k). Inr k)))"

section \<open>Genesis\<close>

definition treasury_InitGenesis :: "int \<Rightarrow> 'b treasury \<Rightarrow> treasury_genesis \<Rightarrow> 'b treasury" where
  "treasury_InitGenesis height k data =
     (let k = k\<lparr> t_params := tg_Params data \<rparr>;
          k = SetTaxRate height k (tg_TaxRate data);
          k = setTaxCap k (fst (PolicyCap (TaxPolicy (tg_Params data)))) (snd (PolicyCap (TaxPolicy (tg_Params data))))
      in SetRewardWeight height k (tg_RewardWeight data))"

definition treasury_ExportGenesis :: "dec \<Rightarrow> int \<Rightarrow> 'b treasury \<Rightarrow> (treasury_params \<times> dec \<times> dec option) \<times> 'b treasury" where
  "treasury_ExportGenesis nil_dec height k =
     (let params = t_params k;
          (taxRate, k) = GetTaxRate k 0;
          (rewardWeight, k) = GetRewardWeight nil_dec k (GetEpoch height)
      in ((params, taxRate, rewardWeight), k))"

section \<open>The rates stay within their bounds\<close>

definition within :: "policy \<Rightarrow> dec \<Rightarrow> bool" where
  "within pc r \<longleftrightarrow> RateMin pc \<le> r \<and> r \<le> RateMax pc"

lemma Clamp_within:
  assumes "within pc prev" and "0 \<le> ChangeRateMax pc"
  shows "within pc (Clamp pc prev new) \<and> \<bar>Clamp pc prev new - prev\<bar> \<le> ChangeRateMax pc"
  using assms by (auto simp: within_def Clamp_def Let_def)

text \<open>Both tables have an entry of epoch 0, entries of no later epoch than the current one, and only rates within the bounds.\<close>

definition rate_table_ok :: "policy \<Rightarrow> int \<Rightarrow> (int, dec) kv \<Rightarrow> bool" where
  "rate_table_ok pc now s \<longleftrightarrow> kv_ok s \<and> map_of s 0 \<noteq> None \<and> (\<forall>e r. map_of s e = Some r \<longrightarrow> 0 \<le> e \<and> e \<le> now \<and> within pc r)"

definition rates_ok :: "int \<Rightarrow> 'b treasury \<Rightarrow> bool" where
  "rates_ok now k \<longleftrightarrow> rate_table_ok (TaxPolicy (t_params k)) now (t_taxRate k) \<and> rate_table_ok (RewardPolicy (t_params k)) now (t_rewardWeight k)"

lemma rate_table_set:
  assumes "rate_table_ok pc now s" and "0 \<le> e" and "e \<le> now" and "within pc r"
  shows "rate_table_ok pc now (kv_set e r s)"
  using assms by (auto simp: rate_table_ok_def kv_set_ok kv_set_get)

lemma rate_table_later: "rate_table_ok pc now s \<Longrightarrow> now \<le> now' \<Longrightarrow> rate_table_ok pc now' s"
  by (fastforce simp: rate_table_ok_def)

text \<open>The rate of an epoch: the entry of it or of the last epoch before it that has one.\<close>

function rate_at :: "(int, dec) kv \<Rightarrow> int \<Rightarrow> dec option" where
  "rate_at s e = (case map_of s e of Some r \<Rightarrow> Some r | None \<Rightarrow> if e \<le> 0 then None else rate_at s (e - 1))"
  by auto
termination
  by (relation "measure (\<lambda>(s, e). nat e)") auto

declare rate_at.simps [simp del]

lemma rate_at_within: "rate_table_ok pc now s \<Longrightarrow> 0 \<le> e \<Longrightarrow> \<exists>r. rate_at s e = Some r \<and> within pc r"
proof (induction s e rule: rate_at.induct)
  case (1 s e)
  show ?case
  proof (cases "map_of s e")
    case None
    have "e \<noteq> 0" using 1(2) None by (auto simp: rate_table_ok_def)
    then have "\<exists>r. rate_at s (e - 1) = Some r \<and> within pc r" using 1 None by simp
    then show ?thesis using None \<open>e \<noteq> 0\<close> 1(3) by (simp add: rate_at.simps [of s e])
  next
    case (Some r)
    then show ?thesis using 1(2) by (auto simp: rate_at.simps [of s e] rate_table_ok_def)
  qed
qed

lemma rate_at_next: "map_of s (e + 1) = None \<Longrightarrow> 0 \<le> e \<Longrightarrow> rate_at s (e + 1) = rate_at s e"
  by (simp add: rate_at.simps [of s "e + 1"])

lemma GetTaxRate_rate_at:
  assumes "rate_table_ok pc now (t_taxRate k)" and "0 \<le> e" and "e \<le> now"
  shows "\<exists>r s. GetTaxRate k e = (r, k\<lparr> t_taxRate := s \<rparr>) \<and> rate_at (t_taxRate k) e = Some r \<and> within pc r \<and> rate_table_ok pc now s"
  using assms
proof (induction "nat e" arbitrary: e)
  case 0
  then have "e = 0" by simp
  obtain r where r: "map_of (t_taxRate k) 0 = Some r" "within pc r" using assms(1) by (auto simp: rate_table_ok_def)
  then show ?case using assms(1) \<open>e = 0\<close>
    by (intro exI [of _ r] exI [of _ "t_taxRate k"]) (simp add: GetTaxRate.simps [of k 0] rate_at.simps [of _ 0])
next
  case (Suc n)
  show ?case
  proof (cases "map_of (t_taxRate k) e")
    case None
    have e: "0 < e" "n = nat (e - 1)" using Suc(2) by arith+
    obtain r s where "GetTaxRate k (e - 1) = (r, k\<lparr> t_taxRate := s \<rparr>)" "rate_at (t_taxRate k) (e - 1) = Some r" "within pc r" "rate_table_ok pc now s"
      using Suc(1) [of "e - 1"] Suc(3-5) e by auto
    then show ?thesis
      using None e Suc(5) rate_table_set [of pc now s e r]
      by (intro exI [of _ r] exI [of _ "kv_set e r s"]) (simp add: GetTaxRate.simps [of k e] rate_at.simps [of _ e])
  next
    case (Some r)
    then have "within pc r" using assms(1) by (simp add: rate_table_ok_def)
    then show ?thesis using assms(1) Some
      by (intro exI [of _ r] exI [of _ "t_taxRate k"]) (simp add: GetTaxRate.simps [of k e] rate_at.simps [of _ e])
  qed
qed

lemma reward_weight_loop_rate_at: "0 < epoch \<Longrightarrow> map_of s 0 \<noteq> None \<Longrightarrow> 0 \<le> e \<Longrightarrow> reward_weight_loop s epoch e = rate_at s e"
proof (induction "nat e" arbitrary: e)
  case 0
  then show ?case by (auto simp: reward_weight_loop.simps [of s epoch 0] rate_at.simps [of s 0] split: option.split)
next
  case (Suc n)
  then show ?case by (auto simp: reward_weight_loop.simps [of s epoch e] rate_at.simps [of s e] split: option.split)
qed

lemma GetRewardWeight_rate_at:
  assumes "rate_table_ok pc now (t_rewardWeight k)" and "0 \<le> e" and "e \<le> now"
  shows "\<exists>r s. GetRewardWeight nil_dec k e = (Some r, k\<lparr> t_rewardWeight := s \<rparr>) \<and> rate_at (t_rewardWeight k) e = Some r
    \<and> within pc r \<and> rate_table_ok pc now s"
proof (cases "map_of (t_rewardWeight k) e")
  case None
  obtain r where r: "rate_at (t_rewardWeight k) e = Some r" "within pc r" using rate_at_within [OF assms(1,2)] by blast
  have "map_of (t_rewardWeight k) 0 \<noteq> None" using assms(1) by (simp add: rate_table_ok_def)
  moreover from this have "0 < e" using None assms(2) by (cases "e = 0") auto
  ultimately have "reward_weight_loop (t_rewardWeight k) e e = Some r" using reward_weight_loop_rate_at r(1) by simp
  then show ?thesis using None r rate_table_set [OF assms r(2)]
    by (intro exI [of _ r] exI [of _ "kv_set e r (t_rewardWeight k)"]) (simp add: GetRewardWeight_def Let_def)
next
  case (Some r)
  then have "within pc r" using assms(1) by (simp add: rate_table_ok_def)
  then show ?thesis using assms(1) Some
    by (intro exI [of _ r] exI [of _ "t_rewardWeight k"]) (simp add: GetRewardWeight_def rate_at.simps [of _ e])
qed

text \<open>
  What the updates rely on of an indicator: it leaves the tax rates and the parameters alone and at most fills the
  table of the weights.
\<close>

definition reads :: "int \<Rightarrow> 'b treasury \<Rightarrow> 'b treasury \<Rightarrow> bool" where
  "reads now k k' \<longleftrightarrow> rates_ok now k' \<and> t_taxRate k' = t_taxRate k \<and> t_params k' = t_params k"

lemma reads_trans: "reads now k k' \<Longrightarrow> reads now k' k'' \<Longrightarrow> reads now k k''"
  by (simp add: reads_def)

lemma reads_ok: "reads now k k' \<Longrightarrow> rates_ok now k'"
  by (simp add: reads_def)

locale rate_indicator =
  fixes f :: "'b indicator"
  assumes keeps: "rates_ok now k \<Longrightarrow> 0 \<le> e \<Longrightarrow> e \<le> now \<Longrightarrow> f k e = Inr (v, k') \<Longrightarrow> reads now k k'"
begin

lemma loop_keeps:
  "rates_ok now k \<Longrightarrow> i \<le> now \<Longrightarrow> indicator_loop f lo i acc k = Inr (s, j, k') \<Longrightarrow> reads now k k'"
proof (induction "nat (i + 1)" arbitrary: i acc k)
  case 0
  then show ?case by (auto simp: indicator_loop.simps [of f lo i acc k] reads_def split: if_splits)
next
  case (Suc n)
  show ?case
  proof (cases "i \<ge> 0 \<and> i > lo")
    case True
    obtain v k1 where v: "f k i = Inr (v, k1)" "indicator_loop f lo (i - 1) (acc + v) k1 = Inr (s, j, k')"
      using Suc.prems(3) True by (auto simp: indicator_loop.simps [of f lo i acc k])
    have "n = nat (i - 1 + 1)" using Suc.hyps(2) by arith
    moreover have "reads now k k1" using keeps [OF Suc.prems(1) _ Suc.prems(2) v(1)] True by simp
    ultimately show ?thesis using Suc.hyps(1) [of "i - 1" k1 "acc + v"] v(2) Suc.prems(2) reads_ok reads_trans by simp blast
  next
    case False
    then show ?thesis using Suc.prems by (auto simp: indicator_loop.simps [of f lo i acc k] reads_def)
  qed
qed

lemma sum_keeps: "rates_ok (GetEpoch h) k \<Longrightarrow> SumIndicator h k w f = Inr (v, k') \<Longrightarrow> reads (GetEpoch h) k k'"
  by (auto simp: SumIndicator_def Let_def intro: loop_keeps [OF _ order_refl])

lemma rolling_keeps: "rates_ok (GetEpoch h) k \<Longrightarrow> RollingAverageIndicator S h k w f = Inr (v, k') \<Longrightarrow> reads (GetEpoch h) k k'"
  by (auto simp: RollingAverageIndicator_def Let_def split: if_splits intro: loop_keeps [OF _ order_refl])

lemma unit_indicator: "rate_indicator (UnitLunaIndicator S vs f)"
  by unfold_locales (auto simp: UnitLunaIndicator_def split: if_splits intro: keeps)

end

interpretation tax: rate_indicator "TaxRewardsForEpoch S :: 'b indicator"
  by unfold_locales (auto simp: TaxRewardsForEpoch_def reads_def)

interpretation tax_luna: rate_indicator "TRL S vs :: 'b indicator"
  unfolding TRL_def by (rule tax.unit_indicator)

interpretation seigniorage: rate_indicator "SeigniorageRewardsForEpoch nil_dec S B h"
proof
  fix now k e v k'
  assume ok: "rates_ok now k" "0 \<le> e" "e \<le> now" and r: "SeigniorageRewardsForEpoch nil_dec S B h k e = Inr (v, k')"
  obtain p m where m: "PeekEpochSeigniorage B h (mk_mint (t_market k)) e = (p, m)" by fastforce
  let ?k = "k\<lparr> t_market := (t_market k)\<lparr> mk_mint := m \<rparr> \<rparr>"
  obtain w s where "GetRewardWeight nil_dec ?k e = (Some w, ?k\<lparr> t_rewardWeight := s \<rparr>)" "rate_table_ok (RewardPolicy (t_params k)) now s"
    using GetRewardWeight_rate_at [of "RewardPolicy (t_params k)" now ?k e nil_dec] ok by (auto simp: rates_ok_def)
  then show "reads now k k'"
    using r m ok(1) by (auto simp: SeigniorageRewardsForEpoch_def Let_def reads_def rates_ok_def split: if_splits)
qed

interpretation mining: rate_indicator "MiningRewardForEpoch nil_dec S B h"
proof
  fix now k e v k'
  assume ok: "rates_ok now k" "0 \<le> e" "e \<le> now" and "MiningRewardForEpoch nil_dec S B h k e = Inr (v, k')"
  then obtain a b k1 where "TaxRewardsForEpoch S k e = Inr (a, k1)" "SeigniorageRewardsForEpoch nil_dec S B h k1 e = Inr (b, k')"
    by (auto simp: MiningRewardForEpoch_def)
  then show "reads now k k'" using ok tax.keeps seigniorage.keeps reads_ok reads_trans by metis
qed

lemma GetEpoch_nonneg: "0 \<le> h \<Longrightarrow> 0 \<le> GetEpoch h"
  by (simp add: GetEpoch_def signed_divide_int_def sgn_if pos_imp_zdiv_nonneg_iff BlocksPerEpoch_def BlocksPerWeek_def BlocksPerDay_def
      BlocksPerHour_def BlocksPerMinute_def)

text \<open>What the two updates do to the tables.\<close>

lemma updateTaxPolicy_table:
  assumes "rates_ok (GetEpoch h) k" and "0 \<le> h" and "0 \<le> ChangeRateMax (TaxPolicy (t_params k))"
    and "updateTaxPolicy S vs h k = Inr (v, k')"
  shows "\<exists>old. rate_at (t_taxRate k) (GetEpoch h) = Some old \<and> \<bar>v - old\<bar> \<le> ChangeRateMax (TaxPolicy (t_params k))
    \<and> map_of (t_taxRate k') (GetEpoch h) = Some v \<and> rates_ok (GetEpoch h) k' \<and> t_params k' = t_params k"
proof -
  let ?pc = "TaxPolicy (t_params k)"
  have e: "0 \<le> GetEpoch h" using GetEpoch_nonneg [OF assms(2)] .
  have tab: "rate_table_ok ?pc (GetEpoch h) (t_taxRate k)" using assms(1) by (simp add: rates_ok_def)
  obtain old s where old: "GetTaxRate k (GetEpoch h) = (old, k\<lparr> t_taxRate := s \<rparr>)" "rate_at (t_taxRate k) (GetEpoch h) = Some old"
      "within ?pc old" "rate_table_ok ?pc (GetEpoch h) s"
    using GetTaxRate_rate_at [OF tab e order_refl] by blast
  let ?k = "k\<lparr> t_taxRate := s \<rparr>"
  have ok: "rates_ok (GetEpoch h) ?k" using assms(1) old(4) by (simp add: rates_ok_def)
  obtain y k1 m k2 new where roll: "RollingAverageIndicator S h ?k (WindowLong (t_params k)) (TRL S vs) = Inr (y, k1)"
      "RollingAverageIndicator S h k1 (WindowShort (t_params k)) (TRL S vs) = Inr (m, k2)"
    and v: "v = Clamp ?pc old new" "k' = SetTaxRate h k2 v"
    using assms(4) old(1) by (auto simp: updateTaxPolicy_def Let_def)
  have r: "reads (GetEpoch h) ?k k2"
    using tax_luna.rolling_keeps [OF ok roll(1)] tax_luna.rolling_keeps [OF reads_ok roll(2)] reads_trans by blast
  note clamp = Clamp_within [OF old(3) assms(3), of new]
  have "rate_table_ok ?pc (GetEpoch h) (t_taxRate k2)" "kv_ok (t_taxRate k2)" using r by (auto simp: reads_def rates_ok_def rate_table_ok_def)
  then have "rate_table_ok ?pc (GetEpoch h) (t_taxRate k')" "map_of (t_taxRate k') (GetEpoch h) = Some v"
    using rate_table_set [of ?pc "GetEpoch h" "t_taxRate k2" "GetEpoch h" v] clamp e v by (auto simp: SetTaxRate_def kv_set_get)
  then show ?thesis using r v old(2) clamp by (auto simp: reads_def rates_ok_def SetTaxRate_def)
qed

lemma updateRewardPolicy_table:
  assumes "rates_ok (GetEpoch h) k" and "0 \<le> h" and "0 \<le> ChangeRateMax (RewardPolicy (t_params k))"
    and "updateRewardPolicy nil_dec S B h k = Inr (v, k')"
  shows "reads (GetEpoch h) k k'"
proof -
  let ?pc = "RewardPolicy (t_params k)"
  have e: "0 \<le> GetEpoch h" using GetEpoch_nonneg [OF assms(2)] .
  have tab: "rate_table_ok ?pc (GetEpoch h) (t_rewardWeight k)" using assms(1) by (simp add: rates_ok_def)
  obtain old s where old: "GetRewardWeight nil_dec k (GetEpoch h) = (Some old, k\<lparr> t_rewardWeight := s \<rparr>)"
      "within ?pc old" "rate_table_ok ?pc (GetEpoch h) s"
    using GetRewardWeight_rate_at [OF tab e order_refl] by blast
  let ?k = "k\<lparr> t_rewardWeight := s \<rparr>"
  have ok: "reads (GetEpoch h) k ?k" using assms(1) old(3) by (simp add: rates_ok_def reads_def)
  obtain a k1 b k2 new where sums: "SumIndicator h ?k (WindowShort (t_params k)) (SeigniorageRewardsForEpoch nil_dec S B h) = Inr (a, k1)"
      "SumIndicator h k1 (WindowShort (t_params k)) (MiningRewardForEpoch nil_dec S B h) = Inr (b, k2)"
    and v: "v = Clamp ?pc old new" "k' = SetRewardWeight h k2 v"
    using assms(4) old(1) by (auto simp: updateRewardPolicy_def Let_def split: if_splits)
  have r: "reads (GetEpoch h) k k2"
    using ok seigniorage.sum_keeps [OF reads_ok [OF ok] sums(1)] mining.sum_keeps [OF reads_ok sums(2)] reads_trans by blast
  have "rate_table_ok ?pc (GetEpoch h) (t_rewardWeight k')"
    using r rate_table_set [of ?pc "GetEpoch h" "t_rewardWeight k2" "GetEpoch h" v] Clamp_within [OF old(2) assms(3), of new] e v
    by (auto simp: reads_def rates_ok_def SetRewardWeight_def)
  then show ?thesis using r v by (auto simp: reads_def rates_ok_def SetRewardWeight_def)
qed

section \<open>The life of the treasury\<close>

text \<open>
  The states of a chain that started from a genesis file, with the height of the block: reads of the current rates and
  caps, proceeds, ends of blocks, and whatever happens in the other modules.
\<close>

inductive treasury_reach :: "dec \<Rightarrow> sdk \<Rightarrow> 'b bank \<Rightarrow> treasury_genesis \<Rightarrow> int \<Rightarrow> 'b treasury \<Rightarrow> bool"
  for nil_dec :: dec and S :: sdk and B :: "'b bank" and data :: treasury_genesis where
  genesis: "t_taxRate k = [] \<Longrightarrow> t_rewardWeight k = [] \<Longrightarrow> treasury_reach nil_dec S B data 0 (treasury_InitGenesis 0 k data)"
| end_block: "treasury_reach nil_dec S B data h k \<Longrightarrow> treasury_EndBlocker nil_dec S B vs h k = Inr k' \<Longrightarrow>
    treasury_reach nil_dec S B data (h + 1) k'"
| tax_rate: "treasury_reach nil_dec S B data h k \<Longrightarrow> GetTaxRate k (GetEpoch h) = (r, k') \<Longrightarrow> treasury_reach nil_dec S B data h k'"
| reward_weight: "treasury_reach nil_dec S B data h k \<Longrightarrow> GetRewardWeight nil_dec k (GetEpoch h) = (w, k') \<Longrightarrow>
    treasury_reach nil_dec S B data h k'"
| tax_cap: "treasury_reach nil_dec S B data h k \<Longrightarrow> GetTaxCap S B h k denom = Inr (c, k') \<Longrightarrow> treasury_reach nil_dec S B data h k'"
| proceeds: "treasury_reach nil_dec S B data h k \<Longrightarrow> treasury_reach nil_dec S B data h (RecordTaxProceeds S h k delta)"
| others: "treasury_reach nil_dec S B data h k \<Longrightarrow> treasury_reach nil_dec S B data h (k\<lparr> t_market := m \<rparr>)"

lemma div_next:
  assumes "0 < (b :: int)"
  shows "(h + 1) div b = h div b + (if (h + 1) mod b = 0 then 1 else 0)"
proof -
  define q r where "q = h div b" and "r = h mod b"
  have h: "h = b * q + r" "0 \<le> r" "r < b" using assms by (simp_all add: q_def r_def)
  show ?thesis
  proof (cases "r + 1 = b")
    case True
    then have "h + 1 = b * (q + 1)" using h(1) by (simp add: algebra_simps)
    then show ?thesis using assms by (simp add: q_def)
  next
    case False
    then have "(h + 1) div b = q" "(h + 1) mod b = r + 1"
      using h by (auto intro!: int_div_pos_eq [where r = "r + 1"] int_mod_pos_eq [where q = q])
    then show ?thesis using h(2) by (simp add: q_def)
  qed
qed

lemma GetEpoch_next:
  assumes "0 \<le> h"
  shows "GetEpoch (h + 1) = GetEpoch h + (if (h + 1) smod BlocksPerEpoch = 0 then 1 else 0)"
proof -
  have b: "BlocksPerEpoch = 100800"
    by (simp add: BlocksPerEpoch_def BlocksPerWeek_def BlocksPerDay_def BlocksPerHour_def BlocksPerMinute_def)
  have "GetEpoch h = h div 100800" "GetEpoch (h + 1) = (h + 1) div 100800" "(h + 1) smod BlocksPerEpoch = (h + 1) mod 100800"
    unfolding GetEpoch_def b using assms by (simp_all add: signed_divide_int_def signed_modulo_int_def sgn_if)
  then show ?thesis using div_next [of 100800 h] by simp
qed

definition policies_ok :: "treasury_genesis \<Rightarrow> bool" where
  "policies_ok data \<longleftrightarrow> treasury_ValidateGenesis data
     \<and> 0 \<le> ChangeRateMax (TaxPolicy (tg_Params data)) \<and> 0 \<le> ChangeRateMax (RewardPolicy (tg_Params data))"

text \<open>The end of a block and the rate of the next one.\<close>

lemma EndBlocker_table:
  assumes "rates_ok (GetEpoch h) k" and "0 \<le> h"
    and "0 \<le> ChangeRateMax (TaxPolicy (t_params k))" "0 \<le> ChangeRateMax (RewardPolicy (t_params k))"
    and "treasury_EndBlocker nil_dec S B vs h k = Inr k'"
  shows "rates_ok (GetEpoch h) k' \<and> t_params k' = t_params k
    \<and> (\<exists>old new. rate_at (t_taxRate k) (GetEpoch h) = Some old \<and> rate_at (t_taxRate k') (GetEpoch (h + 1)) = Some new
        \<and> \<bar>new - old\<bar> \<le> ChangeRateMax (TaxPolicy (t_params k))
        \<and> (\<not> ((h + 1) smod BlocksPerEpoch = 0 \<and> \<not> isProbationPeriod h k) \<longrightarrow> new = old))"
proof -
  have e: "0 \<le> GetEpoch h" using GetEpoch_nonneg [OF assms(2)] .
  have nxt: "rate_at s (GetEpoch (h + 1)) = rate_at s (GetEpoch h)" if "rate_table_ok pc (GetEpoch h) s" for pc s
  proof -
    have "map_of s (GetEpoch h + 1) = None" using that by (cases "map_of s (GetEpoch h + 1)") (fastforce simp: rate_table_ok_def)+
    then show ?thesis using rate_at_next [of s "GetEpoch h"] e GetEpoch_next [OF assms(2)] by simp
  qed
  have tab: "rate_table_ok (TaxPolicy (t_params k)) (GetEpoch h) (t_taxRate k)" using assms(1) by (simp add: rates_ok_def)
  obtain old where old: "rate_at (t_taxRate k) (GetEpoch h) = Some old" using rate_at_within [OF tab e] by blast
  show ?thesis
  proof (cases "(h + 1) smod BlocksPerEpoch = 0 \<and> \<not> isProbationPeriod h k")
    case False
    then have "k' = k" using assms(5) by (auto simp: treasury_EndBlocker_def IsPeriodLastBlock_def split: if_splits)
    then show ?thesis using assms(1,3) old nxt [OF tab] by simp
  next
    case True
    then obtain r k1 w where u: "updateTaxPolicy S vs h k = Inr (r, k1)" "updateRewardPolicy nil_dec S B h k1 = Inr (w, k')"
      using assms(5) by (auto simp: treasury_EndBlocker_def IsPeriodLastBlock_def split: if_splits)
    note t = updateTaxPolicy_table [OF assms(1-3) u(1)]
    have k': "reads (GetEpoch h) k1 k'" using updateRewardPolicy_table [OF _ assms(2) _ u(2)] t assms(4) by auto
    then have tab': "rate_table_ok (TaxPolicy (t_params k)) (GetEpoch h) (t_taxRate k')" using t by (auto simp: reads_def rates_ok_def)
    have "rate_at (t_taxRate k') (GetEpoch h) = Some r" using t k' by (auto simp: reads_def rate_at.simps [of _ "GetEpoch h"])
    then show ?thesis using t k' nxt [OF tab'] True by (auto simp: reads_def)
  qed
qed

lemma reach_ok:
  assumes "treasury_reach nil_dec S B data h k" and "policies_ok data"
  shows "0 \<le> h \<and> t_params k = tg_Params data \<and> rates_ok (GetEpoch h) k"
  using assms(1)
proof (induction rule: treasury_reach.induct)
  case (genesis k)
  have "GetEpoch 0 = 0" by (simp add: GetEpoch_def signed_divide_int_def)
  then show ?case
    using genesis assms(2) by (auto simp: treasury_InitGenesis_def SetTaxRate_def SetRewardWeight_def setTaxCap_def rates_ok_def
        rate_table_ok_def kv_ok_def within_def policies_ok_def treasury_ValidateGenesis_def Let_def)
next
  case (end_block h k vs k')
  have "rates_ok (GetEpoch h) k' \<and> t_params k' = t_params k"
    using EndBlocker_table [of h k, OF _ _ _ _ end_block(2)] end_block(3) assms(2) by (auto simp: policies_ok_def)
  then show ?case using end_block(3) GetEpoch_next [of h] by (auto simp: rates_ok_def intro: rate_table_later)
next
  case (tax_rate h k r k')
  then show ?case using GetTaxRate_rate_at [of "TaxPolicy (t_params k)" "GetEpoch h" k "GetEpoch h"] GetEpoch_nonneg [of h]
    by (auto simp: rates_ok_def)
next
  case (reward_weight h k w k')
  then show ?case using GetRewardWeight_rate_at [of "RewardPolicy (t_params k)" "GetEpoch h" k "GetEpoch h" nil_dec] GetEpoch_nonneg [of h]
    by (auto simp: rates_ok_def)
next
  case (tax_cap h k denom c k')
  then have "k' = k \<or> k' = setTaxCap k denom c" by (auto simp: GetTaxCap_def Let_def split: option.splits)
  then show ?case using tax_cap(3) by (auto simp: setTaxCap_def rates_ok_def)
qed (auto simp: RecordTaxProceeds_def Let_def rates_ok_def)

lemma reach_now:
  assumes "treasury_reach nil_dec S B data h k" and "policies_ok data"
  shows "rate_table_ok (TaxPolicy (tg_Params data)) (GetEpoch h) (t_taxRate k)"
    and "rate_table_ok (RewardPolicy (tg_Params data)) (GetEpoch h) (t_rewardWeight k)" and "0 \<le> GetEpoch h"
  using reach_ok [OF assms] GetEpoch_nonneg [of h] by (auto simp: rates_ok_def)


text \<open>C12: The end of a block changes the tax rate by no more than the policy allows, and only at the end of an epoch after the
  probation.\<close>

theorem tax_rate_step:
  assumes "treasury_reach nil_dec S B data h k" and "policies_ok data" and "treasury_EndBlocker nil_dec S B vs h k = Inr k'"
  shows "\<bar>fst (GetTaxRate k' (GetEpoch (h + 1))) - fst (GetTaxRate k (GetEpoch h))\<bar> \<le> ChangeRateMax (TaxPolicy (tg_Params data))
    \<and> (fst (GetTaxRate k' (GetEpoch (h + 1))) \<noteq> fst (GetTaxRate k (GetEpoch h)) \<longrightarrow>
        (h + 1) smod BlocksPerEpoch = 0 \<and> WindowProbation (tg_Params data) \<le> GetEpoch (h + 1))"
proof -
  have now: "fst (GetTaxRate j (GetEpoch i)) = the (rate_at (t_taxRate j) (GetEpoch i))" if "treasury_reach nil_dec S B data i j" for i j
    using GetTaxRate_rate_at [OF reach_now(1,3) [OF that assms(2)] order_refl] by auto
  note ok = reach_ok [OF assms(1,2)]
  have "treasury_reach nil_dec S B data (h + 1) k'" using treasury_reach.end_block [OF assms(1,3)] .
  moreover obtain old new where "rate_at (t_taxRate k) (GetEpoch h) = Some old" "rate_at (t_taxRate k') (GetEpoch (h + 1)) = Some new"
      "\<bar>new - old\<bar> \<le> ChangeRateMax (TaxPolicy (t_params k))" "\<not> ((h + 1) smod BlocksPerEpoch = 0 \<and> \<not> isProbationPeriod h k) \<longrightarrow> new = old"
    using EndBlocker_table [OF _ _ _ _ assms(3)] ok assms(2) unfolding policies_ok_def by metis
  ultimately show ?thesis using now [OF assms(1)] now [of "h + 1" k'] ok by (auto simp: isProbationPeriod_def)
qed

text \<open>The chain at its default genesis, one epoch before the first update of the rates, for the examples.\<close>

definition no_treasury :: "balances treasury" where
  "no_treasury = \<lparr> t_taxRate = [], t_rewardWeight = [], t_taxCap = [], t_taxProceeds = [], t_params = treasury_DefaultParams,
     t_market = small_market market_DefaultParams \<rparr>"

definition genesis_treasury :: "balances treasury" where
  "genesis_treasury = treasury_InitGenesis 0 no_treasury treasury_DefaultGenesisState"

lemmas genesis_simps = genesis_treasury_def no_treasury_def treasury_InitGenesis_def treasury_DefaultGenesisState_def treasury_DefaultParams_def
  SetTaxRate_def SetRewardWeight_def setTaxCap_def GetEpoch_def signed_divide_int_def NewDecWithPrec_def MicroSDRDenom_def

lemma default_policies: "policies_ok treasury_DefaultGenesisState"
  by (simp add: policies_ok_def treasury_ValidateGenesis_def treasury_validateParams_def treasury_DefaultGenesisState_def
      treasury_DefaultParams_def NewDecWithPrec_def)



lemma quiet_block: "(h + 1) smod BlocksPerEpoch \<noteq> 0 \<Longrightarrow> treasury_EndBlocker nil_dec S B vs h k = Inr k"
  by (simp add: treasury_EndBlocker_def IsPeriodLastBlock_def BlocksPerEpoch_def BlocksPerWeek_def BlocksPerDay_def
      BlocksPerHour_def BlocksPerMinute_def)

lemma quiet_blocks:
  assumes "treasury_reach nil_dec S B data h k" and "0 \<le> h" and "h + int n < BlocksPerEpoch"
  shows "treasury_reach nil_dec S B data (h + int n) k"
  using assms(3)
proof (induction n)
  case (Suc n)
  have "(h + int n + 1) smod BlocksPerEpoch = h + int n + 1"
    using Suc.prems assms(2) by (simp add: signed_modulo_int_def sgn_if)
  then have "treasury_EndBlocker nil_dec S B vs (h + int n) k = Inr k" for vs using assms(2) by (intro quiet_block) simp
  from treasury_reach.end_block [OF Suc.IH this] show ?case using Suc.prems by (simp add: algebra_simps)
qed (use assms(1) in simp)

text \<open>Without a probation the rates are updated at the end of the first epoch.\<close>

definition early_genesis :: treasury_genesis where
  "early_genesis = treasury_DefaultGenesisState\<lparr> tg_Params := treasury_DefaultParams\<lparr> WindowProbation := 0 \<rparr> \<rparr>"

definition early_treasury :: "balances treasury" where
  "early_treasury = treasury_InitGenesis 0 no_treasury early_genesis"

definition succeeds :: "panic + 'a \<Rightarrow> bool" where
  "succeeds r = (case r of Inl p \<Rightarrow> False | Inr k \<Rightarrow> True)"

lemma early_update: "succeeds (treasury_EndBlocker 0 dec18 account_bank val3 100799 early_treasury)"
  by code_simp

theorem tax_rate_step_witness:
  "\<exists>k'. treasury_EndBlocker 0 dec18 account_bank val3 100799 early_treasury = Inr k'
    \<and> \<bar>fst (GetTaxRate k' 1) - NewDecWithPrec 1 3\<bar> \<le> NewDecWithPrec 25 5"
proof -
  obtain k' where k': "treasury_EndBlocker 0 dec18 account_bank val3 100799 early_treasury = Inr k'"
    using early_update by (auto simp: succeeds_def split: sum.splits)
  have b: "BlocksPerEpoch = 100800"
    by (simp add: BlocksPerEpoch_def BlocksPerWeek_def BlocksPerDay_def BlocksPerHour_def BlocksPerMinute_def)
  have ok: "policies_ok early_genesis"
    using default_policies by (simp add: policies_ok_def early_genesis_def treasury_ValidateGenesis_def treasury_validateParams_def
        treasury_DefaultGenesisState_def)
  have "treasury_reach 0 dec18 account_bank early_genesis 0 early_treasury"
    unfolding early_treasury_def by (rule treasury_reach.genesis) (simp_all add: no_treasury_def)
  from quiet_blocks [OF this, of 100799] have "treasury_reach 0 dec18 account_bank early_genesis 100799 early_treasury" by (simp add: b)
  note step = tax_rate_step [OF this ok k']
  have "GetEpoch (100799 + 1) = 1" "GetEpoch 100799 = 0" by (simp_all add: GetEpoch_def b signed_divide_int_def)
  moreover have "fst (GetTaxRate early_treasury 0) = NewDecWithPrec 1 3"
    by (simp add: GetTaxRate.simps [of _ 0] early_treasury_def early_genesis_def genesis_simps)
  moreover have "ChangeRateMax (TaxPolicy (tg_Params early_genesis)) = NewDecWithPrec 25 5"
    by (simp add: early_genesis_def treasury_DefaultParams_def)
  ultimately show ?thesis using step k' by auto
qed

text \<open>
  The exported genesis has the tax rate of epoch 0, not the current one: with the rates of two epochs the current rate is
  lost, while the weight is the one of the current epoch.
\<close>

lemma export_forgets_tax_rate:
  "let k = genesis_treasury\<lparr> t_taxRate := [(0, 10), (1, 20)], t_rewardWeight := [(0, 3), (1, 4)] \<rparr>
   in fst (GetTaxRate k (GetEpoch 100800)) = 20
      \<and> (\<exists>p. fst (treasury_ExportGenesis nil_dec 100800 k) = (p, 10, Some 4))"
  by (simp add: treasury_ExportGenesis_def GetTaxRate.simps GetRewardWeight_def GetEpoch_def signed_divide_int_def BlocksPerEpoch_def
      BlocksPerWeek_def BlocksPerDay_def BlocksPerHour_def BlocksPerMinute_def Let_def)

end
