(* ===== verification/TerraPay.thy ===== *)
theory TerraPay
  imports TerraTreasury
begin

text \<open>
  Transfers with the stability tax (\<^verbatim>\<open>src/x/pay\<close>): a message to send coins first pays a tax on every coin, the rate of
  it but no more than its cap, which goes to the collected fees and into the proceeds of the epoch. The operations of
  the bank on several coins and the collected fees belong to the SDK; the bank is an argument and \<open>transfer_laws\<close> is
  what the theorem relies on.
\<close>

section \<open>State and operations\<close>

record 'b transfers =
  tr_SendEnabled :: "'b \<Rightarrow> bool"
  tr_SubtractCoins :: "'b \<Rightarrow> string \<Rightarrow> coins \<Rightarrow> 'b option"
  tr_SendCoins :: "'b \<Rightarrow> string \<Rightarrow> string \<Rightarrow> coins \<Rightarrow> 'b option"
  tr_InputOutputCoins :: "'b \<Rightarrow> (string \<times> coins) list \<Rightarrow> (string \<times> coins) list \<Rightarrow> 'b option"

record 'b pay =
  p_treasury :: "'b treasury"
  p_fees :: coins

datatype pay_err = SendDisabled | TransferError | PayPanic panic

definition pay_bank :: "'b pay \<Rightarrow> 'b" where
  "pay_bank k = m_bank (mk_mint (t_market (p_treasury k)))"

definition set_bank :: "'b pay \<Rightarrow> 'b \<Rightarrow> 'b pay" where
  "set_bank k b =
     (let t = p_treasury k; m = t_market t
      in k\<lparr> p_treasury := t\<lparr> t_market := m\<lparr> mk_mint := (mk_mint m)\<lparr> m_bank := b \<rparr> \<rparr> \<rparr> \<rparr>)"

definition tax_due :: "sdk \<Rightarrow> dec \<Rightarrow> int \<Rightarrow> int \<Rightarrow> int" where
  "tax_due S taxRate amount taxCap =
     (let taxDue = sdk_TruncateInt S (sdk_Mul S (NewDecFromInt amount) taxRate) in if taxDue > taxCap then taxCap else taxDue)"

primrec tax_loop :: "sdk \<Rightarrow> 'b bank \<Rightarrow> int \<Rightarrow> dec \<Rightarrow> coins \<Rightarrow> coins \<Rightarrow> 'b treasury \<Rightarrow> panic + (coins \<times> 'b treasury)" where
  "tax_loop S B height taxRate [] taxes k = Inr (taxes, k)"
| "tax_loop S B height taxRate (coin # coins) taxes k =
     rbind (GetTaxCap S B height k (fst coin)) (\<lambda>(taxCap, k).
       let taxDue = tax_due S taxRate (snd coin) taxCap
       in if taxDue = 0 then tax_loop S B height taxRate coins taxes k
          else if taxDue < 0 then Inl NegativeCoin
          else tax_loop S B height taxRate coins (sdk_Add S taxes (NewCoin (fst coin) taxDue)) k)"

definition payTax :: "sdk \<Rightarrow> 'b bank \<Rightarrow> 'b transfers \<Rightarrow> int \<Rightarrow> 'b pay \<Rightarrow> string \<Rightarrow> coins \<Rightarrow> pay_err + (coins \<times> 'b pay)" where
  "payTax S B T height k taxPayer amount =
     (let (taxRate, t) = GetTaxRate (p_treasury k) (GetEpoch height); k = k\<lparr> p_treasury := t \<rparr>
      in if taxRate = 0 then Inr ([], k)
         else
           case tax_loop S B height taxRate amount [] (p_treasury k) of
             Inl p \<Rightarrow> Inl (PayPanic p)
           | Inr (taxes, t) \<Rightarrow>
               let k = k\<lparr> p_treasury := t \<rparr>
               in case tr_SubtractCoins T (pay_bank k) taxPayer taxes of
                    None \<Rightarrow> Inl TransferError
                  | Some b \<Rightarrow>
                      let k = set_bank k b;
                          k = k\<lparr> p_fees := sdk_Add S (p_fees k) taxes \<rparr>
                      in Inr (taxes, k\<lparr> p_treasury := RecordTaxProceeds S height (p_treasury k) taxes \<rparr>))"


primrec multi_tax :: "sdk \<Rightarrow> 'b bank \<Rightarrow> 'b transfers \<Rightarrow> int \<Rightarrow> (string \<times> coins) list \<Rightarrow> coins \<Rightarrow> 'b pay \<Rightarrow> pay_err + (coins \<times> 'b pay)" where
  "multi_tax S B T height [] totalTaxes k = Inr (totalTaxes, k)"
| "multi_tax S B T height (input # inputs) totalTaxes k =
     rbind (payTax S B T height k (fst input) (snd input)) (\<lambda>(taxes, k).
       multi_tax S B T height inputs (sdk_Add S totalTaxes taxes) k)"

definition handleMsgMultiSend ::
    "sdk \<Rightarrow> 'b bank \<Rightarrow> 'b transfers \<Rightarrow> int \<Rightarrow> 'b pay \<Rightarrow> (string \<times> coins) list \<Rightarrow> (string \<times> coins) list \<Rightarrow> pay_err + (coins \<times> 'b pay)" where
  "handleMsgMultiSend S B T height k inputs outputs =
     (if \<not> tr_SendEnabled T (pay_bank k) then Inl SendDisabled
      else
        rbind (multi_tax S B T height inputs [] k) (\<lambda>(totalTaxes, k).
          case tr_InputOutputCoins T (pay_bank k) inputs outputs of
            None \<Rightarrow> Inl TransferError
          | Some b \<Rightarrow> Inr (totalTaxes, set_bank k b)))"

section \<open>The taxes of a transfer\<close>

text \<open>What a transfer relies on: taxes leave the accounts, a transfer moves coins between them.\<close>

locale transfer_laws =
  fixes T :: "'b transfers" and tot :: "'b \<Rightarrow> string \<Rightarrow> int"
  assumes Subtract_total: "tr_SubtractCoins T b a cs = Some b' \<Longrightarrow> coins_ok cs \<Longrightarrow> tot b' d = tot b d - AmountOf cs d"
    and Send_total: "tr_SendCoins T b a a' cs = Some b' \<Longrightarrow> tot b' d = tot b d"
    and InputOutput_total: "tr_InputOutputCoins T b ins outs = Some b' \<Longrightarrow> tot b' d = tot b d"








section \<open>Transfers between accounts\<close>

text \<open>The bank of \<open>TerraMint\<close> with several coins at once.\<close>

definition coin_sum :: "coins \<Rightarrow> string \<Rightarrow> int" where
  "coin_sum cs d = (\<Sum>c\<leftarrow>cs. if fst c = d then int (nat (snd c)) else 0)"

primrec debit_coins :: "string \<Rightarrow> coins \<Rightarrow> balances \<Rightarrow> balances option" where
  "debit_coins a [] b = Some b"
| "debit_coins a (c # cs) b = (case debit (a, fst c) (nat (snd c)) b of None \<Rightarrow> None | Some b \<Rightarrow> debit_coins a cs b)"

definition credit_coins :: "string \<Rightarrow> coins \<Rightarrow> balances \<Rightarrow> balances" where
  "credit_coins a cs b = fold (\<lambda>c. credit (a, fst c) (nat (snd c))) cs b"

primrec debit_all :: "(string \<times> coins) list \<Rightarrow> balances \<Rightarrow> balances option" where
  "debit_all [] b = Some b"
| "debit_all (x # xs) b = (case debit_coins (fst x) (snd x) b of None \<Rightarrow> None | Some b \<Rightarrow> debit_all xs b)"

definition credit_all :: "(string \<times> coins) list \<Rightarrow> balances \<Rightarrow> balances" where
  "credit_all xs b = fold (\<lambda>x. credit_coins (fst x) (snd x)) xs b"

definition same_totals :: "balances \<Rightarrow> balances \<Rightarrow> bool" where
  "same_totals b b' = list_all (\<lambda>e. balances_total b (snd (fst e)) = balances_total b' (snd (fst e))) (b @ b')"

definition account_transfers :: "balances transfers" where
  "account_transfers =
     \<lparr> tr_SendEnabled = (\<lambda>b. True), tr_SubtractCoins = (\<lambda>b a cs. debit_coins a cs b),
       tr_SendCoins = (\<lambda>b a a' cs. map_option (credit_coins a' cs) (debit_coins a cs b)),
       tr_InputOutputCoins = (\<lambda>b ins outs. case map_option (credit_all outs) (debit_all ins b) of
          None \<Rightarrow> None | Some b' \<Rightarrow> if same_totals b b' then Some b' else None) \<rparr>"

lemma debit_coins_total: "debit_coins a cs b = Some b' \<Longrightarrow> balances_total b' d = balances_total b d - coin_sum cs d"
  by (induction cs arbitrary: b) (auto simp: coin_sum_def split: option.splits dest!: debit_total [where d = d])

lemma credit_coins_total: "balances_total (credit_coins a cs b) d = balances_total b d + coin_sum cs d"
  by (induction cs arbitrary: b) (auto simp: credit_coins_def coin_sum_def credit_total)

lemma coin_sum_ok: "coins_ok cs \<Longrightarrow> coin_sum cs d = AmountOf cs d"
proof (induction cs)
  case (Cons c cs)
  have "coins_ok cs" "0 < snd c" "fst c \<notin> fst ` set cs" using Cons.prems by (auto simp: coins_ok_def)
  moreover from this have "AmountOf cs (fst c) = 0" by (intro AmountOf_outside) simp
  ultimately show ?case using Cons.IH by (auto simp: coin_sum_def AmountOf_def)
qed (simp add: coin_sum_def AmountOf_def)

lemma same_totals_all: "same_totals b b' \<Longrightarrow> balances_total b' d = balances_total b d"
proof (cases "d \<in> (\<lambda>e. snd (fst e)) ` set (b @ b')")
  case True
  then obtain e where "e \<in> set (b @ b')" "d = snd (fst e)" by blast
  moreover assume "same_totals b b'"
  ultimately show ?thesis unfolding same_totals_def list_all_iff by metis
next
  case False
  have none: "balances_total x d = 0" if "d \<notin> (\<lambda>e. snd (fst e)) ` set x" for x :: balances
  proof -
    have "filter (\<lambda>e. snd (fst e) = d) x = []" using that by (force simp: filter_empty_conv)
    then show ?thesis by (simp add: balances_total_def)
  qed
  have "balances_total b d = 0" "balances_total b' d = 0" using False by (auto intro!: none)
  then show ?thesis by simp
qed

interpretation transfers: transfer_laws account_transfers balances_total
proof
  fix b b' :: balances and a a' cs d ins outs
  show "balances_total b' d = balances_total b d - AmountOf cs d" if "tr_SubtractCoins account_transfers b a cs = Some b'" "coins_ok cs"
    using that debit_coins_total [of a cs b b' d] by (simp add: account_transfers_def coin_sum_ok)
  show "balances_total b' d = balances_total b d" if "tr_SendCoins account_transfers b a a' cs = Some b'"
    using that debit_coins_total [of a cs b _ d] by (auto simp: account_transfers_def credit_coins_total)
  show "balances_total b' d = balances_total b d" if "tr_InputOutputCoins account_transfers b ins outs = Some b'"
    using that same_totals_all by (auto simp: account_transfers_def split: option.splits if_splits)
qed





end
