(* ===== verification/TerraBudget.thy ===== *)
theory TerraBudget
  imports TerraTreasury "HOL-Library.Word"
begin

text \<open>
  The budget (\<^verbatim>\<open>src/x/budget\<close>): programs that are submitted against a deposit, wait in a queue of candidates while the
  validators vote, become active or are deleted, and share what is left of the seigniorage at the end of an epoch by
  the power of their votes. The state holds the one of the treasury and, in it, of the market and the mint. Numbers of
  programs are 64 bit words. The store sorts them by their decimal digits; the model sorts them by their value, and no
  result depends on the order.
\<close>

section \<open>State\<close>

record program =
  pg_ID :: "64 word"
  pg_Title :: string
  pg_Description :: string
  pg_Submitter :: string
  pg_Executor :: string
  pg_SubmitBlock :: int

record budget_params =
  ActiveThreshold :: dec
  LegacyThreshold :: dec
  BudgetVotePeriod :: int
  Deposit :: "string \<times> int"

record 'b budget =
  b_programs :: "(64 word, program) kv"
  b_votes :: "(64 word \<times> string, bool) kv"
  b_queue :: "(int \<times> 64 word, 64 word) kv"
  b_claims :: "(string, int) kv"
  b_lastID :: "64 word option"
  b_params :: budget_params
  b_treasury :: "'b treasury"

datatype budget_err = ProgramNotFound "64 word" | InvalidSubmitter | RefundFailed | NoDelegator | DepositError mint_err

definition BlocksPerMonth :: int where
  "BlocksPerMonth = BlocksPerDay * 30"

definition budget_DefaultParams :: budget_params where
  "budget_DefaultParams = \<lparr> ActiveThreshold = NewDecWithPrec 1 1, LegacyThreshold = NewDecWithPrec 0 2,
     BudgetVotePeriod = BlocksPerMonth, Deposit = (MicroSDRDenom, 100 * 1000000) \<rparr>"

definition budget_validateParams :: "budget_params \<Rightarrow> bool" where
  "budget_validateParams p \<longleftrightarrow> \<not> ActiveThreshold p \<le> 0 \<and> \<not> LegacyThreshold p < 0 \<and> \<not> BudgetVotePeriod p \<le> 0 \<and> \<not> snd (Deposit p) \<le> 0"

section \<open>The store of the budget\<close>

definition budget_AddVote :: "'b budget \<Rightarrow> 64 word \<Rightarrow> string \<Rightarrow> bool \<Rightarrow> 'b budget" where
  "budget_AddVote k programID voter opt = k\<lparr> b_votes := kv_set (programID, voter) opt (b_votes k) \<rparr>"

definition DeleteVote :: "'b budget \<Rightarrow> 64 word \<Rightarrow> string \<Rightarrow> 'b budget" where
  "DeleteVote k programID voter = k\<lparr> b_votes := kv_delete (programID, voter) (b_votes k) \<rparr>"

definition votes_for :: "64 word \<Rightarrow> 'b budget \<Rightarrow> ((64 word \<times> string) \<times> bool) list" where
  "votes_for programID k = filter (\<lambda>e. fst (fst e) = programID) (b_votes k)"

definition DeleteVotesForProgram :: "'b budget \<Rightarrow> 64 word \<Rightarrow> 'b budget" where
  "DeleteVotesForProgram k programID = k\<lparr> b_votes := fold (\<lambda>e. kv_delete (fst e)) (votes_for programID k) (b_votes k) \<rparr>"

definition set_mint :: "'b budget \<Rightarrow> 'b mint \<Rightarrow> 'b budget" where
  "set_mint k m =
     (let t = b_treasury k in k\<lparr> b_treasury := t\<lparr> t_market := (t_market t)\<lparr> mk_mint := m \<rparr> \<rparr> \<rparr>)"

definition budget_mint :: "'b budget \<Rightarrow> 'b mint" where
  "budget_mint k = mk_mint (t_market (b_treasury k))"

definition PayDeposit :: "'b bank \<Rightarrow> int \<Rightarrow> 'b budget \<Rightarrow> string \<Rightarrow> mint_err + 'b budget" where
  "PayDeposit B height k submitter = rbind (Burn B height (budget_mint k) submitter (Deposit (b_params k))) (\<lambda>m. Inr (set_mint k m))"

definition RefundDeposit :: "'b bank \<Rightarrow> int \<Rightarrow> 'b budget \<Rightarrow> string \<Rightarrow> mint_err + 'b budget" where
  "RefundDeposit B height k submitter = rbind (Mint B height (budget_mint k) submitter (Deposit (b_params k))) (\<lambda>m. Inr (set_mint k m))"

definition NewProgramID :: "'b budget \<Rightarrow> 64 word \<times> 'b budget" where
  "NewProgramID k =
     (let programID = (case b_lastID k of Some i \<Rightarrow> i + 1 | None \<Rightarrow> 1) in (programID, k\<lparr> b_lastID := Some programID \<rparr>))"

definition StoreProgram :: "'b budget \<Rightarrow> program \<Rightarrow> 'b budget" where
  "StoreProgram k p = k\<lparr> b_programs := kv_set (pg_ID p) p (b_programs k) \<rparr>"

definition DeleteProgram :: "'b budget \<Rightarrow> 64 word \<Rightarrow> 'b budget" where
  "DeleteProgram k programID = k\<lparr> b_programs := kv_delete programID (b_programs k) \<rparr>"

definition getVotingEndBlock :: "'b budget \<Rightarrow> program \<Rightarrow> int" where
  "getVotingEndBlock k p = pg_SubmitBlock p + BudgetVotePeriod (b_params k)"

definition CandQueueInsert :: "'b budget \<Rightarrow> int \<Rightarrow> 64 word \<Rightarrow> 'b budget" where
  "CandQueueInsert k endBlock programID = k\<lparr> b_queue := kv_set (endBlock, programID) programID (b_queue k) \<rparr>"

definition CandQueueHas :: "'b budget \<Rightarrow> int \<Rightarrow> 64 word \<Rightarrow> bool" where
  "CandQueueHas k endBlock programID = (map_of (b_queue k) (endBlock, programID) \<noteq> None)"

definition CandQueueRemove :: "'b budget \<Rightarrow> int \<Rightarrow> 64 word \<Rightarrow> 'b budget" where
  "CandQueueRemove k endBlock programID = k\<lparr> b_queue := kv_delete (endBlock, programID) (b_queue k) \<rparr>"

definition budget_addClaimPool :: "'b budget \<Rightarrow> (string \<times> int) list \<Rightarrow> 'b budget" where
  "budget_addClaimPool k pool = k\<lparr> b_claims := fold addClaim pool (b_claims k) \<rparr>"

definition budget_clearClaimPool :: "'b budget \<Rightarrow> 'b budget" where
  "budget_clearClaimPool k = k\<lparr> b_claims := fold (\<lambda>e. kv_delete (fst e)) (b_claims k) (b_claims k) \<rparr>"

section \<open>Messages\<close>

record msg_submit =
  sb_Title :: string
  sb_Description :: string
  sb_Submitter :: string
  sb_Executor :: string

definition handleMsgSubmitProgram :: "'b bank \<Rightarrow> int \<Rightarrow> 'b budget \<Rightarrow> msg_submit \<Rightarrow> budget_err + 'b budget" where
  "handleMsgSubmitProgram B height k msg =
     (case PayDeposit B height k (sb_Submitter msg) of
        Inl e \<Rightarrow> Inl (DepositError e)
      | Inr k \<Rightarrow>
          let (programID, k) = NewProgramID k;
              program = \<lparr> pg_ID = programID, pg_Title = sb_Title msg, pg_Description = sb_Description msg,
                          pg_Submitter = sb_Submitter msg, pg_Executor = sb_Executor msg, pg_SubmitBlock = height \<rparr>;
              k = StoreProgram k program
          in Inr (CandQueueInsert k (getVotingEndBlock k program) programID))"

definition handleMsgWithdrawProgram :: "'b bank \<Rightarrow> int \<Rightarrow> 'b budget \<Rightarrow> 64 word \<Rightarrow> string \<Rightarrow> budget_err + 'b budget" where
  "handleMsgWithdrawProgram B height k programID submitter =
     (case map_of (b_programs k) programID of
        None \<Rightarrow> Inl (ProgramNotFound programID)
      | Some program \<Rightarrow>
          if pg_Submitter program \<noteq> submitter then Inl InvalidSubmitter
          else
            let prgmEndBlock = getVotingEndBlock k program
            in rbind (if CandQueueHas k prgmEndBlock programID then
                        (case RefundDeposit B height (CandQueueRemove k prgmEndBlock programID) (pg_Submitter program) of
                           Inl e \<Rightarrow> Inl RefundFailed | Inr k \<Rightarrow> Inr k)
                      else Inr k)
                 (\<lambda>k. Inr (DeleteProgram (DeleteVotesForProgram k programID) programID)))"

definition handleMsgVoteProgram :: "valset \<Rightarrow> 'b budget \<Rightarrow> 64 word \<Rightarrow> string \<Rightarrow> bool \<Rightarrow> budget_err + 'b budget" where
  "handleMsgVoteProgram vs k programID voter opt =
     (if map_of (b_programs k) programID = None then Inl (ProgramNotFound programID)
      else if Validator vs voter = None then Inl NoDelegator
      else Inr (budget_AddVote k programID voter opt))"

section \<open>End of a block\<close>

definition tally_vote :: "valset \<Rightarrow> 64 word \<Rightarrow> (64 word \<times> string) \<times> bool \<Rightarrow> int \<times> 'b budget \<Rightarrow> int \<times> 'b budget" where
  "tally_vote vs programID e s =
     (let (votePower, k) = s; voter = snd (fst e)
      in case Validator vs voter of
           Some bondSize \<Rightarrow> (if snd e then votePower + bondSize else votePower - bondSize, k)
         | None \<Rightarrow> (votePower, DeleteVote k programID voter))"

definition budget_tally :: "valset \<Rightarrow> 'b budget \<Rightarrow> 64 word \<Rightarrow> int \<times> 'b budget" where
  "budget_tally vs k programID = fold (tally_vote vs programID) (votes_for programID k) (0, k)"

definition clearsThreshold :: "sdk \<Rightarrow> int \<Rightarrow> int \<Rightarrow> dec \<Rightarrow> bool" where
  "clearsThreshold S votePower totalPower threshold = (votePower \<ge> sdk_RoundInt S (threshold * totalPower))"

definition expire :: "sdk \<Rightarrow> valset \<Rightarrow> budget_params \<Rightarrow> 64 word \<Rightarrow> 'b budget \<Rightarrow> 'b budget" where
  "expire S vs params programID k =
     (case map_of (b_programs k) programID of
        None \<Rightarrow> k
      | Some program \<Rightarrow>
          let (votePower, k) = budget_tally vs k programID;
              k = (if \<not> clearsThreshold S votePower (TotalBondedTokens vs) (ActiveThreshold params)
                   then DeleteProgram (DeleteVotesForProgram k programID) programID else k)
          in CandQueueRemove k (getVotingEndBlock k program) programID)"

definition expired :: "int \<Rightarrow> 'b budget \<Rightarrow> 64 word list" where
  "expired endBlock k = map snd (filter (\<lambda>e. fst (fst e) \<le> endBlock) (b_queue k))"

definition reweight ::
    "sdk \<Rightarrow> valset \<Rightarrow> budget_params \<Rightarrow> 64 word \<times> program \<Rightarrow> (string \<times> int) list \<times> 'b budget \<Rightarrow> (string \<times> int) list \<times> 'b budget" where
  "reweight S vs params e s =
     (let (claims, k) = s; program = snd e
      in if CandQueueHas k (getVotingEndBlock k program) (pg_ID program) then (claims, k)
         else
           let (votePower, k) = budget_tally vs k (pg_ID program)
           in if \<not> clearsThreshold S votePower (TotalBondedTokens vs) (LegacyThreshold params)
              then (claims, DeleteProgram (DeleteVotesForProgram k (pg_ID program)) (pg_ID program))
              else (claims @ [(pg_Executor program, votePower)], k))"

definition budget_reward :: "sdk \<Rightarrow> dec \<Rightarrow> int \<Rightarrow> int \<Rightarrow> int" where
  "budget_reward S amount weight weightSum = sdk_TruncateInt S (sdk_QuoInt S (amount * weight) weightSum)"

primrec grant :: "sdk \<Rightarrow> 'b bank \<Rightarrow> int \<Rightarrow> string \<times> dec \<Rightarrow> int \<Rightarrow> (string \<times> int) list \<Rightarrow> 'b mint \<Rightarrow> panic + 'b mint" where
  "grant S B height pool weightSum [] m = Inr m"
| "grant S B height pool weightSum (c # claims) m =
     (if weightSum = 0 then Inl DivideByZero
      else
        let rewardAmt = budget_reward S (snd pool) (snd c) weightSum
        in if rewardAmt < 0 then Inl NegativeCoin
           else case Mint B height m (fst c) (fst pool, rewardAmt) of
                  Inl e \<Rightarrow> Inl MintFailed
                | Inr m \<Rightarrow> grant S B height pool weightSum claims m)"

definition grant_epoch :: "dec \<Rightarrow> sdk \<Rightarrow> 'b bank \<Rightarrow> int \<Rightarrow> 'b budget \<Rightarrow> panic + 'b budget" where
  "grant_epoch nil_dec S B height k =
     (let epoch = GetEpoch height;
          (rewardWeight, t) = GetRewardWeight nil_dec (b_treasury k) epoch;
          k = k\<lparr> b_treasury := t \<rparr>;
          (seigniorage, m) = PeekEpochSeigniorage B height (budget_mint k) epoch;
          k = set_mint k m
      in case rewardWeight of
           None \<Rightarrow> Inl NilDec
         | Some w \<Rightarrow>
             let rewardPool = (OneDec - w) * seigniorage
             in rbind (if rewardPool > 0 then
                         rbind (case GetSwapDecCoin S (t_market (b_treasury k)) (MicroLunaDenom, rewardPool) MicroSDRDenom of
                                  Inr c \<Rightarrow> Inr c
                                | Inl (MarketPanic p) \<Rightarrow> Inl p
                                | Inl _ \<Rightarrow> Inr (MicroLunaDenom, rewardPool))
                           (\<lambda>rewardPoolCoin.
                              let weightSum = foldl (\<lambda>t c. t + snd c) 0 (b_claims k)
                              in rbind (grant S B height rewardPoolCoin weightSum (b_claims k) (budget_mint k)) (\<lambda>m. Inr (set_mint k m)))
                       else Inr k)
                (\<lambda>k. Inr (budget_clearClaimPool k)))"

definition budget_EndBlocker :: "dec \<Rightarrow> sdk \<Rightarrow> 'b bank \<Rightarrow> valset \<Rightarrow> int \<Rightarrow> 'b budget \<Rightarrow> panic + 'b budget" where
  "budget_EndBlocker nil_dec S B vs height k =
     (let params = b_params k;
          k = fold (expire S vs params) (expired height k) k
      in rbind (IsPeriodLastBlock height (BudgetVotePeriod params)) (\<lambda>isLast.
           let k = (if isLast then
                      let (claims, k) = fold (reweight S vs params) (b_programs k) ([], k) in budget_addClaimPool k claims
                    else k)
           in rbind (IsPeriodLastBlock height BlocksPerEpoch) (\<lambda>isLast.
                if isLast then grant_epoch nil_dec S B height k else Inr k)))"

section \<open>Genesis\<close>

record budget_genesis =
  bg_Params :: budget_params
  bg_ActivePrograms :: "program list"
  bg_CandidatePrograms :: "program list"
  bg_Votes :: "(64 word \<times> string \<times> bool) list"

definition budget_InitGenesis :: "'b budget \<Rightarrow> budget_genesis \<Rightarrow> 'b budget" where
  "budget_InitGenesis k data =
     (let k = k\<lparr> b_params := bg_Params data \<rparr>;
          k = fold (\<lambda>p k. StoreProgram k p) (bg_ActivePrograms data) k;
          k = fold (\<lambda>p k. CandQueueInsert (StoreProgram k p) (BudgetVotePeriod (bg_Params data)) (pg_ID p)) (bg_CandidatePrograms data) k
      in fold (\<lambda>v k. budget_AddVote k (fst v) (fst (snd v)) (snd (snd v))) (bg_Votes data) k)"

definition budget_ExportGenesis :: "'b budget \<Rightarrow> budget_genesis" where
  "budget_ExportGenesis k =
     \<lparr> bg_Params = b_params k,
       bg_ActivePrograms = filter (\<lambda>p. \<not> CandQueueHas k (getVotingEndBlock k p) (pg_ID p)) (map snd (b_programs k)),
       bg_CandidatePrograms = concat (map (\<lambda>e. case map_of (b_programs k) (snd e) of None \<Rightarrow> [] | Some p \<Rightarrow> [p]) (b_queue k)),
       bg_Votes = map (\<lambda>e. (fst (fst e), snd (fst e), snd e)) (b_votes k) \<rparr>"

datatype genesis_err = ParamsError | InvalidSubmitBlockHeight int | DuplicateProgramID "64 word" | VoteOfNoProgram "64 word" | GenesisPanic panic

text \<open>The map of the numbers that were seen; \<open>None\<close> is the nil map, which can be read but not written.\<close>

type_synonym seen = "(64 word list) option"

definition seen_has :: "seen \<Rightarrow> 64 word \<Rightarrow> bool" where
  "seen_has s i = (case s of None \<Rightarrow> False | Some is \<Rightarrow> i \<in> set is)"

primrec check_programs :: "program list \<Rightarrow> seen \<Rightarrow> genesis_err + seen" where
  "check_programs [] s = Inr s"
| "check_programs (p # ps) s =
     (if pg_SubmitBlock p \<noteq> 0 then Inl (InvalidSubmitBlockHeight (pg_SubmitBlock p))
      else if seen_has s (pg_ID p) then Inl (DuplicateProgramID (pg_ID p))
      else case s of
             None \<Rightarrow> Inl (GenesisPanic NilMapWrite)
           | Some is \<Rightarrow> check_programs ps (Some (pg_ID p # is)))"

primrec check_votes :: "(64 word \<times> string \<times> bool) list \<Rightarrow> seen \<Rightarrow> genesis_err + unit" where
  "check_votes [] s = Inr ()"
| "check_votes (v # vs) s = (if \<not> seen_has s (fst v) then Inl (VoteOfNoProgram (fst v)) else check_votes vs s)"

definition budget_ValidateGenesis :: "budget_genesis \<Rightarrow> genesis_err + unit" where
  "budget_ValidateGenesis data =
     (if \<not> budget_validateParams (bg_Params data) then Inl ParamsError
      else
        let programMap = None
        in rbind (check_programs (bg_ActivePrograms data) programMap) (\<lambda>programMap.
           rbind (check_programs (bg_CandidatePrograms data) programMap) (\<lambda>programMap.
             check_votes (bg_Votes data) programMap)))"

section \<open>Programs and their votes\<close>












lemma set_mint_fields [simp]:
  "b_programs (set_mint k m) = b_programs k" "b_votes (set_mint k m) = b_votes k" "b_lastID (set_mint k m) = b_lastID k"
  "b_params (set_mint k m) = b_params k" "b_claims (set_mint k m) = b_claims k" "b_queue (set_mint k m) = b_queue k"
  by (simp_all add: set_mint_def Let_def)



text \<open>The states of a chain that started without programs, with the number of submissions.\<close>

inductive budget_reach :: "dec \<Rightarrow> sdk \<Rightarrow> 'b bank \<Rightarrow> nat \<Rightarrow> 'b budget \<Rightarrow> bool"
  for nil_dec :: dec and S :: sdk and B :: "'b bank" where
  genesis: "b_programs k = [] \<Longrightarrow> b_votes k = [] \<Longrightarrow> b_lastID k = None \<Longrightarrow> budget_reach nil_dec S B 0 k"
| submit: "budget_reach nil_dec S B n k \<Longrightarrow> handleMsgSubmitProgram B h k msg = Inr k' \<Longrightarrow> budget_reach nil_dec S B (n + 1) k'"
| withdraw: "budget_reach nil_dec S B n k \<Longrightarrow> handleMsgWithdrawProgram B h k i a = Inr k' \<Longrightarrow> budget_reach nil_dec S B n k'"
| vote: "budget_reach nil_dec S B n k \<Longrightarrow> handleMsgVoteProgram vs k i a opt = Inr k' \<Longrightarrow> budget_reach nil_dec S B n k'"
| end_block: "budget_reach nil_dec S B n k \<Longrightarrow> budget_EndBlocker nil_dec S B vs h k = Inr k' \<Longrightarrow> budget_reach nil_dec S B n k'"
| params: "budget_reach nil_dec S B n k \<Longrightarrow> budget_reach nil_dec S B n (k\<lparr> b_params := p \<rparr>)"
| others: "budget_reach nil_dec S B n k \<Longrightarrow> budget_reach nil_dec S B n (k\<lparr> b_treasury := t \<rparr>)"







text \<open>A submission against the deposit, for the examples.\<close>

definition no_budget :: "balances budget" where
  "no_budget = \<lparr> b_programs = [], b_votes = [], b_queue = [], b_claims = [], b_lastID = None, b_params = budget_DefaultParams\<lparr> Deposit := (''uluna'', 10) \<rparr>,
     b_treasury = genesis_treasury \<rparr>"





section \<open>Grants\<close>

context sdk_rounding
begin

lemma budget_reward_bounds:
  assumes "0 \<le> amount" and "0 \<le> w" and "0 < W"
  shows "0 \<le> budget_reward S amount w W \<and> budget_reward S amount w W * dec_unit * W \<le> amount * w"
proof -
  define q where "q = amount * w div W"
  have aw: "0 \<le> amount * w" using assms(1,2) by simp
  have q: "0 \<le> q" "q * W \<le> amount * w" using aw assms(3) div_times_le [of W "amount * w"] by (simp_all add: q_def pos_imp_zdiv_nonneg_iff)
  have r: "budget_reward S amount w W = q div dec_unit" using aw assms(3) q(1) by (simp add: budget_reward_def QuoInt_trunc TruncateInt_trunc q_def)
  have "q div dec_unit * dec_unit \<le> q" by (rule div_times_le) (simp add: dec_unit_def)
  then have "q div dec_unit * dec_unit * W \<le> q * W" using assms(3) by (intro mult_right_mono) simp_all
  then show ?thesis using r q by (simp add: dec_unit_def pos_imp_zdiv_nonneg_iff)
qed

text \<open>What the claims get, by induction over them: no more than their part of the pool.\<close>

lemma grant_totals:
  assumes "bank_laws B" and "0 \<le> h" and "0 \<le> snd pool" and "0 < W"
  shows "grant S B h pool W claims m = Inr m' \<Longrightarrow> tracked B m (h sdiv BlocksPerDay) \<Longrightarrow> \<forall>c \<in> set claims. 0 \<le> snd c \<Longrightarrow>
    \<exists>minted. 0 \<le> minted \<and> minted * dec_unit * W \<le> snd pool * sum_list (map snd claims) \<and> tracked B m' (h sdiv BlocksPerDay)
      \<and> (\<forall>d. bk_Total B (m_bank m') d = bk_Total B (m_bank m) d + (if d = fst pool then minted else 0))"
proof (induction claims arbitrary: m)
  case Nil
  then show ?case by (intro exI [of _ 0]) simp
next
  case (Cons c claims)
  let ?r = "budget_reward S (snd pool) (snd c) W"
  have r: "0 \<le> ?r" "?r * dec_unit * W \<le> snd pool * snd c" using budget_reward_bounds [OF assms(3) _ assms(4), of "snd c"] Cons.prems(3) by simp_all
  obtain m1 where m1: "Mint B h m (fst c) (fst pool, ?r) = Inr m1" "grant S B h pool W claims m1 = Inr m'"
    using Cons.prems(1) assms(4) r(1) by (auto simp: Let_def split: sum.splits)
  have t: "tracked B m1 (h sdiv BlocksPerDay)" "bk_AddCoins B (m_bank m) (fst c) (fst pool, ?r) = Some (m_bank m1)"
    using Mint_tracks [OF assms(1) Cons.prems(2) assms(2), of "fst c" "(fst pool, ?r)"] m1(1) by simp_all
  obtain x where x: "0 \<le> x" "x * dec_unit * W \<le> snd pool * sum_list (map snd claims)" "tracked B m' (h sdiv BlocksPerDay)"
      "\<forall>d. bk_Total B (m_bank m') d = bk_Total B (m_bank m1) d + (if d = fst pool then x else 0)"
    using Cons.IH [OF m1(2) t(1)] Cons.prems(3) by auto
  have "(?r + x) * dec_unit * W \<le> snd pool * sum_list (map snd (c # claims))"
    using r(2) x(2) by (simp add: distrib_left distrib_right)
  then show ?case
    using r(1) x bank_laws.Add_total [OF assms(1) t(2)] by (intro exI [of _ "?r + x"]) simp
qed

end

text \<open>C15: The grants of an epoch mint no more of the currency of the pool than the pool has and nothing of another, and the issuance
  stays what the accounts hold.\<close>

theorem grants_bounded:
  assumes "sdk_rounding S" and "bank_laws B" and "0 \<le> h" and "0 \<le> snd pool" and "\<forall>c \<in> set claims. 0 \<le> snd c" and "tracked B m (h sdiv BlocksPerDay)"
    and "grant S B h pool (sum_list (map snd claims)) claims m = Inr m'"
  shows "\<exists>minted. 0 \<le> minted \<and> NewDecFromInt minted \<le> snd pool \<and> tracked B m' (h sdiv BlocksPerDay)
      \<and> (\<forall>d. bk_Total B (m_bank m') d = bk_Total B (m_bank m) d + (if d = fst pool then minted else 0))"
proof (cases "claims = []")
  case True
  then show ?thesis using assms(4,6,7) by (intro exI [of _ 0]) (simp add: NewDecFromInt_def)
next
  case False
  have "0 \<le> sum_list (map snd claims)" using assms(5) by (intro sum_list_nonneg) auto
  moreover have "sum_list (map snd claims) \<noteq> 0" using assms(7) False by (cases claims) auto
  ultimately have W: "0 < sum_list (map snd claims)" by simp
  obtain x where x: "0 \<le> x" "x * dec_unit * sum_list (map snd claims) \<le> snd pool * sum_list (map snd claims)" "tracked B m' (h sdiv BlocksPerDay)"
      "\<forall>d. bk_Total B (m_bank m') d = bk_Total B (m_bank m) d + (if d = fst pool then x else 0)"
    using sdk_rounding.grant_totals [OF assms(1-4) W assms(7,6,5)] by blast
  have "x * dec_unit \<le> snd pool" using x(2) W by simp
  then show ?thesis using x by (auto simp: NewDecFromInt_def)
qed

definition granted :: "panic + 'b mint \<Rightarrow> bool" where
  "granted r = (case r of Inl p \<Rightarrow> False | Inr m \<Rightarrow> True)"

lemma small_grant: "granted (grant dec18 account_bank 5 (''uluna'', NewDecFromInt 10) (1 + (2 + 0)) [(''a'', 1), (''b'', 2)] (no_issuance [((''a'', ''uluna''), 7)]))"
  by code_simp

theorem grants_bounded_witness:
  "\<exists>m' minted. grant dec18 account_bank 5 (''uluna'', NewDecFromInt 10) 3 [(''a'', 1), (''b'', 2)] (no_issuance [((''a'', ''uluna''), 7)]) = Inr m'
    \<and> 0 \<le> minted \<and> minted \<le> 10 \<and> balances_total (m_bank m') ''uluna'' = 7 + minted"
proof -
  let ?m = "no_issuance [((''a'', ''uluna''), 7)]" and ?cs = "[(''a'', 1), (''b'', 2)] :: (string \<times> int) list"
  obtain m' where m': "grant dec18 account_bank 5 (''uluna'', NewDecFromInt 10) (sum_list (map snd ?cs)) ?cs ?m = Inr m'"
    using small_grant by (auto simp: granted_def split: sum.splits)
  have b: "bk_Total account_bank = balances_total" "balances_total (m_bank ?m) ''uluna'' = 7"
    by (simp_all add: account_bank_def no_issuance_def balances_total_def)
  obtain x where "0 \<le> x" "NewDecFromInt x \<le> NewDecFromInt 10" "balances_total (m_bank m') ''uluna'' = 7 + x"
    using grants_bounded [OF dec18.sdk_rounding_axioms account.bank_laws_axioms _ _ _ tracked_start m'] b
    by (auto simp: NewDecFromInt_def dec_unit_def)
  then show ?thesis using m' by (auto simp: NewDecFromInt_def dec_unit_def)
qed

section \<open>Errors\<close>


text \<open>
  The default legacy threshold of nothing lets a program without votes stay and claim with weight 0. A chain with one such
  program, on which the issuance of Luna grew during the epoch, stops at the end of it.
\<close>

definition one_program :: "balances budget" where
  "one_program = no_budget\<lparr> b_params := budget_DefaultParams,
     b_programs := [(1, \<lparr> pg_ID = 1, pg_Title = ''t'', pg_Description = ''d'', pg_Submitter = ''a'', pg_Executor = ''e'', pg_SubmitBlock = 0 \<rparr>)] \<rparr>"

lemma program_without_votes_claims: "fst (fold (reweight dec18 val3 budget_DefaultParams) (b_programs one_program) ([], one_program)) = [(''e'', 0)]"
  by code_simp



text \<open>C17: The check of a genesis file with valid parameters decides by the first program alone: it is refused if it was not submitted
  at block 0, and otherwise the check panics, because the map of the numbers is never made. Files without programs are
  accepted if they have no votes.\<close>

theorem genesis_check_panics:
  "budget_ValidateGenesis data =
     (if \<not> budget_validateParams (bg_Params data) then Inl ParamsError
      else case bg_ActivePrograms data @ bg_CandidatePrograms data of
             p # ps \<Rightarrow> Inl (if pg_SubmitBlock p \<noteq> 0 then InvalidSubmitBlockHeight (pg_SubmitBlock p) else GenesisPanic NilMapWrite)
           | [] \<Rightarrow> (case bg_Votes data of [] \<Rightarrow> Inr () | v # vs \<Rightarrow> Inl (VoteOfNoProgram (fst v))))"
  by (cases "bg_ActivePrograms data"; cases "bg_CandidatePrograms data"; cases "bg_Votes data") (simp_all add: budget_ValidateGenesis_def seen_has_def)

text \<open>What is exported from a chain with a program that was submitted after its first block is not accepted.\<close>

lemma export_not_accepted:
  assumes "map snd (b_programs k) \<noteq> []" and "\<forall>e \<in> set (b_programs k). \<not> CandQueueHas k (getVotingEndBlock k (snd e)) (pg_ID (snd e))"
  shows "budget_ValidateGenesis (budget_ExportGenesis k) \<noteq> Inr ()"
proof -
  have "bg_ActivePrograms (budget_ExportGenesis k) = map snd (b_programs k)" using assms(2) by (simp add: budget_ExportGenesis_def filter_id_conv)
  moreover have "check_programs ps None \<noteq> Inr s" if "ps \<noteq> []" for ps s using that by (cases ps) (auto simp: seen_has_def)
  ultimately show ?thesis using assms(1) by (auto simp: budget_ValidateGenesis_def)
qed

text \<open>The number of the last program is not part of the genesis: after an import the first submission replaces program 1.\<close>

lemma import_reuses_number:
  "pg_Executor (the (map_of (b_programs (budget_InitGenesis no_budget (budget_ExportGenesis one_program))) 1)) = ''e''
   \<and> fst (NewProgramID (budget_InitGenesis no_budget (budget_ExportGenesis one_program))) = 1"
  by code_simp

text \<open>Withdrawing an active program deletes it with its votes and refunds nothing.\<close>

lemma withdraw_active_no_refund:
  assumes "map_of (b_programs k) i = Some p" and "\<not> CandQueueHas k (getVotingEndBlock k p) i"
  shows "handleMsgWithdrawProgram B h k i (pg_Submitter p) = Inr (DeleteProgram (DeleteVotesForProgram k i) i)
    \<and> budget_mint (DeleteProgram (DeleteVotesForProgram k i) i) = budget_mint k"
  using assms by (simp add: handleMsgWithdrawProgram_def budget_mint_def DeleteProgram_def DeleteVotesForProgram_def Let_def)

end
