(* ===== verification/Spec2Isabelle.thy ===== *)
theory Spec2Isabelle
  imports BufferObj YamlTermination YamlRoundTrip SwaggerValidate SwaggerOps SwaggerAuth SwaggerEntry SwaggerViews TerraPay TerraBudget
begin

text \<open>
  Verification of terra-core: the modules of the Terra chain (Go, \<^verbatim>\<open>src/x\<close> and \<^verbatim>\<open>src/types\<close>) and the JavaScript
  of the API browser that the light client daemon serves (\<^verbatim>\<open>src/client/lcd/swagger-ui\<close>). The two parts share no
  code; both use the result type and the lemmas of \<^verbatim>\<open>JsCore\<close>.

  \<^bold>\<open>The program.\<close> Validators vote on the prices of Luna in the oracle. The market swaps Luna and the Terra currencies
  at these prices, burning the offered coins and minting the asked ones through the mint module, which records the
  issuance by day; the fee of a swap goes to a pool of the oracle, which pays the voters. Transfers pay a stability
  tax (pay) whose rate the treasury sets at the end of every epoch, from the proceeds and the seigniorage. The budget
  module collects programs, lets the validators vote on them and grants them what is left of the seigniorage. The
  API browser is a bundle of JavaScript modules; modelled of it are base64-js, Buffer, js-yaml, which reads
  and writes the descriptions of the API, and of Swagger UI itself the utilities and the plugins that keep the
  description, the errors and the authorizations.

  \<^bold>\<open>Chain: theories and sources.\<close>
  \<^item> \<open>TerraSdk\<close>: decimals (\<open>dec\<close>, units of \<open>10\<^sup>-\<^sup>1\<^sup>8\<close>), coins, the sorted store of a module, epochs
    (\<^verbatim>\<open>types/util/epoch.go\<close>) and validators. The rounding operations and the coins of the Cosmos SDK are a record of
    functions with laws (locales \<open>sdk_rounding\<close>, \<open>sdk_coins\<close>, \<open>cosmos\<close>), interpreted by \<open>dec18\<close>, which rounds
    halves to even; the store is the locale \<open>store\<close>, interpreted by sorted lists.
  \<^item> \<open>TerraOracle\<close> (\<^verbatim>\<open>x/oracle\<close>): the state is \<open>ostate\<close>, a table for each key prefix of \<^verbatim>\<open>keeper_keys.go\<close>;
    ballots and \<open>weightedMedian\<close> (\<^verbatim>\<open>ballot.go\<close>), the tally, the rewards and \<open>oracle_EndBlocker\<close>
    (\<^verbatim>\<open>end_blocker.go\<close>), the handlers (\<^verbatim>\<open>handler.go\<close>) and the checks of the messages. The lemmas: what the median is
    and how much power moves it, rewards and rest add up to the pool, the order of a Go map does not matter, every vote
    opens an earlier prevote (over runs of \<open>oracle_step\<close>), prices are positive.
  \<^item> \<open>TerraMint\<close> (\<^verbatim>\<open>x/mint\<close>): the table of the issuance, which is filled when a day is asked for; \<open>issued\<close> says what
    it means, \<open>tracked\<close> that it agrees with the accounts. The bank is an argument with the laws \<open>bank_laws\<close>,
    interpreted by \<open>account_bank\<close>.
  \<^item> \<open>TerraMarket\<close> (\<^verbatim>\<open>x/market\<close>): \<open>GetSwapCoin\<close>, \<open>handleMsgSwap\<close> over the states of the oracle and the mint module; what a
    swap does to accounts, pool and issuance, the bounds of the fee, and when a swap cannot panic.
  \<^item> \<open>TerraTreasury\<close> (\<^verbatim>\<open>x/treasury\<close>): rates, weights, caps and proceeds by epoch, the indicators, \<open>Clamp\<close> and the updates at
    the end of an epoch; what the updates rely on of an indicator is the locale \<open>rate_indicator\<close>. The rates stay in
    their bounds in every state of \<open>treasury_reach\<close>.
  \<^item> \<open>TerraPay\<close> (\<^verbatim>\<open>x/pay\<close>): the tax of a transfer; the bank is the locale \<open>transfer_laws\<close>.
  \<^item> \<open>TerraBudget\<close> (\<^verbatim>\<open>x/budget\<close>): programs (numbers are 64 bit words), votes, the queue of candidates, grants and genesis;
    programs and votes fit together in every state of \<open>budget_reach\<close>, grants are bounded by the pool, and the inputs
    on which the end of a block or the check of a genesis file panics.
  A Go error is the left value of a sum, a panic a constructor of its error type. A message that fails leaves the state
  it started from, as the SDK does, so that an error carries no state.

  \<^bold>\<open>JavaScript: theories and sources.\<close>
  \<^item> \<open>JsCore\<close>: results with exceptions, numbers, the string and array operations that the code uses.
  \<^item> \<open>Base64Js\<close> (the module base64-js of \<^verbatim>\<open>swagger-ui-bundle.js\<close>): the decoder and the chunked encoder, which is
    RFC 4648.
  \<^item> \<open>BufferCodec\<close>, \<open>BufferNum\<close>, \<open>BufferStr\<close>, \<open>BufferObj\<close> (the module buffer of \<^verbatim>\<open>swagger-ui.js\<close>): the string
    codecs, the integer accessors with both of their implementations, strings in buffers, and whole buffers (copy,
    concat, compare, fill, search). Round trips, equivalences of fast and slow paths, and the errors found.
  \<^item> \<open>YamlValue\<close>, \<open>JsRegex\<close>, \<open>YamlScalar\<close>, \<open>YamlCommon\<close> (js-yaml: values, the regular expressions of the types, the
    scalar types, Type and Schema), \<open>YamlDumper\<close> (dump), \<open>YamlScanner\<close> and \<open>YamlLoader\<close> (load), \<open>YamlTermination\<close>
    (the loader ends on every input), \<open>YamlRoundTrip\<close> (a string that is dumped in quotes is loaded as itself: the
    escapes of the dumper against the readers of the loader, up to \<open>safeDump\<close> and \<open>safeLoad\<close>).
  \<^item> \<open>SwaggerValue\<close> (values and paths of Immutable collections, as \<^verbatim>\<open>swagger-ui-bundle.js\<close> has them): \<open>setIn\<close> and \<open>getIn\<close>
    are the locale \<open>path_store\<close>, on whose facts the plugins rest.
  \<^item> \<open>SwaggerUtils\<close>, \<open>SwaggerValidate\<close> (module 8 of \<^verbatim>\<open>swagger-ui.js\<close>): conversions, query strings, which are read back, and
    the validators of parameters with what \<open>validateParam\<close> accepts.
  \<^item> \<open>SwaggerErr\<close> (the err plugin): errors, transformers and reducers over \<open>err_state\<close>; in every state of \<open>err_reach\<close> the
    errors have a type, clearing a type removes exactly its errors, and fields leak from one error into the next.
  \<^item> \<open>SwaggerSpec\<close>, \<open>SwaggerOps\<close> (the spec plugin): the reducers, the selectors over the description and what was entered;
    validation against execution, responses of concurrent requests, operations under their tags, distinct identifiers.
  \<^item> \<open>SwaggerEntry\<close>: a value that is entered for a parameter, from the reducer to the selector that uses it.
  \<^item> \<open>SwaggerViews\<close> (the plugins layout and oas3): what was shown or selected is what the selectors return.
  \<^item> \<open>SwaggerAuth\<close> (the auth plugin): the header of basic authentication through \<open>btoa\<close> and \<open>Buffer\<close>, logging out.

  \<^bold>\<open>Loops and fuel.\<close> Recursion on data or on a number that falls is a \<open>primrec\<close>, \<open>fun\<close> or \<open>function\<close> with its measure:
  the days of the issuance, the epochs of the rates and of the indicators. The loops of the YAML scanner take fuel of one more than
  the length of the input and \<open>composeNode\<close> twice the length plus two; each loop advances or stops (locale \<open>composing\<close>), and \<open>load_ends\<close>
  shows that the fuel is never used up, for every input, schema and option.

  \<^bold>\<open>Arguments of the model.\<close> Not part of the repository, and arguments of the definitions that use them: the decimals and
  coins of the SDK, its bank, its validators, the hash of a vote, what its codec writes for a nil decimal, ieee754, the
  schema with the JavaScript types, and of the browser (the record \<open>host\<close>) regular expressions of a description, \<^verbatim>\<open>JSON.parse\<close>,
  \<^verbatim>\<open>Date.parse\<close> and the text of an object. The hash of an Immutable map is an argument as well. Calls of the distribution and fee modules by the oracle are kept as a list of calls.

  \<^bold>\<open>Not modelled.\<close> Queries, logs, tags, codecs and the command line of the chain, which read the state or move bytes; the
  application that wires the modules to the SDK; vesting accounts, which extend types of the SDK; the React
  components of the API browser, its plugins for samples and links, the wrappers for OpenAPI 3, the actions that send requests or open
  windows, which are glue between the store, the browser and packages, and the libraries bundled with it; the JavaScript types of
  js-yaml, which run a parser that is loaded at run time. That strings in the plain and block styles survive dump and load
  is not shown.
\<close>

section \<open>The oracle and the market\<close>



end
